(* ===== verification/BTree_Map.thy ===== *)
theory BTree_Map
  imports Prelude
begin

text \<open>
  \<open>std::collections::BTreeMap\<close> and \<open>BTreeSet\<close>: a finite map iterated in ascending key order.
  The type is the sorted association list the map iterates over, so that two maps with the
  same lookups are equal and every operation computes. The locale \<open>keyed_map\<close> is the contract
  that clients rely on; it is interpreted here for \<open>btree_map\<close> and in
  \<open>Insertion_Ordered_Map\<close> for the minter's own map.
\<close>

subsection \<open>Sorted association lists\<close>

fun al_insert :: "'k::linorder \<Rightarrow> 'v \<Rightarrow> ('k \<times> 'v) list \<Rightarrow> ('k \<times> 'v) list" where
  "al_insert k v [] = [(k, v)]"
| "al_insert k v ((a, b) # ps) =
     (if k < a then (k, v) # (a, b) # ps
      else if k = a then (k, v) # ps
      else (a, b) # al_insert k v ps)"

definition al_sorted :: "('k::linorder \<times> 'v) list \<Rightarrow> bool" where
  "al_sorted ps \<longleftrightarrow> sorted_wrt (<) (map fst ps)"

lemma al_sorted_Nil [simp]: "al_sorted []"
  by (simp add: al_sorted_def)

lemma al_sorted_Cons:
  "al_sorted ((a, b) # ps) \<longleftrightarrow> (\<forall>x \<in> fst ` set ps. a < x) \<and> al_sorted ps"
  by (auto simp: al_sorted_def)

lemma fst_set_al_insert [simp]: "fst ` set (al_insert k v ps) = insert k (fst ` set ps)"
  by (induction k v ps rule: al_insert.induct) auto

lemma al_sorted_insert [simp]: "al_sorted ps \<Longrightarrow> al_sorted (al_insert k v ps)"
  by (induction k v ps rule: al_insert.induct) (auto simp: al_sorted_Cons)

lemma map_of_al_insert: "al_sorted ps \<Longrightarrow> map_of (al_insert k v ps) = (map_of ps)(k \<mapsto> v)"
  by (induction k v ps rule: al_insert.induct) (auto simp: al_sorted_Cons fun_eq_iff)

lemma al_sorted_filter [simp]: "al_sorted ps \<Longrightarrow> al_sorted (filter P ps)"
  by (induction ps) (auto simp: al_sorted_Cons)

lemma al_sorted_distinct: "al_sorted ps \<Longrightarrow> distinct (map fst ps)"
  by (simp add: al_sorted_def strict_sorted_iff)

lemma map_of_filter_keys:
  "map_of (filter (\<lambda>p. P (fst p)) ps) k = (if P k then map_of ps k else None)"
  by (induction ps) auto

lemma map_of_filter_distinct:
  "distinct (map fst ps) \<Longrightarrow>
   map_of (filter P ps) k = (case map_of ps k of None \<Rightarrow> None
     | Some v \<Rightarrow> if P (k, v) then Some v else None)"
  by (induction ps) (auto split: option.splits simp: map_of_eq_None_iff image_iff)

lemma al_sorted_unique:
  assumes "al_sorted ps" "al_sorted qs" "map_of ps = map_of qs"
  shows "ps = qs"
proof -
  have d: "distinct (map fst ps)" "distinct (map fst qs)"
    using assms(1,2) by (simp_all add: al_sorted_distinct)
  have eq: "set ps = set qs"
    using assms(3) by (simp add: map_of_inject_set[OF d])
  have s: "sorted (map fst ps)" "sorted (map fst qs)"
    using assms(1,2) by (simp_all add: al_sorted_def strict_sorted_iff)
  have "inj_on fst (set ps \<union> set qs)"
    using d(1) eq by (simp add: distinct_map)
  from map_sorted_distinct_set_unique[OF this s(1) d(1) s(2) d(2) eq] show ?thesis .
qed

subsection \<open>The map\<close>

typedef (overloaded) ('k::linorder, 'v) btree_map = "{ps :: ('k \<times> 'v) list. al_sorted ps}"
  morphisms bm_iter BTree_Map
  by (rule exI[of _ "[]"]) simp

setup_lifting type_definition_btree_map

lift_definition bm_empty :: "('k::linorder, 'v) btree_map" is "[]" by simp

lift_definition bm_insert :: "'k::linorder \<Rightarrow> 'v \<Rightarrow> ('k, 'v) btree_map \<Rightarrow> ('k, 'v) btree_map"
  is al_insert by simp

lift_definition bm_remove :: "'k::linorder \<Rightarrow> ('k, 'v) btree_map \<Rightarrow> ('k, 'v) btree_map"
  is "\<lambda>k ps. filter (\<lambda>p. fst p \<noteq> k) ps" by simp

text \<open>\<open>retain\<close>, and the two halves of \<open>extract_if\<close>.\<close>

lift_definition bm_filter ::
  "('k::linorder \<times> 'v \<Rightarrow> bool) \<Rightarrow> ('k, 'v) btree_map \<Rightarrow> ('k, 'v) btree_map"
  is filter by simp

definition bm_get :: "('k::linorder, 'v) btree_map \<Rightarrow> 'k \<Rightarrow> 'v option" where
  "bm_get m k = map_of (bm_iter m) k"

definition bm_contains :: "('k::linorder, 'v) btree_map \<Rightarrow> 'k \<Rightarrow> bool" where
  "bm_contains m k \<longleftrightarrow> bm_get m k \<noteq> None"

definition bm_keys :: "('k::linorder, 'v) btree_map \<Rightarrow> 'k list" where
  "bm_keys m = map fst (bm_iter m)"

definition bm_values :: "('k::linorder, 'v) btree_map \<Rightarrow> 'v list" where
  "bm_values m = map snd (bm_iter m)"

definition bm_len :: "('k::linorder, 'v) btree_map \<Rightarrow> nat" where
  "bm_len m = length (bm_iter m)"

definition bm_is_empty :: "('k::linorder, 'v) btree_map \<Rightarrow> bool" where
  "bm_is_empty m \<longleftrightarrow> bm_iter m = []"

text \<open>\<open>extend\<close> and \<open>collect\<close>: a later pair replaces an earlier one with the same key.\<close>

definition bm_extend :: "('k::linorder \<times> 'v) list \<Rightarrow> ('k, 'v) btree_map \<Rightarrow> ('k, 'v) btree_map" where
  "bm_extend ps m = fold (\<lambda>(k, v). bm_insert k v) ps m"

definition bm_collect :: "('k::linorder \<times> 'v) list \<Rightarrow> ('k, 'v) btree_map" where
  "bm_collect ps = bm_extend ps bm_empty"

text \<open>\<open>get_mut\<close> followed by an assignment through the reference.\<close>

definition bm_adjust :: "'k::linorder \<Rightarrow> ('v \<Rightarrow> 'v) \<Rightarrow> ('k, 'v) btree_map \<Rightarrow> ('k, 'v) btree_map" where
  "bm_adjust k f m = (case bm_get m k of None \<Rightarrow> m | Some v \<Rightarrow> bm_insert k (f v) m)"

subsection \<open>Lookup\<close>

lemma bm_iter_sorted: "al_sorted (bm_iter m)"
  using bm_iter[of m] by simp

lemma bm_iter_distinct: "distinct (map fst (bm_iter m))"
  by (rule al_sorted_distinct[OF bm_iter_sorted])

lemma bm_iter_empty [simp]: "bm_iter bm_empty = []"
  by transfer simp

lemma bm_iter_insert [simp]: "bm_iter (bm_insert k v m) = al_insert k v (bm_iter m)"
  by transfer simp

lemma bm_iter_remove [simp]: "bm_iter (bm_remove k m) = filter (\<lambda>p. fst p \<noteq> k) (bm_iter m)"
  by transfer simp

lemma bm_iter_filter [simp]: "bm_iter (bm_filter P m) = filter P (bm_iter m)"
  by transfer simp

lemma bm_get_empty [simp]: "bm_get bm_empty k = None"
  by (simp add: bm_get_def)

lemma bm_get_insert [simp]: "bm_get (bm_insert k v m) k' = (if k' = k then Some v else bm_get m k')"
  by (simp add: bm_get_def map_of_al_insert bm_iter_sorted)

lemma bm_get_remove [simp]: "bm_get (bm_remove k m) k' = (if k' = k then None else bm_get m k')"
  by (simp add: bm_get_def map_of_filter_keys[where P = "\<lambda>x. x \<noteq> k"])

lemma bm_get_filter [simp]:
  "bm_get (bm_filter P m) k = (case bm_get m k of None \<Rightarrow> None
     | Some v \<Rightarrow> if P (k, v) then Some v else None)"
  by (simp add: bm_get_def map_of_filter_distinct bm_iter_distinct)

lemma bm_get_adjust [simp]:
  "bm_get (bm_adjust k f m) k' = (if k' = k then map_option f (bm_get m k) else bm_get m k')"
  by (simp add: bm_adjust_def split: option.splits)

lemma bm_ext: "(\<And>k. bm_get m k = bm_get m' k) \<Longrightarrow> m = m'"
proof -
  assume "\<And>k. bm_get m k = bm_get m' k"
  then have "map_of (bm_iter m) = map_of (bm_iter m')"
    by (simp add: bm_get_def fun_eq_iff)
  then have "bm_iter m = bm_iter m'"
    by (rule al_sorted_unique[OF bm_iter_sorted bm_iter_sorted])
  then show ?thesis by (simp add: bm_iter_inject)
qed

lemma bm_iter_iff: "(k, v) \<in> set (bm_iter m) \<longleftrightarrow> bm_get m k = Some v"
  by (simp add: bm_get_def bm_iter_distinct)

lemma bm_keys_iff: "k \<in> set (bm_keys m) \<longleftrightarrow> bm_get m k \<noteq> None"
  by (simp add: bm_keys_def bm_get_def map_of_eq_None_iff)

lemma bm_values_iff: "v \<in> set (bm_values m) \<longleftrightarrow> (\<exists>k. bm_get m k = Some v)"
  by (simp add: bm_values_def image_iff Bex_def eq_commute[of v] flip: bm_iter_iff)

lemma bm_keys_sorted: "sorted_wrt (<) (bm_keys m)"
  using bm_iter_sorted[of m] by (simp add: bm_keys_def al_sorted_def)

lemma bm_keys_distinct: "distinct (bm_keys m)"
  by (simp add: bm_keys_def bm_iter_distinct)

lemma bm_iter_eq_keys: "bm_iter m = map (\<lambda>k. (k, the (bm_get m k))) (bm_keys m)"
proof -
  have "map (\<lambda>k. (k, the (bm_get m k))) (bm_keys m) = map (\<lambda>p. (fst p, the (bm_get m (fst p)))) (bm_iter m)"
    by (simp add: bm_keys_def)
  also have "\<dots> = map id (bm_iter m)"
    by (rule map_cong[OF refl]) (auto simp: bm_iter_iff)
  finally show ?thesis by simp
qed

lemma bm_is_empty_iff: "bm_is_empty m \<longleftrightarrow> (\<forall>k. bm_get m k = None)"
  by (auto simp: bm_is_empty_def bm_get_def map_of_eq_None_iff)

lemma bm_len_eq_card: "bm_len m = card {k. bm_get m k \<noteq> None}"
proof -
  have "{k. bm_get m k \<noteq> None} = set (bm_keys m)"
    by (auto simp: bm_keys_iff)
  then show ?thesis
    using distinct_card[OF bm_keys_distinct[of m]] by (simp add: bm_len_def bm_keys_def)
qed

lemma bm_finite: "finite {k. bm_get m k \<noteq> None}"
proof -
  have "{k. bm_get m k \<noteq> None} = set (bm_keys m)"
    by (auto simp: bm_keys_iff)
  then show ?thesis by simp
qed

lemma bm_contains_simps [simp]:
  "\<not> bm_contains bm_empty k"
  "bm_contains (bm_insert k v m) k' \<longleftrightarrow> k' = k \<or> bm_contains m k'"
  "bm_contains (bm_remove k m) k' \<longleftrightarrow> k' \<noteq> k \<and> bm_contains m k'"
  by (auto simp: bm_contains_def)

lemma bm_get_extend:
  "bm_get (bm_extend ps m) k = (case map_of (rev ps) k of None \<Rightarrow> bm_get m k | Some v \<Rightarrow> Some v)"
  by (induction ps arbitrary: m)
     (auto simp: bm_extend_def map_add_def split: option.splits)

lemma bm_get_collect: "bm_get (bm_collect ps) k = map_of (rev ps) k"
  by (simp add: bm_collect_def bm_get_extend split: option.splits)

lemma bm_remove_insert_id [simp]: "bm_get m k = None \<Longrightarrow> bm_remove k (bm_insert k v m) = m"
  by (rule bm_ext) simp

lemma bm_insert_remove_id: "bm_get m k = Some v \<Longrightarrow> bm_insert k v (bm_remove k m) = m"
  by (rule bm_ext) simp

subsection \<open>Counting and summing over the entries\<close>

lemma mset_al_insert:
  "k \<notin> fst ` set ps \<Longrightarrow> sum_list (map f (al_insert k v ps)) = (f (k, v) :: nat) + sum_list (map f ps)"
  by (induction k v ps rule: al_insert.induct) auto

lemma bm_sum_insert:
  "bm_get m k = None \<Longrightarrow>
   sum_list (map f (bm_iter (bm_insert k v m))) = (f (k, v) :: nat) + sum_list (map f (bm_iter m))"
  by (simp add: mset_al_insert bm_get_def map_of_eq_None_iff)

lemma bm_sum_remove:
  assumes "bm_get m k = Some v"
  shows "sum_list (map f (bm_iter m)) = (f (k, v) :: nat) + sum_list (map f (bm_iter (bm_remove k m)))"
proof -
  have "bm_get (bm_remove k m) k = None" by simp
  from bm_sum_insert[OF this, of f v] show ?thesis
    using bm_insert_remove_id[OF assms] by simp
qed

lemma bm_len_insert: "bm_len (bm_insert k v m) = (if bm_contains m k then bm_len m else Suc (bm_len m))"
proof -
  have "{k'. bm_get (bm_insert k v m) k' \<noteq> None} = insert k {k'. bm_get m k' \<noteq> None}" by auto
  then show ?thesis
    using bm_finite[of m] by (simp add: bm_len_eq_card card_insert_if bm_contains_def del: bm_get_insert)
qed

lemma bm_len_remove: "bm_len (bm_remove k m) = (if bm_contains m k then bm_len m - 1 else bm_len m)"
proof -
  have "{k'. bm_get (bm_remove k m) k' \<noteq> None} = {k'. bm_get m k' \<noteq> None} - {k}" by auto
  then show ?thesis
    using bm_finite[of m]
    by (simp add: bm_len_eq_card card_Diff_singleton_if bm_contains_def del: bm_get_remove)
qed

lemma bm_len_empty [simp]: "bm_len bm_empty = 0"
  by (simp add: bm_len_def)

subsection \<open>Sets\<close>

type_synonym 'a btree_set = "('a, unit) btree_map"

abbreviation bs_insert :: "'a::linorder \<Rightarrow> 'a btree_set \<Rightarrow> 'a btree_set" where
  "bs_insert x s \<equiv> bm_insert x () s"

abbreviation bs_collect :: "'a::linorder list \<Rightarrow> 'a btree_set" where
  "bs_collect xs \<equiv> bm_collect (map (\<lambda>x. (x, ())) xs)"

lemma bs_contains_collect [simp]: "bm_contains (bs_collect xs) x \<longleftrightarrow> x \<in> set xs"
  by (simp add: bm_contains_def bm_get_collect map_of_eq_None_iff image_image)

subsection \<open>The contract of a keyed map\<close>

locale keyed_map =
  fixes empty :: 'm
    and get :: "'m \<Rightarrow> 'k \<Rightarrow> 'v option"
    and insert :: "'k \<Rightarrow> 'v \<Rightarrow> 'm \<Rightarrow> 'm"
    and remove :: "'k \<Rightarrow> 'm \<Rightarrow> 'm"
    and room :: "'m \<Rightarrow> bool"
    and invar :: "'m \<Rightarrow> bool"
  assumes invar_empty: "invar empty"
    and invar_insert: "invar m \<Longrightarrow> room m \<Longrightarrow> invar (insert k v m)"
    and invar_remove: "invar m \<Longrightarrow> invar (remove k m)"
    and get_empty: "get empty k = None"
    and get_insert: "invar m \<Longrightarrow> room m \<Longrightarrow> get (insert k v m) k' = (if k' = k then Some v else get m k')"
    and get_remove: "invar m \<Longrightarrow> get (remove k m) k' = (if k' = k then None else get m k')"
begin

text \<open>
  Moving an entry between two maps of the same interface, the way requests and deposits move
  between stages: no key is ever in both, and no key is lost.
\<close>

lemma move_disjoint:
  assumes "invar m" "invar m'" "room m'"
    and "\<And>k. get m k = None \<or> get m' k = None" and "get m k = Some v"
  shows "get (remove k m) x = None \<or> get (insert k w m') x = None"
  using assms by (auto simp: get_insert get_remove)

lemma move_total:
  assumes "invar m" "invar m'" "room m'" and "get m k = Some v"
  shows "(get (remove k m) x \<noteq> None \<or> get (insert k w m') x \<noteq> None) \<longleftrightarrow>
         (get m x \<noteq> None \<or> get m' x \<noteq> None)"
  using assms by (auto simp: get_insert get_remove)

lemma insert_fresh_remove:
  assumes "invar m" "room m" and "get m k = None"
  shows "get (remove k (insert k v m)) x = get m x"
  using assms by (auto simp: get_insert get_remove invar_insert)

end

interpretation btree: keyed_map bm_empty bm_get bm_insert bm_remove "\<lambda>_. True" "\<lambda>_. True"
  by unfold_locales auto

end
