(* ===== verification/Insertion_Ordered_Map.thy ===== *)
theory Insertion_Ordered_Map
  imports BTree_Map
begin

text \<open>
  \<^verbatim>\<open>minter/src/utils/insertion_ordered_map/mod.rs\<close>: a map with two B-tree maps, one from keys to
  sequence numbers and values and one from sequence numbers to keys, iterated in insertion
  order. The abstract specification is an association list: an insertion drops the key and
  appends the pair at the end. Sequence numbers are \<open>u64\<close> and wrap, so the laws hold while
  \<open>iom_room\<close> says that the next insertion does not exhaust them.
\<close>

record (overloaded) ('k::linorder, 'v) iom =
  iom_entries :: "('k, u64 \<times> 'v) btree_map"
  iom_order :: "(u64, 'k) btree_map"
  iom_next_seq :: u64

definition iom_new :: "('k::linorder, 'v) iom" where
  "iom_new = \<lparr>iom_entries = bm_empty, iom_order = bm_empty, iom_next_seq = 0\<rparr>"

definition iom_insert ::
  "'k::linorder \<Rightarrow> 'v \<Rightarrow> ('k, 'v) iom \<Rightarrow> ('k, 'v) iom \<times> 'v option" where
  "iom_insert key value m =
     (let (m', old_value) =
        (case bm_get (iom_entries m) key of
           Some (old_seq, old_val) \<Rightarrow>
             (m\<lparr>iom_entries := bm_remove key (iom_entries m),
                iom_order := bm_remove old_seq (iom_order m)\<rparr>, Some old_val)
         | None \<Rightarrow> (m, None));
        seq = iom_next_seq m'
      in (m'\<lparr>iom_next_seq := seq + 1,
             iom_order := bm_insert seq key (iom_order m'),
             iom_entries := bm_insert key (seq, value) (iom_entries m')\<rparr>, old_value))"

definition iom_remove :: "'k::linorder \<Rightarrow> ('k, 'v) iom \<Rightarrow> ('k, 'v) iom \<times> 'v option" where
  "iom_remove key m =
     (case bm_get (iom_entries m) key of
        Some (seq, value) \<Rightarrow>
          (m\<lparr>iom_entries := bm_remove key (iom_entries m),
             iom_order := bm_remove seq (iom_order m)\<rparr>, Some value)
      | None \<Rightarrow> (m, None))"

definition iom_get :: "('k::linorder, 'v) iom \<Rightarrow> 'k \<Rightarrow> 'v option" where
  "iom_get m key = map_option snd (bm_get (iom_entries m) key)"

definition iom_contains_key :: "('k::linorder, 'v) iom \<Rightarrow> 'k \<Rightarrow> bool" where
  "iom_contains_key m key \<longleftrightarrow> bm_contains (iom_entries m) key"

definition iom_len :: "('k::linorder, 'v) iom \<Rightarrow> nat" where
  "iom_len m = bm_len (iom_entries m)"

definition iom_is_empty :: "('k::linorder, 'v) iom \<Rightarrow> bool" where
  "iom_is_empty m \<longleftrightarrow> bm_is_empty (iom_entries m)"

text \<open>The iterator stops at the first ordered key that has no entry.\<close>

fun iom_iter_from :: "('k::linorder, u64 \<times> 'v) btree_map \<Rightarrow> 'k list \<Rightarrow> ('k \<times> 'v) list" where
  "iom_iter_from es [] = []"
| "iom_iter_from es (key # keys) =
     (case bm_get es key of
        None \<Rightarrow> []
      | Some (_, value) \<Rightarrow> (key, value) # iom_iter_from es keys)"

definition iom_iter :: "('k::linorder, 'v) iom \<Rightarrow> ('k \<times> 'v) list" where
  "iom_iter m = iom_iter_from (iom_entries m) (bm_values (iom_order m))"

definition iom_keys :: "('k::linorder, 'v) iom \<Rightarrow> 'k list" where
  "iom_keys m = map fst (iom_iter m)"

definition iom_values :: "('k::linorder, 'v) iom \<Rightarrow> 'v list" where
  "iom_values m = map snd (iom_iter m)"

text \<open>\<open>PartialEq\<close> compares the iterations, not the sequence numbers.\<close>

definition iom_eq :: "('k::linorder, 'v) iom \<Rightarrow> ('k, 'v) iom \<Rightarrow> bool" where
  "iom_eq m m' \<longleftrightarrow> iom_iter m = iom_iter m'"

subsection \<open>Well-formedness\<close>

definition iom_wf :: "('k::linorder, 'v) iom \<Rightarrow> bool" where
  "iom_wf m \<longleftrightarrow>
     (\<forall>k s v. bm_get (iom_entries m) k = Some (s, v) \<longrightarrow> bm_get (iom_order m) s = Some k) \<and>
     (\<forall>s k. bm_get (iom_order m) s = Some k \<longrightarrow> (\<exists>v. bm_get (iom_entries m) k = Some (s, v))) \<and>
     (\<forall>s. bm_get (iom_order m) s \<noteq> None \<longrightarrow> s < iom_next_seq m)"

definition iom_room :: "('k::linorder, 'v) iom \<Rightarrow> bool" where
  "iom_room m \<longleftrightarrow> unat (iom_next_seq m) + 1 < 2 ^ 64"

lemma iom_room_next: "iom_room m \<Longrightarrow> unat (iom_next_seq m + 1) = unat (iom_next_seq m) + 1"
  by (simp add: iom_room_def unat_plus_no_overflow)

lemma iom_room_less: "iom_room m \<Longrightarrow> s < iom_next_seq m + 1 \<longleftrightarrow> s \<le> iom_next_seq m"
  by (simp add: word_less_nat_alt word_le_nat_alt iom_room_next less_Suc_eq_le)

lemma iom_wf_new [simp]: "iom_wf iom_new"
  by (simp add: iom_wf_def iom_new_def)

lemma iom_wf_order: "iom_wf m \<Longrightarrow> bm_get (iom_entries m) k = Some (s, v) \<Longrightarrow> bm_get (iom_order m) s = Some k"
  unfolding iom_wf_def by blast

lemma iom_wf_entry:
  assumes "iom_wf m" and "bm_get (iom_order m) s = Some k"
  obtains v where "bm_get (iom_entries m) k = Some (s, v)"
  using assms unfolding iom_wf_def by blast

lemma iom_wf_below: "iom_wf m \<Longrightarrow> bm_get (iom_order m) s = Some k \<Longrightarrow> s < iom_next_seq m"
  unfolding iom_wf_def by blast

lemma iom_wf_inverse:
  "iom_wf m \<Longrightarrow> bm_get (iom_entries m) k = Some (s, v) \<Longrightarrow> bm_get (iom_order m) s' = Some k' \<Longrightarrow>
   s' = s \<longleftrightarrow> k' = k"
  by (metis iom_wf_order iom_wf_entry option.inject prod.inject)

lemma iom_wf_remove:
  assumes wf: "iom_wf m"
  shows "iom_wf (fst (iom_remove k m))"
proof (cases "bm_get (iom_entries m) k")
  case None
  then show ?thesis using wf by (simp add: iom_remove_def)
next
  case (Some sv)
  then obtain s v where sv: "bm_get (iom_entries m) k = Some (s, v)" by (cases sv) auto
  have 1: "s' \<noteq> s \<and> bm_get (iom_order m) s' = Some k'"
    if "k' \<noteq> k" "bm_get (iom_entries m) k' = Some (s', v')" for k' s' v'
    using iom_wf_order[OF wf that(2)] iom_wf_inverse[OF wf sv, of s' k'] that(1) by simp
  have 2: "k' \<noteq> k \<and> (\<exists>v'. bm_get (iom_entries m) k' = Some (s', v'))"
    if "s' \<noteq> s" "bm_get (iom_order m) s' = Some k'" for s' k'
    using iom_wf_inverse[OF wf sv that(2)] that iom_wf_entry[OF wf that(2)] by auto
  have 3: "s' < iom_next_seq m" if "bm_get (iom_order m) s' = Some k'" for s' k'
    using iom_wf_below[OF wf that] .
  have "iom_remove k m = (m\<lparr>iom_entries := bm_remove k (iom_entries m),
      iom_order := bm_remove s (iom_order m)\<rparr>, Some v)"
    by (simp add: iom_remove_def sv)
  then show ?thesis
    unfolding iom_wf_def by (intro conjI allI impI) (auto split: if_splits dest: 1 2 3)
qed

lemma iom_insert_remove:
  "iom_insert k v m =
     (let m' = fst (iom_remove k m) in
      (m'\<lparr>iom_next_seq := iom_next_seq m + 1,
          iom_order := bm_insert (iom_next_seq m) k (iom_order m'),
          iom_entries := bm_insert k (iom_next_seq m, v) (iom_entries m')\<rparr>, iom_get m k))"
  by (auto simp: iom_insert_def iom_remove_def iom_get_def Let_def split: option.splits)

lemma iom_wf_append:
  assumes wf: "iom_wf m" and room: "iom_room m" and fresh: "bm_get (iom_entries m) k = None"
  shows "iom_wf (m\<lparr>iom_next_seq := iom_next_seq m + 1,
          iom_order := bm_insert (iom_next_seq m) k (iom_order m),
          iom_entries := bm_insert k (iom_next_seq m, v) (iom_entries m)\<rparr>)"
proof -
  have nxt: "s \<noteq> iom_next_seq m \<and> k' \<noteq> k \<and> (\<exists>v. bm_get (iom_entries m) k' = Some (s, v)) \<and> s \<le> iom_next_seq m"
    if "bm_get (iom_order m) s = Some k'" for s k'
    using iom_wf_below[OF wf that] iom_wf_entry[OF wf that] fresh by fastforce
  have ent: "s \<noteq> iom_next_seq m \<and> bm_get (iom_order m) s = Some k'"
    if "bm_get (iom_entries m) k' = Some (s, v')" for k' s v'
    using nxt[OF iom_wf_order[OF wf that]] iom_wf_order[OF wf that] by simp
  show ?thesis
    unfolding iom_wf_def
    by (intro conjI allI impI) (auto simp: iom_room_less[OF room] split: if_splits dest: nxt ent)
qed

lemma iom_remove_fresh: "bm_get (iom_entries (fst (iom_remove k m))) k = None"
  by (auto simp: iom_remove_def split: option.splits)

lemma iom_remove_next_seq [simp]: "iom_next_seq (fst (iom_remove k m)) = iom_next_seq m"
  by (auto simp: iom_remove_def split: option.splits)

lemma iom_insert_next_seq [simp]: "iom_next_seq (fst (iom_insert k v m)) = iom_next_seq m + 1"
  by (simp add: iom_insert_remove Let_def)

lemma iom_wf_insert: "iom_wf m \<Longrightarrow> iom_room m \<Longrightarrow> iom_wf (fst (iom_insert k v m))"
  using iom_wf_append[OF iom_wf_remove[of m k] _ iom_remove_fresh[of k m], of v]
  by (simp add: iom_insert_remove Let_def iom_room_def)

subsection \<open>Lookup laws\<close>

lemma iom_get_new [simp]: "iom_get iom_new k = None"
  by (simp add: iom_get_def iom_new_def)

lemma iom_get_remove [simp]:
  "iom_get (fst (iom_remove k m)) k' = (if k' = k then None else iom_get m k')"
  by (auto simp: iom_get_def iom_remove_def split: option.splits)

lemma iom_get_insert [simp]:
  "iom_get (fst (iom_insert k v m)) k' = (if k' = k then Some v else iom_get m k')"
  by (auto simp: iom_get_def iom_insert_remove iom_remove_def Let_def split: option.splits)

lemma iom_insert_old [simp]: "snd (iom_insert k v m) = iom_get m k"
  by (simp add: iom_insert_remove Let_def)

lemma iom_remove_old [simp]: "snd (iom_remove k m) = iom_get m k"
  by (auto simp: iom_remove_def iom_get_def split: option.splits)

lemma iom_contains_key_iff: "iom_contains_key m k \<longleftrightarrow> iom_get m k \<noteq> None"
  by (simp add: iom_contains_key_def iom_get_def bm_contains_def)

interpretation insertion_ordered: keyed_map iom_new iom_get
  "\<lambda>k v m. fst (iom_insert k v m)" "\<lambda>k m. fst (iom_remove k m)" iom_room iom_wf
  by unfold_locales (simp_all add: iom_wf_insert iom_wf_remove)

subsection \<open>Iteration refines the association list\<close>

lemma iom_iter_from_map:
  "(\<And>k. k \<in> set ks \<Longrightarrow> bm_get es k \<noteq> None) \<Longrightarrow>
   iom_iter_from es ks = map (\<lambda>k. (k, snd (the (bm_get es k)))) ks"
  by (induction ks) (auto split: option.splits)

lemma iom_iter_wf:
  assumes "iom_wf m"
  shows "iom_iter m = map (\<lambda>(s, k). (k, the (iom_get m k))) (bm_iter (iom_order m))"
proof -
  have "bm_get (iom_entries m) k \<noteq> None" if "k \<in> set (bm_values (iom_order m))" for k
    using that iom_wf_entry[OF assms] by (fastforce simp: bm_values_iff)
  then have "iom_iter m = map (\<lambda>k. (k, snd (the (bm_get (iom_entries m) k)))) (bm_values (iom_order m))"
    unfolding iom_iter_def by (rule iom_iter_from_map)
  also have "\<dots> = map (\<lambda>(s, k). (k, the (iom_get m k))) (bm_iter (iom_order m))"
  proof -
    have "snd (the (bm_get (iom_entries m) k)) = the (iom_get m k)" if "(s, k) \<in> set (bm_iter (iom_order m))" for s k
    proof -
      from that have "bm_get (iom_order m) s = Some k" by (simp add: bm_iter_iff)
      then obtain v where "bm_get (iom_entries m) k = Some (s, v)"
        by (rule iom_wf_entry[OF assms])
      then show ?thesis by (simp add: iom_get_def)
    qed
    then show ?thesis by (auto simp: bm_values_def)
  qed
  finally show ?thesis .
qed

lemma iom_iter_remove:
  assumes wf: "iom_wf m"
  shows "iom_iter (fst (iom_remove k m)) = filter (\<lambda>p. fst p \<noteq> k) (iom_iter m)"
proof (cases "bm_get (iom_entries m) k")
  case None
  have "(s, k) \<notin> set (bm_iter (iom_order m))" for s
    using None iom_wf_entry[OF wf] by (fastforce simp: bm_iter_iff)
  then have "filter (\<lambda>p. fst p \<noteq> k) (iom_iter m) = iom_iter m"
    unfolding iom_iter_wf[OF wf] by (intro filter_True) auto
  with None show ?thesis by (simp add: iom_remove_def)
next
  case (Some sv)
  obtain s v where sv: "sv = (s, v)" by force
  have order: "iom_order (fst (iom_remove k m)) = bm_remove s (iom_order m)"
    using Some sv by (simp add: iom_remove_def)
  have key: "snd p = k \<longleftrightarrow> fst p = s" if "p \<in> set (bm_iter (iom_order m))" for p
    using that iom_wf_inverse[OF wf, of k s v "fst p" "snd p"] Some sv
    by (simp flip: bm_iter_iff)
  have "iom_iter (fst (iom_remove k m)) =
      map (\<lambda>(s, x). (x, the (iom_get (fst (iom_remove k m)) x))) (filter (\<lambda>p. fst p \<noteq> s) (bm_iter (iom_order m)))"
    by (simp add: iom_iter_wf[OF iom_wf_remove[OF wf]] order)
  also have "\<dots> = map (\<lambda>(s, x). (x, the (iom_get m x))) (filter (\<lambda>p. snd p \<noteq> k) (bm_iter (iom_order m)))"
    using key by (intro map_cong filter_cong) (auto simp: case_prod_unfold)
  also have "\<dots> = filter (\<lambda>p. fst p \<noteq> k) (iom_iter m)"
    by (simp add: iom_iter_wf[OF wf] filter_map comp_def case_prod_unfold)
  finally show ?thesis .
qed

lemma al_insert_last:
  "(\<And>x. x \<in> fst ` set ps \<Longrightarrow> x < k) \<Longrightarrow> al_insert k v ps = ps @ [(k, v)]"
  by (induction k v ps rule: al_insert.induct) force+

lemma iom_iter_insert:
  assumes wf: "iom_wf m" and room: "iom_room m"
  shows "iom_iter (fst (iom_insert k v m)) = filter (\<lambda>p. fst p \<noteq> k) (iom_iter m) @ [(k, v)]"
proof -
  let ?r = "fst (iom_remove k m)" and ?i = "fst (iom_insert k v m)"
  have wr: "iom_wf ?r" by (rule iom_wf_remove[OF wf])
  have wi: "iom_wf ?i" by (rule iom_wf_insert[OF wf room])
  have below: "x < iom_next_seq m" if "x \<in> fst ` set (bm_iter (iom_order ?r))" for x
  proof -
    from that obtain y where "bm_get (iom_order ?r) x = Some y" by (auto simp: bm_iter_iff)
    then show ?thesis using iom_wf_below[OF wr] by simp
  qed
  have order: "bm_iter (iom_order ?i) = bm_iter (iom_order ?r) @ [(iom_next_seq m, k)]"
    using al_insert_last[OF below] by (simp add: iom_insert_remove Let_def)
  have neq: "snd p \<noteq> k" if "p \<in> set (bm_iter (iom_order ?r))" for p
  proof -
    from that have "bm_get (iom_order ?r) (fst p) = Some (snd p)" by (simp flip: bm_iter_iff)
    then show ?thesis using iom_wf_entry[OF wr] iom_remove_fresh[of k m] by fastforce
  qed
  have "map (\<lambda>(s, x). (x, the (iom_get ?i x))) (bm_iter (iom_order ?r)) = iom_iter ?r"
    unfolding iom_iter_wf[OF wr] using neq by (intro map_cong) auto
  then show ?thesis
    by (simp add: iom_iter_wf[OF wi] order iom_iter_remove[OF wf, symmetric])
qed

lemma iom_iter_new [simp]: "iom_iter iom_new = []"
  by (simp add: iom_iter_def iom_new_def bm_values_def)

lemma iom_iter_iff: "iom_wf m \<Longrightarrow> (k, v) \<in> set (iom_iter m) \<longleftrightarrow> iom_get m k = Some v"
proof
  assume wf: "iom_wf m" and "(k, v) \<in> set (iom_iter m)"
  then obtain s where s: "bm_get (iom_order m) s = Some k" "v = the (iom_get m k)"
    by (auto simp: iom_iter_wf bm_iter_iff)
  from iom_wf_entry[OF wf s(1)] obtain w where "bm_get (iom_entries m) k = Some (s, w)" .
  with s(2) show "iom_get m k = Some v"
    by (simp add: iom_get_def)
next
  assume wf: "iom_wf m" and "iom_get m k = Some v"
  then obtain s where "bm_get (iom_entries m) k = Some (s, v)"
    by (auto simp: iom_get_def)
  from iom_wf_order[OF wf this] \<open>iom_get m k = Some v\<close> show "(k, v) \<in> set (iom_iter m)"
    by (force simp: iom_iter_wf[OF wf] simp flip: bm_iter_iff)
qed

end
