(* ===== verification/Timed_Sized_Map.thy ===== *)
theory Timed_Sized_Map
  imports BTree_Map
begin

text \<open>
  \<^verbatim>\<open>minter/src/utils/timed_sized_map/mod.rs\<close>: a map of bounded size whose entries expire. A
  second index groups the keys by expiry. The invariant \<open>tsm_wf\<close> says that the two indices
  agree; under it no \<open>expect\<close> of the component can trap.
\<close>

subsection \<open>Time\<close>

text \<open>A \<open>Timestamp\<close> is nanoseconds in a \<open>u64\<close>; a \<open>Duration\<close> is a number of nanoseconds.\<close>

type_synonym timestamp = u64
type_synonym duration = nat

definition nanos :: "duration \<Rightarrow> u64" where
  "nanos d = (if d < 2 ^ 64 then of_nat d else - 1)"

definition timestamp_saturating_add :: "timestamp \<Rightarrow> duration \<Rightarrow> timestamp" where
  "timestamp_saturating_add t d = saturating_add t (nanos d)"

definition timestamp_saturating_sub :: "timestamp \<Rightarrow> duration \<Rightarrow> timestamp" where
  "timestamp_saturating_sub t d = saturating_sub t (nanos d)"

definition is_expired :: "timestamp \<Rightarrow> timestamp \<Rightarrow> bool" where
  "is_expired expires_at now \<longleftrightarrow> now > expires_at"

lemma unat_nanos: "unat (nanos d) = min d (2 ^ 64 - 1)"
  by (auto simp: nanos_def unat_of_nat unsigned_minus_1_eq_mask mask_eq_exp_minus_1)

lemma timestamp_add_ge: "t \<le> timestamp_saturating_add t d"
  using unsigned_less[of t, where 'a = nat]
  by (simp add: timestamp_saturating_add_def word_le_nat_alt unat_saturating_add)

subsection \<open>State\<close>

record 'v entry =
  entry_value :: 'v
  entry_expires_at :: timestamp

definition entry_is_live :: "'v entry \<Rightarrow> timestamp \<Rightarrow> bool" where
  "entry_is_live e now \<longleftrightarrow> \<not> is_expired (entry_expires_at e) now"

record (overloaded) ('k::linorder, 'v) tsm =
  tsm_ttl :: duration
  tsm_capacity :: nat
  tsm_entries :: "('k, 'v entry) btree_map"
  tsm_by_expiry :: "(timestamp, 'k list) btree_map"

datatype ('k, 'v) insert_error = AlreadyPresent 'k 'v | AtCapacity 'k 'v

subsection \<open>Operations\<close>

definition tsm_new :: "duration \<Rightarrow> nat \<Rightarrow> ('k::linorder, 'v) tsm" where
  "tsm_new ttl capacity =
     \<lparr>tsm_ttl = ttl, tsm_capacity = capacity, tsm_entries = bm_empty, tsm_by_expiry = bm_empty\<rparr>"

definition tsm_expiry :: "('k::linorder, 'v) tsm \<Rightarrow> timestamp \<Rightarrow> timestamp" where
  "tsm_expiry m now = timestamp_saturating_add now (tsm_ttl m)"

definition tsm_earliest_expiry :: "('k::linorder, 'v) tsm \<Rightarrow> timestamp option" where
  "tsm_earliest_expiry m = (case bm_keys (tsm_by_expiry m) of [] \<Rightarrow> None | t # _ \<Rightarrow> Some t)"

definition enqueue_by_expiry ::
  "'k \<Rightarrow> timestamp \<Rightarrow> (timestamp, 'k list) btree_map \<Rightarrow> (timestamp, 'k list) btree_map" where
  "enqueue_by_expiry key expires_at by =
     bm_insert expires_at
       ((case bm_get by expires_at of None \<Rightarrow> [] | Some bucket \<Rightarrow> bucket) @ [key]) by"

definition tsm_get_entry :: "('k::linorder, 'v) tsm \<Rightarrow> timestamp \<Rightarrow> 'k \<Rightarrow> 'v entry option" where
  "tsm_get_entry m now key =
     (case bm_get (tsm_entries m) key of
        None \<Rightarrow> None
      | Some entry \<Rightarrow> if entry_is_live entry now then Some entry else None)"

definition tsm_get :: "('k::linorder, 'v) tsm \<Rightarrow> timestamp \<Rightarrow> 'k \<Rightarrow> 'v option" where
  "tsm_get m now key = map_option entry_value (tsm_get_entry m now key)"

text \<open>\<open>get_value_mut\<close> with the assignment made through the returned reference.\<close>

definition tsm_modify_value ::
  "('v \<Rightarrow> 'v) \<Rightarrow> timestamp \<Rightarrow> 'k::linorder \<Rightarrow> ('k, 'v) tsm \<Rightarrow> ('k, 'v) tsm" where
  "tsm_modify_value f now key m =
     (case tsm_get_entry m now key of
        None \<Rightarrow> m
      | Some entry \<Rightarrow>
          m\<lparr>tsm_entries := bm_insert key (entry\<lparr>entry_value := f (entry_value entry)\<rparr>) (tsm_entries m)\<rparr>)"

text \<open>The bucket loop of \<open>evict_expired\<close>; a key without an entry is the \<open>expect\<close> that traps.\<close>

fun evict_bucket ::
  "'k::linorder list \<Rightarrow> ('k, 'v entry) btree_map \<Rightarrow> ('k \<times> 'v) list \<Rightarrow>
   (('k, 'v entry) btree_map \<times> ('k \<times> 'v) list) option" where
  "evict_bucket [] es evicted = Some (es, evicted)"
| "evict_bucket (key # bucket) es evicted =
     (case bm_get es key of
        None \<Rightarrow> None
      | Some entry \<Rightarrow> evict_bucket bucket (bm_remove key es) (evicted @ [(key, entry_value entry)]))"

lemma bm_len_remove_first:
  "bm_keys by = t # ts \<Longrightarrow> bm_len (bm_remove t by) < bm_len by"
proof -
  assume keys: "bm_keys by = t # ts"
  then have "bm_contains by t"
    by (metis bm_contains_def bm_keys_iff list.set_intros(1))
  moreover have "0 < bm_len by"
    using arg_cong[OF keys, of length] by (simp add: bm_len_def bm_keys_def)
  ultimately show ?thesis by (simp add: bm_len_remove)
qed

function evict_loop ::
  "timestamp \<Rightarrow> (timestamp, 'k::linorder list) btree_map \<Rightarrow> ('k, 'v entry) btree_map \<Rightarrow>
   ('k \<times> 'v) list \<Rightarrow>
   ((timestamp, 'k list) btree_map \<times> ('k, 'v entry) btree_map \<times> ('k \<times> 'v) list) option" where
  "evict_loop now by es evicted =
     (case bm_keys by of
        [] \<Rightarrow> Some (by, es, evicted)
      | expires_at # _ \<Rightarrow>
          if is_expired expires_at now then
            (case bm_get by expires_at of
               None \<Rightarrow> None
             | Some bucket \<Rightarrow>
                 (case evict_bucket bucket es evicted of
                    None \<Rightarrow> None
                  | Some (es', evicted') \<Rightarrow> evict_loop now (bm_remove expires_at by) es' evicted'))
          else Some (by, es, evicted))"
  by pat_completeness auto
termination
  by (relation "measure (\<lambda>(now, by, es, evicted). bm_len by)") (auto simp: bm_len_remove_first)

declare evict_loop.simps [simp del]

definition tsm_evict_expired ::
  "timestamp \<Rightarrow> ('k::linorder, 'v) tsm \<Rightarrow> (('k, 'v) tsm \<times> ('k \<times> 'v) list) option" where
  "tsm_evict_expired now m =
     (case evict_loop now (tsm_by_expiry m) (tsm_entries m) [] of
        None \<Rightarrow> None
      | Some (by, es, evicted) \<Rightarrow> Some (m\<lparr>tsm_entries := es, tsm_by_expiry := by\<rparr>, evicted))"

definition tsm_insert_entry ::
  "timestamp \<Rightarrow> 'k::linorder \<Rightarrow> 'v entry \<Rightarrow> ('k, 'v) tsm \<Rightarrow>
   (('k, 'v) tsm \<times> (('k, 'v) insert_error + ('k \<times> 'v) list)) option" where
  "tsm_insert_entry now key entry m =
     (if \<not> entry_is_live entry now then Some (m, Inr [])
      else if tsm_get m now key \<noteq> None then Some (m, Inl (AlreadyPresent key (entry_value entry)))
      else do {
        (m', evicted) \<leftarrow> tsm_evict_expired now m;
        (if tsm_capacity m' \<le> bm_len (tsm_entries m')
         then Some (m', Inl (AtCapacity key (entry_value entry)))
         else
           let entry' = \<lparr>entry_value = entry_value entry,
                 entry_expires_at = min (entry_expires_at entry) (tsm_expiry m' now)\<rparr>
           in Some (m'\<lparr>tsm_by_expiry := enqueue_by_expiry key (entry_expires_at entry') (tsm_by_expiry m'),
                tsm_entries := bm_insert key entry' (tsm_entries m')\<rparr>, Inr evicted))
      })"

definition tsm_insert ::
  "timestamp \<Rightarrow> 'k::linorder \<Rightarrow> 'v \<Rightarrow> ('k, 'v) tsm \<Rightarrow>
   (('k, 'v) tsm \<times> (('k, 'v) insert_error + ('k \<times> 'v) list)) option" where
  "tsm_insert now key value m =
     tsm_insert_entry now key \<lparr>entry_value = value, entry_expires_at = tsm_expiry m now\<rparr> m"

definition tsm_remove :: "'k::linorder \<Rightarrow> ('k, 'v) tsm \<Rightarrow> (('k, 'v) tsm \<times> 'v entry option) option" where
  "tsm_remove key m =
     (case bm_get (tsm_entries m) key of
        None \<Rightarrow> Some (m, None)
      | Some entry \<Rightarrow>
          (case bm_get (tsm_by_expiry m) (entry_expires_at entry) of
             None \<Rightarrow> None
           | Some bucket \<Rightarrow>
               let bucket' = filter (\<lambda>indexed. indexed \<noteq> key) bucket;
                   by = bm_insert (entry_expires_at entry) bucket' (tsm_by_expiry m)
               in Some (m\<lparr>tsm_entries := bm_remove key (tsm_entries m),
                     tsm_by_expiry := (if bucket' = [] then bm_remove (entry_expires_at entry) by else by)\<rparr>,
                   Some entry)))"

definition tsm_iter :: "('k::linorder, 'v) tsm \<Rightarrow> ('k \<times> 'v entry) list" where
  "tsm_iter m = bm_iter (tsm_entries m)"

definition tsm_iter_by_expiry :: "('k::linorder, 'v) tsm \<Rightarrow> ('k \<times> 'v entry) list option" where
  "tsm_iter_by_expiry m =
     collect_opt (map (\<lambda>key. map_option (Pair key) (bm_get (tsm_entries m) key))
       (concat (bm_values (tsm_by_expiry m))))"

definition tsm_len :: "('k::linorder, 'v) tsm \<Rightarrow> nat" where
  "tsm_len m = bm_len (tsm_entries m)"

definition tsm_from_ordered_entries ::
  "duration \<Rightarrow> nat \<Rightarrow> ('k::linorder \<times> 'v entry) list \<Rightarrow> ('k, 'v) tsm option" where
  "tsm_from_ordered_entries ttl capacity entries =
     foldM (\<lambda>(key, entry) m.
         let m' = m\<lparr>tsm_by_expiry := enqueue_by_expiry key (entry_expires_at entry) (tsm_by_expiry m)\<rparr>
         in if bm_contains (tsm_entries m') key then None
            else Some (m'\<lparr>tsm_entries := bm_insert key entry (tsm_entries m')\<rparr>))
       entries (tsm_new ttl capacity)"

subsection \<open>Well-formedness\<close>

definition tsm_indexed ::
  "(timestamp, 'k::linorder list) btree_map \<Rightarrow> ('k, 'v entry) btree_map \<Rightarrow> bool" where
  "tsm_indexed by es \<longleftrightarrow>
     (\<forall>t ks. bm_get by t = Some ks \<longrightarrow> ks \<noteq> [] \<and> distinct ks \<and>
        (\<forall>k \<in> set ks. \<exists>e. bm_get es k = Some e \<and> entry_expires_at e = t)) \<and>
     (\<forall>k e. bm_get es k = Some e \<longrightarrow> (\<exists>ks. bm_get by (entry_expires_at e) = Some ks \<and> k \<in> set ks))"

definition tsm_wf :: "('k::linorder, 'v) tsm \<Rightarrow> bool" where
  "tsm_wf m \<longleftrightarrow> 0 < tsm_capacity m \<and> tsm_indexed (tsm_by_expiry m) (tsm_entries m) \<and>
     bm_len (tsm_entries m) \<le> tsm_capacity m"

lemma tsm_indexed_bucket:
  "tsm_indexed by es \<Longrightarrow> bm_get by t = Some ks \<Longrightarrow> ks \<noteq> [] \<and> distinct ks"
  unfolding tsm_indexed_def by blast

lemma tsm_indexed_key_iff:
  "tsm_indexed by es \<Longrightarrow> bm_get by t = Some ks \<Longrightarrow>
   k \<in> set ks \<longleftrightarrow> (\<exists>e. bm_get es k = Some e \<and> entry_expires_at e = t)"
  unfolding tsm_indexed_def by (metis option.inject)

lemma tsm_indexed_entry:
  "tsm_indexed by es \<Longrightarrow> bm_get es k = Some e \<Longrightarrow>
   \<exists>ks. bm_get by (entry_expires_at e) = Some ks \<and> k \<in> set ks"
  unfolding tsm_indexed_def by blast

lemma tsm_indexedI:
  assumes "\<And>t ks. bm_get by t = Some ks \<Longrightarrow> ks \<noteq> [] \<and> distinct ks"
    and "\<And>t ks k. bm_get by t = Some ks \<Longrightarrow> k \<in> set ks \<Longrightarrow>
           \<exists>e. bm_get es k = Some e \<and> entry_expires_at e = t"
    and "\<And>k e. bm_get es k = Some e \<Longrightarrow> \<exists>ks. bm_get by (entry_expires_at e) = Some ks \<and> k \<in> set ks"
  shows "tsm_indexed by es"
  unfolding tsm_indexed_def using assms by blast

lemma tsm_wf_new: "0 < capacity \<Longrightarrow> tsm_wf (tsm_new ttl capacity)"
  by (simp add: tsm_wf_def tsm_new_def tsm_indexed_def)

subsection \<open>Eviction\<close>

lemma evict_bucket_ok:
  assumes "distinct ks" and "\<And>k. k \<in> set ks \<Longrightarrow> bm_get es k \<noteq> None"
  shows "\<exists>es'. evict_bucket ks es ev =
             Some (es', ev @ map (\<lambda>k. (k, entry_value (the (bm_get es k)))) ks) \<and>
           (\<forall>k. bm_get es' k = (if k \<in> set ks then None else bm_get es k))"
  using assms
proof (induction ks arbitrary: es ev)
  case (Cons a ks)
  obtain e where e: "bm_get es a = Some e" using Cons.prems(2)[of a] by auto
  have "\<And>k. k \<in> set ks \<Longrightarrow> bm_get (bm_remove a es) k \<noteq> None"
    using Cons.prems by auto
  from Cons.IH[OF _ this, of "ev @ [(a, entry_value e)]"] Cons.prems(1) obtain es' where
    es': "evict_bucket ks (bm_remove a es) (ev @ [(a, entry_value e)]) =
      Some (es', (ev @ [(a, entry_value e)]) @
        map (\<lambda>k. (k, entry_value (the (bm_get (bm_remove a es) k)))) ks)"
    and get: "\<forall>k. bm_get es' k = (if k \<in> set ks then None else bm_get (bm_remove a es) k)"
    by auto
  have "map (\<lambda>k. (k, entry_value (the (bm_get (bm_remove a es) k)))) ks =
        map (\<lambda>k. (k, entry_value (the (bm_get es k)))) ks"
    using Cons.prems(1) by auto
  then show ?case using es' get e by auto
qed simp

lemma tsm_indexed_evict_bucket:
  assumes idx: "tsm_indexed by es" and ks: "bm_get by t = Some ks"
    and es': "\<forall>k. bm_get es' k = (if k \<in> set ks then None else bm_get es k)"
  shows "tsm_indexed (bm_remove t by) es'"
proof (rule tsm_indexedI)
  fix u us assume "bm_get (bm_remove t by) u = Some us"
  then have u: "bm_get by u = Some us" "u \<noteq> t" by (auto split: if_splits)
  show "us \<noteq> [] \<and> distinct us" by (rule tsm_indexed_bucket[OF idx u(1)])
  fix k assume "k \<in> set us"
  then obtain e where e: "bm_get es k = Some e" "entry_expires_at e = u"
    using tsm_indexed_key_iff[OF idx u(1)] by auto
  moreover have "k \<notin> set ks"
    using tsm_indexed_key_iff[OF idx ks, of k] e u(2) by auto
  ultimately show "\<exists>e. bm_get es' k = Some e \<and> entry_expires_at e = u" using es' by auto
next
  fix k e assume "bm_get es' k = Some e"
  then have e: "bm_get es k = Some e" "k \<notin> set ks" using es' by (auto split: if_splits)
  moreover have "entry_expires_at e \<noteq> t"
    using tsm_indexed_key_iff[OF idx ks, of k] e by auto
  ultimately show "\<exists>ks. bm_get (bm_remove t by) (entry_expires_at e) = Some ks \<and> k \<in> set ks"
    using tsm_indexed_entry[OF idx e(1)] by simp
qed

text \<open>What a run of the eviction loop leaves and returns.\<close>

definition evicts ::
  "timestamp \<Rightarrow> ('k::linorder, 'v entry) btree_map \<Rightarrow> ('k, 'v entry) btree_map \<Rightarrow> ('k \<times> 'v) list \<Rightarrow> bool" where
  "evicts now es es' evicted \<longleftrightarrow>
     (\<forall>k. bm_get es' k = (case bm_get es k of None \<Rightarrow> None
        | Some e \<Rightarrow> if entry_is_live e now then Some e else None)) \<and>
     distinct (map fst evicted) \<and>
     set evicted = {(k, entry_value e) |k e. bm_get es k = Some e \<and> \<not> entry_is_live e now}"

lemma evicts_get:
  "evicts now es es' evicted \<Longrightarrow> bm_get es' k = (case bm_get es k of None \<Rightarrow> None
        | Some e \<Rightarrow> if entry_is_live e now then Some e else None)"
  by (simp add: evicts_def)

lemma evicts_refl:
  assumes "\<And>k e. bm_get es k = Some e \<Longrightarrow> entry_is_live e now"
  shows "evicts now es es []"
  unfolding evicts_def using assms by (auto split: option.splits)

lemma evicts_bucket:
  assumes idx: "tsm_indexed by es" and ks: "bm_get by t = Some ks" and t: "is_expired t now"
    and es1: "\<forall>k. bm_get es1 k = (if k \<in> set ks then None else bm_get es k)"
    and ev: "evicts now es1 es2 rest"
  shows "evicts now es es2 (map (\<lambda>k. (k, entry_value (the (bm_get es k)))) ks @ rest)"
proof -
  have dead: "k \<in> set ks \<Longrightarrow> \<exists>e. bm_get es k = Some e \<and> \<not> entry_is_live e now" for k
    using tsm_indexed_key_iff[OF idx ks] t by (auto simp: entry_is_live_def)
  have get: "\<forall>k. bm_get es2 k = (case bm_get es k of None \<Rightarrow> None
        | Some e \<Rightarrow> if entry_is_live e now then Some e else None)"
    using evicts_get[OF ev] es1 dead by (force split: option.splits)
  have rest: "set rest = {(k, entry_value e) |k e. bm_get es1 k = Some e \<and> \<not> entry_is_live e now}"
    and dist: "distinct (map fst rest)"
    using ev by (auto simp: evicts_def)
  have "fst ` set rest \<inter> set ks = {}" unfolding rest using es1 by auto
  then have "distinct (map fst (map (\<lambda>k. (k, entry_value (the (bm_get es k)))) ks @ rest))"
    using tsm_indexed_bucket[OF idx ks] dist by (auto simp: comp_def)
  moreover have "set (map (\<lambda>k. (k, entry_value (the (bm_get es k)))) ks @ rest) =
      {(k, entry_value e) |k e. bm_get es k = Some e \<and> \<not> entry_is_live e now}"
    (is "?l = ?r")
  proof
    show "?l \<subseteq> ?r" using dead es1 by (fastforce simp: rest split: if_splits)
    show "?r \<subseteq> ?l"
    proof
      fix p assume "p \<in> ?r"
      then obtain k e where p: "p = (k, entry_value e)" "bm_get es k = Some e" "\<not> entry_is_live e now"
        by auto
      show "p \<in> ?l"
      proof (cases "k \<in> set ks")
        case True
        then show ?thesis using p by (auto simp: image_iff)
      next
        case False
        then show ?thesis using p es1 by (auto simp: rest)
      qed
    qed
  qed
  ultimately show ?thesis using get by (simp add: evicts_def)
qed

lemma evict_loop_ok:
  assumes "tsm_indexed by es"
  shows "\<exists>by' es' xs. evict_loop now by es ev = Some (by', es', ev @ xs) \<and>
           tsm_indexed by' es' \<and> evicts now es es' xs"
  using assms
proof (induction now "by" es ev rule: evict_loop.induct)
  case (1 now "by" es ev)
  show ?case
  proof (cases "bm_keys by")
    case Nil
    then have none: "bm_get by t = None" for t by (metis bm_keys_iff empty_iff list.set(1))
    then have "bm_get es k = None" for k
      using tsm_indexed_entry[OF 1(2), of k] by (cases "bm_get es k") auto
    then show ?thesis using 1(2) Nil by (subst evict_loop.simps) (auto intro: evicts_refl)
  next
    case (Cons t ts)
    then obtain ks where ks: "bm_get by t = Some ks"
      using bm_keys_iff[of t "by"] by auto
    show ?thesis
    proof (cases "is_expired t now")
      case True
      have "\<And>k. k \<in> set ks \<Longrightarrow> bm_get es k \<noteq> None"
        using tsm_indexed_key_iff[OF 1(2) ks] by auto
      from evict_bucket_ok[of ks es ev, OF conjunct2[OF tsm_indexed_bucket[OF 1(2) ks]] this]
      obtain es1 where es1: "evict_bucket ks es ev =
          Some (es1, ev @ map (\<lambda>k. (k, entry_value (the (bm_get es k)))) ks)"
        and get: "\<forall>k. bm_get es1 k = (if k \<in> set ks then None else bm_get es k)"
        by auto
      have idx: "tsm_indexed (bm_remove t by) es1" by (rule tsm_indexed_evict_bucket[OF 1(2) ks get])
      from 1(1)[OF Cons True ks es1 refl idx] obtain by' es' xs where
        "evict_loop now (bm_remove t by) es1 (ev @ map (\<lambda>k. (k, entry_value (the (bm_get es k)))) ks) =
           Some (by', es', (ev @ map (\<lambda>k. (k, entry_value (the (bm_get es k)))) ks) @ xs)"
        and *: "tsm_indexed by' es'" "evicts now es1 es' xs"
        by blast
      then show ?thesis using evicts_bucket[OF 1(2) ks True get *(2)] Cons True ks es1
        by (subst evict_loop.simps) auto
    next
      case False
      have "entry_is_live e now" if e: "bm_get es k = Some e" for k e
      proof -
        obtain us where "bm_get by (entry_expires_at e) = Some us"
          using tsm_indexed_entry[OF 1(2) e] by blast
        then have "entry_expires_at e \<in> set (t # ts)"
          using bm_keys_iff[of _ "by"] Cons by auto
        then have "t \<le> entry_expires_at e"
          using bm_keys_sorted[of "by"] Cons by auto
        then show ?thesis using False by (auto simp: entry_is_live_def is_expired_def)
      qed
      then show ?thesis using Cons False 1(2) by (subst evict_loop.simps) (auto intro: evicts_refl)
    qed
  qed
qed

lemma bm_len_le_if_submap:
  "(\<And>k. bm_get m k \<noteq> None \<Longrightarrow> bm_get m' k \<noteq> None) \<Longrightarrow> bm_len m \<le> bm_len m'"
  unfolding bm_len_eq_card by (rule card_mono[OF bm_finite]) blast

lemma tsm_evict_expired_ok:
  assumes "tsm_wf m"
  shows "\<exists>m' evicted. tsm_evict_expired now m = Some (m', evicted) \<and> tsm_wf m' \<and>
           tsm_ttl m' = tsm_ttl m \<and> tsm_capacity m' = tsm_capacity m \<and>
           evicts now (tsm_entries m) (tsm_entries m') evicted"
proof -
  have wf: "0 < tsm_capacity m" "tsm_indexed (tsm_by_expiry m) (tsm_entries m)"
    "bm_len (tsm_entries m) \<le> tsm_capacity m"
    using assms by (simp_all add: tsm_wf_def)
  from evict_loop_ok[OF wf(2), of now "[]"] obtain by' es' xs where
    ev: "evict_loop now (tsm_by_expiry m) (tsm_entries m) [] = Some (by', es', xs)"
    and idx: "tsm_indexed by' es'" and es': "evicts now (tsm_entries m) es' xs"
    by auto
  have "bm_len es' \<le> bm_len (tsm_entries m)"
    by (rule bm_len_le_if_submap) (auto simp: evicts_get[OF es'] split: option.splits)
  then show ?thesis using ev idx es' wf by (auto simp: tsm_evict_expired_def tsm_wf_def)
qed

subsection \<open>Insertion\<close>

lemma bm_get_enqueue:
  "bm_get (enqueue_by_expiry k t by) u =
     (if u = t then Some ((case bm_get by t of None \<Rightarrow> [] | Some ks \<Rightarrow> ks) @ [k]) else bm_get by u)"
  by (simp add: enqueue_by_expiry_def)

lemma tsm_indexed_insert:
  assumes idx: "tsm_indexed by es" and fresh: "bm_get es k = None"
  shows "tsm_indexed (enqueue_by_expiry k (entry_expires_at e) by) (bm_insert k e es)"
proof -
  have notin: "bm_get by t = Some ks \<Longrightarrow> k \<notin> set ks" for t ks
    using tsm_indexed_key_iff[OF idx] fresh by auto
  have old: "x \<noteq> k \<and> (\<exists>e'. bm_get es x = Some e' \<and> entry_expires_at e' = t)"
    if "bm_get by t = Some ks" "x \<in> set ks" for t ks x
    using tsm_indexed_key_iff[OF idx that(1), of x] that(2) fresh by auto
  show ?thesis
  proof (rule tsm_indexedI)
    fix t ks assume t: "bm_get (enqueue_by_expiry k (entry_expires_at e) by) t = Some ks"
    then show "ks \<noteq> [] \<and> distinct ks"
      using tsm_indexed_bucket[OF idx] notin
      by (auto simp: bm_get_enqueue split: if_splits option.splits)
    fix x assume "x \<in> set ks"
    then show "\<exists>e'. bm_get (bm_insert k e es) x = Some e' \<and> entry_expires_at e' = t"
      using t by (auto simp: bm_get_enqueue dest: old split: if_splits option.splits)
  next
    fix x e' assume "bm_get (bm_insert k e es) x = Some e'"
    then show "\<exists>ks. bm_get (enqueue_by_expiry k (entry_expires_at e) by) (entry_expires_at e') = Some ks \<and>
        x \<in> set ks"
      using tsm_indexed_entry[OF idx, of x e']
      by (auto simp: bm_get_enqueue split: if_splits option.splits)
  qed
qed

text \<open>The effect of admitting an entry: expired entries go, the new one is clamped to the ttl.\<close>

definition clamp_entry :: "('k::linorder, 'v) tsm \<Rightarrow> timestamp \<Rightarrow> 'v entry \<Rightarrow> 'v entry" where
  "clamp_entry m now e =
     \<lparr>entry_value = entry_value e, entry_expires_at = min (entry_expires_at e) (tsm_expiry m now)\<rparr>"

lemma clamp_live: "entry_is_live e now \<Longrightarrow> entry_is_live (clamp_entry m now e) now"
  using timestamp_add_ge[of now "tsm_ttl m"]
  by (auto simp: clamp_entry_def entry_is_live_def is_expired_def tsm_expiry_def min_def not_less)

lemma tsm_get_evicted:
  assumes "evicts now (tsm_entries m) (tsm_entries m') ev"
  shows "tsm_get_entry m' now k = tsm_get_entry m now k"
  by (auto simp: tsm_get_entry_def evicts_get[OF assms] split: option.splits)

lemma evicted_none:
  "evicts now (tsm_entries m) es' ev \<Longrightarrow> tsm_get m now k = None \<Longrightarrow> bm_get es' k = None"
  by (auto simp: evicts_get tsm_get_def tsm_get_entry_def split: option.splits if_splits)

lemma tsm_insert_entry_cases:
  assumes wf: "tsm_wf m"
  obtains (expired) "\<not> entry_is_live e now" "tsm_insert_entry now k e m = Some (m, Inr [])"
  | (present) "entry_is_live e now" "tsm_get m now k \<noteq> None"
      "tsm_insert_entry now k e m = Some (m, Inl (AlreadyPresent k (entry_value e)))"
  | (full) m' ev where "entry_is_live e now" "tsm_get m now k = None"
      "tsm_evict_expired now m = Some (m', ev)" "tsm_wf m'" "bm_len (tsm_entries m') = tsm_capacity m"
      "evicts now (tsm_entries m) (tsm_entries m') ev" "tsm_capacity m' = tsm_capacity m"
      "tsm_insert_entry now k e m = Some (m', Inl (AtCapacity k (entry_value e)))"
  | (admitted) m' m'' ev where "entry_is_live e now" "tsm_get m now k = None"
      "tsm_evict_expired now m = Some (m', ev)" "tsm_wf m'" "bm_len (tsm_entries m') < tsm_capacity m"
      "evicts now (tsm_entries m) (tsm_entries m') ev"
      "m'' = m'\<lparr>tsm_by_expiry := enqueue_by_expiry k (entry_expires_at (clamp_entry m now e)) (tsm_by_expiry m'),
               tsm_entries := bm_insert k (clamp_entry m now e) (tsm_entries m')\<rparr>"
      "tsm_wf m''" "tsm_ttl m'' = tsm_ttl m" "tsm_capacity m'' = tsm_capacity m"
      "tsm_insert_entry now k e m = Some (m'', Inr ev)"
proof -
  from tsm_evict_expired_ok[OF wf, of now] obtain m' ev where
    ev: "tsm_evict_expired now m = Some (m', ev)" and wf': "tsm_wf m'"
    and eqs: "tsm_ttl m' = tsm_ttl m" "tsm_capacity m' = tsm_capacity m"
    and evicts: "evicts now (tsm_entries m) (tsm_entries m') ev" by blast
  have exp: "tsm_expiry m' now = tsm_expiry m now" by (simp add: tsm_expiry_def eqs)
  show thesis
  proof (cases "entry_is_live e now")
    case False
    then show ?thesis using expired by (simp add: tsm_insert_entry_def)
  next
    case live: True
    show ?thesis
    proof (cases "tsm_get m now k")
      case None
      have fresh: "bm_get (tsm_entries m') k = None" by (rule evicted_none[OF evicts None])
      show ?thesis
      proof (cases "tsm_capacity m' \<le> bm_len (tsm_entries m')")
        case True
        then show ?thesis
          using full[OF live None ev wf' _ evicts] wf' eqs live None ev
          by (simp add: tsm_insert_entry_def tsm_wf_def)
      next
        case False
        let ?e = "clamp_entry m now e"
        let ?m = "m'\<lparr>tsm_by_expiry := enqueue_by_expiry k (entry_expires_at ?e) (tsm_by_expiry m'),
                      tsm_entries := bm_insert k ?e (tsm_entries m')\<rparr>"
        have "tsm_wf ?m"
          using wf' False tsm_indexed_insert[of _ _ k ?e, OF _ fresh] fresh
          by (simp add: tsm_wf_def bm_len_insert bm_contains_def)
        moreover have "tsm_insert_entry now k e m = Some (?m, Inr ev)"
          using live None ev False by (simp add: tsm_insert_entry_def clamp_entry_def exp)
        ultimately show ?thesis
          using admitted[OF live None ev wf' _ evicts refl] False eqs by simp
      qed
    next
      case (Some v)
      then show ?thesis using present live by (simp add: tsm_insert_entry_def)
    qed
  qed
qed

lemma tsm_insert_entry_wf:
  "tsm_wf m \<Longrightarrow> \<exists>m' r. tsm_insert_entry now k e m = Some (m', r) \<and> tsm_wf m'"
  by (rule tsm_insert_entry_cases[of m e now k]) auto

lemma tsm_insert_wf: "tsm_wf m \<Longrightarrow> \<exists>m' r. tsm_insert now k v m = Some (m', r) \<and> tsm_wf m'"
  unfolding tsm_insert_def by (rule tsm_insert_entry_wf)

lemma tsm_modify_value_wf: "tsm_wf m \<Longrightarrow> tsm_wf (tsm_modify_value f now k m)"
proof (cases "tsm_get_entry m now k")
  case (Some e)
  assume wf: "tsm_wf m"
  have e: "bm_get (tsm_entries m) k = Some e"
    using Some by (auto simp: tsm_get_entry_def split: option.splits if_splits)
  have idx: "tsm_indexed (tsm_by_expiry m) (tsm_entries m)" using wf by (simp add: tsm_wf_def)
  have "tsm_indexed (tsm_by_expiry m) (bm_insert k (e\<lparr>entry_value := f (entry_value e)\<rparr>) (tsm_entries m))"
  proof (rule tsm_indexedI)
    fix t ks assume t: "bm_get (tsm_by_expiry m) t = Some ks"
    show "ks \<noteq> [] \<and> distinct ks" by (rule tsm_indexed_bucket[OF idx t])
    fix x assume "x \<in> set ks"
    then show "\<exists>ea. bm_get (bm_insert k (e\<lparr>entry_value := f (entry_value e)\<rparr>) (tsm_entries m)) x = Some ea \<and>
        entry_expires_at ea = t"
      using tsm_indexed_key_iff[OF idx t, of x] e by auto
  next
    fix x ea assume "bm_get (bm_insert k (e\<lparr>entry_value := f (entry_value e)\<rparr>) (tsm_entries m)) x = Some ea"
    then show "\<exists>ks. bm_get (tsm_by_expiry m) (entry_expires_at ea) = Some ks \<and> x \<in> set ks"
      using tsm_indexed_entry[OF idx, of x] e by (auto split: if_splits)
  qed
  then show ?thesis
    using wf e Some by (simp add: tsm_wf_def tsm_modify_value_def bm_len_insert bm_contains_def)
qed (simp add: tsm_modify_value_def)

subsection \<open>Removal\<close>

lemma tsm_remove_ok:
  assumes wf: "tsm_wf m"
  shows "\<exists>m'. tsm_remove k m = Some (m', bm_get (tsm_entries m) k) \<and> tsm_wf m' \<and>
           tsm_ttl m' = tsm_ttl m \<and> tsm_capacity m' = tsm_capacity m \<and>
           tsm_entries m' = bm_remove k (tsm_entries m)"
proof (cases "bm_get (tsm_entries m) k")
  case None
  moreover have "bm_remove k (tsm_entries m) = tsm_entries m" by (rule bm_ext) (simp add: None)
  ultimately show ?thesis using wf by (simp add: tsm_remove_def)
next
  case (Some e)
  have idx: "tsm_indexed (tsm_by_expiry m) (tsm_entries m)" using wf by (simp add: tsm_wf_def)
  obtain ks where ks: "bm_get (tsm_by_expiry m) (entry_expires_at e) = Some ks" "k \<in> set ks"
    using tsm_indexed_entry[OF idx Some] by blast
  let ?t = "entry_expires_at e" and ?ks = "filter (\<lambda>x. x \<noteq> k) ks"
  let ?by = "if ?ks = [] then bm_remove ?t (bm_insert ?t ?ks (tsm_by_expiry m))
             else bm_insert ?t ?ks (tsm_by_expiry m)"
  have get: "bm_get ?by u = (if u = ?t then (if ?ks = [] then None else Some ?ks)
      else bm_get (tsm_by_expiry m) u)" for u by simp
  have "tsm_indexed ?by (bm_remove k (tsm_entries m))"
  proof (rule tsm_indexedI)
    fix u us assume u: "bm_get ?by u = Some us"
    show "us \<noteq> [] \<and> distinct us"
      using u tsm_indexed_bucket[OF idx] tsm_indexed_bucket[OF idx ks(1)]
      unfolding get by (auto split: if_splits)
    fix x assume x: "x \<in> set us"
    have "x \<noteq> k"
      using u x tsm_indexed_key_iff[OF idx, of u us k] Some unfolding get by (auto split: if_splits)
    then show "\<exists>ea. bm_get (bm_remove k (tsm_entries m)) x = Some ea \<and> entry_expires_at ea = u"
      using u x tsm_indexed_key_iff[OF idx ks(1), of x] tsm_indexed_key_iff[OF idx, of u us x]
      unfolding get by (auto split: if_splits)
  next
    fix x ea assume "bm_get (bm_remove k (tsm_entries m)) x = Some ea"
    then have x: "x \<noteq> k" "bm_get (tsm_entries m) x = Some ea" by (auto split: if_splits)
    from tsm_indexed_entry[OF idx x(2)] obtain us where
      us: "bm_get (tsm_by_expiry m) (entry_expires_at ea) = Some us" "x \<in> set us" by blast
    show "\<exists>ks. bm_get ?by (entry_expires_at ea) = Some ks \<and> x \<in> set ks"
    proof (cases "entry_expires_at ea = ?t")
      case True
      then have "us = ks" using us(1) ks(1) by simp
      then have "x \<in> set ?ks" using us x by simp
      then have "?ks \<noteq> []" by (cases ?ks) auto
      then show ?thesis using True \<open>x \<in> set ?ks\<close> unfolding get by auto
    next
      case False
      then show ?thesis using us unfolding get by auto
    qed
  qed
  then show ?thesis
    using wf Some ks by (auto simp: tsm_remove_def Let_def tsm_wf_def bm_len_remove bm_contains_def)
qed

subsection \<open>Snapshot and restore\<close>

lemma filter_concat_buckets:
  assumes "distinct (map fst ps)" and "\<And>t ks k. (t, ks) \<in> set ps \<Longrightarrow> k \<in> set ks \<Longrightarrow> f k = t"
  shows "filter (\<lambda>k. f k = t) (concat (map snd ps)) = (case map_of ps t of None \<Rightarrow> [] | Some ks \<Rightarrow> ks)"
  using assms
proof (induction ps)
  case (Cons p ps)
  obtain u us where p: "p = (u, us)" by force
  have "\<And>k. k \<in> set us \<Longrightarrow> f k = u" using Cons.prems(2)[of u us] p by simp
  then have "filter (\<lambda>k. f k = t) us = (if t = u then us else [])" by (auto simp: filter_id_conv)
  moreover have "map_of ps u = None" using Cons.prems(1) p by (simp add: map_of_eq_None_iff)
  moreover have "filter (\<lambda>k. f k = t) (concat (map snd ps)) =
      (case map_of ps t of None \<Rightarrow> [] | Some ks \<Rightarrow> ks)"
    by (rule Cons.IH) (use Cons.prems in auto)
  ultimately show ?case using p by auto
qed simp

lemma distinct_concat_buckets:
  assumes "distinct (map fst ps)" and "\<And>t ks k. (t, ks) \<in> set ps \<Longrightarrow> k \<in> set ks \<Longrightarrow> f k = t"
    and "\<And>t ks. (t, ks) \<in> set ps \<Longrightarrow> distinct ks"
  shows "distinct (concat (map snd ps))"
  using assms
proof (induction ps)
  case (Cons p ps)
  obtain u us where p: "p = (u, us)" by force
  have "f k \<noteq> u" if "k \<in> set (concat (map snd ps))" for k
  proof -
    from that obtain v vs where "(v, vs) \<in> set ps" "k \<in> set vs" by auto
    then show ?thesis using Cons.prems(2)[of v vs k] Cons.prems(1) p by (auto simp: image_iff)
  qed
  then have "set us \<inter> set (concat (map snd ps)) = {}" using Cons.prems(2)[of u us] p by auto
  moreover have "distinct (concat (map snd ps))"
    using Cons.prems(1) Cons.prems(2,3)[OF list.set_intros(2)] by (intro Cons.IH) auto
  moreover have "distinct us" using Cons.prems(3)[of u us] p by simp
  ultimately show ?case by (auto simp: p)
qed simp

lemma tsm_from_ordered_entries_ok:
  assumes "distinct (map fst ps)"
  shows "\<exists>m. tsm_from_ordered_entries ttl capacity ps = Some m \<and>
     tsm_ttl m = ttl \<and> tsm_capacity m = capacity \<and>
     (\<forall>k. bm_get (tsm_entries m) k = map_of ps k) \<and>
     (\<forall>t. bm_get (tsm_by_expiry m) t =
        (case map fst (filter (\<lambda>p. entry_expires_at (snd p) = t) ps) of [] \<Rightarrow> None | ks \<Rightarrow> Some ks))"
  using assms
proof (induction ps rule: rev_induct)
  case Nil
  then show ?case by (simp add: tsm_from_ordered_entries_def tsm_new_def)
next
  case (snoc p ps)
  obtain k e where p: "p = (k, e)" by force
  from snoc obtain m where
    m: "tsm_from_ordered_entries ttl capacity ps = Some m" "tsm_ttl m = ttl" "tsm_capacity m = capacity"
    and es: "\<forall>k. bm_get (tsm_entries m) k = map_of ps k"
    and byx: "\<forall>t. bm_get (tsm_by_expiry m) t =
        (case map fst (filter (\<lambda>p. entry_expires_at (snd p) = t) ps) of [] \<Rightarrow> None | ks \<Rightarrow> Some ks)"
    by auto
  have none: "map_of ps k = None" using snoc.prems p by (auto simp: map_of_eq_None_iff)
  let ?m = "m\<lparr>tsm_by_expiry := enqueue_by_expiry k (entry_expires_at e) (tsm_by_expiry m),
              tsm_entries := bm_insert k e (tsm_entries m)\<rparr>"
  have "tsm_from_ordered_entries ttl capacity (ps @ [p]) = Some ?m"
    using m(1) es none p by (simp add: tsm_from_ordered_entries_def foldM_append bm_contains_def)
  moreover have "bm_get (tsm_entries ?m) x = map_of (ps @ [p]) x" for x
    using es none p by (simp add: map_add_def split: option.splits)
  moreover have "bm_get (tsm_by_expiry ?m) t =
      (case map fst (filter (\<lambda>p. entry_expires_at (snd p) = t) (ps @ [p])) of [] \<Rightarrow> None | ks \<Rightarrow> Some ks)" for t
    using byx p by (auto simp: bm_get_enqueue split: list.splits)
  ultimately show ?case using m(2,3) by auto
qed

lemma tsm_iter_by_expiry_ok:
  assumes "tsm_wf m"
  shows "tsm_iter_by_expiry m =
    Some (map (\<lambda>k. (k, the (bm_get (tsm_entries m) k))) (concat (bm_values (tsm_by_expiry m))))"
proof -
  have idx: "tsm_indexed (tsm_by_expiry m) (tsm_entries m)" using assms by (simp add: tsm_wf_def)
  have "bm_get (tsm_entries m) k \<noteq> None" if "k \<in> set (concat (bm_values (tsm_by_expiry m)))" for k
  proof -
    from that obtain t ks where "bm_get (tsm_by_expiry m) t = Some ks" "k \<in> set ks"
      by (auto simp: bm_values_iff)
    then show ?thesis using tsm_indexed_key_iff[OF idx] by auto
  qed
  then have *: "\<exists>y. bm_get (tsm_entries m) k = Some y"
    if "k \<in> set (concat (bm_values (tsm_by_expiry m)))" for k
    using that by blast
  show ?thesis
    unfolding tsm_iter_by_expiry_def collect_opt_Some_iff map_map
    by (rule map_cong[OF refl]) (use * in auto)
qed

lemma tsm_roundtrip:
  assumes wf: "tsm_wf m"
  shows "\<exists>ps. tsm_iter_by_expiry m = Some ps \<and>
           tsm_from_ordered_entries (tsm_ttl m) (tsm_capacity m) ps = Some m"
proof -
  define ps where "ps = map (\<lambda>k. (k, the (bm_get (tsm_entries m) k))) (concat (bm_values (tsm_by_expiry m)))"
  let ?f = "\<lambda>k. entry_expires_at (the (bm_get (tsm_entries m) k))"
  let ?ks = "concat (map snd (bm_iter (tsm_by_expiry m)))"
  have idx: "tsm_indexed (tsm_by_expiry m) (tsm_entries m)" using wf by (simp add: tsm_wf_def)
  have f: "?f k = t" if "(t, ks) \<in> set (bm_iter (tsm_by_expiry m))" "k \<in> set ks" for t ks k
    using tsm_indexed_key_iff[OF idx] that by (auto simp: bm_iter_iff)
  have dist: "distinct ?ks"
    by (rule distinct_concat_buckets[OF bm_iter_distinct f])
       (auto simp: bm_iter_iff dest: tsm_indexed_bucket[OF idx])
  have keys: "map fst ps = ?ks" by (simp add: ps_def bm_values_def comp_def)
  have buckets: "map fst (filter (\<lambda>p. entry_expires_at (snd p) = t) ps) =
      (case bm_get (tsm_by_expiry m) t of None \<Rightarrow> [] | Some ks \<Rightarrow> ks)" for t
    using filter_concat_buckets[OF bm_iter_distinct f, where t = t]
    by (simp add: ps_def bm_values_def filter_map comp_def bm_get_def)
  have entries: "map_of ps k = bm_get (tsm_entries m) k" for k
  proof (cases "bm_get (tsm_entries m) k")
    case None
    have "k \<notin> set ?ks"
      using tsm_indexed_key_iff[OF idx] None by (force simp: bm_iter_iff)
    then have "k \<notin> set (map fst ps)" unfolding keys .
    then show ?thesis using None by (simp add: map_of_eq_None_iff)
  next
    case (Some e)
    then obtain ks where "bm_get (tsm_by_expiry m) (entry_expires_at e) = Some ks" "k \<in> set ks"
      using tsm_indexed_entry[OF idx] by blast
    then have "k \<in> set (concat (bm_values (tsm_by_expiry m)))"
      using bm_values_iff[of ks] by auto
    then have "(k, e) \<in> set ps" using Some by (auto simp: ps_def)
    then show ?thesis using dist Some by (simp add: keys)
  qed
  from tsm_from_ordered_entries_ok[of ps "tsm_ttl m" "tsm_capacity m"] dist obtain m' where
    m': "tsm_from_ordered_entries (tsm_ttl m) (tsm_capacity m) ps = Some m'"
      "tsm_ttl m' = tsm_ttl m" "tsm_capacity m' = tsm_capacity m"
      "\<forall>k. bm_get (tsm_entries m') k = bm_get (tsm_entries m) k"
    and byx: "\<forall>t. bm_get (tsm_by_expiry m') t =
        (case (case bm_get (tsm_by_expiry m) t of None \<Rightarrow> [] | Some ks \<Rightarrow> ks) of
           [] \<Rightarrow> None | ks \<Rightarrow> Some ks)"
    by (auto simp: keys entries buckets)
  have "tsm_entries m' = tsm_entries m" by (rule bm_ext) (simp add: m')
  moreover have "tsm_by_expiry m' = tsm_by_expiry m"
    by (rule bm_ext) (auto simp: byx dest: tsm_indexed_bucket[OF idx] split: option.splits list.splits)
  ultimately have "m' = m" using m' by simp
  then show ?thesis using m'(1) tsm_iter_by_expiry_ok[OF wf] by (auto simp: ps_def)
qed

subsection \<open>Properties\<close>



text \<open>C25: The snapshot of a well-formed map taken in expiry order is always produced, and
  rebuilding a map from it with the same ttl and capacity gives back the identical map, expiry
  index included.\<close>

theorem snapshot_roundtrip:
  assumes "tsm_wf m"
  shows "\<exists>ps. tsm_iter_by_expiry m = Some ps \<and>
           tsm_from_ordered_entries (tsm_ttl m) (tsm_capacity m) ps = Some m"
  by (rule tsm_roundtrip[OF assms])

theorem snapshot_roundtrip_witness:
  "\<exists>m ps. tsm_insert 5 (1 :: nat) (7 :: nat) (tsm_new 10 2) = Some (m, Inr []) \<and>
     tsm_iter_by_expiry m = Some ps \<and> tsm_from_ordered_entries (tsm_ttl m) (tsm_capacity m) ps = Some m"
proof -
  have "\<exists>m. tsm_insert 5 (1 :: nat) (7 :: nat) (tsm_new 10 2) = Some (m, Inr [])"
    by (simp add: tsm_insert_def tsm_expiry_def tsm_insert_entry_def entry_is_live_def is_expired_def
        timestamp_saturating_add_def nanos_def saturating_add_def tsm_get_def tsm_get_entry_def
        tsm_evict_expired_def evict_loop.simps tsm_new_def bm_keys_def Let_def)
  then obtain m where m: "tsm_insert 5 (1 :: nat) (7 :: nat) (tsm_new 10 2) = Some (m, Inr [])" by blast
  have "tsm_wf m" using tsm_insert_wf[OF tsm_wf_new[of 2 10], of 5 "1 :: nat" "7 :: nat"] m by auto
  then show ?thesis using snapshot_roundtrip[of m] m by blast
qed

end
