(* ===== verification/Cksol_Types.thy ===== *)
theory Cksol_Types
  imports Prelude
begin

text \<open>
  Identifiers, accounts, constants and public status types shared by the components:
  \<^verbatim>\<open>libs/types/src/lib.rs\<close>, \<^verbatim>\<open>minter/src/numeric.rs\<close>, \<^verbatim>\<open>minter/src/constants.rs\<close> and the
  deposit balance of \<^verbatim>\<open>minter/src/state/deposits/mod.rs\<close>.

  A Solana address or hash is the big-endian reading of its 32 bytes, a signature that of its 64
  bytes; the order of these words is the lexicographic order of the bytes.
\<close>

type_synonym lamport = u64
type_synonym address = "256 word"
type_synonym hash = "256 word"
type_synonym signature = "512 word"
type_synonym deposit_sol_id = u64
type_synonym ledger_burn_index = u64
type_synonym ledger_mint_index = u64
type_synonym block_height = u64
type_synonym bytes = "u8 list"

subsection \<open>Principals and accounts\<close>

text \<open>The order of \<open>candid::Principal\<close> compares the length first, then the bytes.\<close>

datatype principal = Principal (principal_bytes: bytes)

definition principal_key :: "principal \<Rightarrow> nat \<times> bytes" where
  "principal_key p = (length (principal_bytes p), principal_bytes p)"

lemma principal_key_inject: "principal_key p = principal_key q \<Longrightarrow> p = q"
  by (simp add: principal_key_def principal.expand)

instantiation principal :: linorder
begin

definition less_eq_principal :: "principal \<Rightarrow> principal \<Rightarrow> bool" where
  "less_eq_principal p q \<longleftrightarrow> principal_key p \<le> principal_key q"

definition less_principal :: "principal \<Rightarrow> principal \<Rightarrow> bool" where
  "less_principal p q \<longleftrightarrow> principal_key p < principal_key q"

instance
  by standard (auto simp: less_eq_principal_def less_principal_def intro: principal_key_inject)

end

text \<open>
  Equality and order of \<open>icrc1::Account\<close> compare the owner and the \<^emph>\<open>effective\<close> subaccount, which
  is all zeros when the subaccount is absent; an account is therefore its owner with its effective
  subaccount.
\<close>

datatype account = Account (account_owner: principal) (effective_subaccount: "256 word")

definition account_key :: "account \<Rightarrow> principal \<times> 256 word" where
  "account_key a = (account_owner a, effective_subaccount a)"

lemma account_key_inject: "account_key a = account_key b \<Longrightarrow> a = b"
  by (simp add: account_key_def account.expand)

instantiation account :: linorder
begin

definition less_eq_account :: "account \<Rightarrow> account \<Rightarrow> bool" where
  "less_eq_account a b \<longleftrightarrow> account_key a \<le> account_key b"

definition less_account :: "account \<Rightarrow> account \<Rightarrow> bool" where
  "less_account a b \<longleftrightarrow> account_key a < account_key b"

instance
  by standard (auto simp: less_eq_account_def less_account_def intro: account_key_inject)

end

definition account_from :: "principal \<Rightarrow> (256 word) option \<Rightarrow> account" where
  "account_from owner subaccount =
     Account owner (case subaccount of None \<Rightarrow> 0 | Some s \<Rightarrow> s)"

text \<open>The bytes of a word, most significant first.\<close>

definition be_bytes :: "nat \<Rightarrow> 'a::len word \<Rightarrow> bytes" where
  "be_bytes n w = map (\<lambda>i. ucast (drop_bit (8 * i) w)) (rev [0..<n])"

lemma length_be_bytes [simp]: "length (be_bytes n w) = n"
  by (simp add: be_bytes_def)

lemma be_bytes_inj:
  fixes v w :: "'a::len word"
  assumes "LENGTH('a) = 8 * n" and "be_bytes n v = be_bytes n w"
  shows "v = w"
proof (rule bit_word_eqI)
  fix j assume j: "j < LENGTH('a)"
  then have "j div 8 < n" using assms(1) by auto
  then have "(ucast (drop_bit (8 * (j div 8)) v) :: u8) = ucast (drop_bit (8 * (j div 8)) w)"
    using assms(2) by (auto simp: be_bytes_def)
  then have "bit (ucast (drop_bit (8 * (j div 8)) v) :: u8) (j mod 8) =
             bit (ucast (drop_bit (8 * (j div 8)) w) :: u8) (j mod 8)"
    by simp
  then show "bit v j = bit w j"
    by (simp add: bit_ucast_iff bit_drop_bit_eq)
qed

subsection \<open>Constants\<close>

definition FEE_PER_SIGNATURE :: lamport where
  "FEE_PER_SIGNATURE = 5000"

definition RENT_EXEMPTION_THRESHOLD :: lamport where
  "RENT_EXEMPTION_THRESHOLD = 890880"

definition MAX_SIGNATURES :: u64 where
  "MAX_SIGNATURES = 10"

definition MAX_WITHDRAWALS_PER_NONCE_TX :: nat where
  "MAX_WITHDRAWALS_PER_NONCE_TX = 10"

definition BATCH_WITHDRAWAL_TX_FEE :: lamport where
  "BATCH_WITHDRAWAL_TX_FEE = FEE_PER_SIGNATURE"

definition MAX_TX_SIZE :: nat where
  "MAX_TX_SIZE = 1232"

definition BYTES_PER_SIGNATURE :: nat where
  "BYTES_PER_SIGNATURE = 64"

lemma unat_constants [simp, word_nat]:
  "unat FEE_PER_SIGNATURE = 5000"
  "unat RENT_EXEMPTION_THRESHOLD = 890880"
  "unat MAX_SIGNATURES = 10"
  "unat BATCH_WITHDRAWAL_TX_FEE = 5000"
  by (simp_all add: FEE_PER_SIGNATURE_def RENT_EXEMPTION_THRESHOLD_def MAX_SIGNATURES_def
      BATCH_WITHDRAWAL_TX_FEE_def)

subsection \<open>Deposit balances\<close>

text \<open>A balance that covers the rent exemption threshold; \<open>new\<close> is its only constructor.\<close>

typedef deposit_balance = "{b :: lamport. RENT_EXEMPTION_THRESHOLD \<le> b}"
  morphisms deposit_balance_lamports DepositBalance
  by (rule exI[of _ RENT_EXEMPTION_THRESHOLD]) simp

setup_lifting type_definition_deposit_balance

lift_definition deposit_balance_at_least :: "lamport \<Rightarrow> deposit_balance" is
  "\<lambda>b. if RENT_EXEMPTION_THRESHOLD \<le> b then b else RENT_EXEMPTION_THRESHOLD"
  by simp

definition deposit_balance_new :: "lamport \<Rightarrow> deposit_balance option" where
  "deposit_balance_new balance =
     (if RENT_EXEMPTION_THRESHOLD \<le> balance then Some (deposit_balance_at_least balance) else None)"

text \<open>\<open>DepositBalance::sweepable_amount\<close> with its \<open>expect\<close>, which the type discharges.\<close>

definition deposit_balance_checked_sweepable :: "deposit_balance \<Rightarrow> lamport option" where
  "deposit_balance_checked_sweepable b =
     checked_sub (deposit_balance_lamports b) RENT_EXEMPTION_THRESHOLD"

definition deposit_balance_sweepable :: "deposit_balance \<Rightarrow> lamport" where
  "deposit_balance_sweepable b = deposit_balance_lamports b - RENT_EXEMPTION_THRESHOLD"

lemma deposit_balance_covers_rent: "RENT_EXEMPTION_THRESHOLD \<le> deposit_balance_lamports b"
  using deposit_balance_lamports[of b] by simp

lemma deposit_balance_checked_sweepable:
  "deposit_balance_checked_sweepable b = Some (deposit_balance_sweepable b)"
  using deposit_balance_covers_rent[of b]
  by (simp add: deposit_balance_checked_sweepable_def deposit_balance_sweepable_def checked_sub_def)

lemma unat_sweepable:
  "unat (deposit_balance_sweepable b) = unat (deposit_balance_lamports b) - 890880"
  using deposit_balance_covers_rent[of b] by (simp add: deposit_balance_sweepable_def unat_minus_le)

lemma unat_balance:
  "unat (deposit_balance_lamports b) = unat (deposit_balance_sweepable b) + 890880"
  using deposit_balance_covers_rent[of b] by (simp add: unat_sweepable word_le_nat_alt)

lemma deposit_balance_new_Some_iff:
  "deposit_balance_new n = Some b \<longleftrightarrow> deposit_balance_lamports b = n"
proof
  assume "deposit_balance_new n = Some b"
  then show "deposit_balance_lamports b = n"
    by (auto simp: deposit_balance_new_def deposit_balance_at_least.rep_eq split: if_splits)
next
  assume "deposit_balance_lamports b = n"
  then show "deposit_balance_new n = Some b"
    using deposit_balance_covers_rent[of b]
    by (auto simp: deposit_balance_new_def deposit_balance_lamports_inject[symmetric]
        deposit_balance_at_least.rep_eq)
qed

subsection \<open>Status types of the interface\<close>

datatype deposit_sol_status =
    DepositNotFound
  | DepositQueued lamport
  | DepositSwept signature
  | DepositFinalized signature
  | DepositMinted ledger_mint_index lamport
  | DepositDropped signature
  | DepositQuarantined signature

datatype tx_finalized_status = TxSuccess signature | TxFailure signature

datatype withdraw_sol_status =
    WithdrawNotFound
  | WithdrawPending
  | WithdrawTxSent signature
  | WithdrawTxFinalized tx_finalized_status

subsection \<open>Arguments and results of the endpoints\<close>

record get_deposit_address_args =
  gda_owner :: "principal option"
  gda_subaccount :: "(256 word) option"

record deposit_sol_args =
  dsa_owner :: "principal option"
  dsa_subaccount :: "(256 word) option"

record insufficient_cycles_error =
  ice_expected :: u128
  ice_received :: u128

datatype deposit_sol_error =
    DepositInsufficientCycles insufficient_cycles_error
  | DepositTemporarilyUnavailable string
  | DepositAlreadyProcessing
  | DepositValueTooSmall (dv_balance: lamport) (dv_minimum_deposit_amount: lamport)
  | DepositIsQuarantined deposit_sol_id

datatype watch_deposit_address_status =
    Watching (ws_valid_until: u64) (ws_scan_count: u32) (ws_last_scanned_at: "u64 option") (ws_next_scan_at: "u64 option")
  | Detected deposit_sol_id

record watch_deposit_address_ok =
  wo_address :: address
  wo_minimum_deposit_amount :: lamport
  wo_automatic_deposit_fee :: lamport
  wo_status :: watch_deposit_address_status
  wo_latest_deposit_id :: "deposit_sol_id option"

datatype watch_deposit_address_error =
    WatchQuarantined deposit_sol_id
  | WatchTooManyWatchedAddresses "deposit_sol_id option"
  | WatchTemporarilyUnavailable string

record withdraw_sol_args =
  wsa_from_subaccount :: "(256 word) option"
  wsa_amount :: lamport
  wsa_address :: string

datatype withdraw_sol_error =
    WithdrawAlreadyProcessing
  | WithdrawValueTooSmall (wv_minimum_withdrawal_amount: lamport) (wv_withdrawal_amount: lamport)
  | WithdrawMalformedAddress string
  | WithdrawInvalidDestination string
  | WithdrawInsufficientFunds lamport
  | WithdrawInsufficientAllowance lamport
  | WithdrawTemporarilyUnavailable string

record minter_info =
  mi_deposit_sol_fee :: u128
  mi_minimum_withdrawal_amount :: lamport
  mi_minimum_deposit_amount :: lamport
  mi_withdrawal_fee :: lamport
  mi_deposit_sol_required_cycles :: u128
  mi_balance :: lamport
  mi_minter_address :: "string option"
  mi_nonce_accounts :: "string list"
  mi_automatic_deposit_fee :: "lamport option"
  mi_collected_automatic_deposit_fees :: "lamport option"

end
