(* ===== verification/Nonce_Pool.thy ===== *)
theory Nonce_Pool
  imports Cksol_Types BTree_Map
begin

text \<open>
  \<^verbatim>\<open>minter/src/state/nonce_pool/mod.rs\<close>: the durable nonce accounts reserved for withdrawal
  transactions, each free or bound, with the nonce values already bound to a transaction.
\<close>

datatype nonce_account_state = Free | Bound

record nonce_account =
  na_state :: nonce_account_state
  na_seen :: "hash btree_set"

record nonce_pool =
  np_accounts :: "(address, nonce_account) btree_map"

datatype nonce_pool_error = DuplicateAccount address

datatype nonce_read = Unchanged | Stale | Advanced

subsection \<open>Operations\<close>

definition nonce_account_default :: nonce_account where
  "nonce_account_default = \<lparr>na_state = Free, na_seen = bm_empty\<rparr>"

definition nonce_pool_default :: nonce_pool where
  "nonce_pool_default = \<lparr>np_accounts = bm_empty\<rparr>"

fun collect_additions ::
  "nonce_pool \<Rightarrow> address list \<Rightarrow> (address, nonce_account) btree_map \<Rightarrow>
   nonce_pool_error + (address, nonce_account) btree_map" where
  "collect_additions pool [] additions = Inr additions"
| "collect_additions pool (address # addresses) additions =
     (if bm_contains (np_accounts pool) address \<or> bm_contains additions address
      then Inl (DuplicateAccount address)
      else collect_additions pool addresses (bm_insert address nonce_account_default additions))"

definition add_accounts :: "address list \<Rightarrow> nonce_pool \<Rightarrow> nonce_pool_error + nonce_pool" where
  "add_accounts addresses pool =
     (case collect_additions pool addresses bm_empty of
        Inl e \<Rightarrow> Inl e
      | Inr additions \<Rightarrow> Inr (pool\<lparr>np_accounts := bm_extend (bm_iter additions) (np_accounts pool)\<rparr>))"

definition nonce_pool_new :: "address list \<Rightarrow> nonce_pool_error + nonce_pool" where
  "nonce_pool_new addresses = add_accounts addresses nonce_pool_default"

definition bind_nonce :: "address \<Rightarrow> hash \<Rightarrow> nonce_pool \<Rightarrow> nonce_pool option" where
  "bind_nonce address nonce_value pool = do {
     account \<leftarrow> bm_get (np_accounts pool) address;
     assert_that (na_state account = Free);
     assert_that (\<not> bm_contains (na_seen account) nonce_value);
     Some (pool\<lparr>np_accounts := bm_insert address
       (account\<lparr>na_state := Bound, na_seen := bs_insert nonce_value (na_seen account)\<rparr>) (np_accounts pool)\<rparr>)
   }"

definition free_nonce :: "address \<Rightarrow> nonce_pool \<Rightarrow> nonce_pool option" where
  "free_nonce address pool = do {
     account \<leftarrow> bm_get (np_accounts pool) address;
     assert_that (na_state account = Bound);
     Some (pool\<lparr>np_accounts := bm_insert address (account\<lparr>na_state := Free\<rparr>) (np_accounts pool)\<rparr>)
   }"

definition has_seen :: "nonce_pool \<Rightarrow> address \<Rightarrow> hash \<Rightarrow> bool" where
  "has_seen pool address nonce_value =
     (case bm_get (np_accounts pool) address of
        None \<Rightarrow> False
      | Some account \<Rightarrow> bm_contains (na_seen account) nonce_value)"

definition classify_read :: "nonce_pool \<Rightarrow> address \<Rightarrow> hash \<Rightarrow> hash \<Rightarrow> nonce_read" where
  "classify_read pool address bound_nonce_value read_nonce_value =
     (if read_nonce_value = bound_nonce_value then Unchanged
      else if has_seen pool address read_nonce_value then Stale
      else Advanced)"

definition pool_addresses :: "nonce_pool \<Rightarrow> address list" where
  "pool_addresses pool = bm_keys (np_accounts pool)"

definition pool_contains :: "nonce_pool \<Rightarrow> address \<Rightarrow> bool" where
  "pool_contains pool address = bm_contains (np_accounts pool) address"

definition free_accounts :: "nonce_pool \<Rightarrow> address list" where
  "free_accounts pool = map fst (filter (\<lambda>p. na_state (snd p) = Free) (bm_iter (np_accounts pool)))"

definition num_free_accounts :: "nonce_pool \<Rightarrow> nat" where
  "num_free_accounts pool = length (free_accounts pool)"

subsection \<open>The pool as a set of accounts and of spent nonce values\<close>

definition bound_accounts :: "nonce_pool \<Rightarrow> address set" where
  "bound_accounts pool = {a. \<exists>acc. bm_get (np_accounts pool) a = Some acc \<and> na_state acc = Bound}"

definition seen_values :: "nonce_pool \<Rightarrow> (address \<times> hash) set" where
  "seen_values pool = {(a, h). has_seen pool a h}"

lemma free_accounts_iff:
  "a \<in> set (free_accounts pool) \<longleftrightarrow> pool_contains pool a \<and> a \<notin> bound_accounts pool"
proof -
  have "a \<in> set (free_accounts pool) \<longleftrightarrow> (\<exists>acc. (a, acc) \<in> set (bm_iter (np_accounts pool)) \<and> na_state acc = Free)"
    unfolding free_accounts_def set_map set_filter image_iff Bex_def mem_Collect_eq split_paired_Ex fst_conv snd_conv
    by blast
  then have "a \<in> set (free_accounts pool) \<longleftrightarrow> (\<exists>acc. bm_get (np_accounts pool) a = Some acc \<and> na_state acc = Free)"
    by (simp only: bm_iter_iff)
  moreover have "na_state acc = Free \<longleftrightarrow> na_state acc \<noteq> Bound" for acc :: nonce_account
    by (cases "na_state acc") simp_all
  ultimately show ?thesis
    by (cases "bm_get (np_accounts pool) a") (auto simp: pool_contains_def bm_contains_def bound_accounts_def)
qed

lemma bind_nonce_Some_iff:
  "(\<exists>pool'. bind_nonce a h pool = Some pool') \<longleftrightarrow>
   pool_contains pool a \<and> a \<notin> bound_accounts pool \<and> (a, h) \<notin> seen_values pool"
proof (cases "bm_get (np_accounts pool) a")
  case (Some acc)
  then show ?thesis
    by (cases "na_state acc")
       (auto simp: bind_nonce_def pool_contains_def bound_accounts_def seen_values_def has_seen_def
         bm_contains_def assert_that_bind)
qed (simp add: bind_nonce_def pool_contains_def bm_contains_def)

lemma bound_accounts_insert:
  "bound_accounts (pool\<lparr>np_accounts := bm_insert a acc (np_accounts pool)\<rparr>) =
     (if na_state acc = Bound then insert a (bound_accounts pool) else bound_accounts pool - {a})"
  by (auto simp: bound_accounts_def)

lemma seen_values_insert:
  "bm_get (np_accounts pool) a = Some acc \<Longrightarrow>
   (\<And>h. bm_contains (na_seen acc') h \<longleftrightarrow> bm_contains (na_seen acc) h \<or> h \<in> H) \<Longrightarrow>
   seen_values (pool\<lparr>np_accounts := bm_insert a acc' (np_accounts pool)\<rparr>) = seen_values pool \<union> {a} \<times> H"
  by (auto simp: seen_values_def has_seen_def split: if_splits)

lemma pool_contains_insert:
  "pool_contains (pool\<lparr>np_accounts := bm_insert a acc (np_accounts pool)\<rparr>) x \<longleftrightarrow> x = a \<or> pool_contains pool x"
  by (simp add: pool_contains_def)

lemma bind_nonceD:
  assumes "bind_nonce a h pool = Some pool'"
  shows "bound_accounts pool' = insert a (bound_accounts pool)"
    and "seen_values pool' = insert (a, h) (seen_values pool)"
    and "pool_contains pool' x = pool_contains pool x"
    and "a \<notin> bound_accounts pool" and "(a, h) \<notin> seen_values pool" and "pool_contains pool a"
proof -
  from assms show "a \<notin> bound_accounts pool" "(a, h) \<notin> seen_values pool" and a: "pool_contains pool a"
    using bind_nonce_Some_iff[of a h pool] by blast+
  from assms obtain acc where acc: "bm_get (np_accounts pool) a = Some acc"
    and pool': "pool' = pool\<lparr>np_accounts := bm_insert a
       (acc\<lparr>na_state := Bound, na_seen := bs_insert h (na_seen acc)\<rparr>) (np_accounts pool)\<rparr>"
    by (auto simp: bind_nonce_def assert_that_bind Option.bind_eq_Some_conv split: if_splits)
  show "bound_accounts pool' = insert a (bound_accounts pool)"
    by (simp add: pool' bound_accounts_insert)
  show "seen_values pool' = insert (a, h) (seen_values pool)"
    unfolding pool' by (subst seen_values_insert[OF acc, of _ "{h}"]) auto
  show "pool_contains pool' x = pool_contains pool x"
    using a by (auto simp: pool' pool_contains_insert)
qed

lemma free_nonce_Some_iff: "(\<exists>pool'. free_nonce a pool = Some pool') \<longleftrightarrow> a \<in> bound_accounts pool"
  by (cases "bm_get (np_accounts pool) a") (auto simp: free_nonce_def bound_accounts_def assert_that_bind)

lemma free_nonceD:
  assumes "free_nonce a pool = Some pool'"
  shows "bound_accounts pool' = bound_accounts pool - {a}"
    and "seen_values pool' = seen_values pool"
    and "pool_contains pool' x = pool_contains pool x"
    and "a \<in> bound_accounts pool"
proof -
  from assms show "a \<in> bound_accounts pool" using free_nonce_Some_iff by blast
  from assms obtain acc where acc: "bm_get (np_accounts pool) a = Some acc"
    and pool': "pool' = pool\<lparr>np_accounts := bm_insert a (acc\<lparr>na_state := Free\<rparr>) (np_accounts pool)\<rparr>"
    by (auto simp: free_nonce_def assert_that_bind Option.bind_eq_Some_conv split: if_splits)
  show "bound_accounts pool' = bound_accounts pool - {a}" by (simp add: pool' bound_accounts_insert)
  show "seen_values pool' = seen_values pool"
    unfolding pool' by (subst seen_values_insert[OF acc, of _ "{}"]) auto
  show "pool_contains pool' x = pool_contains pool x"
    using acc by (auto simp: pool' pool_contains_insert) (simp add: pool_contains_def bm_contains_def)
qed

lemma collect_additions_Inr_iff:
  "collect_additions pool as adds = Inr adds' \<longleftrightarrow>
     distinct as \<and> (\<forall>a \<in> set as. \<not> pool_contains pool a \<and> \<not> bm_contains adds a) \<and>
     adds' = bm_extend (map (\<lambda>a. (a, nonce_account_default)) as) adds"
  by (induction pool as adds rule: collect_additions.induct)
     (auto simp: pool_contains_def bm_extend_def)

lemma add_accountsD:
  assumes "add_accounts as pool = Inr pool'"
  shows "distinct as" and "a \<in> set as \<Longrightarrow> \<not> pool_contains pool a"
    and "pool_contains pool' x \<longleftrightarrow> pool_contains pool x \<or> x \<in> set as"
    and "bound_accounts pool' = bound_accounts pool"
    and "seen_values pool' = seen_values pool"
proof -
  let ?adds = "bm_extend (map (\<lambda>a. (a, nonce_account_default)) as) bm_empty"
  have d: "distinct as" "\<forall>a \<in> set as. \<not> pool_contains pool a"
    and pool': "pool' = pool\<lparr>np_accounts := bm_extend (bm_iter ?adds) (np_accounts pool)\<rparr>"
    using assms by (auto simp: add_accounts_def collect_additions_Inr_iff split: sum.splits)
  show "distinct as" "a \<in> set as \<Longrightarrow> \<not> pool_contains pool a" using d by auto
  define adds where "adds = ?adds"
  have "map_of (rev (map (\<lambda>a. (a, nonce_account_default)) as)) x =
      (if x \<in> set as then Some nonce_account_default else None)" for x
    using map_of_map_restrict[of "\<lambda>_. nonce_account_default" "rev as"]
    by (simp add: rev_map restrict_map_def comp_def)
  then have adds: "bm_get adds x = (if x \<in> set as then Some nonce_account_default else None)" for x
    by (simp add: adds_def bm_get_extend split: if_splits)
  have "distinct (map fst (rev (bm_iter adds)))" using bm_iter_distinct[of adds] by (simp flip: rev_map)
  then have "map_of (rev (bm_iter adds)) = map_of (bm_iter adds)"
    by (subst map_of_inject_set) (simp_all add: bm_iter_distinct)
  then have rev: "map_of (rev (bm_iter adds)) = bm_get adds" by (simp add: bm_get_def fun_eq_iff)
  have get: "bm_get (np_accounts pool') x =
      (if x \<in> set as then Some nonce_account_default else bm_get (np_accounts pool) x)" for x
    using pool' by (simp add: adds_def[symmetric] bm_get_extend rev adds)
  show "pool_contains pool' x \<longleftrightarrow> pool_contains pool x \<or> x \<in> set as"
    by (simp add: pool_contains_def bm_contains_def get)
  show "bound_accounts pool' = bound_accounts pool" "seen_values pool' = seen_values pool"
    using d(2) by (auto simp: bound_accounts_def seen_values_def has_seen_def get nonce_account_default_def
        pool_contains_def bm_contains_def split: if_splits option.splits)
qed

lemma nonce_pool_default_simps [simp]:
  "bound_accounts nonce_pool_default = {}" "seen_values nonce_pool_default = {}"
  "\<not> pool_contains nonce_pool_default a"
  by (auto simp: bound_accounts_def seen_values_def has_seen_def nonce_pool_default_def pool_contains_def)

end
