(* ===== verification/Solana_Sdk.thy ===== *)
theory Solana_Sdk
  imports Cksol_Types
begin

text \<open>
  The Solana and key-derivation libraries the minter calls. Their data types are given by their
  public fields; their functions are the fields of a record \<open>sdk\<close> that every definition using
  them takes as an argument, and \<open>sdk_compiles\<close> and \<open>sdk_nonce_instruction\<close>
  name the documented behaviour that some properties rely on. \<open>example_sdk\<close> is a library that
  behaves so.

  On top of it: the message of \<^verbatim>\<open>minter/src/state/event.rs\<close>.
\<close>

subsection \<open>Data of the libraries\<close>

type_synonym public_key = "256 word"
type_synonym chain_code = "256 word"

record account_meta =
  meta_pubkey :: address
  meta_is_signer :: bool
  meta_is_writable :: bool

record instruction =
  ins_program_id :: address
  ins_accounts :: "account_meta list"
  ins_data :: bytes

record compiled_instruction =
  program_id_index :: u8
  ci_accounts :: "u8 list"
  ci_data :: bytes

record message =
  num_required_signatures :: u8
  num_readonly_signed_accounts :: u8
  num_readonly_unsigned_accounts :: u8
  account_keys :: "address list"
  recent_blockhash :: hash
  instructions :: "compiled_instruction list"

text \<open>The message of a \<open>VersionedTransaction\<close>: only legacy messages are looked into.\<close>

datatype solana_versioned_message = SolanaLegacy message | SolanaV0

record versioned_transaction =
  vt_signatures :: "signature list"
  vt_message :: solana_versioned_message

text \<open>The stored state of a nonce account: its version, and whether it is initialized, with the
  authority and the durable nonce value if so.\<close>

datatype nonce_state = NonceUninitialized | NonceInitialized (nonce_authority: address) (nonce_blockhash: hash)

datatype nonce_versions = NonceLegacy nonce_state | NonceCurrent nonce_state

text \<open>\<open>UiTransactionStatusMeta\<close>, with the error by its display text.\<close>

record status_meta =
  meta_err :: "string option"
  meta_fee :: lamport
  meta_pre_balances :: "lamport list"
  meta_post_balances :: "lamport list"

record sdk =
  sdk_transfer :: "address \<Rightarrow> address \<Rightarrow> lamport \<Rightarrow> instruction"
  sdk_advance_nonce_account :: "address \<Rightarrow> address \<Rightarrow> instruction"
  sdk_new_with_blockhash :: "instruction list \<Rightarrow> address option \<Rightarrow> hash \<Rightarrow> message"
  sdk_serialize :: "message \<Rightarrow> bytes"
  sdk_signer_keys :: "message \<Rightarrow> address list"
  sdk_is_advance_nonce_account :: "bytes \<Rightarrow> bool"
  sdk_system_program_id :: address
  sdk_serialize_raw :: "public_key \<Rightarrow> address"
  sdk_derive_subkey :: "public_key \<Rightarrow> chain_code \<Rightarrow> bytes list \<Rightarrow> public_key"
  sdk_parse_address :: "string \<Rightarrow> string + address"
  sdk_show_address :: "address \<Rightarrow> string"
  sdk_program_id :: "string \<Rightarrow> address"
  sdk_decode_transaction :: "string \<Rightarrow> versioned_transaction option"
  sdk_verify_with_results :: "versioned_transaction \<Rightarrow> bool list"
  sdk_decode_account_data :: "string \<Rightarrow> bytes option"
  sdk_deserialize_nonce :: "bytes \<Rightarrow> string + nonce_versions"
  sdk_parse_hash :: "string \<Rightarrow> string + hash"

subsection \<open>The message of the minter\<close>

datatype versioned_message = Legacy message

definition transaction_fee :: "versioned_message \<Rightarrow> lamport" where
  "transaction_fee vm = (case vm of Legacy message \<Rightarrow>
     FEE_PER_SIGNATURE * ucast (num_required_signatures message))"

definition list_get :: "'a list \<Rightarrow> nat \<Rightarrow> 'a option" where
  "list_get xs i = (if i < length xs then Some (xs ! i) else None)"

definition advanced_nonce_account :: "sdk \<Rightarrow> versioned_message \<Rightarrow> address option" where
  "advanced_nonce_account lib vm = (case vm of Legacy message \<Rightarrow> do {
     instruction \<leftarrow> list_get (instructions message) 0;
     program_id \<leftarrow> list_get (account_keys message) (unat (program_id_index instruction));
     (if program_id \<noteq> sdk_system_program_id lib \<or> \<not> sdk_is_advance_nonce_account lib (ci_data instruction)
      then None
      else do {
        nonce_account_index \<leftarrow> list_get (ci_accounts instruction) 0;
        list_get (account_keys message) (unat nonce_account_index)
      })
   })"

lemma transaction_fee_unat: "unat (transaction_fee (Legacy m)) = 5000 * unat (num_required_signatures m)"
proof -
  have "unat (num_required_signatures m) < 256" using unsigned_less[of "num_required_signatures m", where 'a = nat] by simp
  then have "5000 * unat (num_required_signatures m) < 2 ^ 64" by simp
  moreover have "unat (ucast (num_required_signatures m) :: u64) = unat (num_required_signatures m)"
    using \<open>unat (num_required_signatures m) < 256\<close> by (simp add: unsigned_ucast_eq take_bit_nat_eq_self)
  ultimately show ?thesis
    by (simp add: transaction_fee_def unat_word_ariths)
qed

subsection \<open>Documented behaviour of the libraries\<close>

text \<open>
  Compilation keeps the blockhash and every instruction in order: the indices of a compiled
  instruction point at its program and its accounts in the account keys.
\<close>

definition decompiles_to :: "address list \<Rightarrow> compiled_instruction \<Rightarrow> instruction \<Rightarrow> bool" where
  "decompiles_to keys ci ins \<longleftrightarrow>
     list_get keys (unat (program_id_index ci)) = Some (ins_program_id ins) \<and>
     map (\<lambda>i. list_get keys (unat i)) (ci_accounts ci) = map (Some \<circ> meta_pubkey) (ins_accounts ins) \<and>
     ci_data ci = ins_data ins"

definition sdk_compiles :: "sdk \<Rightarrow> instruction list \<Rightarrow> address option \<Rightarrow> hash \<Rightarrow> bool" where
  "sdk_compiles lib ins payer blockhash \<longleftrightarrow>
     (let m = sdk_new_with_blockhash lib ins payer blockhash in
      recent_blockhash m = blockhash \<and>
      list_all2 (decompiles_to (account_keys m)) (instructions m) ins)"

definition sdk_nonce_instruction :: "sdk \<Rightarrow> address \<Rightarrow> address \<Rightarrow> bool" where
  "sdk_nonce_instruction lib nonce_account authority \<longleftrightarrow>
     (let ins = sdk_advance_nonce_account lib nonce_account authority in
      ins_program_id ins = sdk_system_program_id lib \<and>
      sdk_is_advance_nonce_account lib (ins_data ins) \<and>
      ins_accounts ins \<noteq> [] \<and> meta_pubkey (hd (ins_accounts ins)) = nonce_account)"

lemma advanced_nonce_account_compiled:
  assumes "sdk_compiles lib (sdk_advance_nonce_account lib n a # ins) payer h"
    and "sdk_nonce_instruction lib n a"
  shows "advanced_nonce_account lib
           (Legacy (sdk_new_with_blockhash lib (sdk_advance_nonce_account lib n a # ins) payer h)) = Some n"
proof -
  let ?m = "sdk_new_with_blockhash lib (sdk_advance_nonce_account lib n a # ins) payer h"
  obtain ci cis where m: "instructions ?m = ci # cis"
    and ci: "decompiles_to (account_keys ?m) ci (sdk_advance_nonce_account lib n a)"
    using assms(1) by (auto simp: sdk_compiles_def Let_def list_all2_Cons2)
  obtain acc accs where accs: "ins_accounts (sdk_advance_nonce_account lib n a) = acc # accs" "meta_pubkey acc = n"
    using assms(2) by (auto simp: sdk_nonce_instruction_def Let_def neq_Nil_conv)
  then obtain i js where "ci_accounts ci = i # js" "list_get (account_keys ?m) (unat i) = Some n"
    using ci by (auto simp: decompiles_to_def)
  then show ?thesis
    using m ci assms(2)
    by (simp add: advanced_nonce_account_def list_get_def[of "_ # _"] decompiles_to_def sdk_nonce_instruction_def Let_def)
qed

subsection \<open>A library with this behaviour\<close>

fun index_of :: "'a \<Rightarrow> 'a list \<Rightarrow> nat" where
  "index_of x [] = 0"
| "index_of x (y # ys) = (if x = y then 0 else Suc (index_of x ys))"

definition example_compile :: "instruction list \<Rightarrow> address option \<Rightarrow> hash \<Rightarrow> message" where
  "example_compile ins payer blockhash =
     (let keys = (case payer of None \<Rightarrow> [] | Some p \<Rightarrow> [p]) @
            filter (\<lambda>k. payer \<noteq> Some k)
              (remdups (concat (map (\<lambda>i. map meta_pubkey (ins_accounts i) @ [ins_program_id i]) ins)))
      in \<lparr>num_required_signatures = 1, num_readonly_signed_accounts = 0,
          num_readonly_unsigned_accounts = 0, account_keys = keys, recent_blockhash = blockhash,
          instructions = map (\<lambda>i. \<lparr>program_id_index = of_nat (index_of (ins_program_id i) keys),
            ci_accounts = map (\<lambda>a. of_nat (index_of (meta_pubkey a) keys)) (ins_accounts i),
            ci_data = ins_data i\<rparr>) ins\<rparr>)"

definition example_sdk :: sdk where
  "example_sdk =
     \<lparr>sdk_transfer = (\<lambda>from to amount.
        \<lparr>ins_program_id = 0, ins_accounts =
           [\<lparr>meta_pubkey = from, meta_is_signer = True, meta_is_writable = True\<rparr>,
            \<lparr>meta_pubkey = to, meta_is_signer = False, meta_is_writable = True\<rparr>],
         ins_data = 2 # be_bytes 8 amount\<rparr>),
      sdk_advance_nonce_account = (\<lambda>nonce_account authority.
        \<lparr>ins_program_id = 0, ins_accounts =
           [\<lparr>meta_pubkey = nonce_account, meta_is_signer = False, meta_is_writable = True\<rparr>,
            \<lparr>meta_pubkey = authority, meta_is_signer = True, meta_is_writable = False\<rparr>],
         ins_data = [4]\<rparr>),
      sdk_new_with_blockhash = example_compile,
      sdk_serialize = (\<lambda>m. replicate (length (account_keys m)) 0),
      sdk_signer_keys = (\<lambda>m. take (unat (num_required_signatures m)) (account_keys m)),
      sdk_is_advance_nonce_account = (\<lambda>data. data = [4]),
      sdk_system_program_id = 0,
      sdk_serialize_raw = (\<lambda>k. k),
      sdk_derive_subkey = (\<lambda>k c path. k + of_nat (Suc (length (concat path)))),
      sdk_parse_address = (\<lambda>t. if t = [] then Inl ''empty'' else Inr (of_nat (length t))),
      sdk_show_address = (\<lambda>a. replicate (unat a mod 64) CHR ''1''),
      sdk_program_id = (\<lambda>name. of_nat (1000 + length name)),
      sdk_decode_transaction = (\<lambda>t. if t = [] then None else Some
        \<lparr>vt_signatures = [of_nat (length t)], vt_message = SolanaLegacy (example_compile [] None 0)\<rparr>),
      sdk_verify_with_results = (\<lambda>tx. map (\<lambda>_. True) (vt_signatures tx)),
      sdk_decode_account_data = (\<lambda>t. if t = [] then None else Some (replicate (length t) 0)),
      sdk_deserialize_nonce = (\<lambda>data. if length data = 80
        then Inr (NonceCurrent (NonceInitialized 9 44)) else Inl ''unexpected length''),
      sdk_parse_hash = (\<lambda>t. if t = [] then Inl ''empty'' else Inr (of_nat (length t)))\<rparr>"

end
