(* ===== verification/Derivation.thy ===== *)
theory Derivation
  imports Solana_Sdk
begin

text \<open>
  Address derivation (\<^verbatim>\<open>minter/src/address/mod.rs\<close>), the signers of a transaction
  (\<^verbatim>\<open>minter/src/state/event.rs\<close>) and signing (\<^verbatim>\<open>minter/src/signer/mod.rs\<close>).
\<close>

type_synonym derivation_path = "bytes list"

record schnorr_public_key =
  spk_public_key :: public_key
  spk_chain_code :: chain_code

definition MINTER_DERIVATION_PATH :: derivation_path where
  "MINTER_DERIVATION_PATH = []"

definition derivation_path :: "account \<Rightarrow> derivation_path" where
  "derivation_path account =
     [[1], principal_bytes (account_owner account), be_bytes 32 (effective_subaccount account)]"

definition derive_public_key :: "sdk \<Rightarrow> schnorr_public_key \<Rightarrow> derivation_path \<Rightarrow> public_key" where
  "derive_public_key lib master_key path =
     sdk_derive_subkey lib (spk_public_key master_key) (spk_chain_code master_key) path"

definition derive_public_key_from_account :: "sdk \<Rightarrow> schnorr_public_key \<Rightarrow> account \<Rightarrow> public_key" where
  "derive_public_key_from_account lib master_key account =
     derive_public_key lib master_key (derivation_path account)"

definition minter_address :: "sdk \<Rightarrow> schnorr_public_key \<Rightarrow> address" where
  "minter_address lib master_key = sdk_serialize_raw lib (spk_public_key master_key)"

definition account_address :: "sdk \<Rightarrow> schnorr_public_key \<Rightarrow> account \<Rightarrow> address" where
  "account_address lib master_key account =
     sdk_serialize_raw lib (derive_public_key_from_account lib master_key account)"

datatype signer = SignerMinter | SignerAccount account

definition signer_derivation_path :: "signer \<Rightarrow> derivation_path" where
  "signer_derivation_path s = (case s of
     SignerMinter \<Rightarrow> MINTER_DERIVATION_PATH
   | SignerAccount account \<Rightarrow> derivation_path account)"

subsection \<open>Signing\<close>

text \<open>The big-endian word of a byte string.\<close>

definition be_word :: "bytes \<Rightarrow> 'a::len word" where
  "be_word bs = foldl (\<lambda>w b. w * 256 + ucast b) 0 bs"

definition signature_from_bytes :: "bytes \<Rightarrow> signature option" where
  "signature_from_bytes bs = (if length bs = 64 then Some (be_word bs) else None)"

text \<open>
  \<open>sign_bytes\<close> against a signer that answers every request; of several failures the first in the
  order of the paths is reported. A signature that is not 64 bytes long traps.
\<close>

definition sign_bytes ::
  "derivation_path list \<Rightarrow> (bytes \<Rightarrow> derivation_path \<Rightarrow> 'e + bytes) \<Rightarrow> bytes \<Rightarrow>
   ('e + signature list) option" where
  "sign_bytes paths sign bs =
     (case collect_res (map (sign bs) paths) of
        Inl e \<Rightarrow> Some (Inl e)
      | Inr raw \<Rightarrow> map_option Inr (collect_opt (map signature_from_bytes raw)))"

lemma sign_bytes_length:
  "sign_bytes paths sign bs = Some (Inr sigs) \<Longrightarrow> length sigs = length paths"
  by (auto simp: sign_bytes_def collect_res_Inr_iff collect_opt_Some_iff
      dest!: arg_cong[where f = length] split: sum.splits)

subsection \<open>Properties\<close>

text \<open>C28: Signers have distinct derivation paths: the path of an account determines the account,
  and no account path is the path of the main address of the minter.\<close>

theorem signer_derivation_path_inj: "inj signer_derivation_path"
proof -
  have "a = b" if "derivation_path a = derivation_path b" for a b
  proof -
    have "be_bytes 32 (effective_subaccount a) = be_bytes 32 (effective_subaccount b)"
      and "principal_bytes (account_owner a) = principal_bytes (account_owner b)"
      using that by (simp_all add: derivation_path_def)
    then show "a = b"
      using be_bytes_inj[of 32 "effective_subaccount a" "effective_subaccount b"]
      by (simp add: account.expand principal.expand)
  qed
  moreover have "derivation_path a \<noteq> MINTER_DERIVATION_PATH" for a
    by (simp add: derivation_path_def MINTER_DERIVATION_PATH_def)
  ultimately show ?thesis
    by (auto simp: inj_def signer_derivation_path_def eq_commute[of MINTER_DERIVATION_PATH] split: signer.splits)
qed

end
