(* ===== verification/Sweeps.thy ===== *)
theory Sweeps
  imports Derivation BTree_Map "HOL-Library.Multiset"
begin

text \<open>
  \<^verbatim>\<open>minter/src/state/deposits/sweeps/mod.rs\<close>: the plan of a sweep transaction, its recovery from
  a submitted message, and the settlement of its outcome; with the queued deposit of
  \<^verbatim>\<open>minter/src/state/deposits/mod.rs\<close> and the credited deposit of \<^verbatim>\<open>minter/src/state/event.rs\<close>.
\<close>

subsection \<open>Data\<close>

record queued_deposit =
  qd_account :: account
  qd_address :: address
  qd_balance :: deposit_balance
  qd_deposit_fee :: "lamport option"

definition sweepable_amount :: "queued_deposit \<Rightarrow> lamport" where
  "sweepable_amount d = deposit_balance_sweepable (qd_balance d)"

definition deposit_fee :: "queued_deposit \<Rightarrow> lamport" where
  "deposit_fee d = (case qd_deposit_fee d of None \<Rightarrow> 0 | Some fee \<Rightarrow> fee)"

record transfer =
  tr_deposit_id :: deposit_sol_id
  tr_from :: address
  tr_amount :: lamport

record sweep =
  sw_deposits :: "(deposit_sol_id, queued_deposit) btree_map"
  sw_fee_payer :: deposit_sol_id
  sw_fee :: lamport
  sw_minter_address :: address
  sw_transfers :: "transfer list"
  sw_expected_received :: lamport

record credited_deposit =
  cd_deposit_id :: deposit_sol_id
  cd_amount_to_mint :: lamport

record settled_sweep =
  ss_amount_received :: lamport
  ss_mints :: "credited_deposit list"

datatype unreadable_outcome = NoMetaField | IncompleteBalances

datatype sweep_mint_error =
  FeesExceedSweepableAmount deposit_sol_id lamport lamport lamport

datatype sweep_mismatch =
    TransactionFailed string
  | UnexpectedMessage
  | UnexpectedFee lamport lamport
  | UnexpectedBalanceChange address lamport lamport lamport
  | NotRentExempt address lamport
  | MainAccountDebited lamport lamport
  | UnexpectedAmountReceived lamport lamport
  | SweepMint sweep_mint_error

datatype sweep_settlement_error = Unreadable unreadable_outcome | Mismatch sweep_mismatch

datatype sweep_recovery_error = RecoveryUnexpectedMessage versioned_message versioned_message

subsection \<open>Planning\<close>

definition unique_deposits ::
  "(deposit_sol_id \<times> queued_deposit) list \<Rightarrow> (deposit_sol_id, queued_deposit) btree_map option" where
  "unique_deposits deposits =
     foldM (\<lambda>(deposit_id, deposit) unique.
         if bm_contains unique deposit_id then None else Some (bm_insert deposit_id deposit unique))
       deposits bm_empty"

definition fee_payer_key :: "deposit_sol_id \<times> queued_deposit \<Rightarrow> lamport \<times> deposit_sol_id reverse" where
  "fee_payer_key p = (sweepable_amount (snd p), Reverse (fst p))"

definition other_transfer :: "deposit_sol_id \<times> queued_deposit \<Rightarrow> transfer" where
  "other_transfer p =
     \<lparr>tr_deposit_id = fst p, tr_from = qd_address (snd p), tr_amount = sweepable_amount (snd p)\<rparr>"

definition plan :: "(deposit_sol_id \<times> queued_deposit) list \<Rightarrow> address \<Rightarrow> sweep option" where
  "plan deposits to = do {
     unique \<leftarrow> unique_deposits deposits;
     (fee_payer, fee_payer_deposit) \<leftarrow> max_by_key fee_payer_key (bm_iter unique);
     let fee = FEE_PER_SIGNATURE * of_nat (bm_len unique);
     let others = sort_key (\<lambda>p. (Reverse (sweepable_amount (snd p)), fst p))
                    (filter (\<lambda>p. fst p \<noteq> fee_payer) (bm_iter unique));
     amount \<leftarrow> checked_sub (sweepable_amount fee_payer_deposit) fee;
     let transfers = \<lparr>tr_deposit_id = fee_payer, tr_from = qd_address fee_payer_deposit, tr_amount = amount\<rparr>
                       # map other_transfer others;
     Some \<lparr>sw_deposits = unique, sw_fee_payer = fee_payer, sw_fee = fee, sw_minter_address = to,
           sw_transfers = transfers, sw_expected_received = sum_list (map tr_amount transfers)\<rparr>
   }"

definition sweep_message :: "sdk \<Rightarrow> sweep \<Rightarrow> hash \<Rightarrow> message" where
  "sweep_message lib s blockhash =
     sdk_new_with_blockhash lib
       (map (\<lambda>t. sdk_transfer lib (tr_from t) (sw_minter_address s) (tr_amount t)) (sw_transfers s))
       (map_option tr_from (list_get (sw_transfers s) 0)) blockhash"

definition recover ::
  "sdk \<Rightarrow> (deposit_sol_id \<times> queued_deposit) list \<Rightarrow> address \<Rightarrow> versioned_message \<Rightarrow>
   (sweep_recovery_error + sweep) option" where
  "recover lib deposits to submitted = (case submitted of Legacy message \<Rightarrow> do {
     sweep \<leftarrow> plan deposits to;
     let planned = Legacy (sweep_message lib sweep (recent_blockhash message));
     Some (if planned \<noteq> submitted then Inl (RecoveryUnexpectedMessage planned submitted) else Inr sweep)
   })"

definition deposit_count :: "sweep \<Rightarrow> nat" where
  "deposit_count s = bm_len (sw_deposits s)"

subsection \<open>Settlement\<close>

definition credit_deposit ::
  "lamport \<Rightarrow> deposit_sol_id \<times> queued_deposit \<Rightarrow> sweep_mint_error + credited_deposit" where
  "credit_deposit fee_share p =
     (case Option.bind (checked_sub (sweepable_amount (snd p)) fee_share)
             (\<lambda>amount. checked_sub amount (deposit_fee (snd p))) of
        None \<Rightarrow> Inl (FeesExceedSweepableAmount (fst p) (sweepable_amount (snd p)) fee_share (deposit_fee (snd p)))
      | Some amount \<Rightarrow> Inr \<lparr>cd_deposit_id = fst p, cd_amount_to_mint = amount\<rparr>)"

definition mints :: "sweep \<Rightarrow> sweep_mint_error + credited_deposit list" where
  "mints s =
     (let fee_share = div_ceil (sw_fee s) (of_nat (deposit_count s))
      in collect_res (map (credit_deposit fee_share) (bm_iter (sw_deposits s))))"

definition deposit_fees :: "sweep \<Rightarrow> lamport" where
  "deposit_fees s = sum_list (map deposit_fee (bm_values (sw_deposits s)))"

type_synonym balances = "(address, lamport \<times> lamport) btree_map"

definition balance_of :: "balances \<Rightarrow> address \<Rightarrow> sweep_mismatch + lamport \<times> lamport" where
  "balance_of balances address = ok_or (bm_get balances address) UnexpectedMessage"

fun check_transfers ::
  "balances \<Rightarrow> deposit_sol_id \<Rightarrow> lamport \<Rightarrow> transfer list \<Rightarrow> sweep_mismatch + unit" where
  "check_transfers balances fee_payer fee [] = Inr ()"
| "check_transfers balances fee_payer fee (t # ts) =
     (case balance_of balances (tr_from t) of
        Inl e \<Rightarrow> Inl e
      | Inr (pre, post) \<Rightarrow>
          let fee_paid = (if tr_deposit_id t = fee_payer then fee else 0);
              expected_decrease = tr_amount t + fee_paid
          in if checked_sub pre post \<noteq> Some expected_decrease
             then Inl (UnexpectedBalanceChange (tr_from t) pre post expected_decrease)
             else if post < RENT_EXEMPTION_THRESHOLD then Inl (NotRentExempt (tr_from t) post)
             else check_transfers balances fee_payer fee ts)"

definition settle ::
  "sdk \<Rightarrow> sweep \<Rightarrow> solana_versioned_message \<Rightarrow> status_meta option \<Rightarrow>
   sweep_settlement_error + settled_sweep" where
  "settle lib s transaction meta_opt =
     (case meta_opt of
        None \<Rightarrow> Inl (Unreadable NoMetaField)
      | Some meta \<Rightarrow>
     (case meta_err meta of
        Some error \<Rightarrow> Inl (Mismatch (TransactionFailed error))
      | None \<Rightarrow>
     (case transaction of
        SolanaV0 \<Rightarrow> Inl (Mismatch UnexpectedMessage)
      | SolanaLegacy message \<Rightarrow>
     (if message \<noteq> sweep_message lib s (recent_blockhash message)
      then Inl (Mismatch UnexpectedMessage)
      else if length (meta_pre_balances meta) \<noteq> length (account_keys message) \<or>
              length (meta_post_balances meta) \<noteq> length (account_keys message)
      then Inl (Unreadable IncompleteBalances)
      else if meta_fee meta > sw_fee s
      then Inl (Mismatch (UnexpectedFee (sw_fee s) (meta_fee meta)))
      else
        let balances = bm_collect (zip (account_keys message)
              (zip (meta_pre_balances meta) (meta_post_balances meta)))
        in (case check_transfers balances (sw_fee_payer s) (meta_fee meta) (sw_transfers s) of
              Inl e \<Rightarrow> Inl (Mismatch e)
            | Inr _ \<Rightarrow>
           (case balance_of balances (sw_minter_address s) of
              Inl e \<Rightarrow> Inl (Mismatch e)
            | Inr (pre, post) \<Rightarrow>
           (case checked_sub post pre of
              None \<Rightarrow> Inl (Mismatch (MainAccountDebited pre post))
            | Some amount_received \<Rightarrow>
              if amount_received \<noteq> sw_expected_received s
              then Inl (Mismatch (UnexpectedAmountReceived (sw_expected_received s) amount_received))
              else (case mints s of
                 Inl e \<Rightarrow> Inl (Mismatch (SweepMint e))
               | Inr ms \<Rightarrow> Inr \<lparr>ss_amount_received = amount_received, ss_mints = ms\<rparr>))))))))"

subsection \<open>The sweeps at one stage\<close>

record sweeps =
  by_signature :: "(signature, sweep) btree_map"

definition sweeps_empty :: sweeps where
  "sweeps_empty = \<lparr>by_signature = bm_empty\<rparr>"

definition sweeps_get :: "sweeps \<Rightarrow> signature \<Rightarrow> sweep option" where
  "sweeps_get s sig = bm_get (by_signature s) sig"

definition sweeps_deposit :: "sweeps \<Rightarrow> deposit_sol_id \<Rightarrow> (signature \<times> queued_deposit) option" where
  "sweeps_deposit s deposit_id =
     find_map (\<lambda>(sig, sweep). map_option (Pair sig) (bm_get (sw_deposits sweep) deposit_id))
       (bm_iter (by_signature s))"

definition sweeps_signatures :: "sweeps \<Rightarrow> signature list" where
  "sweeps_signatures s = bm_keys (by_signature s)"

definition sweeps_len :: "sweeps \<Rightarrow> nat" where
  "sweeps_len s = bm_len (by_signature s)"

definition sweeps_deposit_count :: "sweeps \<Rightarrow> nat" where
  "sweeps_deposit_count s = sum_list (map deposit_count (bm_values (by_signature s)))"

definition sweeps_insert :: "signature \<Rightarrow> sweep \<Rightarrow> sweeps \<Rightarrow> sweeps option" where
  "sweeps_insert sig sweep s = do {
     assert_that (\<forall>deposit_id \<in> set (bm_keys (sw_deposits sweep)). sweeps_deposit s deposit_id = None);
     assert_that (\<not> bm_contains (by_signature s) sig);
     Some (s\<lparr>by_signature := bm_insert sig sweep (by_signature s)\<rparr>)
   }"

definition sweeps_remove :: "signature \<Rightarrow> sweeps \<Rightarrow> (sweeps \<times> sweep) option" where
  "sweeps_remove sig s =
     (case bm_get (by_signature s) sig of
        None \<Rightarrow> None
      | Some sweep \<Rightarrow> Some (s\<lparr>by_signature := bm_remove sig (by_signature s)\<rparr>, sweep))"

subsection \<open>What a plan contains\<close>

lemma bm_collect_distinct:
  assumes "distinct (map fst ps)"
  shows "bm_get (bm_collect ps) = map_of ps" and "mset (bm_iter (bm_collect ps)) = mset ps"
proof -
  have "distinct (map fst (rev ps))" using assms by (simp flip: rev_map)
  then have "map_of (rev ps) = map_of ps" using assms by (subst map_of_inject_set) simp_all
  then show get: "bm_get (bm_collect ps) = map_of ps" by (simp add: bm_get_collect fun_eq_iff)
  have "set (bm_iter (bm_collect ps)) = set ps"
    using assms get by (auto simp: bm_iter_iff)
  then show "mset (bm_iter (bm_collect ps)) = mset ps"
    using assms bm_iter_distinct[of "bm_collect ps"]
    by (metis distinct_map set_eq_iff_mset_eq_distinct)
qed

lemma bm_collect_iter: "bm_collect (bm_iter m) = m"
  by (rule bm_ext) (simp add: bm_collect_distinct(1)[OF bm_iter_distinct] bm_get_def)

lemma bm_collect_mset:
  assumes "distinct (map fst ps)" and "mset ps = mset qs"
  shows "bm_collect ps = bm_collect qs"
proof (rule bm_ext)
  fix k
  have "mset (map fst ps) = mset (map fst qs)" using assms(2) by simp
  then have dist: "distinct (map fst qs)" using assms(1) mset_eq_imp_distinct_iff by blast
  have "map_of ps = map_of qs"
    using map_of_inject_set[OF assms(1) dist] mset_eq_setD[OF assms(2)] by blast
  then show "bm_get (bm_collect ps) k = bm_get (bm_collect qs) k"
    by (simp add: bm_collect_distinct(1)[OF assms(1)] bm_collect_distinct(1)[OF dist])
qed

lemma unique_deposits_gen:
  "foldM (\<lambda>(i, d) u. if bm_contains u i then None else Some (bm_insert i d u)) ds m = Some u \<longleftrightarrow>
   distinct (map fst ds) \<and> (\<forall>p \<in> set ds. \<not> bm_contains m (fst p)) \<and> u = bm_extend ds m"
proof (induction ds arbitrary: m)
  case (Cons p ds)
  obtain i d where p: "p = (i, d)" by force
  have "i \<notin> fst ` set ds \<longleftrightarrow> (\<forall>q \<in> set ds. fst q \<noteq> i)" by auto
  then show ?case by (auto simp: p Cons.IH bm_extend_def)
qed (auto simp: bm_extend_def)

lemma unique_deposits_Some_iff:
  "unique_deposits ds = Some u \<longleftrightarrow> distinct (map fst ds) \<and> u = bm_collect ds"
  by (simp add: unique_deposits_def unique_deposits_gen bm_collect_def)

lemma unique_deposits_None_iff: "unique_deposits ds = None \<longleftrightarrow> \<not> distinct (map fst ds)"
  using unique_deposits_Some_iff[of ds] by (cases "unique_deposits ds") auto

text \<open>The transfers of a plan over the given map of deposits.\<close>

definition other_deposits ::
  "(deposit_sol_id, queued_deposit) btree_map \<Rightarrow> deposit_sol_id \<Rightarrow> (deposit_sol_id \<times> queued_deposit) list" where
  "other_deposits u fee_payer =
     sort_key (\<lambda>p. (Reverse (sweepable_amount (snd p)), fst p)) (filter (\<lambda>p. fst p \<noteq> fee_payer) (bm_iter u))"

lemma planE:
  assumes "plan ds a = Some s"
  obtains p amount where "distinct (map fst ds)" "sw_deposits s = bm_collect ds"
    "max_by_key fee_payer_key (bm_iter (sw_deposits s)) = Some p" "sw_fee_payer s = fst p"
    "sw_fee s = FEE_PER_SIGNATURE * of_nat (bm_len (sw_deposits s))" "sw_minter_address s = a"
    "checked_sub (sweepable_amount (snd p)) (sw_fee s) = Some amount"
    "sw_transfers s = \<lparr>tr_deposit_id = fst p, tr_from = qd_address (snd p), tr_amount = amount\<rparr>
       # map other_transfer (other_deposits (sw_deposits s) (fst p))"
    "sw_expected_received s = sum_list (map tr_amount (sw_transfers s))"
proof -
  from assms obtain u where u: "unique_deposits ds = Some u"
    by (auto simp: plan_def Option.bind_eq_Some_conv)
  from assms u obtain i d where p: "max_by_key fee_payer_key (bm_iter u) = Some (i, d)"
    by (simp add: plan_def Option.bind_eq_Some_conv) blast
  from assms u p obtain amount where
    amount: "checked_sub (sweepable_amount d) (FEE_PER_SIGNATURE * of_nat (bm_len u)) = Some amount"
    by (simp add: plan_def Let_def Option.bind_eq_Some_conv) blast
  have s: "s = \<lparr>sw_deposits = u, sw_fee_payer = i, sw_fee = FEE_PER_SIGNATURE * of_nat (bm_len u),
      sw_minter_address = a, sw_transfers =
        \<lparr>tr_deposit_id = i, tr_from = qd_address d, tr_amount = amount\<rparr> # map other_transfer (other_deposits u i),
      sw_expected_received = sum_list (map tr_amount
        (\<lparr>tr_deposit_id = i, tr_from = qd_address d, tr_amount = amount\<rparr> # map other_transfer (other_deposits u i)))\<rparr>"
    using assms u p amount by (simp add: plan_def Let_def other_deposits_def)
  show thesis
    by (rule that[of "(i, d)" amount]) (use u p amount in \<open>simp_all add: s unique_deposits_Some_iff\<close>)
qed

text \<open>A plan depends on the set of deposits only, so it can be made again from its own deposits.\<close>

lemma plan_mset:
  assumes "mset ds = mset ds'"
  shows "plan ds a = plan ds' a"
proof -
  have "mset (map fst ds) = mset (map fst ds')" using assms by simp
  then have "distinct (map fst ds) = distinct (map fst ds')" by (rule mset_eq_imp_distinct_iff)
  then have "unique_deposits ds = unique_deposits ds'"
    using bm_collect_mset[OF _ assms] unique_deposits_Some_iff[of ds] unique_deposits_None_iff[of ds]
      unique_deposits_Some_iff[of ds'] unique_deposits_None_iff[of ds']
    by (cases "unique_deposits ds"; cases "unique_deposits ds'") auto
  then show ?thesis by (simp add: plan_def)
qed

definition planned :: "sweep \<Rightarrow> bool" where
  "planned s \<longleftrightarrow> plan (bm_iter (sw_deposits s)) (sw_minter_address s) = Some s"

lemma plan_planned:
  assumes "plan ds a = Some s"
  shows "planned s"
proof -
  from assms have "distinct (map fst ds)" "sw_deposits s = bm_collect ds" "sw_minter_address s = a"
    by (auto elim: planE)
  then show ?thesis
    using plan_mset[OF bm_collect_distinct(2)] assms by (simp add: planned_def)
qed

lemma max_by_key_in: "max_by_key f xs = Some y \<Longrightarrow> y \<in> set xs"
  using max_by_key_SomeD by fast

lemma plan_nonempty: "plan ds a = Some s \<Longrightarrow> ds \<noteq> [] \<and> 0 < bm_len (sw_deposits s)"
  by (erule planE) (auto simp: bm_len_def bm_collect_def bm_extend_def dest: max_by_key_in)

lemma mset_other_deposits:
  assumes "p \<in> set (bm_iter u)"
  shows "mset (bm_iter u) = add_mset p (mset (other_deposits u (fst p)))"
proof -
  have dist: "distinct (bm_iter u)" using bm_iter_distinct[of u] by (simp add: distinct_map)
  have "bm_get u (fst p) = Some (snd p)" using assms by (simp flip: bm_iter_iff)
  then have "q = p" if "q \<in> set (bm_iter u)" "fst q = fst p" for q
    using that by (cases q) (auto simp: bm_iter_iff)
  then have "set (bm_iter u) = set (p # other_deposits u (fst p))"
    using assms by (auto simp: other_deposits_def)
  moreover have "distinct (p # other_deposits u (fst p))"
    using dist by (auto simp: other_deposits_def distinct_sort)
  ultimately show ?thesis
    using set_eq_iff_mset_eq_distinct[OF dist, of "p # other_deposits u (fst p)"] by simp
qed

lemma sum_list_mset_nat: "mset xs = mset ys \<Longrightarrow> sum_list (map f xs) = sum_list (map (f :: _ \<Rightarrow> nat) ys)"
  by (metis mset_map sum_mset_sum_list)

lemma plan_transfer_sum:
  assumes "plan ds a = Some s"
  shows "sum_list (map (unat \<circ> tr_amount) (sw_transfers s)) + unat (sw_fee s) =
         sum_list (map (unat \<circ> sweepable_amount) (bm_values (sw_deposits s)))"
proof -
  from assms obtain p amount where
    p: "max_by_key fee_payer_key (bm_iter (sw_deposits s)) = Some p"
    and amount: "checked_sub (sweepable_amount (snd p)) (sw_fee s) = Some amount"
    and ts: "sw_transfers s = \<lparr>tr_deposit_id = fst p, tr_from = qd_address (snd p), tr_amount = amount\<rparr>
       # map other_transfer (other_deposits (sw_deposits s) (fst p))"
    by (rule planE)
  have "mset (bm_iter (sw_deposits s)) = mset (p # other_deposits (sw_deposits s) (fst p))"
    using mset_other_deposits[OF max_by_key_in[OF p]] by simp
  from sum_list_mset_nat[OF this, of "\<lambda>q. unat (sweepable_amount (snd q))"]
  show ?thesis
    using amount by (simp add: ts bm_values_def comp_def other_transfer_def checked_sub_Some_iff)
qed

lemma plan_transfer_ids:
  assumes "plan ds a = Some s"
  shows "mset (map tr_deposit_id (sw_transfers s)) = mset (bm_keys (sw_deposits s))"
proof -
  from assms obtain p amount where
    p: "max_by_key fee_payer_key (bm_iter (sw_deposits s)) = Some p"
    and ts: "sw_transfers s = \<lparr>tr_deposit_id = fst p, tr_from = qd_address (snd p), tr_amount = amount\<rparr>
       # map other_transfer (other_deposits (sw_deposits s) (fst p))"
    by (rule planE)
  have "mset (map fst (bm_iter (sw_deposits s))) = mset (map fst (p # other_deposits (sw_deposits s) (fst p)))"
    using mset_other_deposits[OF max_by_key_in[OF p]] by simp
  then show ?thesis by (simp add: ts bm_keys_def comp_def other_transfer_def)
qed

lemma plan_transfer:
  assumes "plan ds a = Some s" and "t \<in> set (sw_transfers s)"
  shows "\<exists>d. bm_get (sw_deposits s) (tr_deposit_id t) = Some d \<and> tr_from t = qd_address d \<and>
    unat (sweepable_amount d) =
      unat (tr_amount t) + (if tr_deposit_id t = sw_fee_payer s then unat (sw_fee s) else 0)"
proof -
  from assms(1) obtain p amount where
    p: "max_by_key fee_payer_key (bm_iter (sw_deposits s)) = Some p" "sw_fee_payer s = fst p"
    and amount: "checked_sub (sweepable_amount (snd p)) (sw_fee s) = Some amount"
    and ts: "sw_transfers s = \<lparr>tr_deposit_id = fst p, tr_from = qd_address (snd p), tr_amount = amount\<rparr>
       # map other_transfer (other_deposits (sw_deposits s) (fst p))"
    by (rule planE)
  have "bm_get (sw_deposits s) (fst p) = Some (snd p)"
    using max_by_key_in[OF p(1)] by (simp flip: bm_iter_iff)
  then show ?thesis
    using assms(2) amount p(2)
    by (auto simp: ts other_deposits_def other_transfer_def bm_iter_iff checked_sub_Some_iff)
qed

lemma plan_expected_received:
  assumes "plan ds a = Some s"
    and "sum_list (map (unat \<circ> sweepable_amount) (bm_values (sw_deposits s))) < 2 ^ 64"
  shows "unat (sw_expected_received s) + unat (sw_fee s) =
         sum_list (map (unat \<circ> sweepable_amount) (bm_values (sw_deposits s)))"
proof -
  have "sw_expected_received s = sum_list (map tr_amount (sw_transfers s))"
    using assms(1) by (auto elim: planE)
  moreover have "sum_list (map unat (map tr_amount (sw_transfers s))) < 2 ^ 64"
    using plan_transfer_sum[OF assms(1)] assms(2) by simp
  ultimately show ?thesis
    using plan_transfer_sum[OF assms(1)] unat_sum_list_word[of "map tr_amount (sw_transfers s)"] by simp
qed

text \<open>A plan exists exactly for distinct deposits of which one covers the fee.\<close>

lemma plan_exists:
  assumes "distinct (map fst ds)" and "(i, d) \<in> set ds"
    and "FEE_PER_SIGNATURE * of_nat (length ds) \<le> sweepable_amount d"
  shows "\<exists>s. plan ds a = Some s"
proof -
  let ?u = "bm_collect ds"
  have mset: "mset (bm_iter ?u) = mset ds" by (rule bm_collect_distinct(2)[OF assms(1)])
  then have len: "bm_len ?u = length ds" by (metis bm_len_def size_mset)
  have mem: "(i, d) \<in> set (bm_iter ?u)" using mset assms(2) by (metis set_mset_mset)
  then have "bm_iter ?u \<noteq> []" by (metis empty_iff empty_set)
  then obtain p where p: "max_by_key fee_payer_key (bm_iter ?u) = Some p"
    using max_by_key_None_iff[of fee_payer_key "bm_iter ?u"] by blast
  have "fee_payer_key (i, d) \<le> fee_payer_key p" 
    using conjunct2[OF max_by_key_SomeD[OF p]] mem by (rule bspec)
  then have "sweepable_amount d \<le> sweepable_amount (snd p)" by (auto simp: fee_payer_key_def)
  then have "FEE_PER_SIGNATURE * of_nat (bm_len ?u) \<le> sweepable_amount (snd p)"
    using assms(3) len by simp
  moreover have "unique_deposits ds = Some ?u" using assms(1) unique_deposits_Some_iff by blast
  ultimately show ?thesis
    using p by (cases p) (simp add: plan_def Let_def checked_sub_def)
qed

subsection \<open>What a settlement credits\<close>

lemma div_ceil_mult: "b \<noteq> 0 \<Longrightarrow> unat a \<le> unat (div_ceil a b) * unat b" for a b :: "'a::len word"
proof -
  assume b: "b \<noteq> 0"
  define q r where "q = unat a div unat b" and "r = unat a mod unat b"
  have a: "unat a = q * unat b + r" and r: "r < unat b"
    using b by (simp_all add: q_def r_def unat_gt_0)
  have q: "unat (a div b) = q" and m: "unat (a mod b) = r"
    by (simp_all add: q_def r_def unat_div_distrib unat_mod_distrib)
  show ?thesis
  proof (cases "r = 0")
    case True
    then have "\<not> a mod b > 0" using m by (simp add: word_less_nat_alt)
    then show ?thesis using True a q by (simp add: div_ceil_def)
  next
    case False
    then have "a mod b > 0" using m by (simp add: word_less_nat_alt)
    then have dc: "div_ceil a b = a div b + 1" by (simp add: div_ceil_def)
    have "q * 1 \<le> q * unat b" using r by (intro mult_left_mono) auto
    then have "q + 1 \<le> unat a" using False a by linarith
    also have "\<dots> < 2 ^ LENGTH('a)" by (rule unsigned_less)
    finally have "unat (a div b + 1) = q + 1" using q by (subst unat_plus_no_overflow) simp_all
    then show ?thesis using a r by (simp add: dc)
  qed
qed

lemma credit_deposit_Inr:
  "credit_deposit share p = Inr c \<Longrightarrow>
     cd_deposit_id c = fst p \<and>
     unat (sweepable_amount (snd p)) = unat (cd_amount_to_mint c) + unat (deposit_fee (snd p)) + unat share"
  by (auto simp: credit_deposit_def checked_sub_Some_iff Option.bind_eq_Some_conv split: option.splits)

lemma mints_InrD:
  assumes "mints s = Inr ms"
  shows "list_all2 (\<lambda>p c. credit_deposit (div_ceil (sw_fee s) (of_nat (deposit_count s))) p = Inr c)
           (bm_iter (sw_deposits s)) ms"
proof -
  have "map (credit_deposit (div_ceil (sw_fee s) (of_nat (deposit_count s)))) (bm_iter (sw_deposits s)) =
      map Inr ms"
    using assms by (simp add: mints_def Let_def collect_res_Inr_iff)
  then have "list_all2 (=) (map (credit_deposit (div_ceil (sw_fee s) (of_nat (deposit_count s))))
      (bm_iter (sw_deposits s))) (map Inr ms)"
    by (simp only: list.rel_eq)
  then show ?thesis by (simp only: list.rel_map)
qed

lemma mints_keys:
  assumes "mints s = Inr ms"
  shows "map cd_deposit_id ms = bm_keys (sw_deposits s)"
proof -
  have "list_all2 (\<lambda>p c. cd_deposit_id c = fst p) (bm_iter (sw_deposits s)) ms"
    by (rule list_all2_mono[OF mints_InrD[OF assms]]) (simp add: credit_deposit_Inr)
  then show ?thesis by (simp add: bm_keys_def list_all2_conv_all_nth list_eq_iff_nth_eq)
qed

lemma mints_sum:
  assumes "mints s = Inr ms"
  shows "sum_list (map (unat \<circ> cd_amount_to_mint) ms) + sum_list (map (unat \<circ> deposit_fee) (bm_values (sw_deposits s)))
       + deposit_count s * unat (div_ceil (sw_fee s) (of_nat (deposit_count s))) =
       sum_list (map (unat \<circ> sweepable_amount) (bm_values (sw_deposits s)))"
proof -
  have "sum_list (map (unat \<circ> cd_amount_to_mint) cs) + sum_list (map (unat \<circ> deposit_fee \<circ> snd) ps) +
      length ps * unat share = sum_list (map (unat \<circ> sweepable_amount \<circ> snd) ps)"
    if "list_all2 (\<lambda>p c. credit_deposit share p = Inr c) ps cs" for share ps cs
    using that by induction (auto dest!: credit_deposit_Inr)
  from this[OF mints_InrD[OF assms]] show ?thesis
    by (simp add: bm_values_def deposit_count_def bm_len_def comp_def)
qed

lemma check_transfers_Inr:
  assumes "check_transfers bs payer fee ts = Inr u" and "t \<in> set ts"
  shows "\<exists>pre post. bm_get bs (tr_from t) = Some (pre, post) \<and>
    checked_sub pre post = Some (tr_amount t + (if tr_deposit_id t = payer then fee else 0)) \<and>
    RENT_EXEMPTION_THRESHOLD \<le> post"
  using assms
proof (induction ts)
  case (Cons x ts)
  then show ?case
    by (cases "bm_get bs (tr_from x)")
       (auto simp: balance_of_def ok_or_def Let_def not_less split: if_splits)
qed simp

lemma settleE:
  assumes "settle lib s tx meta_opt = Inr r"
  obtains meta msg pre post bs where
    "meta_opt = Some meta" "meta_err meta = None" "tx = SolanaLegacy msg"
    "msg = sweep_message lib s (recent_blockhash msg)"
    "length (meta_pre_balances meta) = length (account_keys msg)"
    "length (meta_post_balances meta) = length (account_keys msg)" "meta_fee meta \<le> sw_fee s"
    "bs = bm_collect (zip (account_keys msg) (zip (meta_pre_balances meta) (meta_post_balances meta)))"
    "check_transfers bs (sw_fee_payer s) (meta_fee meta) (sw_transfers s) = Inr ()"
    "bm_get bs (sw_minter_address s) = Some (pre, post)"
    "checked_sub post pre = Some (sw_expected_received s)"
    "ss_amount_received r = sw_expected_received s" "mints s = Inr (ss_mints r)"
proof (cases meta_opt)
  case (Some meta)
  then obtain msg where tx: "tx = SolanaLegacy msg" and err: "meta_err meta = None"
    using assms by (cases tx; cases "meta_err meta") (auto simp: settle_def)
  let ?bs = "bm_collect (zip (account_keys msg) (zip (meta_pre_balances meta) (meta_post_balances meta)))"
  note step = assms[unfolded settle_def Some tx option.case solana_versioned_message.case err Let_def]
  have msg: "(msg \<noteq> sweep_message lib s (recent_blockhash msg)) = False"
    by (rule ccontr) (use step in simp)
  note step = step[unfolded msg if_False]
  have lens: "length (meta_pre_balances meta) = length (account_keys msg)"
    "length (meta_post_balances meta) = length (account_keys msg)" "(meta_fee meta > sw_fee s) = False"
    using step by (auto split: if_splits)
  note step = step[unfolded lens simp_thms if_False]
  have ct: "check_transfers ?bs (sw_fee_payer s) (meta_fee meta) (sw_transfers s) = Inr ()"
    using step by (simp split: sum.splits)
  note step = step[unfolded ct sum.case]
  have "\<exists>pp. balance_of ?bs (sw_minter_address s) = Inr pp"
    using step by (cases "balance_of ?bs (sw_minter_address s)") simp_all
  then obtain pre post where b: "balance_of ?bs (sw_minter_address s) = Inr (pre, post)" by auto
  note step = step[unfolded b sum.case prod.case]
  have res: "checked_sub post pre = Some (sw_expected_received s)"
    "ss_amount_received r = sw_expected_received s" "mints s = Inr (ss_mints r)"
    using step by (auto split: if_splits sum.splits option.splits)
  show ?thesis
    by (rule that[OF Some err tx _ lens(1,2) _ refl ct _ res])
       (use msg lens b in \<open>simp_all add: balance_of_def\<close>)
qed (use assms in \<open>simp add: settle_def\<close>)

lemma plan_fee:
  assumes "plan ds a = Some s"
  shows "sw_fee s = FEE_PER_SIGNATURE * of_nat (deposit_count s)"
  using assms by (auto simp: deposit_count_def elim: planE)

lemma plan_fee_share:
  assumes "plan ds a = Some s" and small: "5000 * deposit_count s < 2 ^ 64"
  shows "unat (sw_fee s) = 5000 * deposit_count s"
    and "div_ceil (sw_fee s) (of_nat (deposit_count s)) = FEE_PER_SIGNATURE"
proof -
  have n: "unat (of_nat (deposit_count s) :: u64) = deposit_count s"
    using small by (simp add: unat_of_nat)
  have pos: "0 < deposit_count s" using plan_nonempty[OF assms(1)] by (simp add: deposit_count_def)
  show fee: "unat (sw_fee s) = 5000 * deposit_count s"
    using small n by (simp add: plan_fee[OF assms(1)] unat_word_ariths)
  have "unat (sw_fee s mod of_nat (deposit_count s)) = 0"
    using n fee by (simp add: unat_mod_distrib)
  moreover have "unat (sw_fee s div of_nat (deposit_count s)) = unat FEE_PER_SIGNATURE"
    using n fee pos by (simp add: unat_div_distrib)
  ultimately show "div_ceil (sw_fee s) (of_nat (deposit_count s)) = FEE_PER_SIGNATURE"
    by (simp add: div_ceil_def word_unat_eq_iff word_less_nat_alt)
qed

subsection \<open>Sweeps as a map from deposits\<close>

definition sweeps_wf :: "sweeps \<Rightarrow> bool" where
  "sweeps_wf s \<longleftrightarrow>
     (\<forall>sig w. sweeps_get s sig = Some w \<longrightarrow> planned w) \<and>
     (\<forall>sig w sig' w' i. sweeps_get s sig = Some w \<longrightarrow> sweeps_get s sig' = Some w' \<longrightarrow>
        bm_get (sw_deposits w) i \<noteq> None \<longrightarrow> bm_get (sw_deposits w') i \<noteq> None \<longrightarrow> sig = sig')"

lemma sweeps_wf_planned: "sweeps_wf s \<Longrightarrow> sweeps_get s sig = Some w \<Longrightarrow> planned w"
  unfolding sweeps_wf_def by blast

lemma sweeps_wf_disjoint:
  "sweeps_wf s \<Longrightarrow> sweeps_get s sig = Some w \<Longrightarrow> sweeps_get s sig' = Some w' \<Longrightarrow>
   bm_get (sw_deposits w) i = Some d \<Longrightarrow> bm_get (sw_deposits w') i = Some d' \<Longrightarrow> sig = sig'"
  unfolding sweeps_wf_def by (metis option.distinct(1))

lemma sweeps_deposit_None_iff:
  "sweeps_deposit s i = None \<longleftrightarrow> (\<forall>sig w. sweeps_get s sig = Some w \<longrightarrow> bm_get (sw_deposits w) i = None)"
  by (auto simp: sweeps_deposit_def find_map_None_iff sweeps_get_def Ball_def bm_iter_iff)

lemma sweeps_deposit_SomeD:
  "sweeps_deposit s i = Some (sig, d) \<Longrightarrow>
   \<exists>w. sweeps_get s sig = Some w \<and> bm_get (sw_deposits w) i = Some d"
  by (auto simp: sweeps_deposit_def sweeps_get_def bm_iter_iff dest!: find_map_SomeD)

lemma sweeps_deposit_Some_iff:
  assumes "sweeps_wf s"
  shows "sweeps_deposit s i = Some (sig, d) \<longleftrightarrow>
    (\<exists>w. sweeps_get s sig = Some w \<and> bm_get (sw_deposits w) i = Some d)"
proof
  assume "\<exists>w. sweeps_get s sig = Some w \<and> bm_get (sw_deposits w) i = Some d"
  then obtain w where w: "sweeps_get s sig = Some w" "bm_get (sw_deposits w) i = Some d" by blast
  then obtain sig' d' where found: "sweeps_deposit s i = Some (sig', d')"
    using sweeps_deposit_None_iff[of s i] by (cases "sweeps_deposit s i") auto
  then obtain w' where w': "sweeps_get s sig' = Some w'" "bm_get (sw_deposits w') i = Some d'"
    using sweeps_deposit_SomeD by blast
  then have "sig' = sig" using sweeps_wf_disjoint[OF assms] w by blast
  then show "sweeps_deposit s i = Some (sig, d)" using found w w' by simp
qed (rule sweeps_deposit_SomeD)

lemma sweeps_insert_Some_iff:
  "sweeps_insert sig w s = Some s' \<longleftrightarrow>
     (\<forall>i. bm_get (sw_deposits w) i \<noteq> None \<longrightarrow> sweeps_deposit s i = None) \<and> sweeps_get s sig = None \<and>
     s' = s\<lparr>by_signature := bm_insert sig w (by_signature s)\<rparr>"
  by (auto simp: sweeps_insert_def sweeps_get_def bm_contains_def bm_keys_iff assert_that_bind split: if_splits)

lemma sweeps_get_insert:
  "sweeps_insert sig w s = Some s' \<Longrightarrow> sweeps_get s' x = (if x = sig then Some w else sweeps_get s x)"
  by (auto simp: sweeps_insert_Some_iff sweeps_get_def)

lemma sweeps_wf_insert:
  assumes "sweeps_insert sig w s = Some s'" "sweeps_wf s" "planned w"
  shows "sweeps_wf s'"
proof -
  have fresh: "bm_get (sw_deposits w) i = None \<or> bm_get (sw_deposits w') i = None"
    if "sweeps_get s x = Some w'" for i x w'
    using assms(1) sweeps_deposit_None_iff[of s i] that by (auto simp: sweeps_insert_Some_iff)
  show ?thesis
    unfolding sweeps_wf_def
  proof (intro conjI allI impI)
    fix x v assume "sweeps_get s' x = Some v"
    then show "planned v"
      using assms(3) sweeps_wf_planned[OF assms(2)] sweeps_get_insert[OF assms(1)]
      by (auto split: if_splits)
    fix y u i assume "sweeps_get s' x = Some v" "sweeps_get s' y = Some u"
      "bm_get (sw_deposits v) i \<noteq> None" "bm_get (sw_deposits u) i \<noteq> None"
    then show "x = y"
      using fresh[of x v i] fresh[of y u i] sweeps_wf_disjoint[OF assms(2), of x v y u i]
        sweeps_get_insert[OF assms(1)]
      by (auto split: if_splits)
  qed
qed

lemma sweeps_deposit_insert:
  assumes "sweeps_insert sig w s = Some s'" "sweeps_wf s" "planned w"
  shows "sweeps_deposit s' i = (case bm_get (sw_deposits w) i of
    Some d \<Rightarrow> Some (sig, d) | None \<Rightarrow> sweeps_deposit s i)"
proof (cases "bm_get (sw_deposits w) i")
  case None
  show ?thesis
  proof (cases "sweeps_deposit s i")
    case None': None
    have "sweeps_deposit s' i = None"
      unfolding sweeps_deposit_None_iff sweeps_get_insert[OF assms(1)]
      using None None'[unfolded sweeps_deposit_None_iff] by auto
    then show ?thesis using None None' by simp
  next
    case (Some p)
    obtain x d where p: "p = (x, d)" by force
    then obtain v where v: "sweeps_get s x = Some v" "bm_get (sw_deposits v) i = Some d"
      using Some sweeps_deposit_SomeD by blast
    have "x \<noteq> sig" using v(1) assms(1) by (auto simp: sweeps_insert_Some_iff)
    then have "sweeps_deposit s' i = Some (x, d)"
      using v sweeps_deposit_Some_iff[OF sweeps_wf_insert[OF assms]] sweeps_get_insert[OF assms(1)] by auto
    then show ?thesis using Some None p by simp
  qed
next
  case (Some d)
  have "sweeps_deposit s' i = Some (sig, d)"
    using Some sweeps_deposit_Some_iff[OF sweeps_wf_insert[OF assms]] sweeps_get_insert[OF assms(1)] by auto
  then show ?thesis using Some by simp
qed

lemma sweeps_remove_Some_iff:
  "sweeps_remove sig s = Some (s', w) \<longleftrightarrow>
     sweeps_get s sig = Some w \<and> s' = s\<lparr>by_signature := bm_remove sig (by_signature s)\<rparr>"
  by (auto simp: sweeps_remove_def sweeps_get_def split: option.splits)

lemma sweeps_get_remove:
  "sweeps_remove sig s = Some (s', w) \<Longrightarrow> sweeps_get s' x = (if x = sig then None else sweeps_get s x)"
  by (auto simp: sweeps_remove_Some_iff sweeps_get_def)

lemma sweeps_wf_remove:
  assumes "sweeps_remove sig s = Some (s', w)" "sweeps_wf s"
  shows "sweeps_wf s'"
  unfolding sweeps_wf_def sweeps_get_remove[OF assms(1)]
  using sweeps_wf_planned[OF assms(2)] sweeps_wf_disjoint[OF assms(2)] by (auto split: if_splits)

lemma sweeps_deposit_remove:
  assumes "sweeps_remove sig s = Some (s', w)" "sweeps_wf s"
  shows "sweeps_deposit s' i = (if bm_get (sw_deposits w) i = None then sweeps_deposit s i else None)"
proof (cases "sweeps_deposit s' i")
  case None
  have "sweeps_deposit s i = None" if "bm_get (sw_deposits w) i = None"
    unfolding sweeps_deposit_None_iff
  proof (intro allI impI)
    fix x v assume v: "sweeps_get s x = Some v"
    show "bm_get (sw_deposits v) i = None"
    proof (cases "x = sig")
      case True
      then show ?thesis using v that assms(1) by (simp add: sweeps_remove_Some_iff)
    next
      case False
      then show ?thesis
        using v None sweeps_get_remove[OF assms(1), of x] by (simp add: sweeps_deposit_None_iff)
    qed
  qed
  then show ?thesis using None by simp
next
  case (Some p)
  obtain x d where p: "p = (x, d)" by force
  then obtain v where v: "sweeps_get s' x = Some v" "bm_get (sw_deposits v) i = Some d"
    using Some sweeps_deposit_SomeD by blast
  then have x: "x \<noteq> sig" "sweeps_get s x = Some v"
    using sweeps_get_remove[OF assms(1)] by (auto split: if_splits)
  then have "sweeps_deposit s i = Some (x, d)"
    using v(2) sweeps_deposit_Some_iff[OF assms(2)] by blast
  moreover have "bm_get (sw_deposits w) i = None"
    using sweeps_wf_disjoint[OF assms(2) x(2), of sig w i d] v(2) x(1) assms(1)
    by (cases "bm_get (sw_deposits w) i") (auto simp: sweeps_remove_Some_iff)
  ultimately show ?thesis using Some p by simp
qed

lemma sweeps_empty_simps [simp]:
  "sweeps_wf sweeps_empty" "sweeps_get sweeps_empty sig = None" "sweeps_deposit sweeps_empty i = None"
  by (auto simp: sweeps_wf_def sweeps_get_def sweeps_empty_def sweeps_deposit_def)

subsection \<open>Properties\<close>

text \<open>Deposits to evaluate the properties at.\<close>

definition example_deposit :: "u8 \<Rightarrow> lamport \<Rightarrow> queued_deposit" where
  "example_deposit n balance =
     \<lparr>qd_account = account_from (Principal [n]) None, qd_address = ucast n,
      qd_balance = deposit_balance_at_least balance, qd_deposit_fee = None\<rparr>"

definition example_deposits :: "(deposit_sol_id \<times> queued_deposit) list" where
  "example_deposits = [(0, example_deposit 1 2890880), (1, example_deposit 2 1890880)]"

lemma example_sweepable:
  "sweepable_amount (example_deposit 1 2890880) = 2000000"
  "sweepable_amount (example_deposit 2 1890880) = 1000000"
  by (simp_all add: sweepable_amount_def example_deposit_def deposit_balance_sweepable_def
      deposit_balance_at_least.rep_eq RENT_EXEMPTION_THRESHOLD_def)

definition example_sweep :: sweep where
  "example_sweep = \<lparr>sw_deposits = bm_collect example_deposits, sw_fee_payer = 0, sw_fee = 10000,
     sw_minter_address = 9,
     sw_transfers = [\<lparr>tr_deposit_id = 0, tr_from = 1, tr_amount = 1990000\<rparr>,
                     \<lparr>tr_deposit_id = 1, tr_from = 2, tr_amount = 1000000\<rparr>],
     sw_expected_received = 2990000\<rparr>"

lemma example_iter: "bm_iter (bm_collect example_deposits) = example_deposits"
  by (simp add: example_deposits_def bm_collect_def bm_extend_def)

lemma example_deposit_fee: "deposit_fee (example_deposit n b) = 0"
  by (simp add: example_deposit_def deposit_fee_def)

lemma example_address: "qd_address (example_deposit n b) = ucast n"
  by (simp add: example_deposit_def)

lemma example_plan: "plan example_deposits 9 = Some example_sweep"
proof -
  have "unique_deposits example_deposits = Some (bm_collect example_deposits)"
    using unique_deposits_Some_iff[of example_deposits] by (simp add: example_deposits_def)
  moreover have "max_by_key fee_payer_key example_deposits = Some (0, example_deposit 1 2890880)"
    by (simp add: example_deposits_def fee_payer_key_def example_sweepable)
  moreover have "bm_len (bm_collect example_deposits) = 2"
    by (simp add: bm_len_def example_iter) (simp add: example_deposits_def)
  ultimately show ?thesis
    by (simp add: plan_def example_iter Let_def FEE_PER_SIGNATURE_def example_sweepable checked_sub_def
        example_sweep_def)
       (simp add: example_deposits_def other_transfer_def example_sweepable example_address)
qed

text \<open>C18: A planned sweep has exactly one transfer per deposit, from the deposit's address; after its
  transfer, and the fee if it pays it, every address is left with exactly the rent exemption
  threshold. The first transfer is from the fee payer, a deposit with the largest sweepable amount,
  and the transfers plus the fee add up to the sweepable amounts of the deposits.\<close>

theorem plan_correct:
  assumes "plan ds a = Some s"
  shows "mset (map tr_deposit_id (sw_transfers s)) = mset (map fst ds) \<and> distinct (map fst ds) \<and>
    (\<forall>t \<in> set (sw_transfers s). \<exists>d. (tr_deposit_id t, d) \<in> set ds \<and> tr_from t = qd_address d \<and>
       unat (deposit_balance_lamports (qd_balance d)) =
         unat (tr_amount t) + (if tr_deposit_id t = sw_fee_payer s then unat (sw_fee s) else 0)
         + unat RENT_EXEMPTION_THRESHOLD) \<and>
    (\<exists>d. (sw_fee_payer s, d) \<in> set ds \<and> tr_deposit_id (hd (sw_transfers s)) = sw_fee_payer s \<and>
       (\<forall>(i, d') \<in> set ds. sweepable_amount d' \<le> sweepable_amount d)) \<and>
    sum_list (map (unat \<circ> tr_amount) (sw_transfers s)) + unat (sw_fee s) =
      sum_list (map (unat \<circ> sweepable_amount \<circ> snd) ds)"
proof -
  from assms obtain p amount where dist: "distinct (map fst ds)" and sd: "sw_deposits s = bm_collect ds"
    and p: "max_by_key fee_payer_key (bm_iter (sw_deposits s)) = Some p" "sw_fee_payer s = fst p"
    and ts: "sw_transfers s = \<lparr>tr_deposit_id = fst p, tr_from = qd_address (snd p), tr_amount = amount\<rparr>
       # map other_transfer (other_deposits (sw_deposits s) (fst p))"
    by (rule planE)
  have mset: "mset (bm_iter (sw_deposits s)) = mset ds" unfolding sd by (rule bm_collect_distinct(2)[OF dist])
  then have set: "set (bm_iter (sw_deposits s)) = set ds" by (rule mset_eq_setD)
  have get: "bm_get (sw_deposits s) i = Some d \<Longrightarrow> (i, d) \<in> set ds" for i d
    using set by (simp flip: bm_iter_iff)
  have ids: "mset (map tr_deposit_id (sw_transfers s)) = mset (map fst ds)"
    using plan_transfer_ids[OF assms] mset by (simp add: bm_keys_def)
  have each: "\<forall>t \<in> set (sw_transfers s). \<exists>d. (tr_deposit_id t, d) \<in> set ds \<and> tr_from t = qd_address d \<and>
       unat (deposit_balance_lamports (qd_balance d)) =
         unat (tr_amount t) + (if tr_deposit_id t = sw_fee_payer s then unat (sw_fee s) else 0)
         + unat RENT_EXEMPTION_THRESHOLD"
    using plan_transfer[OF assms] get by (fastforce simp: unat_balance sweepable_amount_def)
  have "(sw_fee_payer s, snd p) \<in> set ds" using max_by_key_in[OF p(1)] p(2) set by simp
  moreover have "\<forall>(i, d') \<in> set ds. sweepable_amount d' \<le> sweepable_amount (snd p)"
    using conjunct2[OF max_by_key_SomeD[OF p(1)]] set by (auto simp: fee_payer_key_def)
  moreover have "tr_deposit_id (hd (sw_transfers s)) = sw_fee_payer s" by (simp add: ts p(2))
  ultimately have payer: "\<exists>d. (sw_fee_payer s, d) \<in> set ds \<and> tr_deposit_id (hd (sw_transfers s)) = sw_fee_payer s \<and>
       (\<forall>(i, d') \<in> set ds. sweepable_amount d' \<le> sweepable_amount d)" by blast
  have "sum_list (map (unat \<circ> sweepable_amount) (bm_values (sw_deposits s))) =
      sum_list (map (unat \<circ> sweepable_amount \<circ> snd) ds)"
    using sum_list_mset_nat[OF mset, of "unat \<circ> sweepable_amount \<circ> snd"] by (simp add: bm_values_def)
  then have sum: "sum_list (map (unat \<circ> tr_amount) (sw_transfers s)) + unat (sw_fee s) =
      sum_list (map (unat \<circ> sweepable_amount \<circ> snd) ds)"
    using plan_transfer_sum[OF assms] by (simp only:)
  show ?thesis by (intro conjI ids dist each payer sum)
qed

theorem plan_correct_witness:
  "plan example_deposits 9 = Some example_sweep \<and>
   sum_list (map (unat \<circ> tr_amount) (sw_transfers example_sweep)) + 10000 = 3000000"
  using plan_correct[OF example_plan] example_plan
  by (simp add: example_sweep_def example_deposits_def example_sweepable)

text \<open>C19: Planning never traps on what the sweep timer passes it: at most \<open>MAX_SIGNATURES\<close> deposits,
  at least one, with distinct ids and each sweepable amount covering the fee of a full sweep. The
  plan does not depend on the order of the deposits.\<close>

theorem plan_total:
  assumes "distinct (map fst ds)" "ds \<noteq> []" "length ds \<le> unat MAX_SIGNATURES"
    and "\<forall>(i, d) \<in> set ds. FEE_PER_SIGNATURE * MAX_SIGNATURES \<le> sweepable_amount d"
  shows "\<exists>s. \<forall>ds'. mset ds' = mset ds \<longrightarrow> plan ds' a = Some s"
proof -
  obtain i d where d: "(i, d) \<in> set ds" using assms(2) by (cases ds) auto
  have "unat (FEE_PER_SIGNATURE * of_nat (length ds)) = 5000 * length ds"
    using assms(3) by (simp add: unat_word_ariths unat_of_nat)
  also have "\<dots> \<le> unat (FEE_PER_SIGNATURE * MAX_SIGNATURES)"
    using assms(3) by (simp add: unat_word_ariths)
  finally have "FEE_PER_SIGNATURE * of_nat (length ds) \<le> sweepable_amount d"
    using assms(4) d by (auto simp: word_le_nat_alt)
  from plan_exists[OF assms(1) d this, of a] obtain s where "plan ds a = Some s" by blast
  then have "plan ds' a = Some s" if "mset ds' = mset ds" for ds' using plan_mset[OF that, of a] by simp
  then show ?thesis by blast
qed

theorem plan_total_witness: "\<exists>s. plan (rev example_deposits) 9 = Some s"
proof -
  have "mset (rev example_deposits) = mset example_deposits" by simp
  then show ?thesis
    using plan_total[of example_deposits 9]
    by (auto simp: example_deposits_def example_sweepable FEE_PER_SIGNATURE_def MAX_SIGNATURES_def)
qed


text \<open>C8: If the outcome of a planned sweep is settled, the executed message is the planned one, the
  main account received exactly the planned amount, every deposit address decreased by its transfer,
  plus the charged fee for the fee payer, without going below the rent exemption threshold, and
  every deposit of the sweep is credited once. The credited amounts and the deposit fees add up to
  the amount received, so each lamport minted is backed.\<close>

theorem settle_sound:
  assumes "plan ds a = Some s" and "settle lib s tx meta_opt = Inr r"
    and "5000 * length ds < 2 ^ 64"
    and "sum_list (map (unat \<circ> sweepable_amount \<circ> snd) ds) < 2 ^ 64"
  shows "\<exists>meta msg. meta_opt = Some meta \<and> tx = SolanaLegacy msg \<and>
     sweep_message lib s (recent_blockhash msg) = msg \<and>
     (let balances = map_of (rev (zip (account_keys msg) (zip (meta_pre_balances meta) (meta_post_balances meta)))) in
      (\<forall>t \<in> set (sw_transfers s). \<exists>pre post. balances (tr_from t) = Some (pre, post) \<and>
         unat pre = unat post + unat (tr_amount t)
           + (if tr_deposit_id t = sw_fee_payer s then unat (meta_fee meta) else 0) \<and>
         RENT_EXEMPTION_THRESHOLD \<le> post) \<and>
      (\<exists>pre post. balances a = Some (pre, post) \<and> unat post = unat pre + unat (ss_amount_received r))) \<and>
     mset (map cd_deposit_id (ss_mints r)) = mset (map fst ds) \<and>
     sum_list (map (unat \<circ> cd_amount_to_mint) (ss_mints r)) + sum_list (map (unat \<circ> deposit_fee \<circ> snd) ds) =
       unat (ss_amount_received r)"
proof -
  from assms(2) obtain meta msg pre post bs where *:
    "meta_opt = Some meta" "meta_err meta = None" "tx = SolanaLegacy msg"
    "msg = sweep_message lib s (recent_blockhash msg)" "meta_fee meta \<le> sw_fee s"
    "bs = bm_collect (zip (account_keys msg) (zip (meta_pre_balances meta) (meta_post_balances meta)))"
    "check_transfers bs (sw_fee_payer s) (meta_fee meta) (sw_transfers s) = Inr ()"
    "bm_get bs (sw_minter_address s) = Some (pre, post)"
    "checked_sub post pre = Some (sw_expected_received s)"
    "ss_amount_received r = sw_expected_received s" "mints s = Inr (ss_mints r)"
    by (rule settleE)
  have dist: "distinct (map fst ds)" and sd: "sw_deposits s = bm_collect ds" and a: "sw_minter_address s = a"
    using assms(1) by (auto elim: planE)
  have mset: "mset (bm_iter (sw_deposits s)) = mset ds" unfolding sd by (rule bm_collect_distinct(2)[OF dist])
  have len: "deposit_count s = length ds"
    using mset by (metis deposit_count_def bm_len_def size_mset)
  have sums: "sum_list (map (f \<circ> g) (bm_values (sw_deposits s))) = sum_list (map (f \<circ> g \<circ> snd) ds)"
    for f :: "lamport \<Rightarrow> nat" and g
    using sum_list_mset_nat[OF mset, of "f \<circ> g \<circ> snd"] by (simp add: bm_values_def)
  have bal: "bm_get bs = map_of (rev (zip (account_keys msg) (zip (meta_pre_balances meta) (meta_post_balances meta))))"
    by (rule ext) (simp add: *(6) bm_get_collect)
  have each: "\<exists>pre post. bm_get bs (tr_from t) = Some (pre, post) \<and> unat pre = unat post + unat (tr_amount t)
        + (if tr_deposit_id t = sw_fee_payer s then unat (meta_fee meta) else 0) \<and> RENT_EXEMPTION_THRESHOLD \<le> post"
    if t: "t \<in> set (sw_transfers s)" for t
  proof -
    let ?fee = "if tr_deposit_id t = sw_fee_payer s then meta_fee meta else 0"
    obtain d where "unat (sweepable_amount d) =
        unat (tr_amount t) + (if tr_deposit_id t = sw_fee_payer s then unat (sw_fee s) else 0)"
      using plan_transfer[OF assms(1) t] by blast
    then have "unat (tr_amount t) + unat ?fee \<le> unat (sweepable_amount d)"
      using *(5) by (auto simp: word_le_nat_alt)
    also have "\<dots> < 2 ^ 64" using unsigned_less[of "sweepable_amount d", where 'a = nat] by simp
    finally have "unat (tr_amount t + ?fee) = unat (tr_amount t) + unat ?fee"
      by (intro unat_plus_no_overflow) simp
    then show ?thesis
      using check_transfers_Inr[OF *(7) t] by (auto simp: checked_sub_Some_iff)
  qed
  have received: "unat post = unat pre + unat (ss_amount_received r)"
    using *(9,10) by (simp add: checked_sub_Some_iff)
  have ids: "mset (map cd_deposit_id (ss_mints r)) = mset (map fst ds)"
    using mints_keys[OF *(11)] mset by (simp add: bm_keys_def)
  have sum: "sum_list (map (unat \<circ> cd_amount_to_mint) (ss_mints r))
      + sum_list (map (unat \<circ> deposit_fee \<circ> snd) ds) = unat (ss_amount_received r)"
    using mints_sum[OF *(11)] plan_fee_share[OF assms(1)] plan_expected_received[OF assms(1)] assms(3,4) len
    by (simp add: sums *(10))
  note each' = ballI[OF each[unfolded bal]]
  have main: "\<exists>pre post. map_of (rev (zip (account_keys msg) (zip (meta_pre_balances meta)
      (meta_post_balances meta)))) a = Some (pre, post) \<and> unat post = unat pre + unat (ss_amount_received r)"
    using *(8) received unfolding a bal by blast
  show ?thesis
    unfolding Let_def
    by (intro exI[of _ meta] exI[of _ msg] conjI each' main ids sum *(1,3) *(4)[symmetric])
qed

definition example_meta :: status_meta where
  "example_meta = \<lparr>meta_err = None, meta_fee = 10000,
     meta_pre_balances = [2890880, 1890880, 0, 1], meta_post_balances = [890880, 890880, 2990000, 1]\<rparr>"

definition example_sweep_message :: message where
  "example_sweep_message = sweep_message example_sdk example_sweep 77"

lemma example_sweep_message_simps:
  "account_keys example_sweep_message = [1, 2, 9, 0]" "recent_blockhash example_sweep_message = 77"
  by (simp_all add: example_sweep_message_def sweep_message_def example_sdk_def example_compile_def
      example_sweep_def list_get_def Let_def)

lemma example_sweep_simps:
  "sw_fee_payer example_sweep = 0" "sw_fee example_sweep = 10000" "sw_minter_address example_sweep = 9"
  "sw_transfers example_sweep = [\<lparr>tr_deposit_id = 0, tr_from = 1, tr_amount = 1990000\<rparr>,
     \<lparr>tr_deposit_id = 1, tr_from = 2, tr_amount = 1000000\<rparr>]"
  "sw_expected_received example_sweep = 2990000"
  by (simp_all add: example_sweep_def)

lemma example_settle:
  "settle example_sdk example_sweep (SolanaLegacy example_sweep_message) (Some example_meta) =
     Inr \<lparr>ss_amount_received = 2990000, ss_mints =
       [\<lparr>cd_deposit_id = 0, cd_amount_to_mint = 1995000\<rparr>, \<lparr>cd_deposit_id = 1, cd_amount_to_mint = 995000\<rparr>]\<rparr>"
proof -
  have "deposit_count example_sweep = 2"
    by (simp add: deposit_count_def bm_len_def example_sweep_def example_iter) (simp add: example_deposits_def)
  then have "mints example_sweep = Inr [\<lparr>cd_deposit_id = 0, cd_amount_to_mint = 1995000\<rparr>,
      \<lparr>cd_deposit_id = 1, cd_amount_to_mint = 995000\<rparr>]"
    by (simp add: mints_def example_sweep_def example_iter div_ceil_def)
       (simp add: example_deposits_def credit_deposit_def example_sweepable checked_sub_def example_deposit_fee)
  then show ?thesis
    by (simp add: settle_def example_sweep_message_simps example_meta_def example_sweep_simps bm_get_collect
        balance_of_def checked_sub_def RENT_EXEMPTION_THRESHOLD_def ok_or_def Let_def flip: example_sweep_message_def)
qed

theorem settle_sound_witness:
  "\<exists>r. settle example_sdk example_sweep (SolanaLegacy example_sweep_message) (Some example_meta) = Inr r \<and>
     sum_list (map (unat \<circ> cd_amount_to_mint) (ss_mints r)) = 2990000"
  using settle_sound[OF example_plan example_settle] example_settle
  by (simp add: example_deposits_def example_sweepable)

end
