(* ===== verification/Watchlist.thy ===== *)
theory Watchlist
  imports Timed_Sized_Map Cksol_Types
begin

text \<open>
  \<^verbatim>\<open>minter/src/state/watchlist/mod.rs\<close>: the deposit addresses registered for the automatic
  deposit flow, each watched for a window and scanned at fixed slots.
\<close>

definition seconds :: "nat \<Rightarrow> duration" where
  "seconds n = n * 1000000000"

definition WATCH_WINDOW :: duration where
  "WATCH_WINDOW = seconds 86400"

definition MAX_WATCHED_ADDRESSES :: nat where
  "MAX_WATCHED_ADDRESSES = 1000"

definition BURST_SCAN_SLOTS :: "duration list" where
  "BURST_SCAN_SLOTS = [0, seconds 60, seconds 120, seconds 240, seconds 360, seconds 600,
     seconds 900, seconds 1200, seconds 1500, seconds 1800]"

definition STEADY_SCAN_GAP :: duration where
  "STEADY_SCAN_GAP = seconds 3600"

record scan_progress =
  sp_address :: address
  sp_scheduled_from :: timestamp
  sp_scan_count :: u32
  sp_last_scanned_at :: "timestamp option"

record watchlist =
  wl_entries :: "(account, scan_progress) tsm"

record watched_address =
  wa_account :: account
  wa_address :: address
  wa_valid_until :: timestamp
  wa_scan_count :: u32
  wa_last_scanned_at :: "timestamp option"
  wa_next_scan_at :: "timestamp option"

datatype watchlist_full = WatchlistFull

subsection \<open>The schedule\<close>

definition unscanned :: "address \<Rightarrow> timestamp \<Rightarrow> scan_progress" where
  "unscanned address scheduled_from =
     \<lparr>sp_address = address, sp_scheduled_from = scheduled_from, sp_scan_count = 0,
      sp_last_scanned_at = None\<rparr>"

text \<open>The steady slots up to the window, which is where \<open>take_while\<close> ends the unbounded iterator.\<close>

function steady_slots :: "nat \<Rightarrow> duration list" where
  "steady_slots gaps =
     (let slot = last BURST_SCAN_SLOTS + STEADY_SCAN_GAP * gaps
      in if slot \<le> WATCH_WINDOW then slot # steady_slots (Suc gaps) else [])"
  by pat_completeness auto
termination
  by (relation "measure (\<lambda>gaps. 25 - gaps)")
     (auto simp: BURST_SCAN_SLOTS_def STEADY_SCAN_GAP_def WATCH_WINDOW_def seconds_def)

declare steady_slots.simps [simp del]

definition scan_slots :: "duration list" where
  "scan_slots = takeWhile (\<lambda>slot. slot \<le> WATCH_WINDOW) (BURST_SCAN_SLOTS @ steady_slots 1)"

definition next_scan_at :: "scan_progress \<Rightarrow> timestamp \<Rightarrow> timestamp option" where
  "next_scan_at p valid_until =
     (let slots = takeWhile (\<lambda>slot_at. slot_at \<le> valid_until)
            (map (timestamp_saturating_add (sp_scheduled_from p)) scan_slots)
      in case sp_last_scanned_at p of
           None \<Rightarrow> (case slots of [] \<Rightarrow> None | slot # _ \<Rightarrow> Some slot)
         | Some last_scanned_at \<Rightarrow> find (\<lambda>slot_at. slot_at > last_scanned_at) slots)"

subsection \<open>Operations\<close>

definition watchlist_default :: watchlist where
  "watchlist_default = \<lparr>wl_entries = tsm_new WATCH_WINDOW MAX_WATCHED_ADDRESSES\<rparr>"

definition watched :: "account \<times> scan_progress entry \<Rightarrow> watched_address" where
  "watched p = (case p of (account, entry) \<Rightarrow>
     let progress = entry_value entry in
     \<lparr>wa_account = account, wa_address = sp_address progress, wa_valid_until = entry_expires_at entry,
      wa_scan_count = sp_scan_count progress, wa_last_scanned_at = sp_last_scanned_at progress,
      wa_next_scan_at = next_scan_at progress (entry_expires_at entry)\<rparr>)"

definition watchlist_get :: "watchlist \<Rightarrow> timestamp \<Rightarrow> account \<Rightarrow> watched_address option" where
  "watchlist_get w now account =
     map_option (\<lambda>entry. watched (account, entry)) (tsm_get_entry (wl_entries w) now account)"

definition register ::
  "timestamp \<Rightarrow> account \<Rightarrow> address \<Rightarrow> watchlist \<Rightarrow> (watchlist \<times> (watchlist_full + watched_address)) option" where
  "register now account address w = do {
     (entries, result) \<leftarrow> tsm_insert now account (unscanned address now) (wl_entries w);
     let w' = w\<lparr>wl_entries := entries\<rparr>;
     (case result of
        Inl (AtCapacity _ _) \<Rightarrow> Some (w', Inl WatchlistFull)
      | _ \<Rightarrow> do {
          watched \<leftarrow> watchlist_get w' now account;
          Some (w', Inr watched)
        })
   }"

definition watchlist_remove :: "account \<Rightarrow> watchlist \<Rightarrow> watchlist option" where
  "watchlist_remove account w = do {
     (entries, _) \<leftarrow> tsm_remove account (wl_entries w);
     Some (w\<lparr>wl_entries := entries\<rparr>)
   }"

definition watchlist_live :: "watchlist \<Rightarrow> timestamp \<Rightarrow> watched_address list option" where
  "watchlist_live w now =
     map_option (\<lambda>es. map watched (filter (\<lambda>(_, entry). entry_is_live entry now) es))
       (tsm_iter_by_expiry (wl_entries w))"

definition due :: "watchlist \<Rightarrow> timestamp \<Rightarrow> watched_address list option" where
  "due w now = map_option
     (filter (\<lambda>a. case wa_next_scan_at a of None \<Rightarrow> False | Some due_at \<Rightarrow> due_at \<le> now))
     (watchlist_live w now)"

definition record_scan :: "timestamp \<Rightarrow> account \<Rightarrow> watchlist \<Rightarrow> watchlist" where
  "record_scan now account w =
     w\<lparr>wl_entries := tsm_modify_value
         (\<lambda>p. p\<lparr>sp_scan_count := saturating_add (sp_scan_count p) 1, sp_last_scanned_at := Some now\<rparr>)
         now account (wl_entries w)\<rparr>"

definition watchlist_evict_expired :: "timestamp \<Rightarrow> watchlist \<Rightarrow> (watchlist \<times> nat) option" where
  "watchlist_evict_expired now w = do {
     (entries, evicted) \<leftarrow> tsm_evict_expired now (wl_entries w);
     Some (w\<lparr>wl_entries := entries\<rparr>, length evicted)
   }"

definition watchlist_iter :: "watchlist \<Rightarrow> watched_address list option" where
  "watchlist_iter w = map_option (map watched) (tsm_iter_by_expiry (wl_entries w))"

definition watchlist_len :: "watchlist \<Rightarrow> nat" where
  "watchlist_len w = tsm_len (wl_entries w)"

definition live_len :: "watchlist \<Rightarrow> timestamp \<Rightarrow> nat option" where
  "live_len w now = map_option length (watchlist_live w now)"

definition registered_at :: "watchlist \<Rightarrow> timestamp \<Rightarrow> timestamp" where
  "registered_at w valid_until = timestamp_saturating_sub valid_until (tsm_ttl (wl_entries w))"

definition min_option :: "'a::linorder list \<Rightarrow> 'a option" where
  "min_option xs = (if xs = [] then None else Some (Min (set xs)))"

definition oldest_registered_at :: "watchlist \<Rightarrow> timestamp \<Rightarrow> timestamp option option" where
  "oldest_registered_at w now = map_option
     (\<lambda>ws. min_option (map (registered_at w \<circ> wa_valid_until) ws)) (watchlist_live w now)"

subsection \<open>Invariant\<close>

definition watchlist_wf :: "watchlist \<Rightarrow> bool" where
  "watchlist_wf w \<longleftrightarrow> tsm_wf (wl_entries w)"

lemma watchlist_wf_default: "watchlist_wf watchlist_default"
  by (simp add: watchlist_wf_def watchlist_default_def tsm_wf_new MAX_WATCHED_ADDRESSES_def)

lemma watchlist_remove_ok:
  assumes "watchlist_wf w"
  shows "\<exists>w'. watchlist_remove account w = Some w' \<and> watchlist_wf w' \<and>
     tsm_entries (wl_entries w') = bm_remove account (tsm_entries (wl_entries w))"
  using tsm_remove_ok[OF assms[unfolded watchlist_wf_def], of account]
  by (auto simp: watchlist_remove_def watchlist_wf_def)

lemma watchlist_record_scan_wf: "watchlist_wf w \<Longrightarrow> watchlist_wf (record_scan now account w)"
  by (simp add: watchlist_wf_def record_scan_def tsm_modify_value_wf)

lemma watchlist_evict_wf:
  assumes "watchlist_wf w"
  shows "\<exists>w' n. watchlist_evict_expired now w = Some (w', n) \<and> watchlist_wf w'"
  using tsm_evict_expired_ok[OF assms[unfolded watchlist_wf_def], of now]
  by (auto simp: watchlist_evict_expired_def watchlist_wf_def)

lemma watchlist_live_ok:
  assumes "watchlist_wf w"
  shows "\<exists>ws. watchlist_live w now = Some ws"
  using tsm_iter_by_expiry_ok[OF assms[unfolded watchlist_wf_def]] by (simp add: watchlist_live_def)

subsection \<open>The slots\<close>

lemma scan_slots_eq:
  "scan_slots = map seconds [0, 60, 120, 240, 360, 600, 900, 1200, 1500, 1800, 5400, 9000, 12600, 16200,
     19800, 23400, 27000, 30600, 34200, 37800, 41400, 45000, 48600, 52200, 55800, 59400, 63000, 66600,
     70200, 73800, 77400, 81000, 84600]"
  by (simp add: scan_slots_def BURST_SCAN_SLOTS_def STEADY_SCAN_GAP_def WATCH_WINDOW_def seconds_def
      steady_slots.simps Let_def)

lemma saturating_add_0 [simp]: "timestamp_saturating_add t 0 = t"
  using unsigned_less[of t, where 'a = nat]
  by (simp add: timestamp_saturating_add_def nanos_def saturating_add_def)

lemma next_scan_at_unscanned:
  "from \<le> valid_until \<Longrightarrow> next_scan_at (unscanned address from) valid_until = Some from"
  by (simp add: next_scan_at_def unscanned_def scan_slots_eq seconds_def)

lemma next_scan_at_after:
  assumes "sp_last_scanned_at p = Some t" and "next_scan_at p valid_until = Some u"
  shows "t < u \<and> u \<le> valid_until"
proof -
  from assms obtain slots where "slots = takeWhile (\<lambda>s. s \<le> valid_until)
      (map (timestamp_saturating_add (sp_scheduled_from p)) scan_slots)"
    and "find (\<lambda>s. t < s) slots = Some u"
    by (simp add: next_scan_at_def)
  then show ?thesis
    using set_takeWhileD[of u "\<lambda>s. s \<le> valid_until"] by (auto simp: find_Some_iff in_set_conv_nth)
qed

subsection \<open>Properties\<close>

lemma watchlist_get_same:
  "evicts now (tsm_entries (wl_entries w)) (tsm_entries m') ev \<Longrightarrow>
   watchlist_get (w\<lparr>wl_entries := m'\<rparr>) now a = watchlist_get w now a"
  by (simp add: watchlist_get_def tsm_get_evicted)

lemma watchlist_all_live:
  assumes "tsm_wf m'" and "\<And>k e. bm_get (tsm_entries m') k = Some e \<Longrightarrow> entry_is_live e now"
  shows "watchlist_live (w\<lparr>wl_entries := m'\<rparr>) now = watchlist_iter (w\<lparr>wl_entries := m'\<rparr>)"
proof -
  obtain ps where ps: "tsm_iter_by_expiry m' = Some ps" using tsm_iter_by_expiry_ok[OF assms(1)] by simp
  have "entry_is_live e now" if "(k, e) \<in> set ps" for k e
  proof -
    have eq: "map (\<lambda>k. map_option (Pair k) (bm_get (tsm_entries m') k)) (concat (bm_values (tsm_by_expiry m'))) =
        map Some ps"
      using ps by (simp only: tsm_iter_by_expiry_def collect_opt_Some_iff)
    have "Some (k, e) \<in> set (map Some ps)" using that by simp
    then have "Some (k, e) \<in> set (map (\<lambda>k. map_option (Pair k) (bm_get (tsm_entries m') k))
        (concat (bm_values (tsm_by_expiry m'))))"
      by (simp only: eq)
    then obtain x where "Some (k, e) = map_option (Pair x) (bm_get (tsm_entries m') x)"
      unfolding set_map by (elim imageE) blast
    then have "map_option (Pair x) (bm_get (tsm_entries m') x) = Some (k, e)" by (rule sym)
    then show ?thesis using assms(2) by auto
  qed
  then have "filter (\<lambda>(_, entry). entry_is_live entry now) ps = ps" by (auto simp: filter_id_conv)
  then show ?thesis by (simp add: watchlist_live_def watchlist_iter_def ps)
qed

text \<open>C26: Registering an account never traps and keeps the watchlist well-formed and every other live
  registration as it is. A live registration of the account is returned as it is, without extending
  it; otherwise the account is registered for a window starting now, due for its first scan at once,
  unless the watchlist is full of live registrations, which is reported.\<close>

theorem register_spec:
  assumes "watchlist_wf w"
  shows "\<exists>w' r. register now account address w = Some (w', r) \<and> watchlist_wf w' \<and>
    (\<forall>a. a \<noteq> account \<longrightarrow> watchlist_get w' now a = watchlist_get w now a) \<and>
    (case r of
       Inr x \<Rightarrow> watchlist_get w' now account = Some x \<and>
         (case watchlist_get w now account of
            Some old \<Rightarrow> w' = w \<and> x = old
          | None \<Rightarrow> x = \<lparr>wa_account = account, wa_address = address,
              wa_valid_until = timestamp_saturating_add now (tsm_ttl (wl_entries w)),
              wa_scan_count = 0, wa_last_scanned_at = None, wa_next_scan_at = Some now\<rparr>)
     | Inl WatchlistFull \<Rightarrow> watchlist_get w now account = None \<and>
         watchlist_len w' = tsm_capacity (wl_entries w) \<and> watchlist_live w' now = watchlist_iter w')"
proof -
  let ?m = "wl_entries w"
  let ?e = "\<lparr>entry_value = unscanned address now, entry_expires_at = tsm_expiry ?m now\<rparr>"
  have wf: "tsm_wf ?m" using assms by (simp add: watchlist_wf_def)
  have le: "now \<le> tsm_expiry ?m now" by (simp add: tsm_expiry_def timestamp_add_ge)
  have live: "entry_is_live ?e now" using le by (simp add: entry_is_live_def is_expired_def)
  have clamp: "clamp_entry ?m now ?e = ?e" by (simp add: clamp_entry_def)
  have get: "watchlist_get w now a = None \<longleftrightarrow> tsm_get ?m now a = None" for a
    by (simp add: watchlist_get_def tsm_get_def)
  show ?thesis
  proof (rule tsm_insert_entry_cases[OF wf, of ?e now account])
    assume *: "tsm_get ?m now account \<noteq> None"
      "tsm_insert_entry now account ?e ?m = Some (?m, Inl (AlreadyPresent account (entry_value ?e)))"
    then have "watchlist_get w now account \<noteq> None" using get[of account] by simp
    then obtain x where "watchlist_get w now account = Some x" by blast
    then show ?thesis using assms *(2) by (simp add: register_def tsm_insert_def)
  next
    fix m' ev
    assume *: "tsm_get ?m now account = None" "tsm_wf m'" "bm_len (tsm_entries m') = tsm_capacity ?m"
      "evicts now (tsm_entries ?m) (tsm_entries m') ev"
      "tsm_insert_entry now account ?e ?m = Some (m', Inl (AtCapacity account (entry_value ?e)))"
    have "bm_get (tsm_entries m') k = Some e \<Longrightarrow> entry_is_live e now" for k e
      by (auto simp: evicts_get[OF *(4)] split: option.splits if_splits)
    then show ?thesis
      using * get watchlist_all_live[OF *(2)] watchlist_get_same[OF *(4)]
      by (simp add: register_def tsm_insert_def watchlist_wf_def watchlist_len_def tsm_len_def)
  next
    fix m' m'' ev
    assume *: "tsm_get ?m now account = None" "evicts now (tsm_entries ?m) (tsm_entries m') ev" "tsm_wf m''"
      "m'' = m'\<lparr>tsm_by_expiry := enqueue_by_expiry account (entry_expires_at (clamp_entry ?m now ?e)) (tsm_by_expiry m'),
               tsm_entries := bm_insert account (clamp_entry ?m now ?e) (tsm_entries m')\<rparr>"
      "tsm_insert_entry now account ?e ?m = Some (m'', Inr ev)"
    have entry: "tsm_get_entry m'' now a = (if a = account then Some ?e else tsm_get_entry ?m now a)" for a
      using live tsm_get_evicted[OF *(2), of a] *(4) by (simp add: tsm_get_entry_def clamp)
    then show ?thesis
      using * get[of account] le
      by (simp add: register_def tsm_insert_def watchlist_wf_def watchlist_get_def watched_def
          next_scan_at_unscanned Let_def)
         (simp add: unscanned_def tsm_expiry_def)
  qed (use live in simp)
qed

definition example_account :: account where
  "example_account = account_from (Principal [7]) None"

theorem register_spec_witness:
  "watchlist_wf watchlist_default \<and>
   (\<exists>w' r. register 5 example_account 1 watchlist_default = Some (w', r) \<and> watchlist_wf w')"
  using register_spec[OF watchlist_wf_default, of 5 example_account 1] watchlist_wf_default by blast


definition example_watchlist :: watchlist where
  "example_watchlist = \<lparr>wl_entries = (tsm_new WATCH_WINDOW MAX_WATCHED_ADDRESSES)\<lparr>
     tsm_entries := bm_insert example_account
       \<lparr>entry_value = unscanned 1 5, entry_expires_at = 86400000000005\<rparr> bm_empty,
     tsm_by_expiry := bm_insert 86400000000005 [example_account] bm_empty\<rparr>\<rparr>"


end
