(* ===== verification/Deposits.thy ===== *)
theory Deposits
  imports Sweeps Watchlist
begin

text \<open>
  \<^verbatim>\<open>minter/src/state/deposits/mod.rs\<close>: the deposits accepted by the minter, grouped by their
  progress towards a mint. Their invariant and the properties of the operations are in
  \<open>Deposit_Stages\<close>.
\<close>

subsection \<open>Data\<close>

record swept_deposit =
  sd_deposit :: queued_deposit
  sd_signature :: signature

record pending_mint =
  pm_deposit :: swept_deposit
  pm_amount_to_mint :: lamport
  pm_created_at_time :: u64

datatype quarantine_cause =
    SweepUnreadable
  | MintUnresolved lamport u64

record quarantined_deposit =
  qr_deposit :: swept_deposit
  qr_cause :: quarantine_cause

record minted_sweep =
  ms_deposit :: swept_deposit
  ms_minted_amount :: lamport
  ms_mint_block_index :: ledger_mint_index

datatype in_flight_deposit = Processing deposit_sol_id | Quarantined deposit_sol_id

record deposits =
  d_next_id :: deposit_sol_id
  d_queued :: "(deposit_sol_id, queued_deposit) btree_map"
  d_swept :: sweeps
  d_finalized :: sweeps
  d_pending_mints :: "(deposit_sol_id, pending_mint) btree_map"
  d_minted :: "(deposit_sol_id, minted_sweep) btree_map"
  d_dropped :: "(deposit_sol_id, swept_deposit) btree_map"
  d_quarantined :: "(deposit_sol_id, quarantined_deposit) btree_map"
  d_in_flight_ids :: "(account, deposit_sol_id) btree_map"
  d_latest_ids :: "(account, deposit_sol_id) btree_map"
  d_queued_at_by_id :: "(deposit_sol_id, u64) btree_map"
  d_watchlist :: watchlist

definition deposits_default :: deposits where
  "deposits_default = \<lparr>d_next_id = 0, d_queued = bm_empty, d_swept = sweeps_empty,
     d_finalized = sweeps_empty, d_pending_mints = bm_empty, d_minted = bm_empty, d_dropped = bm_empty,
     d_quarantined = bm_empty, d_in_flight_ids = bm_empty, d_latest_ids = bm_empty,
     d_queued_at_by_id = bm_empty, d_watchlist = watchlist_default\<rparr>"

definition pending_account :: "pending_mint \<Rightarrow> account" where
  "pending_account p = qd_account (sd_deposit (pm_deposit p))"

definition pending_sweep_signature :: "pending_mint \<Rightarrow> signature" where
  "pending_sweep_signature p = sd_signature (pm_deposit p)"

definition quarantined_account :: "quarantined_deposit \<Rightarrow> account" where
  "quarantined_account q = qd_account (sd_deposit (qr_deposit q))"

definition planned_amount :: "quarantined_deposit \<Rightarrow> lamport" where
  "planned_amount q = sweepable_amount (sd_deposit (qr_deposit q))"

subsection \<open>Queries\<close>

definition in_flight_id :: "deposits \<Rightarrow> account \<Rightarrow> deposit_sol_id option" where
  "in_flight_id d account = bm_get (d_in_flight_ids d) account"

definition status :: "deposits \<Rightarrow> deposit_sol_id \<Rightarrow> deposit_sol_status" where
  "status d i =
     (case bm_get (d_queued d) i of Some deposit \<Rightarrow> DepositQueued (sweepable_amount deposit)
      | None \<Rightarrow>
     (case sweeps_deposit (d_swept d) i of Some (signature, _) \<Rightarrow> DepositSwept signature
      | None \<Rightarrow>
     (case sweeps_deposit (d_finalized d) i of Some (signature, _) \<Rightarrow> DepositFinalized signature
      | None \<Rightarrow>
     (case bm_get (d_pending_mints d) i of Some pending \<Rightarrow> DepositFinalized (pending_sweep_signature pending)
      | None \<Rightarrow>
     (case bm_get (d_minted d) i of Some minted \<Rightarrow> DepositMinted (ms_mint_block_index minted) (ms_minted_amount minted)
      | None \<Rightarrow>
     (case bm_get (d_dropped d) i of Some dropped \<Rightarrow> DepositDropped (sd_signature dropped)
      | None \<Rightarrow>
     (case bm_get (d_quarantined d) i of Some quarantined \<Rightarrow> DepositQuarantined (sd_signature (qr_deposit quarantined))
      | None \<Rightarrow> DepositNotFound)))))))"

text \<open>\<open>None\<close> is the panic for an in-flight deposit that has released its account.\<close>

definition in_flight :: "deposits \<Rightarrow> account \<Rightarrow> in_flight_deposit option option" where
  "in_flight d account =
     (case in_flight_id d account of
        None \<Rightarrow> Some None
      | Some i \<Rightarrow>
          (case status d i of
             DepositQueued _ \<Rightarrow> Some (Some (Processing i))
           | DepositSwept _ \<Rightarrow> Some (Some (Processing i))
           | DepositFinalized _ \<Rightarrow> Some (Some (Processing i))
           | DepositQuarantined _ \<Rightarrow> Some (Some (Quarantined i))
           | _ \<Rightarrow> None))"

definition latest_id :: "deposits \<Rightarrow> account \<Rightarrow> deposit_sol_id option" where
  "latest_id d account = bm_get (d_latest_ids d) account"

definition oldest_in_flight_queued_at :: "deposits \<Rightarrow> u64 option" where
  "oldest_in_flight_queued_at d = min_option (bm_values (d_queued_at_by_id d))"

definition oldest_pending_mint_created_at :: "deposits \<Rightarrow> u64 option" where
  "oldest_pending_mint_created_at d = min_option (map pm_created_at_time (bm_values (d_pending_mints d)))"

subsection \<open>Operations\<close>

definition queue :: "deposit_sol_id \<Rightarrow> queued_deposit \<Rightarrow> u64 \<Rightarrow> deposits \<Rightarrow> deposits option" where
  "queue i deposit queued_at d = do {
     assert_that (i = d_next_id d);
     assert_that (\<not> bm_contains (d_in_flight_ids d) (qd_account deposit));
     wl \<leftarrow> watchlist_remove (qd_account deposit) (d_watchlist d);
     Some (d\<lparr>d_in_flight_ids := bm_insert (qd_account deposit) i (d_in_flight_ids d),
             d_latest_ids := bm_insert (qd_account deposit) i (d_latest_ids d),
             d_watchlist := wl,
             d_queued := bm_insert i deposit (d_queued d),
             d_queued_at_by_id := bm_insert i queued_at (d_queued_at_by_id d),
             d_next_id := d_next_id d + 1\<rparr>)
   }"

fun take_queued ::
  "deposit_sol_id list \<Rightarrow> (deposit_sol_id, queued_deposit) btree_map \<Rightarrow>
   ((deposit_sol_id \<times> queued_deposit) list \<times> (deposit_sol_id, queued_deposit) btree_map) option" where
  "take_queued [] queued = Some ([], queued)"
| "take_queued (i # ids) queued = do {
     deposit \<leftarrow> bm_get queued i;
     (taken, queued') \<leftarrow> take_queued ids (bm_remove i queued);
     Some ((i, deposit) # taken, queued')
   }"

definition sweep_deposits ::
  "sdk \<Rightarrow> deposit_sol_id list \<Rightarrow> address \<Rightarrow> versioned_message \<Rightarrow> signature \<Rightarrow> deposits \<Rightarrow>
   (deposits \<times> lamport) option" where
  "sweep_deposits lib ids to message signature d = do {
     assert_that (ids \<noteq> []);
     (taken, queued) \<leftarrow> take_queued ids (d_queued d);
     recovered \<leftarrow> recover lib taken to message;
     sweep \<leftarrow> (case recovered of Inl _ \<Rightarrow> None | Inr sweep \<Rightarrow> Some sweep);
     swept \<leftarrow> sweeps_insert signature sweep (d_swept d);
     Some (d\<lparr>d_queued := queued, d_swept := swept\<rparr>, sw_expected_received sweep)
   }"

definition release_in_flight :: "deposit_sol_id \<Rightarrow> account \<Rightarrow> deposits \<Rightarrow> deposits option" where
  "release_in_flight i account d = do {
     assert_that (bm_get (d_in_flight_ids d) account = Some i);
     Some (d\<lparr>d_in_flight_ids := bm_remove account (d_in_flight_ids d)\<rparr>)
   }"

definition drop_one :: "signature \<Rightarrow> deposit_sol_id \<times> queued_deposit \<Rightarrow> deposits \<Rightarrow> deposits option" where
  "drop_one signature p d = do {
     d' \<leftarrow> release_in_flight (fst p) (qd_account (snd p)) d;
     Some (d'\<lparr>d_queued_at_by_id := bm_remove (fst p) (d_queued_at_by_id d'),
              d_dropped := bm_insert (fst p) \<lparr>sd_deposit = snd p, sd_signature = signature\<rparr> (d_dropped d')\<rparr>)
   }"

definition drop_swept :: "signature \<Rightarrow> deposits \<Rightarrow> deposits option" where
  "drop_swept signature d = do {
     (swept, sweep) \<leftarrow> sweeps_remove signature (d_swept d);
     foldM (drop_one signature) (bm_iter (sw_deposits sweep)) (d\<lparr>d_swept := swept\<rparr>)
   }"

definition quarantine_sweep :: "signature \<Rightarrow> deposits \<Rightarrow> deposits option" where
  "quarantine_sweep signature d = do {
     (finalized, sweep) \<leftarrow> sweeps_remove signature (d_finalized d);
     Some (d\<lparr>d_finalized := finalized,
       d_quarantined := bm_extend (map (\<lambda>(i, deposit). (i,
           \<lparr>qr_deposit = \<lparr>sd_deposit = deposit, sd_signature = signature\<rparr>, qr_cause = SweepUnreadable\<rparr>))
         (bm_iter (sw_deposits sweep))) (d_quarantined d),
       d_queued_at_by_id := fold bm_remove (bm_keys (sw_deposits sweep)) (d_queued_at_by_id d)\<rparr>)
   }"

definition finalize_swept :: "signature \<Rightarrow> deposits \<Rightarrow> deposits option" where
  "finalize_swept signature d = do {
     (swept, sweep) \<leftarrow> sweeps_remove signature (d_swept d);
     finalized \<leftarrow> sweeps_insert signature sweep (d_finalized d);
     Some (d\<lparr>d_swept := swept, d_finalized := finalized\<rparr>)
   }"

definition credit_one ::
  "signature \<Rightarrow> sweep \<Rightarrow> u64 \<Rightarrow> credited_deposit \<Rightarrow> deposits \<Rightarrow> deposits option" where
  "credit_one signature sweep timestamp mint d = do {
     deposit \<leftarrow> bm_get (sw_deposits sweep) (cd_deposit_id mint);
     assert_that (cd_amount_to_mint mint \<le> sweepable_amount deposit);
     assert_that (\<not> bm_contains (d_pending_mints d) (cd_deposit_id mint));
     Some (d\<lparr>d_pending_mints := bm_insert (cd_deposit_id mint)
       \<lparr>pm_deposit = \<lparr>sd_deposit = deposit, sd_signature = signature\<rparr>,
        pm_amount_to_mint = cd_amount_to_mint mint, pm_created_at_time = timestamp\<rparr> (d_pending_mints d)\<rparr>)
   }"

definition credit_sweep ::
  "signature \<Rightarrow> credited_deposit list \<Rightarrow> u64 \<Rightarrow> deposits \<Rightarrow> (deposits \<times> sweep) option" where
  "credit_sweep signature credited timestamp d = do {
     (finalized, sweep) \<leftarrow> sweeps_remove signature (d_finalized d);
     assert_that (length credited = deposit_count sweep);
     d' \<leftarrow> foldM (credit_one signature sweep timestamp) credited (d\<lparr>d_finalized := finalized\<rparr>);
     Some (d', sweep)
   }"

definition mint_deposit :: "deposit_sol_id \<Rightarrow> ledger_mint_index \<Rightarrow> deposits \<Rightarrow> deposits option" where
  "mint_deposit i block_index d = do {
     pending \<leftarrow> bm_get (d_pending_mints d) i;
     d' \<leftarrow> release_in_flight i (pending_account pending) (d\<lparr>d_pending_mints := bm_remove i (d_pending_mints d)\<rparr>);
     Some (d'\<lparr>d_queued_at_by_id := bm_remove i (d_queued_at_by_id d'),
       d_minted := bm_insert i \<lparr>ms_deposit = pm_deposit pending, ms_minted_amount = pm_amount_to_mint pending,
         ms_mint_block_index = block_index\<rparr> (d_minted d')\<rparr>)
   }"

definition quarantine_pending_mint :: "deposit_sol_id \<Rightarrow> deposits \<Rightarrow> deposits option" where
  "quarantine_pending_mint i d = do {
     pending \<leftarrow> bm_get (d_pending_mints d) i;
     Some (d\<lparr>d_pending_mints := bm_remove i (d_pending_mints d),
       d_queued_at_by_id := bm_remove i (d_queued_at_by_id d),
       d_quarantined := bm_insert i \<lparr>qr_deposit = pm_deposit pending,
         qr_cause = MintUnresolved (pm_amount_to_mint pending) (pm_created_at_time pending)\<rparr>
         (d_quarantined d)\<rparr>)
   }"

end
