(* ===== verification/Deposit_Stages.thy ===== *)
theory Deposit_Stages
  imports Deposits
begin

text \<open>
  The lifecycle of deposits. The abstract view of the deposits maps a deposit id to the queued
  deposit and its stage; \<open>deposits_wf\<close> says that every id below the next one is at exactly one stage
  and that the indices over accounts agree with the view. Every operation of \<open>Deposits\<close> is shown to
  preserve it and to take the deposits it names one step along \<open>stage_step\<close>.
\<close>

subsection \<open>The abstract view\<close>

datatype stage =
    StQueued
  | StSwept signature
  | StFinalized signature
  | StPending signature lamport u64
  | StMinted signature lamport ledger_mint_index
  | StDropped signature
  | StQuarantined signature quarantine_cause

inductive stage_step :: "stage \<Rightarrow> stage \<Rightarrow> bool" where
  sweep: "stage_step StQueued (StSwept s)"
| finalize: "stage_step (StSwept s) (StFinalized s)"
| drop: "stage_step (StSwept s) (StDropped s)"
| credit: "stage_step (StFinalized s) (StPending s amount t)"
| quarantine: "stage_step (StFinalized s) (StQuarantined s SweepUnreadable)"
| mint: "stage_step (StPending s amount t) (StMinted s amount block)"
| give_up: "stage_step (StPending s amount t) (StQuarantined s (MintUnresolved amount t))"

inductive_cases stage_stepE: "stage_step a b"
inductive_simps stage_step_simps:
  "stage_step StQueued b" "stage_step (StSwept s) b" "stage_step (StFinalized s) b"
  "stage_step (StPending s x t) b" "stage_step (StMinted s x n) b" "stage_step (StDropped s) b"
  "stage_step (StQuarantined s c) b"

fun stage_active :: "stage \<Rightarrow> bool" where
  "stage_active (StMinted _ _ _) = False"
| "stage_active (StDropped _) = False"
| "stage_active _ = True"

fun stage_tracked :: "stage \<Rightarrow> bool" where
  "stage_tracked (StMinted _ _ _) = False"
| "stage_tracked (StDropped _) = False"
| "stage_tracked (StQuarantined _ _) = False"
| "stage_tracked _ = True"

type_synonym deposit_view = "queued_deposit \<times> stage"

definition pending_view :: "pending_mint \<Rightarrow> deposit_view" where
  "pending_view p = (sd_deposit (pm_deposit p),
     StPending (sd_signature (pm_deposit p)) (pm_amount_to_mint p) (pm_created_at_time p))"

definition minted_view :: "minted_sweep \<Rightarrow> deposit_view" where
  "minted_view m = (sd_deposit (ms_deposit m),
     StMinted (sd_signature (ms_deposit m)) (ms_minted_amount m) (ms_mint_block_index m))"

definition dropped_view :: "swept_deposit \<Rightarrow> deposit_view" where
  "dropped_view s = (sd_deposit s, StDropped (sd_signature s))"

definition quarantined_view :: "quarantined_deposit \<Rightarrow> deposit_view" where
  "quarantined_view q = (sd_deposit (qr_deposit q), StQuarantined (sd_signature (qr_deposit q)) (qr_cause q))"

definition stages :: "deposits \<Rightarrow> deposit_sol_id \<Rightarrow> deposit_view option list" where
  "stages d i =
     [map_option (\<lambda>q. (q, StQueued)) (bm_get (d_queued d) i),
      map_option (\<lambda>(s, q). (q, StSwept s)) (sweeps_deposit (d_swept d) i),
      map_option (\<lambda>(s, q). (q, StFinalized s)) (sweeps_deposit (d_finalized d) i),
      map_option pending_view (bm_get (d_pending_mints d) i),
      map_option minted_view (bm_get (d_minted d) i),
      map_option dropped_view (bm_get (d_dropped d) i),
      map_option quarantined_view (bm_get (d_quarantined d) i)]"

definition view :: "deposits \<Rightarrow> deposit_sol_id \<Rightarrow> deposit_view option" where
  "view d i = find_map (\<lambda>x. x) (stages d i)"

text \<open>A list of options of which only the one at position \<open>k\<close> holds a value.\<close>

definition sole :: "'a option list \<Rightarrow> nat \<Rightarrow> 'a \<Rightarrow> bool" where
  "sole xs k v \<longleftrightarrow> k < length xs \<and> xs ! k = Some v \<and> (\<forall>j < length xs. j \<noteq> k \<longrightarrow> xs ! j = None)"

lemma sole_find_map: "sole xs k v \<Longrightarrow> find_map (\<lambda>x. x) xs = Some v"
proof (induction xs arbitrary: k)
  case (Cons x xs)
  show ?case
  proof (cases k)
    case 0
    then show ?thesis using Cons.prems by (simp add: sole_def)
  next
    case (Suc j)
    then have "x = None" using Cons.prems by (force simp: sole_def)
    moreover have "sole xs j v" using Cons.prems Suc by (force simp: sole_def)
    ultimately show ?thesis using Cons.IH by simp
  qed
qed (simp add: sole_def)

lemma sole_unique: "sole xs k v \<Longrightarrow> j < length xs \<Longrightarrow> xs ! j = Some w \<Longrightarrow> j = k \<and> w = v"
  unfolding sole_def by (metis option.distinct(1) option.inject)

lemma sole_other: "sole xs k v \<Longrightarrow> j < length xs \<Longrightarrow> j \<noteq> k \<Longrightarrow> xs ! j = None"
  by (simp add: sole_def)

lemma sole_move:
  "sole xs k v \<Longrightarrow> l < length xs \<Longrightarrow> l \<noteq> k \<Longrightarrow> sole (xs[k := None, l := Some w]) l w"
  unfolding sole_def by (auto simp: nth_list_update)

lemma length_stages [simp]: "length (stages d i) = 7"
  by (simp add: stages_def)

subsection \<open>The invariant\<close>

definition staged :: "deposits \<Rightarrow> bool" where
  "staged d \<longleftrightarrow> (\<forall>i. if i < d_next_id d then \<exists>k v. sole (stages d i) k v
                     else \<forall>j < 7. stages d i ! j = None)"

definition accounts_indexed ::
  "(deposit_sol_id \<Rightarrow> deposit_view option) \<Rightarrow> (account, deposit_sol_id) btree_map \<Rightarrow> bool" where
  "accounts_indexed V m \<longleftrightarrow>
     (\<forall>a i. bm_get m a = Some i \<longleftrightarrow> (\<exists>q st. V i = Some (q, st) \<and> stage_active st \<and> qd_account q = a))"

definition latest_indexed ::
  "(deposit_sol_id \<Rightarrow> deposit_view option) \<Rightarrow> (account, deposit_sol_id) btree_map \<Rightarrow> bool" where
  "latest_indexed V m \<longleftrightarrow>
     (\<forall>a i. bm_get m a = Some i \<longrightarrow> (\<exists>q st. V i = Some (q, st) \<and> qd_account q = a)) \<and>
     (\<forall>i q st. V i = Some (q, st) \<longrightarrow> (\<exists>j. bm_get m (qd_account q) = Some j \<and> i \<le> j))"

definition times_indexed ::
  "(deposit_sol_id \<Rightarrow> deposit_view option) \<Rightarrow> (deposit_sol_id, u64) btree_map \<Rightarrow> bool" where
  "times_indexed V m \<longleftrightarrow> (\<forall>i. bm_contains m i \<longleftrightarrow> (\<exists>q st. V i = Some (q, st) \<and> stage_tracked st))"

definition deposits_wf :: "deposits \<Rightarrow> bool" where
  "deposits_wf d \<longleftrightarrow>
     staged d \<and> sweeps_wf (d_swept d) \<and> sweeps_wf (d_finalized d) \<and>
     accounts_indexed (view d) (d_in_flight_ids d) \<and>
     latest_indexed (view d) (d_latest_ids d) \<and>
     times_indexed (view d) (d_queued_at_by_id d) \<and>
     watchlist_wf (d_watchlist d)"

lemmas deposits_wfD =
  deposits_wf_def[THEN iffD1, THEN conjunct1]
  deposits_wf_def[THEN iffD1, THEN conjunct2, THEN conjunct1]
  deposits_wf_def[THEN iffD1, THEN conjunct2, THEN conjunct2, THEN conjunct1]
  deposits_wf_def[THEN iffD1, THEN conjunct2, THEN conjunct2, THEN conjunct2, THEN conjunct1]
  deposits_wf_def[THEN iffD1, THEN conjunct2, THEN conjunct2, THEN conjunct2, THEN conjunct2, THEN conjunct1]
  deposits_wf_def[THEN iffD1, THEN conjunct2, THEN conjunct2, THEN conjunct2, THEN conjunct2, THEN conjunct2, THEN conjunct1]
  deposits_wf_def[THEN iffD1, THEN conjunct2, THEN conjunct2, THEN conjunct2, THEN conjunct2, THEN conjunct2, THEN conjunct2]

lemma less_7: "j < 7 \<longleftrightarrow> j = 0 \<or> j = 1 \<or> j = 2 \<or> j = 3 \<or> j = 4 \<or> j = 5 \<or> j = (6 :: nat)"
  by auto

lemma deposits_wf_default: "deposits_wf deposits_default"
proof -
  have "stages deposits_default i = replicate 7 None" for i
    by (simp add: stages_def deposits_default_def numeral_eq_Suc)
  then have "view deposits_default i = None" "stages deposits_default i = replicate 7 None" for i
    by (simp_all add: view_def numeral_eq_Suc)
  then show ?thesis
    by (simp add: deposits_wf_def staged_def accounts_indexed_def latest_indexed_def times_indexed_def)
       (simp add: deposits_default_def watchlist_wf_default)
qed

lemma staged_view:
  assumes "staged d" and "j < 7" and "stages d i ! j = Some v"
  shows "view d i = Some v" and "sole (stages d i) j v" and "i < d_next_id d"
proof -
  show lt: "i < d_next_id d" using assms unfolding staged_def by (metis option.distinct(1))
  then obtain k w where "sole (stages d i) k w" using assms(1) unfolding staged_def by metis
  then show "sole (stages d i) j v" using sole_unique assms(2,3) by (metis length_stages)
  then show "view d i = Some v" by (simp add: view_def sole_find_map)
qed

lemma view_SomeE:
  assumes "view d i = Some v"
  obtains j where "j < 7" "stages d i ! j = Some v"
proof -
  from assms obtain x where "x \<in> set (stages d i)" "x = Some v"
    unfolding view_def by (auto dest: find_map_SomeD)
  then show thesis using that by (auto simp: in_set_conv_nth)
qed

lemma view_less: "staged d \<Longrightarrow> view d i = Some v \<Longrightarrow> i < d_next_id d"
  by (elim view_SomeE) (rule staged_view(3))

lemma staged_total: "staged d \<Longrightarrow> i < d_next_id d \<Longrightarrow> \<exists>v. view d i = Some v"
  unfolding staged_def view_def using sole_find_map by metis

subsection \<open>Moving deposits between stages\<close>

definition moves ::
  "deposits \<Rightarrow> deposits \<Rightarrow> deposit_sol_id set \<Rightarrow> nat \<Rightarrow> nat \<Rightarrow> (deposit_sol_id \<Rightarrow> stage) \<Rightarrow> bool" where
  "moves d d' I k l st \<longleftrightarrow> k < 7 \<and> l < 7 \<and> l \<noteq> k \<and> d_next_id d' = d_next_id d \<and>
     (\<forall>i \<in> I. \<exists>q st0. stages d i ! k = Some (q, st0) \<and> stages d' i = (stages d i)[k := None, l := Some (q, st i)]) \<and>
     (\<forall>i. i \<notin> I \<longrightarrow> stages d' i = stages d i)"

text \<open>The effect of a move on the view: the queued deposit stays, the stage changes.\<close>

definition restage ::
  "deposit_sol_id set \<Rightarrow> (deposit_sol_id \<Rightarrow> stage) \<Rightarrow> (deposit_sol_id \<Rightarrow> deposit_view option) \<Rightarrow>
   deposit_sol_id \<Rightarrow> deposit_view option" where
  "restage I st V i = (if i \<in> I then map_option (\<lambda>(q, _). (q, st i)) (V i) else V i)"

lemma moves_inside:
  assumes "moves d d' I k l st" "staged d" "i \<in> I"
  obtains q st0 where "stages d i ! k = Some (q, st0)" "view d i = Some (q, st0)"
    "sole (stages d' i) l (q, st i)" "i < d_next_id d"
proof -
  from assms obtain q st0 where *: "stages d i ! k = Some (q, st0)" "k < 7" "l < 7" "l \<noteq> k"
    "stages d' i = (stages d i)[k := None, l := Some (q, st i)]"
    unfolding moves_def by blast
  note v = staged_view[OF assms(2) *(2,1)]
  have "sole (stages d' i) l (q, st i)" unfolding *(5) by (rule sole_move[OF v(2)]) (use *(3,4) in simp_all)
  then show thesis using that *(1) v by blast
qed

lemma moves_view:
  assumes "moves d d' I k l st" "staged d"
  shows "view d' = restage I st (view d)"
proof
  fix i
  show "view d' i = restage I st (view d) i"
  proof (cases "i \<in> I")
    case True
    from moves_inside[OF assms True] obtain q st0 where
      "view d i = Some (q, st0)" "sole (stages d' i) l (q, st i)" by blast
    then show ?thesis using True by (simp add: restage_def view_def sole_find_map)
  next
    case False
    then show ?thesis using assms(1) by (simp add: restage_def view_def moves_def)
  qed
qed

lemma moves_staged:
  assumes "moves d d' I k l st" "staged d"
  shows "staged d'"
  unfolding staged_def
proof
  fix i
  have next': "d_next_id d' = d_next_id d" using assms(1) by (simp add: moves_def)
  show "if i < d_next_id d' then \<exists>k v. sole (stages d' i) k v else \<forall>j < 7. stages d' i ! j = None"
  proof (cases "i \<in> I")
    case True
    from moves_inside[OF assms True] obtain q where
      "sole (stages d' i) l (q, st i)" "i < d_next_id d" by blast
    then show ?thesis by (auto simp: next')
  next
    case False
    then have eq: "stages d' i = stages d i" using assms(1) by (simp add: moves_def)
    show ?thesis unfolding next' eq using assms(2)[unfolded staged_def] by (rule spec)
  qed
qed

lemma moves_from:
  assumes "moves d d' I k l st" "staged d" "i \<in> I"
  shows "\<exists>q st0. view d i = Some (q, st0) \<and> stages d i ! k = Some (q, st0)"
  using moves_inside[OF assms] by blast

lemma restage_Some_iff:
  "restage I st V i = Some (q, s) \<longleftrightarrow>
     (if i \<in> I then s = st i \<and> (\<exists>s0. V i = Some (q, s0)) else V i = Some (q, s))"
  by (auto simp: restage_def)

lemma latest_indexed_restage: "latest_indexed V m \<Longrightarrow> latest_indexed (restage I st V) m"
  unfolding latest_indexed_def restage_Some_iff by metis

lemma accounts_indexed_keep:
  assumes "accounts_indexed V m"
    and "\<And>i q s. i \<in> I \<Longrightarrow> V i = Some (q, s) \<Longrightarrow> stage_active s \<and> stage_active (st i)"
  shows "accounts_indexed (restage I st V) m"
proof -
  have "(\<exists>q s. restage I st V i = Some (q, s) \<and> stage_active s \<and> qd_account q = a) \<longleftrightarrow>
        (\<exists>q s. V i = Some (q, s) \<and> stage_active s \<and> qd_account q = a)" for i a
    using assms(2)[of i] unfolding restage_Some_iff by (cases "i \<in> I"; cases "V i") auto
  then show ?thesis using assms(1) by (simp add: accounts_indexed_def)
qed

lemma accounts_indexed_release:
  assumes "accounts_indexed V m"
    and "\<And>i q s. i \<in> I \<Longrightarrow> V i = Some (q, s) \<Longrightarrow> stage_active s \<and> \<not> stage_active (st i)"
    and "\<And>a. bm_get m' a = (if \<exists>i \<in> I. bm_get m a = Some i then None else bm_get m a)"
  shows "accounts_indexed (restage I st V) m'"
  unfolding accounts_indexed_def
proof (intro allI)
  fix a i
  have old: "bm_get m a = Some i \<longleftrightarrow> (\<exists>q s. V i = Some (q, s) \<and> stage_active s \<and> qd_account q = a)"
    using assms(1) unfolding accounts_indexed_def by blast
  show "bm_get m' a = Some i \<longleftrightarrow>
      (\<exists>q s. restage I st V i = Some (q, s) \<and> stage_active s \<and> qd_account q = a)"
  proof (cases "i \<in> I")
    case True
    have "bm_get m' a \<noteq> Some i" using assms(3)[of a] True by auto
    moreover have "\<not> stage_active (st i)" if "V i = Some (q, s)" for q s
      using assms(2)[OF True that] by simp
    ultimately show ?thesis using True unfolding restage_Some_iff by auto
  next
    case False
    have "bm_get m' a = Some i \<longleftrightarrow> bm_get m a = Some i"
      using assms(3)[of a] False by (auto split: if_splits)
    then show ?thesis using old False unfolding restage_Some_iff by auto
  qed
qed

lemma times_indexed_keep:
  assumes "times_indexed V m"
    and "\<And>i q s. i \<in> I \<Longrightarrow> V i = Some (q, s) \<Longrightarrow> stage_tracked s \<and> stage_tracked (st i)"
  shows "times_indexed (restage I st V) m"
proof -
  have "(\<exists>q s. restage I st V i = Some (q, s) \<and> stage_tracked s) \<longleftrightarrow>
        (\<exists>q s. V i = Some (q, s) \<and> stage_tracked s)" for i
    using assms(2)[of i] unfolding restage_Some_iff by (cases "i \<in> I"; cases "V i") auto
  then show ?thesis using assms(1) by (simp add: times_indexed_def)
qed

lemma times_indexed_release:
  assumes "times_indexed V m" and "\<And>i. i \<in> I \<Longrightarrow> \<not> stage_tracked (st i)"
    and "\<And>i. bm_contains m' i \<longleftrightarrow> i \<notin> I \<and> bm_contains m i"
  shows "times_indexed (restage I st V) m'"
  unfolding times_indexed_def
proof
  fix i
  show "bm_contains m' i \<longleftrightarrow> (\<exists>q s. restage I st V i = Some (q, s) \<and> stage_tracked s)"
    using assms(1)[unfolded times_indexed_def, rule_format, of i] assms(2)[of i] assms(3)[of i]
    unfolding restage_Some_iff by auto
qed

lemma stages_nth [simp]:
  "stages d i ! 0 = map_option (\<lambda>q. (q, StQueued)) (bm_get (d_queued d) i)"
  "stages d i ! Suc 0 = map_option (\<lambda>(s, q). (q, StSwept s)) (sweeps_deposit (d_swept d) i)"
  "stages d i ! 2 = map_option (\<lambda>(s, q). (q, StFinalized s)) (sweeps_deposit (d_finalized d) i)"
  "stages d i ! 3 = map_option pending_view (bm_get (d_pending_mints d) i)"
  "stages d i ! 4 = map_option minted_view (bm_get (d_minted d) i)"
  "stages d i ! 5 = map_option dropped_view (bm_get (d_dropped d) i)"
  "stages d i ! 6 = map_option quarantined_view (bm_get (d_quarantined d) i)"
  by (simp_all add: stages_def)

lemma list7_cong:
  "[a, b, c, d, e, f, g] = [a', b', c', d', e', f', g'] \<longleftrightarrow>
     a = a' \<and> b = b' \<and> c = c' \<and> d = d' \<and> e = e' \<and> f = f' \<and> g = g'"
  by simp

subsection \<open>Queueing\<close>

lemma word_less_Suc: "n \<noteq> - 1 \<Longrightarrow> j < n + 1 \<longleftrightarrow> j < n \<or> j = n" for j n :: "'a::len word"
proof -
  assume "n \<noteq> - 1"
  then have "unat n \<noteq> unat (- 1 :: 'a word)" using word_unat_eq_iff by blast
  then have "unat n \<noteq> 2 ^ LENGTH('a) - 1" by (simp add: unsigned_minus_1_eq_mask mask_eq_exp_minus_1)
  moreover have "unat n < 2 ^ LENGTH('a)" by (rule unsigned_less)
  ultimately have "unat n + 1 < 2 ^ LENGTH('a)" by linarith
  then have "unat (n + 1) = Suc (unat n)" by (subst unat_plus_no_overflow) simp_all
  then show ?thesis by (auto simp: word_less_nat_alt word_unat_eq_iff)
qed

lemma queueD:
  assumes "queue i q t d = Some d'"
  obtains wl where "i = d_next_id d" "bm_get (d_in_flight_ids d) (qd_account q) = None"
    "watchlist_remove (qd_account q) (d_watchlist d) = Some wl"
    "d' = d\<lparr>d_in_flight_ids := bm_insert (qd_account q) i (d_in_flight_ids d),
        d_latest_ids := bm_insert (qd_account q) i (d_latest_ids d), d_watchlist := wl,
        d_queued := bm_insert i q (d_queued d),
        d_queued_at_by_id := bm_insert i t (d_queued_at_by_id d), d_next_id := d_next_id d + 1\<rparr>"
  using assms
  by (auto simp: queue_def bm_contains_def assert_that_bind Option.bind_eq_Some_conv split: if_splits)

lemma queue_view:
  assumes wf: "deposits_wf d" and q: "queue i q t d = Some d'"
  shows "view d' = (view d)(i \<mapsto> (q, StQueued))" and "view d i = None"
    and "stages d' j = (if j = i then (stages d i)[0 := Some (q, StQueued)] else stages d j)"
proof -
  from q show st: "stages d' j = (if j = i then (stages d i)[0 := Some (q, StQueued)] else stages d j)" for j
    by (elim queueD) (simp add: stages_def)
  have i: "i = d_next_id d" using q by (auto elim: queueD)
  show none: "view d i = None"
    using view_less[OF deposits_wfD(1)[OF wf], of i] i by (cases "view d i") auto
  show "view d' = (view d)(i \<mapsto> (q, StQueued))"
  proof
    fix j
    have "find_map (\<lambda>x. x) ((stages d i)[0 := Some (q, StQueued)]) = Some (q, StQueued)"
      by (simp add: stages_def)
    then show "view d' j = ((view d)(i \<mapsto> (q, StQueued))) j" by (simp add: view_def st)
  qed
qed

lemma accounts_indexed_add:
  assumes "accounts_indexed V m" "V i = None" "bm_get m (qd_account q) = None"
  shows "accounts_indexed (V(i \<mapsto> (q, StQueued))) (bm_insert (qd_account q) i m)"
  using assms unfolding accounts_indexed_def by (auto split: if_splits) (metis option.distinct(1))

lemma latest_indexed_add:
  assumes "latest_indexed V m" "V i = None" "\<And>j v. V j = Some v \<Longrightarrow> j \<le> i"
  shows "latest_indexed (V(i \<mapsto> (q, StQueued))) (bm_insert (qd_account q) i m)"
  using assms unfolding latest_indexed_def by (auto split: if_splits) (metis option.distinct(1))

lemma times_indexed_add:
  assumes "times_indexed V m" "V i = None"
  shows "times_indexed (V(i \<mapsto> (q, StQueued))) (bm_insert i t m)"
  using assms unfolding times_indexed_def by auto

lemma queue_wf:
  assumes wf: "deposits_wf d" and q: "queue i q t d = Some d'" and room: "d_next_id d \<noteq> - 1"
  shows "deposits_wf d'"
proof -
  from q obtain wl where i: "i = d_next_id d" and free: "bm_get (d_in_flight_ids d) (qd_account q) = None"
    and wl: "watchlist_remove (qd_account q) (d_watchlist d) = Some wl"
    and d': "d' = d\<lparr>d_in_flight_ids := bm_insert (qd_account q) i (d_in_flight_ids d),
        d_latest_ids := bm_insert (qd_account q) i (d_latest_ids d), d_watchlist := wl,
        d_queued := bm_insert i q (d_queued d),
        d_queued_at_by_id := bm_insert i t (d_queued_at_by_id d), d_next_id := d_next_id d + 1\<rparr>"
    by (rule queueD)
  note view = queue_view[OF wf q] and w = deposits_wfD[OF wf]
  have fresh: "\<forall>j < 7. stages d i ! j = None"
    using w(1)[unfolded staged_def, rule_format, of i] by (simp add: i)
  then have sole: "sole ((stages d i)[0 := Some (q, StQueued)]) 0 (q, StQueued)"
    by (auto simp: sole_def nth_list_update)
  have next': "d_next_id d' = d_next_id d + 1" by (simp add: d')
  have "staged d'"
    unfolding staged_def
  proof
    fix j
    show "if j < d_next_id d' then \<exists>k v. sole (stages d' j) k v else \<forall>k < 7. stages d' j ! k = None"
    proof (cases "j = i")
      case True
      then have "j < d_next_id d'" using room i by (simp add: next' word_less_Suc)
      moreover have "sole (stages d' j) 0 (q, StQueued)" using sole True by (simp add: view(3))
      ultimately show ?thesis by auto
    next
      case False
      then have lt: "j < d_next_id d' \<longleftrightarrow> j < d_next_id d" using room i by (simp add: next' word_less_Suc)
      have eq: "stages d' j = stages d j" using False by (simp add: view(3))
      show ?thesis unfolding lt eq using w(1)[unfolded staged_def] by (rule spec)
    qed
  qed
  moreover have "accounts_indexed (view d') (d_in_flight_ids d')"
    using accounts_indexed_add[OF w(4) view(2) free] by (simp add: view(1)) (simp add: d')
  moreover have "latest_indexed (view d') (d_latest_ids d')"
    using latest_indexed_add[OF w(5) view(2), of q] view_less[OF w(1)] i
    by (simp add: view(1)) (simp add: d' less_imp_le)
  moreover have "times_indexed (view d') (d_queued_at_by_id d')"
    using times_indexed_add[OF w(6) view(2)] by (simp add: view(1)) (simp add: d')
  moreover have "watchlist_wf wl" using watchlist_remove_ok[OF w(7), of "qd_account q"] wl by auto
  ultimately show ?thesis using w(2,3) unfolding deposits_wf_def by (simp add: d')
qed

subsection \<open>Sweeping\<close>

lemma take_queuedD:
  "take_queued ids m = Some (taken, m') \<Longrightarrow>
     distinct ids \<and> taken = map (\<lambda>i. (i, the (bm_get m i))) ids \<and>
     (\<forall>i \<in> set ids. bm_get m i \<noteq> None) \<and>
     (\<forall>i. bm_get m' i = (if i \<in> set ids then None else bm_get m i))"
proof (induction ids arbitrary: m taken)
  case (Cons i ids)
  from Cons.prems obtain q rest where q: "bm_get m i = Some q"
    and rest: "take_queued ids (bm_remove i m) = Some (rest, m')" and taken: "taken = (i, q) # rest"
    by (auto simp: Option.bind_eq_Some_conv)
  note IH = Cons.IH[OF rest]
  have "i \<notin> set ids" using IH by (auto split: if_splits)
  then show ?case using IH q taken by (auto split: if_splits)
qed simp

lemma take_queued_exists:
  "distinct ids \<Longrightarrow> (\<And>i. i \<in> set ids \<Longrightarrow> bm_get m i \<noteq> None) \<Longrightarrow> \<exists>taken m'. take_queued ids m = Some (taken, m')"
proof (induction ids arbitrary: m)
  case (Cons i ids)
  then obtain q where q: "bm_get m i = Some q" by fastforce
  have "\<exists>taken m'. take_queued ids (bm_remove i m) = Some (taken, m')"
    by (rule Cons.IH) (use Cons.prems in auto)
  then show ?case using q by auto
qed simp

lemma sweep_depositsD:
  assumes "sweep_deposits lib ids to msg sig d = Some (d', received)"
  obtains taken queued sw swept where "ids \<noteq> []"
    "take_queued ids (d_queued d) = Some (taken, queued)" "recover lib taken to msg = Some (Inr sw)"
    "plan taken to = Some sw" "sweeps_insert sig sw (d_swept d) = Some swept"
    "d' = d\<lparr>d_queued := queued, d_swept := swept\<rparr>" "received = sw_expected_received sw"
proof -
  from assms obtain taken queued r where ids: "ids \<noteq> []"
    and taken: "take_queued ids (d_queued d) = Some (taken, queued)"
    and rec: "recover lib taken to msg = Some r"
    by (auto simp: sweep_deposits_def assert_that_bind Option.bind_eq_Some_conv split: if_splits)
  with assms obtain sw swept where sw: "r = Inr sw" and sn: "sweeps_insert sig sw (d_swept d) = Some swept"
    and res: "d' = d\<lparr>d_queued := queued, d_swept := swept\<rparr>" "received = sw_expected_received sw"
    by (auto simp: sweep_deposits_def assert_that_bind Option.bind_eq_Some_conv split: if_splits sum.splits)
  obtain m where m: "msg = Legacy m" by (cases msg)
  have "plan taken to = Some sw"
    using rec by (auto simp: m sw recover_def Let_def Option.bind_eq_Some_conv split: if_splits)
  then show thesis using that ids taken rec sw sn res by blast
qed

lemma sweep_deposits_moves:
  assumes wf: "deposits_wf d" and s: "sweep_deposits lib ids to msg sig d = Some (d', received)"
  shows "moves d d' (set ids) 0 1 (\<lambda>_. StSwept sig)" and "sweeps_wf (d_swept d')"
    and "\<exists>sw. plan (map (\<lambda>i. (i, the (bm_get (d_queued d) i))) ids) to = Some sw \<and>
           sweeps_get (d_swept d') sig = Some sw \<and> received = sw_expected_received sw"
proof -
  from s obtain taken queued sw swept where
    taken: "take_queued ids (d_queued d) = Some (taken, queued)" and plan: "plan taken to = Some sw"
    and swept: "sweeps_insert sig sw (d_swept d) = Some swept"
    and d': "d' = d\<lparr>d_queued := queued, d_swept := swept\<rparr>" "received = sw_expected_received sw"
    by (rule sweep_depositsD)
  note t = take_queuedD[OF taken] and sp = plan_planned[OF plan] and sw = deposits_wfD(2)[OF wf]
  show "sweeps_wf (d_swept d')" using sweeps_wf_insert[OF swept sw sp] by (simp add: d')
  show "\<exists>sw. plan (map (\<lambda>i. (i, the (bm_get (d_queued d) i))) ids) to = Some sw \<and>
           sweeps_get (d_swept d') sig = Some sw \<and> received = sw_expected_received sw"
    using plan t d' sweeps_get_insert[OF swept] by auto
  have "distinct (map fst taken)" "sw_deposits sw = bm_collect taken" using plan by (auto elim: planE)
  then have deps: "bm_get (sw_deposits sw) i = (if i \<in> set ids then bm_get (d_queued d) i else None)" for i
    using t bm_collect_distinct(1)[of taken] map_of_map_restrict[of "\<lambda>i. the (bm_get (d_queued d) i)" ids]
    by (auto simp: restrict_map_def)
  have q: "bm_get queued i = (if i \<in> set ids then None else bm_get (d_queued d) i)" for i using t by simp
  show "moves d d' (set ids) 0 1 (\<lambda>_. StSwept sig)"
    unfolding moves_def
  proof (intro conjI ballI allI impI)
    fix i assume i: "i \<in> set ids"
    then obtain x where x: "bm_get (d_queued d) i = Some x" using t by blast
    show "\<exists>q st0. stages d i ! 0 = Some (q, st0) \<and> stages d' i = (stages d i)[0 := None, 1 := Some (q, StSwept sig)]"
      using i x by (simp add: d' stages_def q sweeps_deposit_insert[OF swept sw sp] deps)
  next
    fix i assume i: "i \<notin> set ids"
    then show "stages d' i = stages d i"
      by (simp add: d' stages_def q sweeps_deposit_insert[OF swept sw sp] deps)
  qed (simp_all add: d')
qed

lemma moves_wf:
  assumes wf: "deposits_wf d" and mv: "moves d d' I k l st"
    and "sweeps_wf (d_swept d')" "sweeps_wf (d_finalized d')"
    and "accounts_indexed (restage I st (view d)) (d_in_flight_ids d')"
    and "times_indexed (restage I st (view d)) (d_queued_at_by_id d')"
    and "d_latest_ids d' = d_latest_ids d" "d_watchlist d' = d_watchlist d"
  shows "deposits_wf d'"
  using assms(3-) latest_indexed_restage[OF deposits_wfD(5)[OF wf]] deposits_wfD[OF wf]
    moves_staged[OF mv deposits_wfD(1)[OF wf]]
  by (simp add: deposits_wf_def moves_view[OF mv deposits_wfD(1)[OF wf]])

text \<open>The view of the deposits of a move, by the position they leave.\<close>

lemma moves_stage:
  assumes "deposits_wf d" "moves d d' I k l st" "i \<in> I" "view d i = Some (q, s)"
  shows "stages d i ! k = Some (q, s)"
  using moves_from[OF assms(2) deposits_wfD(1)[OF assms(1)] assms(3)] assms(4) by auto

lemma sweep_deposits_wf:
  assumes wf: "deposits_wf d" and s: "sweep_deposits lib ids to msg sig d = Some (d', received)"
  shows "deposits_wf d'"
proof -
  note mv = sweep_deposits_moves[OF wf s]
  have source: "i \<in> set ids \<Longrightarrow> view d i = Some (q, st) \<Longrightarrow> st = StQueued" for i q st
    using moves_stage[OF wf mv(1), of i q st] by auto
  have keep: "d_finalized d' = d_finalized d" "d_in_flight_ids d' = d_in_flight_ids d"
    "d_queued_at_by_id d' = d_queued_at_by_id d" "d_latest_ids d' = d_latest_ids d"
    "d_watchlist d' = d_watchlist d"
    using s by (auto elim!: sweep_depositsD)
  show ?thesis
    by (rule moves_wf[OF wf mv(1,2)])
       (use deposits_wfD[OF wf] in \<open>auto simp: keep intro!: accounts_indexed_keep times_indexed_keep dest!: source\<close>)
qed

subsection \<open>Leaving a sweep\<close>

definition sweep_ids :: "sweep \<Rightarrow> deposit_sol_id set" where
  "sweep_ids w = {i. bm_get (sw_deposits w) i \<noteq> None}"

lemma sweep_ids_iff: "i \<in> sweep_ids w \<longleftrightarrow> (\<exists>q. bm_get (sw_deposits w) i = Some q)"
  by (auto simp: sweep_ids_def)

lemma sweeps_remove_deposit:
  assumes "sweeps_remove sig S = Some (S', w)" "sweeps_wf S"
  shows "bm_get (sw_deposits w) i = Some q \<Longrightarrow> sweeps_deposit S i = Some (sig, q)"
    and "sweeps_deposit S' i = (if i \<in> sweep_ids w then None else sweeps_deposit S i)"
  using assms sweeps_deposit_Some_iff[OF assms(2)] sweeps_deposit_remove[OF assms, of i]
  by (auto simp: sweeps_remove_Some_iff sweep_ids_def)

lemma finalize_sweptD:
  assumes "finalize_swept sig d = Some d'"
  obtains swept w fin where "sweeps_remove sig (d_swept d) = Some (swept, w)"
    "sweeps_insert sig w (d_finalized d) = Some fin" "d' = d\<lparr>d_swept := swept, d_finalized := fin\<rparr>"
  using assms by (auto simp: finalize_swept_def Option.bind_eq_Some_conv)

lemma finalize_swept_moves:
  assumes wf: "deposits_wf d" and f: "finalize_swept sig d = Some d'"
    and w: "sweeps_get (d_swept d) sig = Some w"
  shows "moves d d' (sweep_ids w) 1 2 (\<lambda>_. StFinalized sig)" and "sweeps_wf (d_swept d')" "sweeps_wf (d_finalized d')"
proof -
  from f w obtain swept fin where rm: "sweeps_remove sig (d_swept d) = Some (swept, w)"
    and ins: "sweeps_insert sig w (d_finalized d) = Some fin" and d': "d' = d\<lparr>d_swept := swept, d_finalized := fin\<rparr>"
    by (elim finalize_sweptD) (auto simp: sweeps_remove_Some_iff)
  note sw = deposits_wfD(2,3)[OF wf]
  note pl = sweeps_wf_planned[OF sw(1) w]
  show "sweeps_wf (d_swept d')" "sweeps_wf (d_finalized d')"
    using sweeps_wf_remove[OF rm sw(1)] sweeps_wf_insert[OF ins sw(2) pl] by (simp_all add: d')
  show "moves d d' (sweep_ids w) 1 2 (\<lambda>_. StFinalized sig)"
    unfolding moves_def
  proof (intro conjI ballI allI impI)
    fix i assume i: "i \<in> sweep_ids w"
    then obtain q where q: "bm_get (sw_deposits w) i = Some q" by (auto simp: sweep_ids_iff)
    show "\<exists>q st0. stages d i ! 1 = Some (q, st0) \<and>
        stages d' i = (stages d i)[1 := None, 2 := Some (q, StFinalized sig)]"
      using i q sweeps_remove_deposit[OF rm sw(1)] sweeps_deposit_insert[OF ins sw(2) pl, of i]
      by (simp add: d' stages_def)
  next
    fix i assume i: "i \<notin> sweep_ids w"
    then show "stages d' i = stages d i"
      using sweeps_remove_deposit(2)[OF rm sw(1)] sweeps_deposit_insert[OF ins sw(2) pl, of i]
      by (simp add: d' stages_def sweep_ids_iff split: option.splits)
  qed (simp_all add: d')
qed

lemma finalize_swept_wf:
  assumes wf: "deposits_wf d" and f: "finalize_swept sig d = Some d'"
  shows "deposits_wf d'"
proof -
  obtain w where w: "sweeps_get (d_swept d) sig = Some w"
    using f by (elim finalize_sweptD) (auto simp: sweeps_remove_Some_iff)
  note mv = finalize_swept_moves[OF wf f w]
  have source: "i \<in> sweep_ids w \<Longrightarrow> view d i = Some (q, st) \<Longrightarrow> \<exists>s. st = StSwept s" for i q st
    using moves_stage[OF wf mv(1), of i q st] by auto
  have keep: "d_in_flight_ids d' = d_in_flight_ids d"
    "d_queued_at_by_id d' = d_queued_at_by_id d" "d_latest_ids d' = d_latest_ids d"
    "d_watchlist d' = d_watchlist d"
    using f by (auto elim!: finalize_sweptD)
  show ?thesis
    by (rule moves_wf[OF wf mv])
       (use deposits_wfD[OF wf] in \<open>auto simp: keep intro!: accounts_indexed_keep times_indexed_keep dest!: source\<close>)
qed

lemma quarantine_sweepD:
  assumes "quarantine_sweep sig d = Some d'"
  obtains fin w where "sweeps_remove sig (d_finalized d) = Some (fin, w)"
    "d' = d\<lparr>d_finalized := fin,
       d_quarantined := bm_extend (map (\<lambda>(i, deposit). (i,
           \<lparr>qr_deposit = \<lparr>sd_deposit = deposit, sd_signature = sig\<rparr>, qr_cause = SweepUnreadable\<rparr>))
         (bm_iter (sw_deposits w))) (d_quarantined d),
       d_queued_at_by_id := fold bm_remove (bm_keys (sw_deposits w)) (d_queued_at_by_id d)\<rparr>"
  using assms by (auto simp: quarantine_sweep_def Option.bind_eq_Some_conv)

lemma bm_contains_fold_remove: "bm_contains (fold bm_remove ks m) i \<longleftrightarrow> i \<notin> set ks \<and> bm_contains m i"
  by (induction ks arbitrary: m) auto

lemma bm_get_extend_map:
  "bm_get (bm_extend (map (\<lambda>(i, x). (i, f x)) (bm_iter m)) m') i =
     (case bm_get m i of None \<Rightarrow> bm_get m' i | Some x \<Rightarrow> Some (f x))"
proof -
  let ?ps = "map (\<lambda>(i, x). (i, f x)) (bm_iter m)"
  have keys: "map fst ?ps = bm_keys m" by (simp add: bm_keys_def comp_def case_prod_beta)
  have "distinct (map fst (rev ?ps))" using bm_keys_distinct[of m] keys by (simp flip: rev_map)
  moreover have "distinct (map fst ?ps)" using bm_keys_distinct[of m] keys by simp
  ultimately have "map_of (rev ?ps) = map_of ?ps" by (subst map_of_inject_set) simp_all
  moreover have "map_of ?ps i = map_option f (bm_get m i)"
    by (simp add: bm_get_def map_of_map)
  ultimately show ?thesis by (simp add: bm_get_extend split: option.splits)
qed

lemma quarantine_sweep_moves:
  assumes wf: "deposits_wf d" and f: "quarantine_sweep sig d = Some d'"
    and w: "sweeps_get (d_finalized d) sig = Some w"
  shows "moves d d' (sweep_ids w) 2 6 (\<lambda>_. StQuarantined sig SweepUnreadable)" and "sweeps_wf (d_finalized d')"
proof -
  from f w obtain fin where rm: "sweeps_remove sig (d_finalized d) = Some (fin, w)"
    and d': "d' = d\<lparr>d_finalized := fin,
       d_quarantined := bm_extend (map (\<lambda>(i, deposit). (i,
           \<lparr>qr_deposit = \<lparr>sd_deposit = deposit, sd_signature = sig\<rparr>, qr_cause = SweepUnreadable\<rparr>))
         (bm_iter (sw_deposits w))) (d_quarantined d),
       d_queued_at_by_id := fold bm_remove (bm_keys (sw_deposits w)) (d_queued_at_by_id d)\<rparr>"
    by (elim quarantine_sweepD) (auto simp: sweeps_remove_Some_iff)
  note sw = deposits_wfD(3)[OF wf]
  show "sweeps_wf (d_finalized d')" using sweeps_wf_remove[OF rm sw] by (simp add: d')
  show "moves d d' (sweep_ids w) 2 6 (\<lambda>_. StQuarantined sig SweepUnreadable)"
    unfolding moves_def
  proof (intro conjI ballI allI impI)
    fix i assume i: "i \<in> sweep_ids w"
    then obtain q where q: "bm_get (sw_deposits w) i = Some q" by (auto simp: sweep_ids_iff)
    show "\<exists>q st0. stages d i ! 2 = Some (q, st0) \<and>
        stages d' i = (stages d i)[2 := None, 6 := Some (q, StQuarantined sig SweepUnreadable)]"
      using i q sweeps_remove_deposit[OF rm sw]
      by (simp add: d' stages_def bm_get_extend_map quarantined_view_def)
  next
    fix i assume i: "i \<notin> sweep_ids w"
    then show "stages d' i = stages d i"
      using sweeps_remove_deposit(2)[OF rm sw]
      by (simp add: d' stages_def sweep_ids_iff bm_get_extend_map split: option.splits)
  qed (simp_all add: d')
qed

lemma quarantine_sweep_wf:
  assumes wf: "deposits_wf d" and f: "quarantine_sweep sig d = Some d'"
  shows "deposits_wf d'"
proof -
  obtain w where w: "sweeps_get (d_finalized d) sig = Some w"
    using f by (elim quarantine_sweepD) (auto simp: sweeps_remove_Some_iff)
  note mv = quarantine_sweep_moves[OF wf f w]
  have source: "i \<in> sweep_ids w \<Longrightarrow> view d i = Some (q, st) \<Longrightarrow> \<exists>s. st = StFinalized s" for i q st
    using moves_stage[OF wf mv(1), of i q st] by auto
  have keep: "d_swept d' = d_swept d" "d_in_flight_ids d' = d_in_flight_ids d"
    "d_latest_ids d' = d_latest_ids d" "d_watchlist d' = d_watchlist d"
    using f by (auto elim!: quarantine_sweepD)
  have times: "bm_contains (d_queued_at_by_id d') i \<longleftrightarrow> i \<notin> sweep_ids w \<and> bm_contains (d_queued_at_by_id d) i" for i
    using f w by (elim quarantine_sweepD)
      (auto simp: sweeps_remove_Some_iff bm_contains_fold_remove bm_keys_iff sweep_ids_iff)
  show ?thesis
    by (rule moves_wf[OF wf mv(1) _ mv(2)])
       (use deposits_wfD[OF wf] in \<open>auto simp: keep intro!: accounts_indexed_keep
          times_indexed_release[OF deposits_wfD(6)[OF wf] _ times] dest!: source\<close>)
qed

lemma drop_one_Some_iff:
  "drop_one sig p d = Some d' \<longleftrightarrow> bm_get (d_in_flight_ids d) (qd_account (snd p)) = Some (fst p) \<and>
     d' = d\<lparr>d_in_flight_ids := bm_remove (qd_account (snd p)) (d_in_flight_ids d),
       d_queued_at_by_id := bm_remove (fst p) (d_queued_at_by_id d),
       d_dropped := bm_insert (fst p) \<lparr>sd_deposit = snd p, sd_signature = sig\<rparr> (d_dropped d)\<rparr>"
  by (auto simp: drop_one_def release_in_flight_def assert_that_bind)

lemma drop_all:
  assumes "distinct (map fst ps)"
    and "\<And>i q. (i, q) \<in> set ps \<Longrightarrow> bm_get (d_in_flight_ids d) (qd_account q) = Some i"
  shows "\<exists>m n r. foldM (drop_one sig) ps d = Some (d\<lparr>d_in_flight_ids := m, d_queued_at_by_id := n, d_dropped := r\<rparr>) \<and>
    (\<forall>a. bm_get m a = (if \<exists>p \<in> set ps. qd_account (snd p) = a then None else bm_get (d_in_flight_ids d) a)) \<and>
    (\<forall>i. bm_contains n i \<longleftrightarrow> i \<notin> fst ` set ps \<and> bm_contains (d_queued_at_by_id d) i) \<and>
    (\<forall>i. bm_get r i = (case map_of ps i of None \<Rightarrow> bm_get (d_dropped d) i
                     | Some q \<Rightarrow> Some \<lparr>sd_deposit = q, sd_signature = sig\<rparr>))"
  using assms
proof (induction ps arbitrary: d)
  case Nil
  show ?case
    by (rule exI[of _ "d_in_flight_ids d"], rule exI[of _ "d_queued_at_by_id d"], rule exI[of _ "d_dropped d"]) simp
next
  case (Cons p ps)
  obtain i q where p: "p = (i, q)" by force
  let ?d = "d\<lparr>d_in_flight_ids := bm_remove (qd_account q) (d_in_flight_ids d),
       d_queued_at_by_id := bm_remove i (d_queued_at_by_id d),
       d_dropped := bm_insert i \<lparr>sd_deposit = q, sd_signature = sig\<rparr> (d_dropped d)\<rparr>"
  have mine: "bm_get (d_in_flight_ids d) (qd_account q) = Some i" using Cons.prems(2) p by simp
  then have one: "drop_one sig p d = Some ?d" by (simp add: drop_one_Some_iff p)
  have i: "i \<notin> fst ` set ps" using Cons.prems(1) p by simp
  have rest: "bm_get (d_in_flight_ids ?d) (qd_account q') = Some j" if "(j, q') \<in> set ps" for j q'
  proof -
    have "bm_get (d_in_flight_ids d) (qd_account q') = Some j" using Cons.prems(2) that by simp
    moreover have "j \<noteq> i" using that i by force
    ultimately show ?thesis using mine by auto
  qed
  have "distinct (map fst ps)" using Cons.prems(1) by simp
  from Cons.IH[OF this rest] obtain m n r where
    run: "foldM (drop_one sig) ps ?d = Some (?d\<lparr>d_in_flight_ids := m, d_queued_at_by_id := n, d_dropped := r\<rparr>)"
    and m: "\<forall>a. bm_get m a = (if \<exists>p \<in> set ps. qd_account (snd p) = a then None else bm_get (d_in_flight_ids ?d) a)"
    and n: "\<forall>i. bm_contains n i \<longleftrightarrow> i \<notin> fst ` set ps \<and> bm_contains (d_queued_at_by_id ?d) i"
    and r: "\<forall>i. bm_get r i = (case map_of ps i of None \<Rightarrow> bm_get (d_dropped ?d) i
                     | Some q \<Rightarrow> Some \<lparr>sd_deposit = q, sd_signature = sig\<rparr>)"
    by blast
  have "map_of ps i = None" using i by (simp add: map_of_eq_None_iff)
  then have r': "\<forall>j. bm_get r j = (case map_of (p # ps) j of None \<Rightarrow> bm_get (d_dropped d) j
                     | Some q \<Rightarrow> Some \<lparr>sd_deposit = q, sd_signature = sig\<rparr>)"
    using r p by (auto split: option.splits)
  have "bm_get m a = (if \<exists>p \<in> set (p # ps). qd_account (snd p) = a then None else bm_get (d_in_flight_ids d) a)" for a
    using m p by (cases "a = qd_account q") auto
  moreover have "\<forall>j. bm_contains n j \<longleftrightarrow> j \<notin> fst ` set (p # ps) \<and> bm_contains (d_queued_at_by_id d) j"
    using n p by auto
  ultimately show ?case
    using run one r' by (intro exI[of _ m] exI[of _ n] exI[of _ r]) auto
qed

lemma drop_sweptE:
  assumes wf: "deposits_wf d" and w: "sweeps_get (d_swept d) sig = Some w"
  obtains swept m n r where "sweeps_remove sig (d_swept d) = Some (swept, w)"
    "drop_swept sig d = Some (d\<lparr>d_swept := swept, d_in_flight_ids := m, d_queued_at_by_id := n, d_dropped := r\<rparr>)"
    "\<And>a. bm_get m a = (if \<exists>i \<in> sweep_ids w. bm_get (d_in_flight_ids d) a = Some i then None
                     else bm_get (d_in_flight_ids d) a)"
    "\<And>i. bm_contains n i \<longleftrightarrow> i \<notin> sweep_ids w \<and> bm_contains (d_queued_at_by_id d) i"
    "\<And>i. bm_get r i = (case bm_get (sw_deposits w) i of None \<Rightarrow> bm_get (d_dropped d) i
                     | Some q \<Rightarrow> Some \<lparr>sd_deposit = q, sd_signature = sig\<rparr>)"
proof -
  note sw = deposits_wfD(2)[OF wf]
  obtain swept where rm: "sweeps_remove sig (d_swept d) = Some (swept, w)"
    using w by (simp add: sweeps_remove_Some_iff)
  let ?ps = "bm_iter (sw_deposits w)"
  have ids: "fst ` set ?ps = sweep_ids w"
    using bm_keys_iff[of _ "sw_deposits w"] by (auto simp: bm_keys_def sweep_ids_def)
  have view: "view d i = Some (q, StSwept sig)" if "(i, q) \<in> set ?ps" for i q
  proof -
    have "sweeps_deposit (d_swept d) i = Some (sig, q)"
      using that sweeps_remove_deposit(1)[OF rm sw] by (simp add: bm_iter_iff)
    then show ?thesis using staged_view(1)[OF deposits_wfD(1)[OF wf], of "Suc 0"] by simp
  qed
  note idx = deposits_wfD(4)[OF wf, unfolded accounts_indexed_def, rule_format]
  have mine: "bm_get (d_in_flight_ids (d\<lparr>d_swept := swept\<rparr>)) (qd_account q) = Some i" if "(i, q) \<in> set ?ps" for i q
    using view[OF that] idx[of "qd_account q" i] by auto
  have acc: "(\<exists>p \<in> set ?ps. qd_account (snd p) = a) \<longleftrightarrow> (\<exists>i \<in> sweep_ids w. bm_get (d_in_flight_ids d) a = Some i)" for a
  proof
    assume "\<exists>p \<in> set ?ps. qd_account (snd p) = a"
    then obtain i q where "(i, q) \<in> set ?ps" "qd_account q = a" by auto
    then show "\<exists>i \<in> sweep_ids w. bm_get (d_in_flight_ids d) a = Some i"
      using mine[of i q] ids by force
  next
    assume "\<exists>i \<in> sweep_ids w. bm_get (d_in_flight_ids d) a = Some i"
    then obtain i q where i: "(i, q) \<in> set ?ps" "bm_get (d_in_flight_ids d) a = Some i"
      unfolding ids[symmetric] by auto
    then have "qd_account q = a" using view[OF i(1)] idx[of a i] by auto
    then show "\<exists>p \<in> set ?ps. qd_account (snd p) = a" using i(1) by (intro bexI[of _ "(i, q)"]) auto
  qed
  let ?d = "d\<lparr>d_swept := swept\<rparr>"
  from drop_all[of ?ps ?d sig, OF bm_iter_distinct mine] obtain m n r where
    *: "foldM (drop_one sig) ?ps ?d = Some (?d\<lparr>d_in_flight_ids := m, d_queued_at_by_id := n, d_dropped := r\<rparr>)"
    "\<forall>a. bm_get m a = (if \<exists>p \<in> set ?ps. qd_account (snd p) = a then None else bm_get (d_in_flight_ids ?d) a)"
    "\<forall>i. bm_contains n i \<longleftrightarrow> i \<notin> fst ` set ?ps \<and> bm_contains (d_queued_at_by_id ?d) i"
    "\<forall>i. bm_get r i = (case map_of ?ps i of None \<Rightarrow> bm_get (d_dropped ?d) i
                     | Some q \<Rightarrow> Some \<lparr>sd_deposit = q, sd_signature = sig\<rparr>)"
    by blast
  show thesis
    by (rule that[OF rm, where m = m and n = n and r = r])
       (use * in \<open>simp_all add: drop_swept_def rm ids acc bm_get_def[of "sw_deposits w"] split: option.splits\<close>)
qed

lemma drop_swept_moves:
  assumes wf: "deposits_wf d" and f: "drop_swept sig d = Some d'" and w: "sweeps_get (d_swept d) sig = Some w"
  shows "moves d d' (sweep_ids w) 1 5 (\<lambda>_. StDropped sig)" and "deposits_wf d'"
proof -
  note sw = deposits_wfD(2)[OF wf]
  obtain swept m n r where rm: "sweeps_remove sig (d_swept d) = Some (swept, w)"
    and run: "drop_swept sig d = Some (d\<lparr>d_swept := swept, d_in_flight_ids := m, d_queued_at_by_id := n, d_dropped := r\<rparr>)"
    and m: "\<And>a. bm_get m a = (if \<exists>i \<in> sweep_ids w. bm_get (d_in_flight_ids d) a = Some i then None
                     else bm_get (d_in_flight_ids d) a)"
    and n: "\<And>i. bm_contains n i \<longleftrightarrow> i \<notin> sweep_ids w \<and> bm_contains (d_queued_at_by_id d) i"
    and r: "\<And>i. bm_get r i = (case bm_get (sw_deposits w) i of None \<Rightarrow> bm_get (d_dropped d) i
                     | Some q \<Rightarrow> Some \<lparr>sd_deposit = q, sd_signature = sig\<rparr>)"
    by (rule drop_sweptE[OF wf w]) blast
  have d': "d' = d\<lparr>d_swept := swept, d_in_flight_ids := m, d_queued_at_by_id := n, d_dropped := r\<rparr>"
    using f run by simp
  show mv: "moves d d' (sweep_ids w) 1 5 (\<lambda>_. StDropped sig)"
    unfolding moves_def
  proof (intro conjI ballI allI impI)
    fix i assume i: "i \<in> sweep_ids w"
    then obtain q where q: "bm_get (sw_deposits w) i = Some q" by (auto simp: sweep_ids_iff)
    show "\<exists>q st0. stages d i ! 1 = Some (q, st0) \<and> stages d' i = (stages d i)[1 := None, 5 := Some (q, StDropped sig)]"
      using i q sweeps_remove_deposit[OF rm sw] by (simp add: d' stages_def r dropped_view_def)
  next
    fix i assume i: "i \<notin> sweep_ids w"
    then show "stages d' i = stages d i"
      using sweeps_remove_deposit(2)[OF rm sw] by (simp add: d' stages_def sweep_ids_iff r split: option.splits)
  qed (simp_all add: d')
  have source: "i \<in> sweep_ids w \<Longrightarrow> view d i = Some (q, st) \<Longrightarrow> \<exists>s. st = StSwept s" for i q st
    using moves_stage[OF wf mv, of i q st] by auto
  show "deposits_wf d'"
    by (rule moves_wf[OF wf mv])
       (use deposits_wfD[OF wf] sweeps_wf_remove[OF rm sw] in \<open>auto simp: d'
          intro!: accounts_indexed_release[OF deposits_wfD(4)[OF wf] _ m]
            times_indexed_release[OF deposits_wfD(6)[OF wf] _ n] dest!: source\<close>)
qed

subsection \<open>Crediting and minting\<close>

lemma credit_one_Some_iff:
  "credit_one sig w t c d = Some d' \<longleftrightarrow>
     (\<exists>q. bm_get (sw_deposits w) (cd_deposit_id c) = Some q \<and> cd_amount_to_mint c \<le> sweepable_amount q \<and>
        bm_get (d_pending_mints d) (cd_deposit_id c) = None \<and>
        d' = d\<lparr>d_pending_mints := bm_insert (cd_deposit_id c)
          \<lparr>pm_deposit = \<lparr>sd_deposit = q, sd_signature = sig\<rparr>, pm_amount_to_mint = cd_amount_to_mint c,
           pm_created_at_time = t\<rparr> (d_pending_mints d)\<rparr>)"
  by (auto simp: credit_one_def assert_that_bind bm_contains_def Option.bind_eq_Some_conv split: if_splits)

lemma credit_allD:
  assumes "foldM (credit_one sig w t) cs d = Some d'"
  shows "distinct (map cd_deposit_id cs)"
    and "\<forall>c \<in> set cs. \<exists>q. bm_get (sw_deposits w) (cd_deposit_id c) = Some q \<and> cd_amount_to_mint c \<le> sweepable_amount q"
    and "\<forall>c \<in> set cs. bm_get (d_pending_mints d) (cd_deposit_id c) = None"
    and "\<exists>P. d' = d\<lparr>d_pending_mints := P\<rparr> \<and>
      (\<forall>c \<in> set cs. bm_get P (cd_deposit_id c) = Some \<lparr>pm_deposit =
         \<lparr>sd_deposit = the (bm_get (sw_deposits w) (cd_deposit_id c)), sd_signature = sig\<rparr>,
         pm_amount_to_mint = cd_amount_to_mint c, pm_created_at_time = t\<rparr>) \<and>
      (\<forall>i. i \<notin> cd_deposit_id ` set cs \<longrightarrow> bm_get P i = bm_get (d_pending_mints d) i)"
proof -
  have "distinct (map cd_deposit_id cs) \<and>
    (\<forall>c \<in> set cs. \<exists>q. bm_get (sw_deposits w) (cd_deposit_id c) = Some q \<and> cd_amount_to_mint c \<le> sweepable_amount q) \<and>
    (\<forall>c \<in> set cs. bm_get (d_pending_mints d) (cd_deposit_id c) = None) \<and>
    (\<exists>P. d' = d\<lparr>d_pending_mints := P\<rparr> \<and>
      (\<forall>c \<in> set cs. bm_get P (cd_deposit_id c) = Some \<lparr>pm_deposit =
         \<lparr>sd_deposit = the (bm_get (sw_deposits w) (cd_deposit_id c)), sd_signature = sig\<rparr>,
         pm_amount_to_mint = cd_amount_to_mint c, pm_created_at_time = t\<rparr>) \<and>
      (\<forall>i. i \<notin> cd_deposit_id ` set cs \<longrightarrow> bm_get P i = bm_get (d_pending_mints d) i))"
    using assms
  proof (induction cs arbitrary: d)
    case Nil
    then show ?case by (auto intro: exI[of _ "d_pending_mints d"])
  next
    case (Cons c cs)
    from Cons.prems obtain d1 where d1: "credit_one sig w t c d = Some d1"
      and run: "foldM (credit_one sig w t) cs d1 = Some d'"
      by (auto split: option.splits)
    from d1 obtain q where q: "bm_get (sw_deposits w) (cd_deposit_id c) = Some q"
        "cd_amount_to_mint c \<le> sweepable_amount q" "bm_get (d_pending_mints d) (cd_deposit_id c) = None"
        "d1 = d\<lparr>d_pending_mints := bm_insert (cd_deposit_id c)
          \<lparr>pm_deposit = \<lparr>sd_deposit = q, sd_signature = sig\<rparr>, pm_amount_to_mint = cd_amount_to_mint c,
           pm_created_at_time = t\<rparr> (d_pending_mints d)\<rparr>"
      unfolding credit_one_Some_iff by blast
    note IH = Cons.IH[OF run]
    from IH obtain P where P: "d' = d1\<lparr>d_pending_mints := P\<rparr>"
      "\<forall>c \<in> set cs. bm_get P (cd_deposit_id c) = Some \<lparr>pm_deposit =
         \<lparr>sd_deposit = the (bm_get (sw_deposits w) (cd_deposit_id c)), sd_signature = sig\<rparr>,
         pm_amount_to_mint = cd_amount_to_mint c, pm_created_at_time = t\<rparr>"
      "\<forall>i. i \<notin> cd_deposit_id ` set cs \<longrightarrow> bm_get P i = bm_get (d_pending_mints d1) i" by blast
    have fresh: "cd_deposit_id c \<notin> cd_deposit_id ` set cs"
      using IH q(4) by (auto split: if_splits)
    have "\<forall>c' \<in> set cs. bm_get (d_pending_mints d) (cd_deposit_id c') = None"
      using IH q(4) by (auto split: if_splits)
    moreover have "d' = d\<lparr>d_pending_mints := P\<rparr>" using P(1) q(4) by simp
    moreover have "bm_get P (cd_deposit_id c) = Some \<lparr>pm_deposit = \<lparr>sd_deposit = q, sd_signature = sig\<rparr>,
        pm_amount_to_mint = cd_amount_to_mint c, pm_created_at_time = t\<rparr>"
      using P(3) fresh q(4) by simp
    ultimately show ?case using IH q(1-3) fresh P(2,3) q(4) by (auto intro!: exI[of _ P])
  qed
  then show "distinct (map cd_deposit_id cs)"
    and "\<forall>c \<in> set cs. \<exists>q. bm_get (sw_deposits w) (cd_deposit_id c) = Some q \<and> cd_amount_to_mint c \<le> sweepable_amount q"
    and "\<forall>c \<in> set cs. bm_get (d_pending_mints d) (cd_deposit_id c) = None"
    and "\<exists>P. d' = d\<lparr>d_pending_mints := P\<rparr> \<and>
      (\<forall>c \<in> set cs. bm_get P (cd_deposit_id c) = Some \<lparr>pm_deposit =
         \<lparr>sd_deposit = the (bm_get (sw_deposits w) (cd_deposit_id c)), sd_signature = sig\<rparr>,
         pm_amount_to_mint = cd_amount_to_mint c, pm_created_at_time = t\<rparr>) \<and>
      (\<forall>i. i \<notin> cd_deposit_id ` set cs \<longrightarrow> bm_get P i = bm_get (d_pending_mints d) i)"
    by blast+
qed

lemma sweep_ids_card: "card (sweep_ids w) = deposit_count w" and sweep_ids_finite: "finite (sweep_ids w)"
  by (simp_all add: sweep_ids_def deposit_count_def bm_len_eq_card bm_finite del: not_None_eq)

lemma credit_sweepD:
  assumes "credit_sweep sig cs t d = Some (d', w)"
  obtains fin P where "sweeps_remove sig (d_finalized d) = Some (fin, w)" "length cs = deposit_count w"
    "distinct (map cd_deposit_id cs)" "cd_deposit_id ` set cs = sweep_ids w"
    "\<forall>c \<in> set cs. \<exists>q. bm_get (sw_deposits w) (cd_deposit_id c) = Some q \<and> cd_amount_to_mint c \<le> sweepable_amount q"
    "d' = d\<lparr>d_finalized := fin, d_pending_mints := P\<rparr>"
    "\<forall>c \<in> set cs. bm_get P (cd_deposit_id c) = Some \<lparr>pm_deposit =
         \<lparr>sd_deposit = the (bm_get (sw_deposits w) (cd_deposit_id c)), sd_signature = sig\<rparr>,
         pm_amount_to_mint = cd_amount_to_mint c, pm_created_at_time = t\<rparr>"
    "\<forall>i. i \<notin> sweep_ids w \<longrightarrow> bm_get P i = bm_get (d_pending_mints d) i"
proof -
  from assms obtain fin where rm: "sweeps_remove sig (d_finalized d) = Some (fin, w)"
    and len: "length cs = deposit_count w"
    and run: "foldM (credit_one sig w t) cs (d\<lparr>d_finalized := fin\<rparr>) = Some d'"
    by (auto simp: credit_sweep_def assert_that_bind Option.bind_eq_Some_conv split: if_splits)
  note all = credit_allD[OF run]
  have "cd_deposit_id ` set cs \<subseteq> sweep_ids w" using all(2) by (auto simp: sweep_ids_iff)
  moreover have "card (cd_deposit_id ` set cs) = card (sweep_ids w)"
    using distinct_card[OF all(1)] len by (simp add: sweep_ids_card)
  ultimately have ids: "cd_deposit_id ` set cs = sweep_ids w"
    using card_subset_eq[OF sweep_ids_finite] by blast
  from all(4) obtain P where P: "d' = d\<lparr>d_finalized := fin, d_pending_mints := P\<rparr>"
    "\<forall>c \<in> set cs. bm_get P (cd_deposit_id c) = Some \<lparr>pm_deposit =
         \<lparr>sd_deposit = the (bm_get (sw_deposits w) (cd_deposit_id c)), sd_signature = sig\<rparr>,
         pm_amount_to_mint = cd_amount_to_mint c, pm_created_at_time = t\<rparr>"
    "\<forall>i. i \<notin> cd_deposit_id ` set cs \<longrightarrow> bm_get P i = bm_get (d_pending_mints d) i"
    by auto
  show thesis by (rule that[OF rm len all(1) ids all(2) P(1,2)]) (use P(3) ids in simp)
qed

definition credited_amount :: "credited_deposit list \<Rightarrow> deposit_sol_id \<Rightarrow> lamport" where
  "credited_amount cs i =
     (case map_of (map (\<lambda>c. (cd_deposit_id c, cd_amount_to_mint c)) cs) i of None \<Rightarrow> 0 | Some x \<Rightarrow> x)"

lemma credited_amount_eq:
  assumes "distinct (map cd_deposit_id cs)" and "c \<in> set cs"
  shows "credited_amount cs (cd_deposit_id c) = cd_amount_to_mint c"
proof -
  have "distinct (map fst (map (\<lambda>c. (cd_deposit_id c, cd_amount_to_mint c)) cs))"
    using assms(1) by (simp add: comp_def)
  then have "map_of (map (\<lambda>c. (cd_deposit_id c, cd_amount_to_mint c)) cs) (cd_deposit_id c) = Some (cd_amount_to_mint c)"
    using assms(2) by (intro map_of_is_SomeI) auto
  then show ?thesis by (simp add: credited_amount_def)
qed

lemma credit_sweep_moves:
  assumes wf: "deposits_wf d" and f: "credit_sweep sig cs t d = Some (d', w)"
  shows "moves d d' (sweep_ids w) 2 3 (\<lambda>i. StPending sig (credited_amount cs i) t)" and "deposits_wf d'"
proof -
  from f obtain fin P where rm: "sweeps_remove sig (d_finalized d) = Some (fin, w)"
    and dist: "distinct (map cd_deposit_id cs)" and ids: "cd_deposit_id ` set cs = sweep_ids w"
    and d': "d' = d\<lparr>d_finalized := fin, d_pending_mints := P\<rparr>"
    and P: "\<forall>c \<in> set cs. bm_get P (cd_deposit_id c) = Some \<lparr>pm_deposit =
         \<lparr>sd_deposit = the (bm_get (sw_deposits w) (cd_deposit_id c)), sd_signature = sig\<rparr>,
         pm_amount_to_mint = cd_amount_to_mint c, pm_created_at_time = t\<rparr>"
    and old: "\<forall>i. i \<notin> sweep_ids w \<longrightarrow> bm_get P i = bm_get (d_pending_mints d) i"
    by (rule credit_sweepD)
  note sw = deposits_wfD(3)[OF wf]
  show mv: "moves d d' (sweep_ids w) 2 3 (\<lambda>i. StPending sig (credited_amount cs i) t)"
    unfolding moves_def
  proof (intro conjI ballI allI impI)
    fix i assume i: "i \<in> sweep_ids w"
    then obtain q where q: "bm_get (sw_deposits w) i = Some q" by (auto simp: sweep_ids_iff)
    from i ids obtain c where c: "c \<in> set cs" "i = cd_deposit_id c" by auto
    show "\<exists>q st0. stages d i ! 2 = Some (q, st0) \<and>
        stages d' i = (stages d i)[2 := None, 3 := Some (q, StPending sig (credited_amount cs i) t)]"
      using i q sweeps_remove_deposit[OF rm sw] P[rule_format, OF c(1)] c(2) credited_amount_eq[OF dist c(1)]
      by (simp add: d' stages_def pending_view_def)
  next
    fix i assume i: "i \<notin> sweep_ids w"
    then show "stages d' i = stages d i"
      using sweeps_remove_deposit(2)[OF rm sw] old by (simp add: d' stages_def)
  qed (simp_all add: d')
  have source: "i \<in> sweep_ids w \<Longrightarrow> view d i = Some (q, st) \<Longrightarrow> \<exists>s. st = StFinalized s" for i q st
    using moves_stage[OF wf mv, of i q st] by auto
  show "deposits_wf d'"
    by (rule moves_wf[OF wf mv])
       (use deposits_wfD[OF wf] sweeps_wf_remove[OF rm sw] in \<open>auto simp: d'
          intro!: accounts_indexed_keep times_indexed_keep dest!: source\<close>)
qed

lemma pending_in_flight:
  assumes "deposits_wf d" "bm_get (d_pending_mints d) i = Some p"
  shows "view d i = Some (pending_view p)" and "bm_get (d_in_flight_ids d) (pending_account p) = Some i"
proof -
  show v: "view d i = Some (pending_view p)"
    using staged_view(1)[OF deposits_wfD(1)[OF assms(1)], of 3 i] assms(2) by simp
  show "bm_get (d_in_flight_ids d) (pending_account p) = Some i"
    using deposits_wfD(4)[OF assms(1), unfolded accounts_indexed_def, rule_format, of "pending_account p" i] v
    by (simp add: pending_view_def pending_account_def)
qed

lemma mint_depositD:
  assumes "mint_deposit i b d = Some d'"
  obtains p where "bm_get (d_pending_mints d) i = Some p"
    "bm_get (d_in_flight_ids d) (pending_account p) = Some i"
    "d' = d\<lparr>d_pending_mints := bm_remove i (d_pending_mints d),
       d_in_flight_ids := bm_remove (pending_account p) (d_in_flight_ids d),
       d_queued_at_by_id := bm_remove i (d_queued_at_by_id d),
       d_minted := bm_insert i \<lparr>ms_deposit = pm_deposit p, ms_minted_amount = pm_amount_to_mint p,
         ms_mint_block_index = b\<rparr> (d_minted d)\<rparr>"
  using assms
  by (auto simp: mint_deposit_def release_in_flight_def assert_that_bind Option.bind_eq_Some_conv split: if_splits)

lemma mint_deposit_moves:
  assumes wf: "deposits_wf d" and f: "mint_deposit i b d = Some d'"
    and p: "bm_get (d_pending_mints d) i = Some p"
  shows "moves d d' {i} 3 4 (\<lambda>_. StMinted (pending_sweep_signature p) (pm_amount_to_mint p) b)" and "deposits_wf d'"
proof -
  from f p have mine: "bm_get (d_in_flight_ids d) (pending_account p) = Some i"
    and d': "d' = d\<lparr>d_pending_mints := bm_remove i (d_pending_mints d),
       d_in_flight_ids := bm_remove (pending_account p) (d_in_flight_ids d),
       d_queued_at_by_id := bm_remove i (d_queued_at_by_id d),
       d_minted := bm_insert i \<lparr>ms_deposit = pm_deposit p, ms_minted_amount = pm_amount_to_mint p,
         ms_mint_block_index = b\<rparr> (d_minted d)\<rparr>"
    by (auto elim!: mint_depositD)
  show mv: "moves d d' {i} 3 4 (\<lambda>_. StMinted (pending_sweep_signature p) (pm_amount_to_mint p) b)"
    unfolding moves_def
    using p by (auto simp: d' stages_def pending_view_def minted_view_def pending_sweep_signature_def)
  have v: "view d i = Some (pending_view p)" by (rule pending_in_flight(1)[OF wf p])
  have "bm_get (bm_remove (pending_account p) (d_in_flight_ids d)) a =
      (if \<exists>j \<in> {i}. bm_get (d_in_flight_ids d) a = Some j then None else bm_get (d_in_flight_ids d) a)" for a
  proof -
    have "bm_get (d_in_flight_ids d) a \<noteq> Some i" if "a \<noteq> pending_account p"
      using deposits_wfD(4)[OF wf, unfolded accounts_indexed_def, rule_format, of a i] that v
      by (simp add: pending_view_def pending_account_def)
    then show ?thesis using mine by (cases "a = pending_account p") simp_all
  qed
  note acc = accounts_indexed_release[OF deposits_wfD(4)[OF wf] _ this]
  have n: "bm_contains (bm_remove i (d_queued_at_by_id d)) j \<longleftrightarrow> j \<notin> {i} \<and> bm_contains (d_queued_at_by_id d) j" for j
    by auto
  show "deposits_wf d'"
    by (rule moves_wf[OF wf mv])
       (use deposits_wfD[OF wf] v in \<open>auto simp: d' pending_view_def
          intro!: acc times_indexed_release[OF deposits_wfD(6)[OF wf] _ n]\<close>)
qed

lemma mint_deposit_exists:
  assumes "deposits_wf d" "bm_get (d_pending_mints d) i = Some p"
  shows "\<exists>d'. mint_deposit i b d = Some d'"
  using pending_in_flight(2)[OF assms] assms(2)
  by (simp add: mint_deposit_def release_in_flight_def assert_that_bind)

lemma quarantine_pending_mintD:
  assumes "quarantine_pending_mint i d = Some d'"
  obtains p where "bm_get (d_pending_mints d) i = Some p"
    "d' = d\<lparr>d_pending_mints := bm_remove i (d_pending_mints d),
       d_queued_at_by_id := bm_remove i (d_queued_at_by_id d),
       d_quarantined := bm_insert i \<lparr>qr_deposit = pm_deposit p,
         qr_cause = MintUnresolved (pm_amount_to_mint p) (pm_created_at_time p)\<rparr> (d_quarantined d)\<rparr>"
  using assms by (auto simp: quarantine_pending_mint_def Option.bind_eq_Some_conv)

lemma quarantine_pending_mint_moves:
  assumes wf: "deposits_wf d" and f: "quarantine_pending_mint i d = Some d'"
    and p: "bm_get (d_pending_mints d) i = Some p"
  shows "moves d d' {i} 3 6 (\<lambda>_. StQuarantined (pending_sweep_signature p)
      (MintUnresolved (pm_amount_to_mint p) (pm_created_at_time p)))" and "deposits_wf d'"
proof -
  from f p have d': "d' = d\<lparr>d_pending_mints := bm_remove i (d_pending_mints d),
       d_queued_at_by_id := bm_remove i (d_queued_at_by_id d),
       d_quarantined := bm_insert i \<lparr>qr_deposit = pm_deposit p,
         qr_cause = MintUnresolved (pm_amount_to_mint p) (pm_created_at_time p)\<rparr> (d_quarantined d)\<rparr>"
    by (auto elim!: quarantine_pending_mintD)
  show mv: "moves d d' {i} 3 6 (\<lambda>_. StQuarantined (pending_sweep_signature p)
      (MintUnresolved (pm_amount_to_mint p) (pm_created_at_time p)))"
    unfolding moves_def
    using p by (auto simp: d' stages_def pending_view_def quarantined_view_def pending_sweep_signature_def)
  have v: "view d i = Some (pending_view p)" by (rule pending_in_flight(1)[OF wf p])
  have n: "bm_contains (bm_remove i (d_queued_at_by_id d)) j \<longleftrightarrow> j \<notin> {i} \<and> bm_contains (d_queued_at_by_id d) j" for j
    by auto
  show "deposits_wf d'"
    by (rule moves_wf[OF wf mv])
       (use deposits_wfD[OF wf] v in \<open>auto simp: d' pending_view_def
          intro!: accounts_indexed_keep times_indexed_release[OF deposits_wfD(6)[OF wf] _ n]\<close>)
qed

subsection \<open>Runs of operations\<close>

text \<open>One operation on the deposits; the watchlist is also changed directly, by its own operations.\<close>

inductive deposits_step :: "sdk \<Rightarrow> deposits \<Rightarrow> deposits \<Rightarrow> bool" for lib where
  queue: "queue i q t d = Some d' \<Longrightarrow> deposits_step lib d d'"
| sweep: "sweep_deposits lib ids to msg sig d = Some (d', received) \<Longrightarrow> deposits_step lib d d'"
| drop: "drop_swept sig d = Some d' \<Longrightarrow> deposits_step lib d d'"
| finalize: "finalize_swept sig d = Some d' \<Longrightarrow> deposits_step lib d d'"
| quarantine: "quarantine_sweep sig d = Some d' \<Longrightarrow> deposits_step lib d d'"
| credit: "credit_sweep sig cs t d = Some (d', w) \<Longrightarrow> deposits_step lib d d'"
| mint: "mint_deposit i b d = Some d' \<Longrightarrow> deposits_step lib d d'"
| give_up: "quarantine_pending_mint i d = Some d' \<Longrightarrow> deposits_step lib d d'"
| watch: "watchlist_wf wl \<Longrightarrow> deposits_step lib d (d\<lparr>d_watchlist := wl\<rparr>)"

inductive deposits_run :: "sdk \<Rightarrow> nat \<Rightarrow> deposits \<Rightarrow> deposits \<Rightarrow> bool" for lib where
  refl: "deposits_run lib 0 d d"
| step: "deposits_run lib n d d' \<Longrightarrow> deposits_step lib d' d'' \<Longrightarrow> deposits_run lib (Suc n) d d''"

lemma drop_sweptD: "drop_swept sig d = Some d' \<Longrightarrow> \<exists>w. sweeps_get (d_swept d) sig = Some w"
  by (auto simp: drop_swept_def sweeps_remove_Some_iff Option.bind_eq_Some_conv)

lemma sweep_ids_deposit:
  assumes "sweeps_wf S" "sweeps_get S sig = Some w" "i \<in> sweep_ids w"
  shows "\<exists>q. sweeps_deposit S i = Some (sig, q)"
  using assms sweeps_deposit_Some_iff[OF assms(1)] by (auto simp: sweep_ids_iff)

lemma moves_steps:
  assumes wf: "deposits_wf d" and mv: "moves d d' I k l st"
    and st: "\<And>i q s. i \<in> I \<Longrightarrow> stages d i ! k = Some (q, s) \<Longrightarrow> stage_step s (st i)"
  shows "d_next_id d' = d_next_id d \<and> (\<exists>I st. view d' = restage I st (view d) \<and>
         (\<forall>i \<in> I. \<exists>q s. view d i = Some (q, s) \<and> stage_step s (st i)))"
proof -
  have "\<exists>q s. view d i = Some (q, s) \<and> stage_step s (st i)" if "i \<in> I" for i
    using moves_from[OF mv deposits_wfD(1)[OF wf] that] st[OF that] by blast
  moreover have "d_next_id d' = d_next_id d" using mv by (simp add: moves_def)
  ultimately show ?thesis using moves_view[OF mv deposits_wfD(1)[OF wf]] by blast
qed

text \<open>Every operation but queueing moves some deposits one stage further.\<close>

lemma step_moves:
  assumes wf: "deposits_wf d" and st: "deposits_step lib d d'"
  shows "(\<exists>i q t. queue i q t d = Some d') \<or>
    deposits_wf d' \<and> d_next_id d' = d_next_id d \<and>
      (\<exists>I st. view d' = restage I st (view d) \<and>
         (\<forall>i \<in> I. \<exists>q s. view d i = Some (q, s) \<and> stage_step s (st i)))"
proof -
  from st wf show ?thesis
  proof cases
    case (sweep ids to msg sig received)
    have "stage_step s (StSwept sig)" if "stages d i ! 0 = Some (q, s)" for i q s
      using that by (auto simp: stage_step_simps)
    then show ?thesis
      using moves_steps[OF wf sweep_deposits_moves(1)[OF wf sweep]] sweep_deposits_wf[OF wf sweep] by blast
  next
    case (drop sig)
    obtain w where w: "sweeps_get (d_swept d) sig = Some w" using drop_sweptD[OF drop] by blast
    note mv = drop_swept_moves[OF wf drop w]
    have "stage_step s (StDropped sig)" if "i \<in> sweep_ids w" "stages d i ! 1 = Some (q, s)" for i q s
      using that(2) sweep_ids_deposit[OF deposits_wfD(2)[OF wf] w that(1)] by (auto simp: stage_step_simps)
    then show ?thesis using moves_steps[OF wf mv(1)] mv(2) by blast
  next
    case (finalize sig)
    obtain w where w: "sweeps_get (d_swept d) sig = Some w"
      using finalize by (elim finalize_sweptD) (auto simp: sweeps_remove_Some_iff)
    note mv = finalize_swept_moves[OF wf finalize w]
    have "stage_step s (StFinalized sig)" if "i \<in> sweep_ids w" "stages d i ! 1 = Some (q, s)" for i q s
      using that(2) sweep_ids_deposit[OF deposits_wfD(2)[OF wf] w that(1)] by (auto simp: stage_step_simps)
    then show ?thesis using moves_steps[OF wf mv(1)] finalize_swept_wf[OF wf finalize] by blast
  next
    case (quarantine sig)
    obtain w where w: "sweeps_get (d_finalized d) sig = Some w"
      using quarantine by (elim quarantine_sweepD) (auto simp: sweeps_remove_Some_iff)
    note mv = quarantine_sweep_moves[OF wf quarantine w]
    have "stage_step s (StQuarantined sig SweepUnreadable)" if "i \<in> sweep_ids w" "stages d i ! 2 = Some (q, s)" for i q s
      using that(2) sweep_ids_deposit[OF deposits_wfD(3)[OF wf] w that(1)] by (auto simp: stage_step_simps)
    then show ?thesis using moves_steps[OF wf mv(1)] quarantine_sweep_wf[OF wf quarantine] by blast
  next
    case (credit sig cs t w)
    have w: "sweeps_get (d_finalized d) sig = Some w"
      using credit by (elim credit_sweepD) (auto simp: sweeps_remove_Some_iff)
    note mv = credit_sweep_moves[OF wf credit]
    have "stage_step s (StPending sig (credited_amount cs i) t)" if "i \<in> sweep_ids w" "stages d i ! 2 = Some (q, s)" for i q s
      using that(2) sweep_ids_deposit[OF deposits_wfD(3)[OF wf] w that(1)] by (auto simp: stage_step_simps)
    then show ?thesis using moves_steps[OF wf mv(1)] mv(2) by blast
  next
    case (mint i b)
    obtain p where p: "bm_get (d_pending_mints d) i = Some p" using mint by (auto elim: mint_depositD)
    note mv = mint_deposit_moves[OF wf mint p]
    have "stage_step s (StMinted (pending_sweep_signature p) (pm_amount_to_mint p) b)"
      if "j \<in> {i}" "stages d j ! 3 = Some (q, s)" for j q s
      using that p by (auto simp: stage_step_simps pending_view_def pending_sweep_signature_def)
    then show ?thesis using moves_steps[OF wf mv(1)] mv(2) by blast
  next
    case (give_up i)
    obtain p where p: "bm_get (d_pending_mints d) i = Some p" using give_up by (auto elim: quarantine_pending_mintD)
    note mv = quarantine_pending_mint_moves[OF wf give_up p]
    have "stage_step s (StQuarantined (pending_sweep_signature p)
        (MintUnresolved (pm_amount_to_mint p) (pm_created_at_time p)))"
      if "j \<in> {i}" "stages d j ! 3 = Some (q, s)" for j q s
      using that p by (auto simp: stage_step_simps pending_view_def pending_sweep_signature_def)
    then show ?thesis using moves_steps[OF wf mv(1)] mv(2) by blast
  next
    case (watch wl)
    have st: "stages d' = stages d" by (simp add: watch(1) stages_def fun_eq_iff)
    then have v: "view d' = view d" by (simp add: view_def fun_eq_iff)
    have next': "d_next_id d' = d_next_id d" by (simp add: watch(1))
    have "staged d'" using deposits_wfD(1)[OF wf] unfolding staged_def st next' .
    then have "deposits_wf d'"
      using deposits_wfD(2-6)[OF wf] watch(2) unfolding deposits_wf_def v by (simp add: watch(1))
    moreover have "view d' = restage {} (\<lambda>_. StQueued) (view d)" by (simp add: v restage_def fun_eq_iff)
    ultimately show ?thesis by (auto simp: watch(1))
  qed blast
qed

lemma step_wf:
  assumes "deposits_wf d" "deposits_step lib d d'" "d_next_id d \<noteq> - 1"
  shows "deposits_wf d'" and "unat (d_next_id d') \<le> Suc (unat (d_next_id d))"
proof -
  have "deposits_wf d' \<and> unat (d_next_id d') \<le> Suc (unat (d_next_id d))"
    using step_moves[OF assms(1,2)]
  proof
    assume "\<exists>i q t. queue i q t d = Some d'"
    then obtain i q t where q: "queue i q t d = Some d'" by blast
    then have "d_next_id d' = d_next_id d + 1" by (auto elim: queueD)
    then show ?thesis using queue_wf[OF assms(1) q assms(3)]
      by (simp add: unat_word_ariths)
  qed auto
  then show "deposits_wf d'" and "unat (d_next_id d') \<le> Suc (unat (d_next_id d))" by simp_all
qed

lemma run_wf:
  assumes "deposits_run lib n deposits_default d" "n < 2 ^ 64"
  shows "deposits_wf d \<and> unat (d_next_id d) \<le> n"
  using assms
proof (induction n "deposits_default" d rule: deposits_run.induct)
  case refl
  then show ?case using deposits_wf_default by (simp add: deposits_default_def)
next
  case (step n d' d'')
  then have IH: "deposits_wf d'" "unat (d_next_id d') \<le> n" by simp_all
  have "d_next_id d' \<noteq> - 1"
  proof
    assume "d_next_id d' = - 1"
    then have "unat (d_next_id d') = 2 ^ 64 - 1"
      by (simp add: unsigned_minus_1_eq_mask mask_eq_exp_minus_1)
    then show False using IH(2) step.prems by simp
  qed
  then show ?case using step_wf[OF IH(1) step.hyps(3)] IH(2) by simp
qed

lemma step_view:
  assumes "deposits_wf d" "deposits_step lib d d'" "view d i = Some (q, s)"
  shows "\<exists>s'. view d' i = Some (q, s') \<and> (s' = s \<or> stage_step s s')"
  using step_moves[OF assms(1,2)]
proof
  assume "\<exists>i q t. queue i q t d = Some d'"
  then obtain j x t where q: "queue j x t d = Some d'" by blast
  then show ?thesis using queue_view[OF assms(1) q] assms(3) by auto
next
  assume "deposits_wf d' \<and> d_next_id d' = d_next_id d \<and> (\<exists>I st. view d' = restage I st (view d) \<and>
         (\<forall>i \<in> I. \<exists>q s. view d i = Some (q, s) \<and> stage_step s (st i)))"
  then obtain I st where v: "view d' = restage I st (view d)"
    and I: "\<forall>i \<in> I. \<exists>q s. view d i = Some (q, s) \<and> stage_step s (st i)" by blast
  show ?thesis using I assms(3) by (cases "i \<in> I") (auto simp: v restage_def)
qed

subsection \<open>Properties\<close>

lemma run_trans_wf:
  assumes "deposits_run lib m d d'" "deposits_wf d" "unat (d_next_id d) + m < 2 ^ 64"
  shows "deposits_wf d' \<and> unat (d_next_id d') \<le> unat (d_next_id d) + m"
  using assms
proof (induction m d d' rule: deposits_run.induct)
  case (step n d d' d'')
  then have IH: "deposits_wf d'" "unat (d_next_id d') \<le> unat (d_next_id d) + n" by simp_all
  have "d_next_id d' \<noteq> - 1"
  proof
    assume "d_next_id d' = - 1"
    then have "unat (d_next_id d') = 2 ^ 64 - 1"
      by (simp add: unsigned_minus_1_eq_mask mask_eq_exp_minus_1)
    then show False using IH(2) step.prems by simp
  qed
  then show ?case using step_wf[OF IH(1) step.hyps(2)] IH(2) by simp
qed simp

definition example_queued :: deposits where
  "example_queued = deposits_default\<lparr>
     d_in_flight_ids := bm_insert (qd_account (example_deposit 1 2890880)) 0 bm_empty,
     d_latest_ids := bm_insert (qd_account (example_deposit 1 2890880)) 0 bm_empty,
     d_queued := bm_insert 0 (example_deposit 1 2890880) bm_empty,
     d_queued_at_by_id := bm_insert 0 5 bm_empty, d_next_id := 1\<rparr>"

lemma example_queue: "queue 0 (example_deposit 1 2890880) 5 deposits_default = Some example_queued"
  by (simp add: queue_def example_queued_def deposits_default_def watchlist_remove_def watchlist_default_def
      tsm_remove_def tsm_new_def)

lemma example_queued_run: "deposits_run lib 1 deposits_default example_queued"
  using deposits_run.step[OF deposits_run.refl deposits_step.queue[OF example_queue]] by simp

text \<open>C14: In every state reached by fewer than \<open>2^64\<close> operations, every deposit id below the next one
  is at exactly one stage and no other id is at any; every account has at most one deposit in
  flight, namely the one its index names; the latest-deposit and queueing-time indices agree with
  the stages; and the sweeps at a stage are planned and hold disjoint deposits.\<close>

theorem deposits_invariant:
  assumes "deposits_run lib n deposits_default d" and "n < 2 ^ 64"
  shows "deposits_wf d"
  using run_wf[OF assms] by blast

theorem deposits_invariant_witness: "deposits_wf example_queued \<and> d_next_id example_queued = 1"
  using deposits_invariant[OF example_queued_run] by (simp add: example_queued_def)

text \<open>C15: Deposits only move forward: along any run of operations from a well-formed state, a deposit
  keeps its account, address, balance and fee, and its stage follows the arrows queued, swept,
  finalized, pending mint, minted, with drop and quarantine as the only ways out. A minted, dropped
  or quarantined deposit never changes again, so no deposit is minted twice or with two amounts.\<close>

theorem deposits_move_forward:
  assumes "deposits_wf d" "deposits_run lib m d d'" "unat (d_next_id d) + m < 2 ^ 64"
    and "view d i = Some (q, s)"
  shows "\<exists>s'. view d' i = Some (q, s') \<and> stage_step\<^sup>*\<^sup>* s s' \<and>
    (s' = s \<or> (stage_tracked s \<and> s' \<noteq> StQueued))"
proof -
  have "\<exists>s'. view d' i = Some (q, s') \<and> stage_step\<^sup>*\<^sup>* s s'"
    using assms(2,1,3,4)
  proof (induction m d d' rule: deposits_run.induct)
    case (step n d d' d'')
    have wf: "deposits_wf d'" using run_trans_wf[OF step.hyps(1)] step.prems by simp
    from step obtain s' where "view d' i = Some (q, s')" "stage_step\<^sup>*\<^sup>* s s'" by auto
    then show ?case
      using step_view[OF wf step.hyps(2)] by (metis rtranclp.rtrancl_into_rtrancl)
  qed auto
  moreover have "s' = s \<or> (stage_tracked s \<and> s' \<noteq> StQueued)" if "stage_step\<^sup>*\<^sup>* s s'" for s'
    using that by induction (auto elim!: stage_stepE)
  ultimately show ?thesis by blast
qed

theorem deposits_move_forward_witness:
  "\<exists>s. view example_queued 0 = Some (example_deposit 1 2890880, s) \<and>
     stage_step\<^sup>*\<^sup>* StQueued s"
proof -
  have "view example_queued 0 = Some (example_deposit 1 2890880, StQueued)"
    by (simp add: view_def stages_def example_queued_def deposits_default_def)
  moreover have "deposits_wf example_queued"
    using run_wf[OF example_queued_run[of example_sdk]] by simp
  ultimately show ?thesis
    using deposits_move_forward[OF _ deposits_run.refl, of example_queued 0] by (auto simp: example_queued_def)
qed

fun stage_status :: "queued_deposit \<Rightarrow> stage \<Rightarrow> deposit_sol_status" where
  "stage_status q StQueued = DepositQueued (sweepable_amount q)"
| "stage_status q (StSwept x) = DepositSwept x"
| "stage_status q (StFinalized x) = DepositFinalized x"
| "stage_status q (StPending x _ _) = DepositFinalized x"
| "stage_status q (StMinted _ amount block) = DepositMinted block amount"
| "stage_status q (StDropped x) = DepositDropped x"
| "stage_status q (StQuarantined x _) = DepositQuarantined x"

lemma status_view: "status d i = (case view d i of None \<Rightarrow> DepositNotFound | Some (q, s) \<Rightarrow> stage_status q s)"
proof (cases "bm_get (d_queued d) i")
  case None
  note q = None
  show ?thesis
  proof (cases "sweeps_deposit (d_swept d) i")
    case None
    note s = None
    show ?thesis
    proof (cases "sweeps_deposit (d_finalized d) i")
      case None
      then show ?thesis
        using q s by (simp add: status_def view_def stages_def pending_view_def minted_view_def
            dropped_view_def quarantined_view_def pending_sweep_signature_def split: option.split)
    qed (auto simp: status_def view_def stages_def q s)
  qed (auto simp: status_def view_def stages_def q)
qed (simp add: status_def view_def stages_def)

text \<open>No other deposit of the account is active.\<close>

definition only_active :: "deposits \<Rightarrow> account \<Rightarrow> deposit_sol_id \<Rightarrow> bool" where
  "only_active d a i \<longleftrightarrow>
     (\<forall>j q s. view d j = Some (q, s) \<longrightarrow> qd_account q = a \<longrightarrow> stage_active s \<longrightarrow> j = i)"

text \<open>C16: Looking up the in-flight deposit of an account never panics: it is absent exactly if no
  deposit of the account is at a stage from queued to pending mint or quarantined, and otherwise is
  the only such deposit, reported as quarantined exactly if its stage is.\<close>

theorem in_flight_total:
  assumes wf: "deposits_wf d"
  shows "case in_flight d a of
      None \<Rightarrow> False
    | Some None \<Rightarrow> \<forall>i q s. view d i = Some (q, s) \<longrightarrow> qd_account q = a \<longrightarrow> \<not> stage_active s
    | Some (Some (Processing i)) \<Rightarrow> \<exists>q s. view d i = Some (q, s) \<and> qd_account q = a \<and> stage_tracked s \<and>
        only_active d a i
    | Some (Some (Quarantined i)) \<Rightarrow> \<exists>q s c. view d i = Some (q, StQuarantined s c) \<and> qd_account q = a \<and>
        only_active d a i"
proof -
  note idx = deposits_wfD(4)[OF wf, unfolded accounts_indexed_def, rule_format]
  show ?thesis
  proof (cases "bm_get (d_in_flight_ids d) a")
    case None
    then have "\<forall>i q s. view d i = Some (q, s) \<longrightarrow> qd_account q = a \<longrightarrow> \<not> stage_active s"
      using idx[of a] by auto
    then show ?thesis using None by (simp add: in_flight_def in_flight_id_def)
  next
    case (Some i)
    then obtain q s where v: "view d i = Some (q, s)" "stage_active s" "qd_account q = a" using idx[of a i] by auto
    have uniq: "only_active d a i"
      unfolding only_active_def
    proof (intro allI impI)
      fix j q' s' assume "view d j = Some (q', s')" "qd_account q' = a" "stage_active s'"
      then have "bm_get (d_in_flight_ids d) a = Some j" using idx[of a j] by blast
      then show "j = i" using Some by simp
    qed
    have "status d i = stage_status q s" by (simp add: status_view v(1))
    then show ?thesis
      using v Some uniq by (cases s) (auto simp: in_flight_def in_flight_id_def)
  qed
qed

theorem in_flight_total_witness:
  "deposits_wf example_queued \<and>
   in_flight example_queued (qd_account (example_deposit 1 2890880)) = Some (Some (Processing 0))"
proof -
  have "deposits_wf example_queued" using run_wf[OF example_queued_run[of example_sdk]] by simp
  then show ?thesis
    using in_flight_total[of example_queued "qd_account (example_deposit 1 2890880)"]
    by (simp add: in_flight_def in_flight_id_def status_def example_queued_def deposits_default_def)
qed

lemma finalize_swept_exists:
  assumes wf: "deposits_wf d" and w: "sweeps_get (d_swept d) sig = Some w" "sweeps_get (d_finalized d) sig = None"
  shows "\<exists>d'. finalize_swept sig d = Some d'"
proof -
  have "sweeps_deposit (d_finalized d) j = None" if "bm_get (sw_deposits w) j \<noteq> None" for j
  proof -
    have "j \<in> sweep_ids w" using that by (simp add: sweep_ids_def)
    then obtain x where "stages d j ! 1 = Some (x, StSwept sig)"
      using sweep_ids_deposit[OF deposits_wfD(2)[OF wf] w(1), of j] by auto
    then have "sole (stages d j) 1 (x, StSwept sig)" using staged_view(2)[OF deposits_wfD(1)[OF wf], of 1] by simp
    then have "stages d j ! 2 = None" by (rule sole_other) simp_all
    then show ?thesis by simp
  qed
  then have "\<exists>fin. sweeps_insert sig w (d_finalized d) = Some fin"
    using w(2) by (simp add: sweeps_insert_Some_iff)
  then show "\<exists>d'. finalize_swept sig d = Some d'"
    using w(1) by (auto simp: finalize_swept_def sweeps_remove_def sweeps_get_def split: option.splits)
qed



end
