(* ===== verification/Sol_Transfer.thy ===== *)
theory Sol_Transfer
  imports Derivation Sweeps
begin

text \<open>
  \<^verbatim>\<open>minter/src/sol_transfer/mod.rs\<close>: building and signing the two kinds of transactions of the
  minter. The threshold signer is the parameter \<open>sign\<close>, whose failures have any type \<open>'e\<close>.
\<close>

record transaction =
  tx_signatures :: "signature list"
  tx_message :: message

datatype 'e create_transfer_error =
    TransactionTooLarge (max_size: nat) (got_size: nat)
  | SigningFailed 'e

definition transaction_size :: "sdk \<Rightarrow> message \<Rightarrow> nat" where
  "transaction_size lib message =
     1 + length (sdk_serialize lib message) + unat (num_required_signatures message) * BYTES_PER_SIGNATURE"

definition ensure_within_transaction_size :: "sdk \<Rightarrow> message \<Rightarrow> 'e create_transfer_error + unit" where
  "ensure_within_transaction_size lib message =
     (if transaction_size lib message > MAX_TX_SIZE
      then Inl (TransactionTooLarge MAX_TX_SIZE (transaction_size lib message))
      else Inr ())"

definition sign_transaction ::
  "sdk \<Rightarrow> message \<Rightarrow> derivation_path list \<Rightarrow> (bytes \<Rightarrow> derivation_path \<Rightarrow> 'e + bytes) \<Rightarrow>
   ('e create_transfer_error + transaction) option" where
  "sign_transaction lib message paths sign =
     (case ensure_within_transaction_size lib message of
        Inl e \<Rightarrow> Some (Inl e)
      | Inr _ \<Rightarrow>
          (case sign_bytes paths sign (sdk_serialize lib message) of
             None \<Rightarrow> None
           | Some (Inl e) \<Rightarrow> Some (Inl (SigningFailed e))
           | Some (Inr signatures) \<Rightarrow> Some (Inr \<lparr>tx_signatures = signatures, tx_message = message\<rparr>)))"

definition accounts_by_address :: "sweep \<Rightarrow> (address, account) btree_map" where
  "accounts_by_address sw =
     bm_collect (map (\<lambda>deposit. (qd_address deposit, qd_account deposit)) (bm_values (sw_deposits sw)))"

definition sign_sweep_transaction ::
  "sdk \<Rightarrow> (bytes \<Rightarrow> derivation_path \<Rightarrow> 'e + bytes) \<Rightarrow> sweep \<Rightarrow> hash \<Rightarrow>
   ('e create_transfer_error + transaction \<times> signer list) option" where
  "sign_sweep_transaction lib sign sw blockhash = do {
     let message = sweep_message lib sw blockhash;
     signers \<leftarrow> collect_opt (map (\<lambda>key. map_option SignerAccount (bm_get (accounts_by_address sw) key))
       (sdk_signer_keys lib message));
     result \<leftarrow> sign_transaction lib message (map signer_derivation_path signers) sign;
     Some (case result of Inl e \<Rightarrow> Inl e | Inr transaction \<Rightarrow> Inr (transaction, signers))
   }"

definition build_batch_withdrawal_message ::
  "sdk \<Rightarrow> address \<Rightarrow> address \<Rightarrow> hash \<Rightarrow> (address \<times> lamport) list \<Rightarrow> 'e create_transfer_error + message" where
  "build_batch_withdrawal_message lib minter nonce_account nonce_value transfers =
     (let message = sdk_new_with_blockhash lib
        (sdk_advance_nonce_account lib nonce_account minter #
         map (\<lambda>(target, amount). sdk_transfer lib minter target amount) transfers)
        (Some minter) nonce_value
      in case ensure_within_transaction_size lib message of
           Inl e \<Rightarrow> Inl e
         | Inr _ \<Rightarrow> Inr message)"

definition sign_batch_withdrawal_message ::
  "sdk \<Rightarrow> (bytes \<Rightarrow> derivation_path \<Rightarrow> 'e + bytes) \<Rightarrow> message \<Rightarrow> ('e create_transfer_error + transaction) option" where
  "sign_batch_withdrawal_message lib sign message =
     sign_transaction lib message [MINTER_DERIVATION_PATH] sign"

lemma build_batch_Inr:
  assumes "build_batch_withdrawal_message lib minter n h transfers = Inr m"
  shows "m = sdk_new_with_blockhash lib (sdk_advance_nonce_account lib n minter #
           map (\<lambda>(target, amount). sdk_transfer lib minter target amount) transfers) (Some minter) h"
    and "transaction_size lib m \<le> MAX_TX_SIZE"
  using assms
  by (auto simp: build_batch_withdrawal_message_def ensure_within_transaction_size_def Let_def split: if_splits)

lemma sign_transaction_Inr:
  assumes "sign_transaction lib m paths sign = Some (Inr tx)"
  shows "tx_message tx = m" and "length (tx_signatures tx) = length paths"
    and "transaction_size lib m \<le> MAX_TX_SIZE"
    and "map (\<lambda>p. map_sum id signature_from_bytes (sign (sdk_serialize lib m) p)) paths = map (Inr \<circ> Some) (tx_signatures tx)"
proof -
  obtain sigs where *: "sign_bytes paths sign (sdk_serialize lib m) = Some (Inr sigs)"
    "tx = \<lparr>tx_signatures = sigs, tx_message = m\<rparr>" "transaction_size lib m \<le> MAX_TX_SIZE"
    using assms by (auto simp: sign_transaction_def ensure_within_transaction_size_def split: option.splits sum.splits if_splits)
  then show "tx_message tx = m" "length (tx_signatures tx) = length paths" "transaction_size lib m \<le> MAX_TX_SIZE"
    using sign_bytes_length by auto
  from *(1) obtain raw where raw: "map (sign (sdk_serialize lib m)) paths = map Inr raw"
    "map signature_from_bytes raw = map Some sigs"
    by (auto simp: sign_bytes_def collect_res_Inr_iff collect_opt_Some_iff split: sum.splits)
  have "map (\<lambda>p. map_sum id signature_from_bytes (sign (sdk_serialize lib m) p)) paths =
      map (map_sum id signature_from_bytes) (map (sign (sdk_serialize lib m)) paths)" by simp
  also have "\<dots> = map Inr (map signature_from_bytes raw)" by (simp add: raw(1))
  also have "\<dots> = map (Inr \<circ> Some) sigs" by (simp add: raw(2))
  finally show "map (\<lambda>p. map_sum id signature_from_bytes (sign (sdk_serialize lib m) p)) paths =
      map (Inr \<circ> Some) (tx_signatures tx)" by (simp add: *(2))
qed

end
