(* ===== verification/Minter_State.thy ===== *)
theory Minter_State
  imports Deposits Nonce_Pool Sol_Transfer Insertion_Ordered_Map
begin

text \<open>
  \<^verbatim>\<open>minter/src/state/mod.rs\<close>: the state of the minter with its configuration, the withdrawal
  requests by progress, the transactions and the operations the events apply; with the arguments
  of \<^verbatim>\<open>libs/types-internal/src/lib.rs\<close> and the requests of \<^verbatim>\<open>minter/src/state/event.rs\<close>.

  An operation returns \<open>None\<close> where the code panics. Fields that are overwritten before a panic are
  not kept: the message traps and its changes are rolled back.
\<close>

subsection \<open>Arguments\<close>

datatype solana_network = Mainnet | Devnet | Testnet

datatype ed25519_key_name = LocalDevelopment | MainnetTestKey1 | MainnetProdKey1

record init_args =
  ia_sol_rpc_canister_id :: principal
  ia_ledger_canister_id :: principal
  ia_master_key_name :: ed25519_key_name
  ia_minimum_withdrawal_amount :: lamport
  ia_minimum_deposit_amount :: lamport
  ia_withdrawal_fee :: lamport
  ia_deposit_sol_required_cycles :: u64
  ia_solana_network :: solana_network
  ia_deposit_sol_fee :: u64
  ia_nonce_accounts :: "string list"
  ia_automatic_deposit_fee :: "lamport option"

record upgrade_args =
  ua_sol_rpc_canister_id :: "principal option"
  ua_minimum_withdrawal_amount :: "lamport option"
  ua_minimum_deposit_amount :: "lamport option"
  ua_withdrawal_fee :: "lamport option"
  ua_deposit_sol_required_cycles :: "u64 option"
  ua_deposit_sol_fee :: "u64 option"
  ua_nonce_accounts_to_add :: "string list option"
  ua_automatic_deposit_fee :: "lamport option"

subsection \<open>Requests and transactions\<close>

record withdrawal_request =
  wr_account :: account
  wr_solana_address :: address
  wr_burn_block_index :: ledger_burn_index
  wr_burned_amount :: lamport
  wr_amount_to_transfer :: lamport

record pending_withdrawal_request =
  pw_request :: withdrawal_request
  pw_created_at :: u64

record sent_withdrawal_request =
  sn_request :: withdrawal_request
  sn_signature :: signature
  sn_created_at :: u64

record created_withdrawal_transaction =
  cw_nonce_value :: hash
  cw_burn_indices :: "ledger_burn_index list"

datatype minter_transaction =
    TxSweepDeposit (tx_block_height: block_height)
  | TxWithdrawal versioned_message (tx_nonce_account: address) (tx_nonce_value: hash) (tx_submitted_at: u64)

datatype transaction_purpose =
    PurposeSweepDeposit "deposit_sol_id list" block_height
  | PurposeWithdrawal "ledger_burn_index list"

datatype task_type = SweepDeposits | Mint | FinalizeTransactions | WithdrawalProcessing

text \<open>The derived \<open>Ord\<close> follows the declaration order.\<close>

primrec task_rank :: "task_type \<Rightarrow> nat" where
  "task_rank SweepDeposits = 0"
| "task_rank Mint = 1"
| "task_rank FinalizeTransactions = 2"
| "task_rank WithdrawalProcessing = 3"

lemma task_rank_inject [simp]: "task_rank a = task_rank b \<longleftrightarrow> a = b"
  by (cases a; cases b) auto

instantiation task_type :: linorder
begin

definition less_eq_task_type :: "task_type \<Rightarrow> task_type \<Rightarrow> bool" where
  "less_eq_task_type a b \<longleftrightarrow> task_rank a \<le> task_rank b"

definition less_task_type :: "task_type \<Rightarrow> task_type \<Rightarrow> bool" where
  "less_task_type a b \<longleftrightarrow> task_rank a < task_rank b"

instance
  by standard (auto simp: less_eq_task_type_def less_task_type_def)

end

subsection \<open>State\<close>

record minter_state =
  st_minter_public_key :: "schnorr_public_key option"
  st_master_key_name :: ed25519_key_name
  st_ledger_canister_id :: principal
  st_sol_rpc_canister_id :: principal
  st_solana_network :: solana_network
  st_withdrawal_fee :: lamport
  st_minimum_withdrawal_amount :: lamport
  st_minimum_deposit_amount :: lamport
  st_deposit_sol_required_cycles :: u128
  st_deposit_sol_fee :: u128
  st_automatic_deposit_fee :: "lamport option"
  st_collected_automatic_deposit_fees :: lamport
  st_pending_deposit_sol_request_guards :: "account btree_set"
  st_pending_withdrawal_request_guards :: "account btree_set"
  st_deposits :: deposits
  st_pending_withdrawal_requests :: "(ledger_burn_index, pending_withdrawal_request) btree_map"
  st_created_withdrawal_requests :: "(ledger_burn_index, pending_withdrawal_request) btree_map"
  st_sent_withdrawal_requests :: "(ledger_burn_index, sent_withdrawal_request) btree_map"
  st_successful_withdrawal_requests :: "(ledger_burn_index, sent_withdrawal_request) btree_map"
  st_failed_withdrawal_requests :: "(ledger_burn_index, sent_withdrawal_request) btree_map"
  st_submitted_transactions :: "(signature, minter_transaction) iom"
  st_created_withdrawal_txs :: "(address, created_withdrawal_transaction) btree_map"
  st_succeeded_transactions :: "signature btree_set"
  st_failed_transactions :: "(signature, minter_transaction) iom"
  st_nonce_pool :: nonce_pool
  st_active_tasks :: "task_type btree_set"
  st_balance :: lamport

datatype invalid_state_error =
    InvalidCanisterId string
  | InvalidMinimumDepositAmount lamport lamport lamport
  | MinimumDepositAmountLeavesMainAddressBelowRent lamport lamport lamport
  | InvalidMinimumWithdrawalAmount lamport lamport lamport
  | DepositSolRequiredCyclesTooLow u128 u128 u128
  | AutomaticDepositFeeTooHigh lamport lamport
  | InvalidNonceAccount string
  | DuplicateNonceAccount address
  | NonceAccountIsWithdrawalDestination address

text \<open>\<open>Principal::anonymous\<close> is the single byte 4.\<close>

definition anonymous_principal :: principal where
  "anonymous_principal = Principal [4]"

definition GET_BALANCE_CYCLES :: u128 where
  "GET_BALANCE_CYCLES = 10000000000"

subsection \<open>Validation, initialization and upgrade\<close>

definition max_automatic_deposit_fee :: "minter_state \<Rightarrow> lamport" where
  "max_automatic_deposit_fee s =
     saturating_sub (saturating_sub (saturating_sub (st_minimum_deposit_amount s)
       RENT_EXEMPTION_THRESHOLD) FEE_PER_SIGNATURE) 1"

definition validate :: "minter_state \<Rightarrow> invalid_state_error + unit" where
  "validate s =
     (let canister_ids = bs_collect [st_sol_rpc_canister_id s, st_ledger_canister_id s];
          maximum_sweep_fee = MAX_SIGNATURES * FEE_PER_SIGNATURE
      in if bm_contains canister_ids anonymous_principal
         then Inl (InvalidCanisterId ''ERROR: anonymous principal is not accepted!'')
         else if bm_len canister_ids < 2
         then Inl (InvalidCanisterId ''ERROR: provided canister IDs are not distinct!'')
         else if st_minimum_deposit_amount s < maximum_sweep_fee + RENT_EXEMPTION_THRESHOLD
         then Inl (InvalidMinimumDepositAmount (st_minimum_deposit_amount s) maximum_sweep_fee
           RENT_EXEMPTION_THRESHOLD)
         else if st_minimum_deposit_amount s < 2 * RENT_EXEMPTION_THRESHOLD + FEE_PER_SIGNATURE
         then Inl (MinimumDepositAmountLeavesMainAddressBelowRent (st_minimum_deposit_amount s)
           RENT_EXEMPTION_THRESHOLD FEE_PER_SIGNATURE)
         else if st_minimum_withdrawal_amount s < st_withdrawal_fee s + RENT_EXEMPTION_THRESHOLD
         then Inl (InvalidMinimumWithdrawalAmount (st_minimum_withdrawal_amount s) (st_withdrawal_fee s)
           RENT_EXEMPTION_THRESHOLD)
         else if st_deposit_sol_required_cycles s < GET_BALANCE_CYCLES + st_deposit_sol_fee s
         then Inl (DepositSolRequiredCyclesTooLow (st_deposit_sol_required_cycles s) GET_BALANCE_CYCLES
           (st_deposit_sol_fee s))
         else (case st_automatic_deposit_fee s of
           None \<Rightarrow> Inr ()
         | Some fee \<Rightarrow>
             if fee > max_automatic_deposit_fee s
             then Inl (AutomaticDepositFeeTooHigh fee (max_automatic_deposit_fee s))
             else Inr ()))"

definition parse_nonce_accounts :: "sdk \<Rightarrow> string list \<Rightarrow> invalid_state_error + address list" where
  "parse_nonce_accounts lib addresses =
     collect_res (map (\<lambda>address.
       case sdk_parse_address lib address of
         Inl error \<Rightarrow> Inl (InvalidNonceAccount
           (''ERROR: failed to parse nonce account '' @ address @ '': '' @ error))
       | Inr parsed \<Rightarrow> Inr parsed) addresses)"

definition invalid_state_from_pool :: "nonce_pool_error \<Rightarrow> invalid_state_error" where
  "invalid_state_from_pool e = (case e of DuplicateAccount address \<Rightarrow> DuplicateNonceAccount address)"

definition state_from_init :: "sdk \<Rightarrow> init_args \<Rightarrow> invalid_state_error + minter_state" where
  "state_from_init lib args =
     (case parse_nonce_accounts lib (ia_nonce_accounts args) of
        Inl e \<Rightarrow> Inl e
      | Inr addresses \<Rightarrow>
     (case nonce_pool_new addresses of
        Inl e \<Rightarrow> Inl (invalid_state_from_pool e)
      | Inr nonce_pool \<Rightarrow>
     (let state = \<lparr>
        st_minter_public_key = None,
        st_master_key_name = ia_master_key_name args,
        st_ledger_canister_id = ia_ledger_canister_id args,
        st_sol_rpc_canister_id = ia_sol_rpc_canister_id args,
        st_solana_network = ia_solana_network args,
        st_withdrawal_fee = ia_withdrawal_fee args,
        st_minimum_withdrawal_amount = ia_minimum_withdrawal_amount args,
        st_minimum_deposit_amount = ia_minimum_deposit_amount args,
        st_deposit_sol_required_cycles = ucast (ia_deposit_sol_required_cycles args),
        st_deposit_sol_fee = ucast (ia_deposit_sol_fee args),
        st_automatic_deposit_fee = ia_automatic_deposit_fee args,
        st_collected_automatic_deposit_fees = 0,
        st_pending_deposit_sol_request_guards = bm_empty,
        st_pending_withdrawal_request_guards = bm_empty,
        st_deposits = deposits_default,
        st_pending_withdrawal_requests = bm_empty,
        st_created_withdrawal_requests = bm_empty,
        st_sent_withdrawal_requests = bm_empty,
        st_successful_withdrawal_requests = bm_empty,
        st_failed_withdrawal_requests = bm_empty,
        st_submitted_transactions = iom_new,
        st_created_withdrawal_txs = bm_empty,
        st_succeeded_transactions = bm_empty,
        st_failed_transactions = iom_new,
        st_nonce_pool = nonce_pool,
        st_active_tasks = bm_empty,
        st_balance = 0\<rparr>
      in case validate state of Inl e \<Rightarrow> Inl e | Inr _ \<Rightarrow> Inr state)))"

definition incomplete_destinations :: "minter_state \<Rightarrow> address btree_set" where
  "incomplete_destinations s = bs_collect (map wr_solana_address
     (map pw_request (bm_values (st_pending_withdrawal_requests s) @
        bm_values (st_created_withdrawal_requests s)) @
      map sn_request (bm_values (st_sent_withdrawal_requests s))))"

definition ensure_no_incomplete_withdrawal_to ::
  "minter_state \<Rightarrow> address list \<Rightarrow> invalid_state_error + unit" where
  "ensure_no_incomplete_withdrawal_to s nonce_accounts =
     (case find (bm_contains (incomplete_destinations s)) nonce_accounts of
        Some address \<Rightarrow> Inl (NonceAccountIsWithdrawalDestination address)
      | None \<Rightarrow> Inr ())"

definition or_keep :: "'a option \<Rightarrow> 'a \<Rightarrow> 'a" where
  "or_keep new old = (case new of None \<Rightarrow> old | Some x \<Rightarrow> x)"

definition upgrade_settings :: "upgrade_args \<Rightarrow> minter_state \<Rightarrow> minter_state" where
  "upgrade_settings args s = s\<lparr>
     st_sol_rpc_canister_id := or_keep (ua_sol_rpc_canister_id args) (st_sol_rpc_canister_id s),
     st_withdrawal_fee := or_keep (ua_withdrawal_fee args) (st_withdrawal_fee s),
     st_minimum_withdrawal_amount := or_keep (ua_minimum_withdrawal_amount args) (st_minimum_withdrawal_amount s),
     st_minimum_deposit_amount := or_keep (ua_minimum_deposit_amount args) (st_minimum_deposit_amount s),
     st_deposit_sol_required_cycles :=
       or_keep (map_option ucast (ua_deposit_sol_required_cycles args)) (st_deposit_sol_required_cycles s),
     st_deposit_sol_fee := or_keep (map_option ucast (ua_deposit_sol_fee args)) (st_deposit_sol_fee s),
     st_automatic_deposit_fee :=
       (case ua_automatic_deposit_fee args of None \<Rightarrow> st_automatic_deposit_fee s | Some fee \<Rightarrow> Some fee)\<rparr>"

definition add_nonce_accounts :: "sdk \<Rightarrow> string list option \<Rightarrow> minter_state \<Rightarrow> invalid_state_error + minter_state" where
  "add_nonce_accounts lib accounts s =
     (case accounts of
        None \<Rightarrow> Inr s
      | Some addresses \<Rightarrow>
     (case parse_nonce_accounts lib addresses of
        Inl e \<Rightarrow> Inl e
      | Inr nonce_accounts \<Rightarrow>
     (case ensure_no_incomplete_withdrawal_to s nonce_accounts of
        Inl e \<Rightarrow> Inl e
      | Inr _ \<Rightarrow>
     (case add_accounts nonce_accounts (st_nonce_pool s) of
        Inl e \<Rightarrow> Inl (invalid_state_from_pool e)
      | Inr pool \<Rightarrow> Inr (s\<lparr>st_nonce_pool := pool\<rparr>)))))"

definition upgrade :: "sdk \<Rightarrow> upgrade_args \<Rightarrow> minter_state \<Rightarrow> invalid_state_error + minter_state" where
  "upgrade lib args s =
     (case add_nonce_accounts lib (ua_nonce_accounts_to_add args) (upgrade_settings args s) of
        Inl e \<Rightarrow> Inl e
      | Inr s' \<Rightarrow> (case validate s' of Inl e \<Rightarrow> Inl e | Inr _ \<Rightarrow> Inr s'))"

definition cache_minter_public_key :: "schnorr_public_key \<Rightarrow> minter_state \<Rightarrow> minter_state option" where
  "cache_minter_public_key public_key s =
     (case st_minter_public_key s of
        None \<Rightarrow> Some (s\<lparr>st_minter_public_key := Some public_key\<rparr>)
      | Some cached \<Rightarrow> if cached = public_key then Some s else None)"

subsection \<open>Queries\<close>

definition withdrawal_status :: "minter_state \<Rightarrow> u64 \<Rightarrow> withdraw_sol_status" where
  "withdrawal_status s burn_index =
     (if bm_contains (st_pending_withdrawal_requests s) burn_index \<or>
         bm_contains (st_created_withdrawal_requests s) burn_index
      then WithdrawPending
      else (case bm_get (st_sent_withdrawal_requests s) burn_index of
        Some sent \<Rightarrow> WithdrawTxSent (sn_signature sent)
      | None \<Rightarrow> (case bm_get (st_successful_withdrawal_requests s) burn_index of
        Some sent \<Rightarrow> WithdrawTxFinalized (TxSuccess (sn_signature sent))
      | None \<Rightarrow> (case bm_get (st_failed_withdrawal_requests s) burn_index of
        Some sent \<Rightarrow> WithdrawTxFinalized (TxFailure (sn_signature sent))
      | None \<Rightarrow> WithdrawNotFound))))"

text \<open>The iterator \<open>WithdrawalBatches\<close>: the requests not yet batched and the available balance.\<close>

type_synonym batches_state = "withdrawal_request list \<times> lamport"

definition withdrawal_batches :: "minter_state \<Rightarrow> batches_state" where
  "withdrawal_batches s =
     (map pw_request (bm_values (st_pending_withdrawal_requests s)),
      saturating_sub (st_balance s) RENT_EXEMPTION_THRESHOLD)"

fun fill_batch ::
  "withdrawal_request list \<Rightarrow> withdrawal_request list \<Rightarrow> lamport \<Rightarrow> withdrawal_request list \<times> batches_state" where
  "fill_batch batch [] available = (batch, [], available)"
| "fill_batch batch (request # pending) available =
     (if length batch < MAX_WITHDRAWALS_PER_NONCE_TX
      then (let reserved_fee = (if batch = [] then BATCH_WITHDRAWAL_TX_FEE else 0)
            in case Option.bind (checked_add (wr_amount_to_transfer request) reserved_fee) (checked_sub available) of
                 None \<Rightarrow> (batch, request # pending, available)
               | Some remaining \<Rightarrow> fill_batch (batch @ [request]) pending remaining)
      else (batch, request # pending, available))"

definition next_batch :: "batches_state \<Rightarrow> withdrawal_request list option \<times> batches_state" where
  "next_batch b =
     (let (batch, b') = fill_batch [] (fst b) (snd b)
      in (if batch = [] then None else Some batch, b'))"

definition can_create_withdrawal_transaction :: "minter_state \<Rightarrow> bool" where
  "can_create_withdrawal_transaction s \<longleftrightarrow>
     num_free_accounts (st_nonce_pool s) > 0 \<and> fst (next_batch (withdrawal_batches s)) \<noteq> None"

definition has_unsigned_withdrawal_transaction :: "minter_state \<Rightarrow> bool" where
  "has_unsigned_withdrawal_transaction s \<longleftrightarrow> \<not> bm_is_empty (st_created_withdrawal_txs s)"

definition oldest_incomplete_withdrawal_created_at :: "minter_state \<Rightarrow> u64 option" where
  "oldest_incomplete_withdrawal_created_at s = min_option
     (map pw_created_at (bm_values (st_pending_withdrawal_requests s)) @
      map pw_created_at (bm_values (st_created_withdrawal_requests s)) @
      map sn_created_at (bm_values (st_sent_withdrawal_requests s)))"

subsection \<open>Deposits\<close>

definition lift_deposits :: "(deposits \<Rightarrow> deposits option) \<Rightarrow> minter_state \<Rightarrow> minter_state option" where
  "lift_deposits f s = map_option (\<lambda>d. s\<lparr>st_deposits := d\<rparr>) (f (st_deposits s))"

definition process_queued_deposit ::
  "deposit_sol_id \<Rightarrow> queued_deposit \<Rightarrow> u64 \<Rightarrow> minter_state \<Rightarrow> minter_state option" where
  "process_queued_deposit deposit_id deposit queued_at = lift_deposits (queue deposit_id deposit queued_at)"

definition process_credited_sweep ::
  "signature \<Rightarrow> lamport \<Rightarrow> credited_deposit list \<Rightarrow> u64 \<Rightarrow> minter_state \<Rightarrow> minter_state option" where
  "process_credited_sweep signature amount_received credited timestamp s = do {
     let amount_to_mint = sum_list (map cd_amount_to_mint credited);
     (d, sweep) \<leftarrow> credit_sweep signature credited timestamp (st_deposits s);
     let fees = deposit_fees sweep;
     total \<leftarrow> checked_add amount_to_mint fees;
     assert_that (total \<le> amount_received);
     Some (s\<lparr>st_deposits := d,
       st_collected_automatic_deposit_fees := st_collected_automatic_deposit_fees s + fees,
       st_balance := st_balance s + amount_received\<rparr>)
   }"

definition process_minted_swept_deposit ::
  "deposit_sol_id \<Rightarrow> ledger_mint_index \<Rightarrow> minter_state \<Rightarrow> minter_state option" where
  "process_minted_swept_deposit deposit_id mint_block_index =
     lift_deposits (mint_deposit deposit_id mint_block_index)"

definition process_quarantined_pending_mint :: "deposit_sol_id \<Rightarrow> minter_state \<Rightarrow> minter_state option" where
  "process_quarantined_pending_mint deposit_id = lift_deposits (quarantine_pending_mint deposit_id)"

definition process_quarantined_sweep :: "signature \<Rightarrow> minter_state \<Rightarrow> minter_state option" where
  "process_quarantined_sweep signature = lift_deposits (quarantine_sweep signature)"

subsection \<open>Withdrawals\<close>

definition process_accepted_withdrawal :: "withdrawal_request \<Rightarrow> u64 \<Rightarrow> minter_state \<Rightarrow> minter_state option" where
  "process_accepted_withdrawal request created_at s = do {
     assert_that (bm_get (st_pending_withdrawal_requests s) (wr_burn_block_index request) = None);
     Some (s\<lparr>st_pending_withdrawal_requests := bm_insert (wr_burn_block_index request)
       \<lparr>pw_request = request, pw_created_at = created_at\<rparr> (st_pending_withdrawal_requests s)\<rparr>)
   }"

text \<open>The body of the loop of \<open>process_transaction_created\<close>, with the running total.\<close>

definition create_one :: "ledger_burn_index \<Rightarrow> minter_state \<times> lamport \<Rightarrow> (minter_state \<times> lamport) option" where
  "create_one burn_index acc = do {
     let s = fst acc;
     pending \<leftarrow> bm_get (st_pending_withdrawal_requests s) burn_index;
     total \<leftarrow> checked_add (snd acc) (wr_amount_to_transfer (pw_request pending));
     assert_that (bm_get (st_created_withdrawal_requests s) burn_index = None);
     Some (s\<lparr>st_pending_withdrawal_requests := bm_remove burn_index (st_pending_withdrawal_requests s),
             st_created_withdrawal_requests := bm_insert burn_index pending (st_created_withdrawal_requests s)\<rparr>,
           total)
   }"

definition process_transaction_created ::
  "ledger_burn_index list \<Rightarrow> address \<Rightarrow> hash \<Rightarrow> minter_state \<Rightarrow> minter_state option" where
  "process_transaction_created burn_indices nonce_account nonce_value s = do {
     pool \<leftarrow> bind_nonce nonce_account nonce_value (st_nonce_pool s);
     (s', total) \<leftarrow> foldM create_one burn_indices (s\<lparr>st_nonce_pool := pool\<rparr>, 0);
     balance \<leftarrow> checked_sub (st_balance s') (total + BATCH_WITHDRAWAL_TX_FEE);
     assert_that (bm_get (st_created_withdrawal_txs s') nonce_account = None);
     Some (s'\<lparr>st_balance := balance,
       st_created_withdrawal_txs := bm_insert nonce_account
         \<lparr>cw_nonce_value = nonce_value, cw_burn_indices = burn_indices\<rparr> (st_created_withdrawal_txs s')\<rparr>)
   }"

definition bound_withdrawal_message ::
  "sdk \<Rightarrow> minter_state \<Rightarrow> address \<Rightarrow> created_withdrawal_transaction \<Rightarrow> message option" where
  "bound_withdrawal_message lib s nonce_account created = do {
     public_key \<leftarrow> st_minter_public_key s;
     transfers \<leftarrow> collect_opt (map (\<lambda>burn_index.
         map_option (\<lambda>pending. (wr_solana_address (pw_request pending), wr_amount_to_transfer (pw_request pending)))
           (bm_get (st_created_withdrawal_requests s) burn_index))
       (cw_burn_indices created));
     (case (build_batch_withdrawal_message lib (minter_address lib public_key) nonce_account
              (cw_nonce_value created) transfers :: unit create_transfer_error + message) of
        Inl _ \<Rightarrow> None
      | Inr message \<Rightarrow> Some message)
   }"

definition send_one :: "signature \<Rightarrow> ledger_burn_index \<Rightarrow> minter_state \<Rightarrow> minter_state option" where
  "send_one signature burn_index s = do {
     pending \<leftarrow> bm_get (st_created_withdrawal_requests s) burn_index;
     assert_that (bm_get (st_sent_withdrawal_requests s) burn_index = None);
     Some (s\<lparr>st_created_withdrawal_requests := bm_remove burn_index (st_created_withdrawal_requests s),
             st_sent_withdrawal_requests := bm_insert burn_index
               \<lparr>sn_request = pw_request pending, sn_signature = signature,
                sn_created_at = pw_created_at pending\<rparr> (st_sent_withdrawal_requests s)\<rparr>)
   }"

definition send_nonce_withdrawal ::
  "sdk \<Rightarrow> signature \<Rightarrow> versioned_message \<Rightarrow> signer list \<Rightarrow> ledger_burn_index list \<Rightarrow> u64 \<Rightarrow> minter_state \<Rightarrow>
   (minter_state \<times> minter_transaction) option" where
  "send_nonce_withdrawal lib signature message signers burn_indices submitted_at s = do {
     nonce_account \<leftarrow> advanced_nonce_account lib message;
     created \<leftarrow> bm_get (st_created_withdrawal_txs s) nonce_account;
     let s1 = s\<lparr>st_created_withdrawal_txs := bm_remove nonce_account (st_created_withdrawal_txs s)\<rparr>;
     assert_that (burn_indices = cw_burn_indices created);
     bound \<leftarrow> bound_withdrawal_message lib s1 nonce_account created;
     assert_that (message = Legacy bound);
     assert_that (signers = [SignerMinter]);
     s2 \<leftarrow> foldM (send_one signature) (cw_burn_indices created) s1;
     Some (s2, TxWithdrawal message nonce_account (cw_nonce_value created) submitted_at)
   }"

subsection \<open>Transactions\<close>

definition process_transaction_submitted ::
  "sdk \<Rightarrow> signature \<Rightarrow> versioned_message \<Rightarrow> signer list \<Rightarrow> transaction_purpose \<Rightarrow> u64 \<Rightarrow> minter_state \<Rightarrow>
   minter_state option" where
  "process_transaction_submitted lib signature message signers purpose timestamp s = do {
     assert_that (\<not> bm_contains (st_succeeded_transactions s) signature);
     assert_that (\<not> iom_contains_key (st_failed_transactions s) signature);
     (s', submitted) \<leftarrow>
       (case purpose of
          PurposeWithdrawal burn_indices \<Rightarrow>
            send_nonce_withdrawal lib signature message signers burn_indices timestamp s
        | PurposeSweepDeposit deposit_ids block_height \<Rightarrow> do {
            public_key \<leftarrow> st_minter_public_key s;
            (d, _) \<leftarrow> sweep_deposits lib deposit_ids (minter_address lib public_key) message signature (st_deposits s);
            Some (s\<lparr>st_deposits := d\<rparr>, TxSweepDeposit block_height)
          });
     let (txs, old) = iom_insert signature submitted (st_submitted_transactions s');
     assert_that (old = None);
     Some (s'\<lparr>st_submitted_transactions := txs\<rparr>)
   }"

text \<open>The move of the sent requests of a transaction into a bucket of finalized requests.\<close>

definition extract_sent ::
  "signature \<Rightarrow> minter_state \<Rightarrow> (ledger_burn_index, sent_withdrawal_request) btree_map \<Rightarrow>
   (ledger_burn_index, sent_withdrawal_request) btree_map" where
  "extract_sent signature s bucket =
     bm_extend (filter (\<lambda>p. sn_signature (snd p) = signature) (bm_iter (st_sent_withdrawal_requests s))) bucket"

definition remaining_sent ::
  "signature \<Rightarrow> minter_state \<Rightarrow> (ledger_burn_index, sent_withdrawal_request) btree_map" where
  "remaining_sent signature s =
     bm_filter (\<lambda>p. sn_signature (snd p) \<noteq> signature) (st_sent_withdrawal_requests s)"

definition process_transaction_succeeded :: "signature \<Rightarrow> minter_state \<Rightarrow> minter_state option" where
  "process_transaction_succeeded signature s = do {
     assert_that (\<not> iom_contains_key (st_failed_transactions s) signature);
     let (txs, removed) = iom_remove signature (st_submitted_transactions s);
     transaction \<leftarrow> removed;
     let s1 = s\<lparr>st_submitted_transactions := txs\<rparr>;
     s2 \<leftarrow> (case transaction of
         TxSweepDeposit _ \<Rightarrow> lift_deposits (finalize_swept signature) s1
       | TxWithdrawal _ nonce_account _ _ \<Rightarrow>
           map_option (\<lambda>pool. s1\<lparr>st_nonce_pool := pool\<rparr>) (free_nonce nonce_account (st_nonce_pool s1)));
     assert_that (\<not> bm_contains (st_succeeded_transactions s2) signature);
     Some (s2\<lparr>st_succeeded_transactions := bs_insert signature (st_succeeded_transactions s2),
       st_successful_withdrawal_requests := extract_sent signature s2 (st_successful_withdrawal_requests s2),
       st_sent_withdrawal_requests := remaining_sent signature s2\<rparr>)
   }"

definition process_transaction_failed :: "signature \<Rightarrow> minter_state \<Rightarrow> minter_state option" where
  "process_transaction_failed signature s = do {
     assert_that (\<not> bm_contains (st_succeeded_transactions s) signature);
     let (txs, removed) = iom_remove signature (st_submitted_transactions s);
     transaction \<leftarrow> removed;
     let s1 = s\<lparr>st_submitted_transactions := txs\<rparr>;
     s2 \<leftarrow> (case transaction of
         TxSweepDeposit _ \<Rightarrow> lift_deposits (drop_swept signature) s1
       | TxWithdrawal _ nonce_account _ _ \<Rightarrow>
           map_option (\<lambda>pool. s1\<lparr>st_nonce_pool := pool\<rparr>) (free_nonce nonce_account (st_nonce_pool s1)));
     let (failed, old) = iom_insert signature transaction (st_failed_transactions s2);
     assert_that (old = None);
     Some (s2\<lparr>st_failed_transactions := failed,
       st_failed_withdrawal_requests := extract_sent signature s2 (st_failed_withdrawal_requests s2),
       st_sent_withdrawal_requests := remaining_sent signature s2\<rparr>)
   }"

definition process_transaction_expired :: "signature \<Rightarrow> minter_state \<Rightarrow> minter_state option" where
  "process_transaction_expired signature s = do {
     assert_that (\<not> bm_contains (st_succeeded_transactions s) signature);
     assert_that (\<not> iom_contains_key (st_failed_transactions s) signature);
     let (txs, removed) = iom_remove signature (st_submitted_transactions s);
     transaction \<leftarrow> removed;
     (case transaction of
        TxSweepDeposit _ \<Rightarrow> lift_deposits (drop_swept signature) (s\<lparr>st_submitted_transactions := txs\<rparr>)
      | TxWithdrawal _ _ _ _ \<Rightarrow> None)
   }"

end
