(* ===== verification/Storage.thy ===== *)
theory Storage
  imports BTree_Map
begin

text \<open>
  The metrics of \<^verbatim>\<open>minter/src/storage/mod.rs\<close> that live outside the event log: they count
  failed attempts by reason and are lost on an upgrade. The event log itself is the list of events
  of theory \<open>Audit_Log\<close>.
\<close>

subsection \<open>Reasons\<close>

datatype failed_credit_reason = CreditNotFound | CreditRpcError | CreditInvalidResponse | CreditUnreadable | CreditMismatch

datatype failed_mint_reason =
  MintExpired | MintRejected | MintLedgerError | MintCreatedInFuture | MintCallError | MintUnknownOutcome

datatype undecided_withdrawal_reason = UndecidedStaleNonce | UndecidedNonceReadFailed | UndecidedUnresolvedOutcome

definition FAILED_CREDIT_REASONS :: "failed_credit_reason list" where
  "FAILED_CREDIT_REASONS = [CreditNotFound, CreditRpcError, CreditInvalidResponse, CreditUnreadable, CreditMismatch]"

definition FAILED_MINT_REASONS :: "failed_mint_reason list" where
  "FAILED_MINT_REASONS =
     [MintExpired, MintRejected, MintLedgerError, MintCreatedInFuture, MintCallError, MintUnknownOutcome]"

definition UNDECIDED_WITHDRAWAL_REASONS :: "undecided_withdrawal_reason list" where
  "UNDECIDED_WITHDRAWAL_REASONS = [UndecidedStaleNonce, UndecidedNonceReadFailed, UndecidedUnresolvedOutcome]"

fun failed_credit_label :: "failed_credit_reason \<Rightarrow> string" where
  "failed_credit_label CreditNotFound = ''not_found''"
| "failed_credit_label CreditRpcError = ''rpc_error''"
| "failed_credit_label CreditInvalidResponse = ''invalid_response''"
| "failed_credit_label CreditUnreadable = ''unreadable''"
| "failed_credit_label CreditMismatch = ''mismatch''"

fun failed_mint_label :: "failed_mint_reason \<Rightarrow> string" where
  "failed_mint_label MintExpired = ''expired''"
| "failed_mint_label MintRejected = ''rejected''"
| "failed_mint_label MintLedgerError = ''ledger_error''"
| "failed_mint_label MintCreatedInFuture = ''created_in_future''"
| "failed_mint_label MintCallError = ''call_error''"
| "failed_mint_label MintUnknownOutcome = ''unknown_outcome''"

fun undecided_withdrawal_label :: "undecided_withdrawal_reason \<Rightarrow> string" where
  "undecided_withdrawal_label UndecidedStaleNonce = ''stale_nonce''"
| "undecided_withdrawal_label UndecidedNonceReadFailed = ''nonce_read_failed''"
| "undecided_withdrawal_label UndecidedUnresolvedOutcome = ''unresolved_outcome''"

text \<open>The derived order of the reasons: that of their declaration.\<close>

fun failed_credit_rank :: "failed_credit_reason \<Rightarrow> nat" where
  "failed_credit_rank CreditNotFound = 0"
| "failed_credit_rank CreditRpcError = 1"
| "failed_credit_rank CreditInvalidResponse = 2"
| "failed_credit_rank CreditUnreadable = 3"
| "failed_credit_rank CreditMismatch = 4"

lemma failed_credit_rank_inject: "failed_credit_rank a = failed_credit_rank b \<Longrightarrow> a = b"
  by (cases a; cases b) simp_all

fun failed_mint_rank :: "failed_mint_reason \<Rightarrow> nat" where
  "failed_mint_rank MintExpired = 0"
| "failed_mint_rank MintRejected = 1"
| "failed_mint_rank MintLedgerError = 2"
| "failed_mint_rank MintCreatedInFuture = 3"
| "failed_mint_rank MintCallError = 4"
| "failed_mint_rank MintUnknownOutcome = 5"

lemma failed_mint_rank_inject: "failed_mint_rank a = failed_mint_rank b \<Longrightarrow> a = b"
  by (cases a; cases b) simp_all

fun undecided_withdrawal_rank :: "undecided_withdrawal_reason \<Rightarrow> nat" where
  "undecided_withdrawal_rank UndecidedStaleNonce = 0"
| "undecided_withdrawal_rank UndecidedNonceReadFailed = 1"
| "undecided_withdrawal_rank UndecidedUnresolvedOutcome = 2"

lemma undecided_withdrawal_rank_inject: "undecided_withdrawal_rank a = undecided_withdrawal_rank b \<Longrightarrow> a = b"
  by (cases a; cases b) simp_all

instantiation failed_credit_reason :: linorder
begin

definition less_eq_failed_credit_reason :: "failed_credit_reason \<Rightarrow> failed_credit_reason \<Rightarrow> bool" where
  "less_eq_failed_credit_reason a b \<longleftrightarrow> failed_credit_rank a \<le> failed_credit_rank b"

definition less_failed_credit_reason :: "failed_credit_reason \<Rightarrow> failed_credit_reason \<Rightarrow> bool" where
  "less_failed_credit_reason a b \<longleftrightarrow> failed_credit_rank a < failed_credit_rank b"

instance
  by standard (auto simp: less_eq_failed_credit_reason_def less_failed_credit_reason_def intro: failed_credit_rank_inject)

end

instantiation failed_mint_reason :: linorder
begin

definition less_eq_failed_mint_reason :: "failed_mint_reason \<Rightarrow> failed_mint_reason \<Rightarrow> bool" where
  "less_eq_failed_mint_reason a b \<longleftrightarrow> failed_mint_rank a \<le> failed_mint_rank b"

definition less_failed_mint_reason :: "failed_mint_reason \<Rightarrow> failed_mint_reason \<Rightarrow> bool" where
  "less_failed_mint_reason a b \<longleftrightarrow> failed_mint_rank a < failed_mint_rank b"

instance
  by standard (auto simp: less_eq_failed_mint_reason_def less_failed_mint_reason_def intro: failed_mint_rank_inject)

end

instantiation undecided_withdrawal_reason :: linorder
begin

definition less_eq_undecided_withdrawal_reason :: "undecided_withdrawal_reason \<Rightarrow> undecided_withdrawal_reason \<Rightarrow> bool" where
  "less_eq_undecided_withdrawal_reason a b \<longleftrightarrow> undecided_withdrawal_rank a \<le> undecided_withdrawal_rank b"

definition less_undecided_withdrawal_reason :: "undecided_withdrawal_reason \<Rightarrow> undecided_withdrawal_reason \<Rightarrow> bool" where
  "less_undecided_withdrawal_reason a b \<longleftrightarrow> undecided_withdrawal_rank a < undecided_withdrawal_rank b"

instance
  by standard (auto simp: less_eq_undecided_withdrawal_reason_def less_undecided_withdrawal_reason_def
      intro: undecided_withdrawal_rank_inject)

end

subsection \<open>The metrics\<close>

record metrics =
  met_post_upgrade_instructions_consumed :: u64
  met_failed_credit_attempts :: "(failed_credit_reason, u64) btree_map"
  met_failed_mint_attempts :: "(failed_mint_reason, u64) btree_map"
  met_withdrawal_transaction_rebroadcasts :: u64
  met_undecided_withdrawal_transactions :: "(undecided_withdrawal_reason, u64) btree_map"

definition metrics_new :: metrics where
  "metrics_new = \<lparr>met_post_upgrade_instructions_consumed = 0, met_failed_credit_attempts = bm_empty,
     met_failed_mint_attempts = bm_empty, met_withdrawal_transaction_rebroadcasts = 0,
     met_undecided_withdrawal_transactions = bm_empty\<rparr>"

text \<open>\<open>entry(k).or_insert(0) += 1\<close>, and a lookup that defaults to zero.\<close>

definition count_up :: "'k::linorder \<Rightarrow> ('k, u64) btree_map \<Rightarrow> ('k, u64) btree_map" where
  "count_up k m = bm_insert k ((case bm_get m k of None \<Rightarrow> 0 | Some n \<Rightarrow> n) + 1) m"

definition count_of :: "('k::linorder, u64) btree_map \<Rightarrow> 'k \<Rightarrow> u64" where
  "count_of m k = (case bm_get m k of None \<Rightarrow> 0 | Some n \<Rightarrow> n)"

definition record_failed_credit_attempt :: "failed_credit_reason \<Rightarrow> metrics \<Rightarrow> metrics" where
  "record_failed_credit_attempt reason m =
     m\<lparr>met_failed_credit_attempts := count_up reason (met_failed_credit_attempts m)\<rparr>"

definition failed_credit_attempt_count :: "metrics \<Rightarrow> failed_credit_reason \<Rightarrow> u64" where
  "failed_credit_attempt_count m reason = count_of (met_failed_credit_attempts m) reason"

definition record_failed_mint_attempt :: "failed_mint_reason \<Rightarrow> metrics \<Rightarrow> metrics" where
  "record_failed_mint_attempt reason m =
     m\<lparr>met_failed_mint_attempts := count_up reason (met_failed_mint_attempts m)\<rparr>"

definition failed_mint_attempt_count :: "metrics \<Rightarrow> failed_mint_reason \<Rightarrow> u64" where
  "failed_mint_attempt_count m reason = count_of (met_failed_mint_attempts m) reason"

definition set_undecided_withdrawal_transactions ::
  "(undecided_withdrawal_reason, u64) btree_map \<Rightarrow> metrics \<Rightarrow> metrics" where
  "set_undecided_withdrawal_transactions counts m = m\<lparr>met_undecided_withdrawal_transactions := counts\<rparr>"

definition undecided_withdrawal_transaction_count :: "metrics \<Rightarrow> undecided_withdrawal_reason \<Rightarrow> u64" where
  "undecided_withdrawal_transaction_count m reason = count_of (met_undecided_withdrawal_transactions m) reason"

lemma count_of_count_up [simp]: "count_of (count_up k m) k' = (if k' = k then count_of m k + 1 else count_of m k')"
  by (simp add: count_of_def count_up_def)

lemma all_reasons:
  "set FAILED_CREDIT_REASONS = UNIV" "set FAILED_MINT_REASONS = UNIV" "set UNDECIDED_WITHDRAWAL_REASONS = UNIV"
proof -
  have "a \<in> set FAILED_CREDIT_REASONS" for a by (cases a) (simp_all add: FAILED_CREDIT_REASONS_def)
  moreover have "b \<in> set FAILED_MINT_REASONS" for b by (cases b) (simp_all add: FAILED_MINT_REASONS_def)
  moreover have "c \<in> set UNDECIDED_WITHDRAWAL_REASONS" for c by (cases c) (simp_all add: UNDECIDED_WITHDRAWAL_REASONS_def)
  ultimately show "set FAILED_CREDIT_REASONS = UNIV" "set FAILED_MINT_REASONS = UNIV" "set UNDECIDED_WITHDRAWAL_REASONS = UNIV"
    by blast+
qed

end
