(* ===== verification/Audit_Log.thy ===== *)
theory Audit_Log
  imports Minter_State Storage
begin

text \<open>
  The events of \<^verbatim>\<open>minter/src/state/event.rs\<close> and the state transition and replay of
  \<^verbatim>\<open>minter/src/state/audit.rs\<close>. The event log of the stable memory is a list of events.
\<close>

datatype event_type =
    EvInit init_args
  | EvUpgrade upgrade_args
  | EvAcceptedWithdrawalRequest withdrawal_request
  | EvSubmittedTransaction signature versioned_message "signer list" transaction_purpose
  | EvSucceededTransaction signature
  | EvFailedTransaction signature
  | EvExpiredTransaction signature
  | EvQueuedDeposit deposit_sol_id account address deposit_balance "lamport option"
  | EvCreditedSweep signature lamport "credited_deposit list"
  | EvQuarantinedSweep signature
  | EvMinterPublicKeyFetched public_key chain_code
  | EvMintedSweptDeposit deposit_sol_id ledger_mint_index
  | EvQuarantinedPendingMint deposit_sol_id
  | EvCreatedWithdrawalTransaction "ledger_burn_index list" address hash

record event =
  ev_timestamp :: u64
  ev_payload :: event_type

definition apply_state_transition :: "sdk \<Rightarrow> event_type \<Rightarrow> u64 \<Rightarrow> minter_state \<Rightarrow> minter_state option" where
  "apply_state_transition lib payload timestamp s =
     (case payload of
        EvInit _ \<Rightarrow> None
      | EvUpgrade args \<Rightarrow> (case upgrade lib args s of Inl _ \<Rightarrow> None | Inr s' \<Rightarrow> Some s')
      | EvAcceptedWithdrawalRequest request \<Rightarrow> process_accepted_withdrawal request timestamp s
      | EvSubmittedTransaction signature message signers purpose \<Rightarrow>
          process_transaction_submitted lib signature message signers purpose timestamp s
      | EvSucceededTransaction signature \<Rightarrow> process_transaction_succeeded signature s
      | EvFailedTransaction signature \<Rightarrow> process_transaction_failed signature s
      | EvExpiredTransaction signature \<Rightarrow> process_transaction_expired signature s
      | EvQueuedDeposit deposit_id account address balance fee \<Rightarrow>
          process_queued_deposit deposit_id
            \<lparr>qd_account = account, qd_address = address, qd_balance = balance, qd_deposit_fee = fee\<rparr> timestamp s
      | EvCreditedSweep signature amount_received credited \<Rightarrow>
          process_credited_sweep signature amount_received credited timestamp s
      | EvQuarantinedSweep signature \<Rightarrow> process_quarantined_sweep signature s
      | EvMinterPublicKeyFetched public_key chain_code \<Rightarrow>
          cache_minter_public_key \<lparr>spk_public_key = public_key, spk_chain_code = chain_code\<rparr> s
      | EvMintedSweptDeposit deposit_id mint_block_index \<Rightarrow>
          process_minted_swept_deposit deposit_id mint_block_index s
      | EvQuarantinedPendingMint deposit_id \<Rightarrow> process_quarantined_pending_mint deposit_id s
      | EvCreatedWithdrawalTransaction burn_indices nonce_account nonce_value \<Rightarrow>
          process_transaction_created burn_indices nonce_account nonce_value s)"

text \<open>The memory of the canister: the state, the event log of the stable memory, the metrics, and the
  one-shot timers requested with \<open>set_timer\<close>, in order, with their delay.\<close>

datatype timer_task =
    FetchKeyTimer
  | WithdrawalTimer
  | SweepTimer
  | MintTimer
  | FinalizeTimer

record canister =
  can_state :: minter_state
  can_log :: "event list"
  can_metrics :: metrics
  can_timers :: "(duration \<times> timer_task) list"

definition set_timer :: "duration \<Rightarrow> timer_task \<Rightarrow> canister \<Rightarrow> canister" where
  "set_timer delay task c = c\<lparr>can_timers := can_timers c @ [(delay, task)]\<rparr>"

definition process_event :: "sdk \<Rightarrow> event_type \<Rightarrow> u64 \<Rightarrow> canister \<Rightarrow> canister option" where
  "process_event lib payload now c = do {
     s \<leftarrow> apply_state_transition lib payload now (can_state c);
     Some (c\<lparr>can_state := s, can_log := can_log c @ [\<lparr>ev_timestamp = now, ev_payload = payload\<rparr>]\<rparr>)
   }"

definition apply_events :: "sdk \<Rightarrow> event list \<Rightarrow> minter_state \<Rightarrow> minter_state option" where
  "apply_events lib events s =
     foldM (\<lambda>event. apply_state_transition lib (ev_payload event) (ev_timestamp event)) events s"

definition replay_events :: "sdk \<Rightarrow> event list \<Rightarrow> minter_state option" where
  "replay_events lib events =
     (case events of
        [] \<Rightarrow> None
      | first # rest \<Rightarrow>
          (case ev_payload first of
             EvInit args \<Rightarrow>
               (case state_from_init lib args of
                  Inl _ \<Rightarrow> None
                | Inr s \<Rightarrow> apply_events lib rest s)
           | _ \<Rightarrow> None))"

lemma apply_events_append:
  "apply_events lib (es @ [e]) s =
     Option.bind (apply_events lib es s) (apply_state_transition lib (ev_payload e) (ev_timestamp e))"
  by (auto simp: apply_events_def foldM_append split: option.splits)

lemma replay_append:
  "log \<noteq> [] \<Longrightarrow> replay_events lib (log @ [e]) =
     Option.bind (replay_events lib log) (apply_state_transition lib (ev_payload e) (ev_timestamp e))"
  by (cases log) (auto simp: replay_events_def apply_events_append split: event_type.splits sum.splits)

text \<open>Logs grow at the end: every replayable log is an initialization followed by transitions.\<close>

lemma replay_induct [consumes 1, case_names init step]:
  assumes "replay_events lib log = Some s"
    and "\<And>args t s. state_from_init lib args = Inr s \<Longrightarrow>
          P [\<lparr>ev_timestamp = t, ev_payload = EvInit args\<rparr>] s"
    and "\<And>log s t payload s'. replay_events lib log = Some s \<Longrightarrow> P log s \<Longrightarrow>
          apply_state_transition lib payload t s = Some s' \<Longrightarrow>
          P (log @ [\<lparr>ev_timestamp = t, ev_payload = payload\<rparr>]) s'"
  shows "P log s"
  using assms(1)
proof (induction log arbitrary: s rule: rev_induct)
  case Nil
  then show ?case by (simp add: replay_events_def)
next
  case (snoc e log)
  show ?case
  proof (cases "log = []")
    case True
    then obtain args where "ev_payload e = EvInit args" "state_from_init lib args = Inr s"
      using snoc.prems by (auto simp: replay_events_def apply_events_def split: event_type.splits sum.splits)
    then show ?thesis using assms(2)[of args s "ev_timestamp e"] True by (cases e) simp
  next
    case False
    then obtain s0 where "replay_events lib log = Some s0"
      "apply_state_transition lib (ev_payload e) (ev_timestamp e) s0 = Some s"
      using snoc.prems by (auto simp: replay_append Option.bind_eq_Some_conv)
    then show ?thesis using assms(3)[of log s0 "ev_payload e" "ev_timestamp e" s] snoc.IH by (cases e) simp
  qed
qed

end
