(* ===== verification/Withdrawal_Stages.thy ===== *)
theory Withdrawal_Stages
  imports Audit_Log Deposit_Stages
begin

text \<open>
  The invariant of the withdrawals of the minter: the stage of every request, the transactions that
  serve the requests, and the nonce accounts bound to them.
\<close>

subsection \<open>Stages of a withdrawal request\<close>

datatype wstage =
    WtPending
  | WtCreated
  | WtSent signature
  | WtSucceeded signature
  | WtFailed signature

inductive wstage_step :: "wstage \<Rightarrow> wstage \<Rightarrow> bool" where
  create: "wstage_step WtPending WtCreated"
| send: "wstage_step WtCreated (WtSent s)"
| succeed: "wstage_step (WtSent s) (WtSucceeded s)"
| fail: "wstage_step (WtSent s) (WtFailed s)"

inductive_simps wstage_step_simps:
  "wstage_step WtPending b" "wstage_step WtCreated b" "wstage_step (WtSent s) b"
  "wstage_step (WtSucceeded s) b" "wstage_step (WtFailed s) b"

type_synonym withdrawal_view = "withdrawal_request \<times> wstage"

definition sent_view :: "(signature \<Rightarrow> wstage) \<Rightarrow> sent_withdrawal_request \<Rightarrow> withdrawal_view" where
  "sent_view f snt = (sn_request snt, f (sn_signature snt))"

definition wstages :: "minter_state \<Rightarrow> ledger_burn_index \<Rightarrow> withdrawal_view option list" where
  "wstages s b =
     [map_option (\<lambda>p. (pw_request p, WtPending)) (bm_get (st_pending_withdrawal_requests s) b),
      map_option (\<lambda>p. (pw_request p, WtCreated)) (bm_get (st_created_withdrawal_requests s) b),
      map_option (sent_view WtSent) (bm_get (st_sent_withdrawal_requests s) b),
      map_option (sent_view WtSucceeded) (bm_get (st_successful_withdrawal_requests s) b),
      map_option (sent_view WtFailed) (bm_get (st_failed_withdrawal_requests s) b)]"

definition wview :: "minter_state \<Rightarrow> ledger_burn_index \<Rightarrow> withdrawal_view option" where
  "wview s b = find_map (\<lambda>x. x) (wstages s b)"

text \<open>At most one option of a list holds a value.\<close>

definition one_stage :: "'a option list \<Rightarrow> bool" where
  "one_stage xs \<longleftrightarrow> (\<forall>x \<in> set xs. x = None) \<or> (\<exists>k v. sole xs k v)"

lemma one_stage_sole: "one_stage xs \<Longrightarrow> k < length xs \<Longrightarrow> xs ! k = Some v \<Longrightarrow> sole xs k v"
  unfolding one_stage_def by (metis nth_mem option.distinct(1) sole_unique)

lemma sole_one_stage: "sole xs k v \<Longrightarrow> one_stage xs"
  unfolding one_stage_def by blast

lemma one_stage_None: "one_stage xs \<Longrightarrow> find_map (\<lambda>x. x) xs = None \<Longrightarrow> l < length xs \<Longrightarrow> sole (xs[l := Some w]) l w"
  by (auto simp: find_map_None_iff sole_def nth_list_update all_set_conv_all_nth)

lemma length_wstages [simp]: "length (wstages s b) = 5"
  by (simp add: wstages_def)

lemma wstages_nth [simp]:
  "wstages s b ! 0 = map_option (\<lambda>p. (pw_request p, WtPending)) (bm_get (st_pending_withdrawal_requests s) b)"
  "wstages s b ! Suc 0 = map_option (\<lambda>p. (pw_request p, WtCreated)) (bm_get (st_created_withdrawal_requests s) b)"
  "wstages s b ! 2 = map_option (sent_view WtSent) (bm_get (st_sent_withdrawal_requests s) b)"
  "wstages s b ! 3 = map_option (sent_view WtSucceeded) (bm_get (st_successful_withdrawal_requests s) b)"
  "wstages s b ! 4 = map_option (sent_view WtFailed) (bm_get (st_failed_withdrawal_requests s) b)"
  by (simp_all add: wstages_def numeral_eq_Suc)

definition requests_wf :: "minter_state \<Rightarrow> bool" where
  "requests_wf s \<longleftrightarrow> (\<forall>b. one_stage (wstages s b)) \<and>
     (\<forall>b r st. wview s b = Some (r, st) \<longrightarrow> wr_burn_block_index r = b)"

lemma wview_stage:
  assumes "one_stage (wstages s b)" "k < 5" "wstages s b ! k = Some v"
  shows "wview s b = Some v" and "sole (wstages s b) k v"
proof -
  show so: "sole (wstages s b) k v" using one_stage_sole[OF assms(1)] assms(2,3) by simp
  then show "wview s b = Some v" by (simp add: wview_def sole_find_map)
qed

lemma wview_SomeE:
  assumes "wview s b = Some v"
  obtains k where "k < 5" "wstages s b ! k = Some v"
proof -
  from assms obtain x where "x \<in> set (wstages s b)" "x = Some v"
    unfolding wview_def by (auto dest: find_map_SomeD)
  then show thesis using that by (auto simp: in_set_conv_nth)
qed

text \<open>
  The requests of the indices in \<open>B\<close> move from bucket \<open>k\<close> to bucket \<open>l\<close>, keeping the request; all
  other requests stay where they are.
\<close>

definition wmoves ::
  "minter_state \<Rightarrow> minter_state \<Rightarrow> ledger_burn_index set \<Rightarrow> nat \<Rightarrow> nat \<Rightarrow> wstage \<Rightarrow> bool" where
  "wmoves s s' B k l st \<longleftrightarrow> k < 5 \<and> l < 5 \<and> l \<noteq> k \<and>
     (\<forall>b \<in> B. \<exists>r st0. wstages s b ! k = Some (r, st0) \<and> wstages s' b = (wstages s b)[k := None, l := Some (r, st)]) \<and>
     (\<forall>b. b \<notin> B \<longrightarrow> wstages s' b = wstages s b)"

lemma wmoves_stage:
  assumes "wmoves s s' B k l st" "requests_wf s" "b \<in> B"
  shows "\<exists>r st0. wstages s b ! k = Some (r, st0) \<and> wview s b = Some (r, st0) \<and> sole (wstages s' b) l (r, st)"
proof -
  obtain r st0 where *: "k < 5" "l < 5" "l \<noteq> k" "wstages s b ! k = Some (r, st0)"
    "wstages s' b = (wstages s b)[k := None, l := Some (r, st)]"
    using assms unfolding wmoves_def by blast
  have one: "one_stage (wstages s b)" using assms(2) by (simp add: requests_wf_def)
  show ?thesis using wview_stage[OF one *(1,4)] * sole_move[of "wstages s b" k "(r, st0)" l "(r, st)"] by auto
qed

lemma wmoves_view:
  assumes "wmoves s s' B k l st" "requests_wf s"
  shows "wview s' b = (if b \<in> B then map_option (\<lambda>(r, _). (r, st)) (wview s b) else wview s b)"
proof (cases "b \<in> B")
  case True
  then show ?thesis using wmoves_stage[OF assms True] sole_find_map by (fastforce simp: wview_def[of s'])
next
  case False
  then show ?thesis using assms(1) by (simp add: wmoves_def wview_def)
qed

lemma wmoves_wf:
  assumes "wmoves s s' B k l st" "requests_wf s"
  shows "requests_wf s'"
proof -
  have "one_stage (wstages s' b)" for b
  proof (cases "b \<in> B")
    case True
    then show ?thesis using wmoves_stage[OF assms True] by (auto intro: sole_one_stage)
  next
    case False
    then show ?thesis using assms by (simp add: wmoves_def requests_wf_def)
  qed
  moreover have "wr_burn_block_index r = b" if "wview s' b = Some (r, st')" for b r st'
    using that assms(2) unfolding wmoves_view[OF assms] requests_wf_def by (auto split: if_splits)
  ultimately show ?thesis by (simp add: requests_wf_def)
qed

lemma wstages_eq_wf:
  assumes "\<And>b. wstages s' b = wstages s b"
  shows "requests_wf s' = requests_wf s" and "wview s' b = wview s b"
  using assms by (simp_all add: requests_wf_def wview_def)


subsection \<open>The operations on the buckets\<close>

lemma create_oneD:
  assumes "create_one b (s, t) = Some (s', t')"
  obtains p where "bm_get (st_pending_withdrawal_requests s) b = Some p"
    "bm_get (st_created_withdrawal_requests s) b = None"
    "unat t' = unat t + unat (wr_amount_to_transfer (pw_request p))"
    "s' = s\<lparr>st_pending_withdrawal_requests := bm_remove b (st_pending_withdrawal_requests s),
            st_created_withdrawal_requests := bm_insert b p (st_created_withdrawal_requests s)\<rparr>"
  using assms by (auto simp: create_one_def Option.bind_eq_Some_conv assert_that_bind checked_add_Some_iff split: if_splits)

text \<open>What the loop of a created transaction does to the two buckets.\<close>

definition created_from ::
  "minter_state \<Rightarrow> ledger_burn_index list \<Rightarrow> minter_state \<Rightarrow> bool" where
  "created_from s bs s' \<longleftrightarrow> distinct bs \<and>
     (\<forall>b \<in> set bs. bm_get (st_pending_withdrawal_requests s) b \<noteq> None \<and>
        bm_get (st_created_withdrawal_requests s) b = None) \<and>
     (\<exists>P C. s' = s\<lparr>st_pending_withdrawal_requests := P, st_created_withdrawal_requests := C\<rparr> \<and>
        (\<forall>b. bm_get P b = (if b \<in> set bs then None else bm_get (st_pending_withdrawal_requests s) b)) \<and>
        (\<forall>b. bm_get C b = (if b \<in> set bs then bm_get (st_pending_withdrawal_requests s) b
                           else bm_get (st_created_withdrawal_requests s) b)))"

lemma created_fromI:
  assumes "distinct bs" "\<And>b. b \<in> set bs \<Longrightarrow> bm_get (st_pending_withdrawal_requests s) b \<noteq> None"
    "\<And>b. b \<in> set bs \<Longrightarrow> bm_get (st_created_withdrawal_requests s) b = None"
    "s' = s\<lparr>st_pending_withdrawal_requests := P, st_created_withdrawal_requests := C\<rparr>"
    "\<And>b. bm_get P b = (if b \<in> set bs then None else bm_get (st_pending_withdrawal_requests s) b)"
    "\<And>b. bm_get C b = (if b \<in> set bs then bm_get (st_pending_withdrawal_requests s) b
                           else bm_get (st_created_withdrawal_requests s) b)"
  shows "created_from s bs s'"
  unfolding created_from_def using assms by blast

definition pending_amount :: "minter_state \<Rightarrow> ledger_burn_index \<Rightarrow> nat" where
  "pending_amount s b = (case bm_get (st_pending_withdrawal_requests s) b of
     None \<Rightarrow> 0 | Some p \<Rightarrow> unat (wr_amount_to_transfer (pw_request p)))"

lemma created_from_Cons:
  assumes p: "bm_get (st_pending_withdrawal_requests s) b = Some p"
    and c: "bm_get (st_created_withdrawal_requests s) b = None"
    and t: "t = s\<lparr>st_pending_withdrawal_requests := bm_remove b (st_pending_withdrawal_requests s),
            st_created_withdrawal_requests := bm_insert b p (st_created_withdrawal_requests s)\<rparr>"
    and cf: "created_from t bs s'"
  shows "created_from s (b # bs) s'"
proof -
  from cf obtain P C where s': "s' = t\<lparr>st_pending_withdrawal_requests := P, st_created_withdrawal_requests := C\<rparr>"
    and P: "\<And>b. bm_get P b = (if b \<in> set bs then None else bm_get (st_pending_withdrawal_requests t) b)"
    and C: "\<And>b. bm_get C b = (if b \<in> set bs then bm_get (st_pending_withdrawal_requests t) b
                           else bm_get (st_created_withdrawal_requests t) b)"
    unfolding created_from_def by blast
  have get: "bm_get (st_pending_withdrawal_requests t) x =
      (if x = b then None else bm_get (st_pending_withdrawal_requests s) x)"
    "bm_get (st_created_withdrawal_requests t) x =
      (if x = b then Some p else bm_get (st_created_withdrawal_requests s) x)" for x by (simp_all add: t)
  have bs: "distinct bs" "x \<in> set bs \<Longrightarrow> x \<noteq> b \<and> bm_get (st_pending_withdrawal_requests s) x \<noteq> None \<and>
      bm_get (st_created_withdrawal_requests s) x = None" for x
    using cf unfolding created_from_def get by (auto split: if_splits)
  have s'': "s' = s\<lparr>st_pending_withdrawal_requests := P, st_created_withdrawal_requests := C\<rparr>" by (simp add: s' t)
  show ?thesis
  proof (rule created_fromI[OF _ _ _ s''])
    show "distinct (b # bs)" using bs by auto
    show "bm_get (st_pending_withdrawal_requests s) x \<noteq> None" "bm_get (st_created_withdrawal_requests s) x = None"
      if "x \<in> set (b # bs)" for x using that bs(2)[of x] p c by auto
    show "bm_get P x = (if x \<in> set (b # bs) then None else bm_get (st_pending_withdrawal_requests s) x)" for x
      by (auto simp: P get)
    show "bm_get C x = (if x \<in> set (b # bs) then bm_get (st_pending_withdrawal_requests s) x
        else bm_get (st_created_withdrawal_requests s) x)" for x
      using p bs(2)[of x] by (auto simp: C get)
  qed
qed

lemma foldM_createD:
  "foldM create_one bs (s, t) = Some (s', t') \<Longrightarrow>
   created_from s bs s' \<and> unat t' = unat t + sum_list (map (pending_amount s) bs)"
proof (induction bs arbitrary: s t)
  case Nil
  have "created_from s [] s"
    by (rule created_fromI[where P = "st_pending_withdrawal_requests s" and C = "st_created_withdrawal_requests s"]) simp_all
  with Nil show ?case by auto
next
  case (Cons b bs)
  from Cons.prems obtain s1 t1 where one: "create_one b (s, t) = Some (s1, t1)"
    and rest: "foldM create_one bs (s1, t1) = Some (s', t')"
    by (auto split: option.splits)
  from one obtain p where p: "bm_get (st_pending_withdrawal_requests s) b = Some p"
    and c: "bm_get (st_created_withdrawal_requests s) b = None"
    and t1: "unat t1 = unat t + unat (wr_amount_to_transfer (pw_request p))"
    and s1: "s1 = s\<lparr>st_pending_withdrawal_requests := bm_remove b (st_pending_withdrawal_requests s),
            st_created_withdrawal_requests := bm_insert b p (st_created_withdrawal_requests s)\<rparr>"
    by (rule create_oneD)
  note IH = Cons.IH[OF rest]
  have cf: "created_from s (b # bs) s'" by (rule created_from_Cons[OF p c s1]) (use IH in blast)
  have "pending_amount s1 x = pending_amount s x" if "x \<in> set bs" for x
    using cf that by (auto simp: created_from_def pending_amount_def s1)
  then have "map (pending_amount s1) bs = map (pending_amount s) bs" by simp
  then have "sum_list (map (pending_amount s1) bs) = sum_list (map (pending_amount s) bs)" by (rule arg_cong)
  then show ?case using IH cf t1 p by (simp add: pending_amount_def[of s b])
qed

lemma foldM_create_exists:
  assumes "distinct bs" "\<And>b. b \<in> set bs \<Longrightarrow> bm_get (st_pending_withdrawal_requests s) b \<noteq> None \<and>
      bm_get (st_created_withdrawal_requests s) b = None"
    and "unat t + sum_list (map (pending_amount s) bs) < 2 ^ 64"
  shows "\<exists>s' t'. foldM create_one bs (s, t) = Some (s', t')"
  using assms
proof (induction bs arbitrary: s t)
  case (Cons b bs)
  obtain p where p: "bm_get (st_pending_withdrawal_requests s) b = Some p"
    "bm_get (st_created_withdrawal_requests s) b = None" using Cons.prems(2)[of b] by auto
  have pa: "pending_amount s b = unat (wr_amount_to_transfer (pw_request p))" by (simp add: pending_amount_def p)
  then have "unat t + unat (wr_amount_to_transfer (pw_request p)) < 2 ^ 64" using Cons.prems(3) by simp
  then obtain t1 where t1: "checked_add t (wr_amount_to_transfer (pw_request p)) = Some t1"
    by (simp add: checked_add_def)
  then have ut1: "unat t1 = unat t + pending_amount s b" by (simp add: checked_add_Some_iff pa)
  define s1 where "s1 = s\<lparr>st_pending_withdrawal_requests := bm_remove b (st_pending_withdrawal_requests s),
            st_created_withdrawal_requests := bm_insert b p (st_created_withdrawal_requests s)\<rparr>"
  have one: "create_one b (s, t) = Some (s1, t1)" by (simp add: create_one_def p t1 s1_def assert_that_bind)
  have same: "pending_amount s1 x = pending_amount s x" if "x \<in> set bs" for x
    using that Cons.prems(1) by (auto simp: pending_amount_def s1_def)
  have "\<exists>s' t'. foldM create_one bs (s1, t1) = Some (s', t')"
  proof (rule Cons.IH)
    show "distinct bs" using Cons.prems(1) by simp
    show "bm_get (st_pending_withdrawal_requests s1) x \<noteq> None \<and> bm_get (st_created_withdrawal_requests s1) x = None"
      if "x \<in> set bs" for x
      using that Cons.prems(1) Cons.prems(2)[of x] by (auto simp: s1_def)
    have "map (pending_amount s1) bs = map (pending_amount s) bs" using same by simp
    then show "unat t1 + sum_list (map (pending_amount s1) bs) < 2 ^ 64" using Cons.prems(3) ut1
      by (simp only: list.simps sum_list.Cons add.assoc)
  qed
  then show ?case by (simp add: one)
qed simp

lemma created_from_pool:
  assumes "created_from (s\<lparr>st_nonce_pool := pool\<rparr>) bs s2"
  shows "created_from s bs (s2\<lparr>st_nonce_pool := st_nonce_pool s\<rparr>)"
    and "st_nonce_pool s2 = pool" "st_balance s2 = st_balance s"
    "st_created_withdrawal_txs s2 = st_created_withdrawal_txs s"
proof -
  have sel: "st_pending_withdrawal_requests (s\<lparr>st_nonce_pool := pool\<rparr>) = st_pending_withdrawal_requests s"
    "st_created_withdrawal_requests (s\<lparr>st_nonce_pool := pool\<rparr>) = st_created_withdrawal_requests s" by simp_all
  from assms obtain P C where s2: "s2 = s\<lparr>st_nonce_pool := pool\<rparr>\<lparr>st_pending_withdrawal_requests := P, st_created_withdrawal_requests := C\<rparr>"
    and P: "\<forall>b. bm_get P b = (if b \<in> set bs then None else bm_get (st_pending_withdrawal_requests s) b)"
    and C: "\<forall>b. bm_get C b = (if b \<in> set bs then bm_get (st_pending_withdrawal_requests s) b
                           else bm_get (st_created_withdrawal_requests s) b)"
    and bs: "distinct bs" "\<forall>b \<in> set bs. bm_get (st_pending_withdrawal_requests s) b \<noteq> None \<and>
        bm_get (st_created_withdrawal_requests s) b = None"
    unfolding created_from_def sel by blast
  have "s2\<lparr>st_nonce_pool := st_nonce_pool s\<rparr> = s\<lparr>st_pending_withdrawal_requests := P, st_created_withdrawal_requests := C\<rparr>"
    by (simp add: s2)
  from created_fromI[OF bs(1) _ _ this P[rule_format] C[rule_format]] bs(2)
  show "created_from s bs (s2\<lparr>st_nonce_pool := st_nonce_pool s\<rparr>)" by blast
  show "st_nonce_pool s2 = pool" "st_balance s2 = st_balance s"
    "st_created_withdrawal_txs s2 = st_created_withdrawal_txs s" by (simp_all add: s2)
qed

lemma process_transaction_createdD:
  assumes "process_transaction_created bs n h s = Some s'"
  obtains pool s1 balance where "bind_nonce n h (st_nonce_pool s) = Some pool" "created_from s bs s1"
    "unat (st_balance s) = unat balance + unat ((of_nat (sum_list (map (pending_amount s) bs)) :: u64) + BATCH_WITHDRAWAL_TX_FEE)"
    "sum_list (map (pending_amount s) bs) < 2 ^ 64"
    "bm_get (st_created_withdrawal_txs s) n = None"
    "s' = s1\<lparr>st_nonce_pool := pool, st_balance := balance,
       st_created_withdrawal_txs := bm_insert n \<lparr>cw_nonce_value = h, cw_burn_indices = bs\<rparr> (st_created_withdrawal_txs s)\<rparr>"
proof -
  from assms obtain pool s2 total where pool: "bind_nonce n h (st_nonce_pool s) = Some pool"
    and fold: "foldM create_one bs (s\<lparr>st_nonce_pool := pool\<rparr>, 0) = Some (s2, total)"
    and rest: "Option.bind (checked_sub (st_balance s2) (total + BATCH_WITHDRAWAL_TX_FEE)) (\<lambda>balance. do {
         assert_that (bm_get (st_created_withdrawal_txs s2) n = None);
         Some (s2\<lparr>st_balance := balance, st_created_withdrawal_txs := bm_insert n
            \<lparr>cw_nonce_value = h, cw_burn_indices = bs\<rparr> (st_created_withdrawal_txs s2)\<rparr>)}) = Some s'"
    by (auto simp: process_transaction_created_def Option.bind_eq_Some_conv)
  from rest obtain balance where bal: "unat (st_balance s2) = unat balance + unat (total + BATCH_WITHDRAWAL_TX_FEE)"
    and free: "bm_get (st_created_withdrawal_txs s2) n = None"
    and s': "s' = s2\<lparr>st_balance := balance, st_created_withdrawal_txs := bm_insert n
            \<lparr>cw_nonce_value = h, cw_burn_indices = bs\<rparr> (st_created_withdrawal_txs s2)\<rparr>"
    by (auto simp: Option.bind_eq_Some_conv assert_that_bind checked_sub_Some_iff split: if_splits)
  note f = foldM_createD[OF fold]
  have "pending_amount (s\<lparr>st_nonce_pool := pool\<rparr>) = pending_amount s" by (simp add: pending_amount_def fun_eq_iff)
  then have tot: "unat total = sum_list (map (pending_amount s) bs)" using f by simp
  then have lt: "sum_list (map (pending_amount s) bs) < 2 ^ 64" using unsigned_less[of total, where 'a = nat] by simp
  then have total: "total = of_nat (sum_list (map (pending_amount s) bs))" by (simp flip: tot)
  define s1 where "s1 = s2\<lparr>st_nonce_pool := st_nonce_pool s\<rparr>"
  note cf = created_from_pool[OF f[THEN conjunct1], folded s1_def]
  show thesis
  proof (rule that[OF pool cf(1) _ lt])
    show "unat (st_balance s) = unat balance + unat ((of_nat (sum_list (map (pending_amount s) bs)) :: u64) + BATCH_WITHDRAWAL_TX_FEE)"
      using bal by (simp add: total cf)
    show "bm_get (st_created_withdrawal_txs s) n = None" using free by (simp add: cf)
    show "s' = s1\<lparr>st_nonce_pool := pool, st_balance := balance,
       st_created_withdrawal_txs := bm_insert n \<lparr>cw_nonce_value = h, cw_burn_indices = bs\<rparr> (st_created_withdrawal_txs s)\<rparr>"
      unfolding s' by (simp add: s1_def cf)
  qed
qed

lemma created_from_wmoves:
  assumes cf: "created_from s bs s1" and s': "wstages s' = wstages s1"
  shows "wmoves s s' (set bs) 0 1 WtCreated"
proof -
  from cf obtain P C where s1: "s1 = s\<lparr>st_pending_withdrawal_requests := P, st_created_withdrawal_requests := C\<rparr>"
    and P: "\<And>b. bm_get P b = (if b \<in> set bs then None else bm_get (st_pending_withdrawal_requests s) b)"
    and C: "\<And>b. bm_get C b = (if b \<in> set bs then bm_get (st_pending_withdrawal_requests s) b
                           else bm_get (st_created_withdrawal_requests s) b)"
    unfolding created_from_def by blast
  have bs: "\<exists>p. bm_get (st_pending_withdrawal_requests s) b = Some p" if "b \<in> set bs" for b
    using cf that unfolding created_from_def by blast
  have st: "wstages s' b = (if b \<in> set bs
      then (wstages s b)[0 := None, 1 := map_option (\<lambda>p. (pw_request p, WtCreated)) (bm_get (st_pending_withdrawal_requests s) b)]
      else wstages s b)" for b
    unfolding s' s1 by (simp add: wstages_def P C)
  have "\<exists>r st0. wstages s b ! 0 = Some (r, st0) \<and> wstages s' b = (wstages s b)[0 := None, 1 := Some (r, WtCreated)]"
    if "b \<in> set bs" for b
    using bs[OF that] that by (auto simp: st)
  then show ?thesis unfolding wmoves_def by (simp add: st)
qed

lemma send_oneD:
  assumes "send_one sig b s = Some s'"
  obtains p where "bm_get (st_created_withdrawal_requests s) b = Some p"
    "bm_get (st_sent_withdrawal_requests s) b = None"
    "s' = s\<lparr>st_created_withdrawal_requests := bm_remove b (st_created_withdrawal_requests s),
            st_sent_withdrawal_requests := bm_insert b \<lparr>sn_request = pw_request p, sn_signature = sig,
               sn_created_at = pw_created_at p\<rparr> (st_sent_withdrawal_requests s)\<rparr>"
  using assms by (auto simp: send_one_def Option.bind_eq_Some_conv assert_that_bind split: if_splits)

definition sent_of :: "signature \<Rightarrow> pending_withdrawal_request \<Rightarrow> sent_withdrawal_request" where
  "sent_of sig p = \<lparr>sn_request = pw_request p, sn_signature = sig, sn_created_at = pw_created_at p\<rparr>"

definition sent_from ::
  "signature \<Rightarrow> minter_state \<Rightarrow> ledger_burn_index list \<Rightarrow> minter_state \<Rightarrow> bool" where
  "sent_from sig s bs s' \<longleftrightarrow> distinct bs \<and>
     (\<forall>b \<in> set bs. bm_get (st_created_withdrawal_requests s) b \<noteq> None \<and>
        bm_get (st_sent_withdrawal_requests s) b = None) \<and>
     (\<exists>C S. s' = s\<lparr>st_created_withdrawal_requests := C, st_sent_withdrawal_requests := S\<rparr> \<and>
        (\<forall>b. bm_get C b = (if b \<in> set bs then None else bm_get (st_created_withdrawal_requests s) b)) \<and>
        (\<forall>b. bm_get S b = (if b \<in> set bs then map_option (sent_of sig) (bm_get (st_created_withdrawal_requests s) b)
                           else bm_get (st_sent_withdrawal_requests s) b)))"

lemma sent_fromI:
  assumes "distinct bs" "\<And>b. b \<in> set bs \<Longrightarrow> bm_get (st_created_withdrawal_requests s) b \<noteq> None"
    "\<And>b. b \<in> set bs \<Longrightarrow> bm_get (st_sent_withdrawal_requests s) b = None"
    "s' = s\<lparr>st_created_withdrawal_requests := C, st_sent_withdrawal_requests := S\<rparr>"
    "\<And>b. bm_get C b = (if b \<in> set bs then None else bm_get (st_created_withdrawal_requests s) b)"
    "\<And>b. bm_get S b = (if b \<in> set bs then map_option (sent_of sig) (bm_get (st_created_withdrawal_requests s) b)
                           else bm_get (st_sent_withdrawal_requests s) b)"
  shows "sent_from sig s bs s'"
  unfolding sent_from_def using assms by blast

lemma sent_from_Cons:
  assumes p: "bm_get (st_created_withdrawal_requests s) b = Some p"
    and c: "bm_get (st_sent_withdrawal_requests s) b = None"
    and t: "t = s\<lparr>st_created_withdrawal_requests := bm_remove b (st_created_withdrawal_requests s),
            st_sent_withdrawal_requests := bm_insert b (sent_of sig p) (st_sent_withdrawal_requests s)\<rparr>"
    and sf: "sent_from sig t bs s'"
  shows "sent_from sig s (b # bs) s'"
proof -
  from sf obtain C S where s': "s' = t\<lparr>st_created_withdrawal_requests := C, st_sent_withdrawal_requests := S\<rparr>"
    and C: "\<And>b. bm_get C b = (if b \<in> set bs then None else bm_get (st_created_withdrawal_requests t) b)"
    and S: "\<And>b. bm_get S b = (if b \<in> set bs then map_option (sent_of sig) (bm_get (st_created_withdrawal_requests t) b)
                           else bm_get (st_sent_withdrawal_requests t) b)"
    unfolding sent_from_def by blast
  have get: "bm_get (st_created_withdrawal_requests t) x =
      (if x = b then None else bm_get (st_created_withdrawal_requests s) x)"
    "bm_get (st_sent_withdrawal_requests t) x =
      (if x = b then Some (sent_of sig p) else bm_get (st_sent_withdrawal_requests s) x)" for x by (simp_all add: t)
  have bs: "distinct bs" "x \<in> set bs \<Longrightarrow> x \<noteq> b \<and> bm_get (st_created_withdrawal_requests s) x \<noteq> None \<and>
      bm_get (st_sent_withdrawal_requests s) x = None" for x
    using sf unfolding sent_from_def get by (auto split: if_splits)
  have s'': "s' = s\<lparr>st_created_withdrawal_requests := C, st_sent_withdrawal_requests := S\<rparr>" by (simp add: s' t)
  show ?thesis
  proof (rule sent_fromI[OF _ _ _ s''])
    show "distinct (b # bs)" using bs by auto
    show "bm_get (st_created_withdrawal_requests s) x \<noteq> None" "bm_get (st_sent_withdrawal_requests s) x = None"
      if "x \<in> set (b # bs)" for x using that bs(2)[of x] p c by auto
    show "bm_get C x = (if x \<in> set (b # bs) then None else bm_get (st_created_withdrawal_requests s) x)" for x
      by (auto simp: C get)
    show "bm_get S x = (if x \<in> set (b # bs) then map_option (sent_of sig) (bm_get (st_created_withdrawal_requests s) x)
        else bm_get (st_sent_withdrawal_requests s) x)" for x
      using p bs(2)[of x] by (auto simp: S get)
  qed
qed

lemma foldM_sendD:
  "foldM (send_one sig) bs s = Some s' \<Longrightarrow> sent_from sig s bs s'"
proof (induction bs arbitrary: s)
  case Nil
  have "sent_from sig s [] s"
    by (rule sent_fromI[where C = "st_created_withdrawal_requests s" and S = "st_sent_withdrawal_requests s"]) simp_all
  with Nil show ?case by auto
next
  case (Cons b bs)
  from Cons.prems obtain s1 where one: "send_one sig b s = Some s1"
    and rest: "foldM (send_one sig) bs s1 = Some s'"
    by (auto split: option.splits)
  from one obtain p where p: "bm_get (st_created_withdrawal_requests s) b = Some p"
    and c: "bm_get (st_sent_withdrawal_requests s) b = None"
    and s1: "s1 = s\<lparr>st_created_withdrawal_requests := bm_remove b (st_created_withdrawal_requests s),
            st_sent_withdrawal_requests := bm_insert b (sent_of sig p) (st_sent_withdrawal_requests s)\<rparr>"
    unfolding sent_of_def by (rule send_oneD)
  show ?case by (rule sent_from_Cons[OF p c s1 Cons.IH[OF rest]])
qed

lemma foldM_send_exists:
  assumes "distinct bs" "\<And>b. b \<in> set bs \<Longrightarrow> bm_get (st_created_withdrawal_requests s) b \<noteq> None \<and>
      bm_get (st_sent_withdrawal_requests s) b = None"
  shows "\<exists>s'. foldM (send_one sig) bs s = Some s'"
  using assms
proof (induction bs arbitrary: s)
  case (Cons b bs)
  obtain p where p: "bm_get (st_created_withdrawal_requests s) b = Some p"
    "bm_get (st_sent_withdrawal_requests s) b = None" using Cons.prems(2)[of b] by auto
  define s1 where "s1 = s\<lparr>st_created_withdrawal_requests := bm_remove b (st_created_withdrawal_requests s),
            st_sent_withdrawal_requests := bm_insert b (sent_of sig p) (st_sent_withdrawal_requests s)\<rparr>"
  have one: "send_one sig b s = Some s1" by (simp add: send_one_def p s1_def sent_of_def assert_that_bind)
  have "\<exists>s'. foldM (send_one sig) bs s1 = Some s'"
  proof (rule Cons.IH)
    show "distinct bs" using Cons.prems(1) by simp
    show "bm_get (st_created_withdrawal_requests s1) x \<noteq> None \<and> bm_get (st_sent_withdrawal_requests s1) x = None"
      if "x \<in> set bs" for x
      using that Cons.prems(1) Cons.prems(2)[of x] by (auto simp: s1_def)
  qed
  then show ?case by (simp add: one)
qed simp

lemma sent_from_wmoves:
  assumes sf: "sent_from sig s bs s1" and st0: "wstages s = wstages s0" and s': "wstages s' = wstages s1"
  shows "wmoves s0 s' (set bs) 1 2 (WtSent sig)"
proof -
  from sf obtain C S where s1: "s1 = s\<lparr>st_created_withdrawal_requests := C, st_sent_withdrawal_requests := S\<rparr>"
    and C: "\<And>b. bm_get C b = (if b \<in> set bs then None else bm_get (st_created_withdrawal_requests s) b)"
    and S: "\<And>b. bm_get S b = (if b \<in> set bs then map_option (sent_of sig) (bm_get (st_created_withdrawal_requests s) b)
                           else bm_get (st_sent_withdrawal_requests s) b)"
    unfolding sent_from_def by blast
  have bs: "\<exists>p. bm_get (st_created_withdrawal_requests s) b = Some p" if "b \<in> set bs" for b
    using sf that unfolding sent_from_def by blast
  have st: "wstages s' b = (if b \<in> set bs
      then (wstages s b)[1 := None, 2 := map_option (\<lambda>p. (pw_request p, WtSent sig)) (bm_get (st_created_withdrawal_requests s) b)]
      else wstages s b)" for b
    unfolding s' s1 by (simp add: wstages_def C S option.map_comp comp_def sent_view_def sent_of_def numeral_eq_Suc)
  have "\<exists>r st0. wstages s b ! 1 = Some (r, st0) \<and> wstages s' b = (wstages s b)[1 := None, 2 := Some (r, WtSent sig)]"
    if "b \<in> set bs" for b
    using bs[OF that] that by (auto simp: st)
  then show ?thesis unfolding wmoves_def st0[symmetric] by (simp add: st)
qed

lemma send_nonce_withdrawalD:
  assumes "send_nonce_withdrawal lib sig msg signers bs t s = Some (s', tx)"
  obtains n c m where "advanced_nonce_account lib msg = Some n" "bm_get (st_created_withdrawal_txs s) n = Some c"
    "bs = cw_burn_indices c" "signers = [SignerMinter]" "msg = Legacy m"
    "bound_withdrawal_message lib s n c = Some m"
    "sent_from sig (s\<lparr>st_created_withdrawal_txs := bm_remove n (st_created_withdrawal_txs s)\<rparr>) bs s'"
    "tx = TxWithdrawal msg n (cw_nonce_value c) t"
proof -
  from assms obtain n c m where *: "advanced_nonce_account lib msg = Some n" "bm_get (st_created_withdrawal_txs s) n = Some c"
    "bs = cw_burn_indices c" "signers = [SignerMinter]" "msg = Legacy m"
    "bound_withdrawal_message lib (s\<lparr>st_created_withdrawal_txs := bm_remove n (st_created_withdrawal_txs s)\<rparr>) n c = Some m"
    "foldM (send_one sig) bs (s\<lparr>st_created_withdrawal_txs := bm_remove n (st_created_withdrawal_txs s)\<rparr>) = Some s'"
    "tx = TxWithdrawal msg n (cw_nonce_value c) t"
    by (auto simp: send_nonce_withdrawal_def Option.bind_eq_Some_conv assert_that_bind Let_def split: if_splits)
  have "bound_withdrawal_message lib s n c = Some m" using *(6) by (simp add: bound_withdrawal_message_def)
  then show thesis using that * foldM_sendD by blast
qed

lemma map_of_rev_distinct: "distinct (map fst ps) \<Longrightarrow> map_of (rev ps) = map_of ps"
proof -
  assume d: "distinct (map fst ps)"
  then have "distinct (map fst (rev ps))" by (simp flip: rev_map)
  then show ?thesis using d by (subst map_of_inject_set) simp_all
qed

lemma bm_get_extend_filter:
  "bm_get (bm_extend (filter P (bm_iter m)) m') k =
     (case bm_get m k of None \<Rightarrow> bm_get m' k | Some v \<Rightarrow> if P (k, v) then Some v else bm_get m' k)"
proof -
  have d: "distinct (map fst (filter P (bm_iter m)))" by (rule distinct_map_filter[OF bm_iter_distinct])
  have "map_of (filter P (bm_iter m)) k = (case bm_get m k of None \<Rightarrow> None | Some v \<Rightarrow> if P (k, v) then Some v else None)"
    unfolding bm_get_def by (rule map_of_filter_distinct[OF bm_iter_distinct])
  then show ?thesis by (simp add: bm_get_extend map_of_rev_distinct[OF d] split: option.splits)
qed

definition sent_by :: "minter_state \<Rightarrow> signature \<Rightarrow> ledger_burn_index set" where
  "sent_by s sig = {b. \<exists>x. bm_get (st_sent_withdrawal_requests s) b = Some x \<and> sn_signature x = sig}"

lemma extract_sent_get:
  "bm_get (extract_sent sig s m) b =
     (if b \<in> sent_by s sig then bm_get (st_sent_withdrawal_requests s) b else bm_get m b)"
  "bm_get (remaining_sent sig s) b =
     (if b \<in> sent_by s sig then None else bm_get (st_sent_withdrawal_requests s) b)"
  by (auto simp: extract_sent_def remaining_sent_def bm_get_extend_filter sent_by_def split: option.splits)

lemma sent_by_SomeD:
  "b \<in> sent_by s sig \<Longrightarrow> \<exists>x. bm_get (st_sent_withdrawal_requests s) b = Some x \<and> sn_signature x = sig"
  by (simp add: sent_by_def)

lemma finalize_wmoves:
  assumes "wstages s1 = wstages s"
    and "\<And>b. wstages s' b = (wstages s1 b)[2 := map_option (sent_view WtSent) (bm_get (remaining_sent sig s1) b),
        l := map_option (sent_view f) (bm_get (extract_sent sig s1 m) b)]"
    and "\<And>b. wstages s1 b ! l = map_option (sent_view f) (bm_get m b)" and "l < 5" "l \<noteq> 2"
  shows "wmoves s s' (sent_by s1 sig) 2 l (f sig)"
proof -
  have "\<exists>r st0. wstages s b ! 2 = Some (r, st0) \<and> wstages s' b = (wstages s b)[2 := None, l := Some (r, f sig)]"
    if b: "b \<in> sent_by s1 sig" for b
  proof -
    obtain x where x: "bm_get (st_sent_withdrawal_requests s1) b = Some x" "sn_signature x = sig"
      using sent_by_SomeD[OF b] by blast
    have "wstages s' b = (wstages s b)[2 := None, l := Some (sn_request x, f sig)]"
      using x b by (simp add: assms(1,2) extract_sent_get sent_view_def)
    moreover have "wstages s b ! 2 = Some (sn_request x, WtSent sig)"
      using x by (simp flip: assms(1) add: sent_view_def)
    ultimately show ?thesis by blast
  qed
  moreover have "wstages s' b = wstages s b" if b: "b \<notin> sent_by s1 sig" for b
  proof -
    have "wstages s' b = (wstages s1 b)[2 := wstages s1 b ! 2, l := wstages s1 b ! l]"
      using b by (simp add: assms(2,3) extract_sent_get)
    then show ?thesis by (simp only: assms(1) list_update_id)
  qed
  ultimately show ?thesis using assms(4,5) by (simp add: wmoves_def)
qed

lemma process_transaction_succeededD:
  assumes "process_transaction_succeeded sig s = Some s'"
  obtains tx s2 where "iom_get (st_submitted_transactions s) sig = Some tx"
    "iom_get (st_failed_transactions s) sig = None" "\<not> bm_contains (st_succeeded_transactions s) sig"
    "case tx of TxSweepDeposit _ \<Rightarrow> \<exists>d. finalize_swept sig (st_deposits s) = Some d \<and> s2 = s\<lparr>st_deposits := d\<rparr>
      | TxWithdrawal _ n _ _ \<Rightarrow> \<exists>pool. free_nonce n (st_nonce_pool s) = Some pool \<and> s2 = s\<lparr>st_nonce_pool := pool\<rparr>"
    "s' = s2\<lparr>st_submitted_transactions := fst (iom_remove sig (st_submitted_transactions s)),
       st_succeeded_transactions := bs_insert sig (st_succeeded_transactions s),
       st_successful_withdrawal_requests := extract_sent sig s (st_successful_withdrawal_requests s),
       st_sent_withdrawal_requests := remaining_sent sig s\<rparr>"
proof -
  obtain txs r where rm: "iom_remove sig (st_submitted_transactions s) = (txs, r)" by force
  then have r: "r = iom_get (st_submitted_transactions s) sig" using iom_remove_old[of sig] by (metis snd_conv)
  from assms rm obtain tx where tx: "r = Some tx" and nf: "iom_get (st_failed_transactions s) sig = None"
    by (auto simp: process_transaction_succeeded_def Option.bind_eq_Some_conv assert_that_bind iom_contains_key_iff split: if_splits)
  show thesis
  proof (cases tx)
    case (TxSweepDeposit h)
    from assms rm tx nf TxSweepDeposit obtain d where "finalize_swept sig (st_deposits s) = Some d"
      "\<not> bm_contains (st_succeeded_transactions s) sig"
      "s' = s\<lparr>st_submitted_transactions := txs, st_deposits := d,
         st_succeeded_transactions := bs_insert sig (st_succeeded_transactions s),
         st_successful_withdrawal_requests := extract_sent sig s (st_successful_withdrawal_requests s),
         st_sent_withdrawal_requests := remaining_sent sig s\<rparr>"
      by (auto simp: process_transaction_succeeded_def Option.bind_eq_Some_conv assert_that_bind iom_contains_key_iff
          lift_deposits_def extract_sent_def remaining_sent_def split: if_splits)
    then show thesis using nf TxSweepDeposit r tx rm
      by (intro that[of tx "s\<lparr>st_deposits := d\<rparr>"]) simp_all
  next
    case (TxWithdrawal m n h t)
    from assms rm tx nf TxWithdrawal obtain pool where "free_nonce n (st_nonce_pool s) = Some pool"
      "\<not> bm_contains (st_succeeded_transactions s) sig"
      "s' = s\<lparr>st_submitted_transactions := txs, st_nonce_pool := pool,
         st_succeeded_transactions := bs_insert sig (st_succeeded_transactions s),
         st_successful_withdrawal_requests := extract_sent sig s (st_successful_withdrawal_requests s),
         st_sent_withdrawal_requests := remaining_sent sig s\<rparr>"
      by (auto simp: process_transaction_succeeded_def Option.bind_eq_Some_conv assert_that_bind iom_contains_key_iff
          extract_sent_def remaining_sent_def split: if_splits)
    then show thesis using nf TxWithdrawal r tx rm
      by (intro that[of tx "s\<lparr>st_nonce_pool := pool\<rparr>"]) simp_all
  qed
qed

lemma process_transaction_failedD:
  assumes "process_transaction_failed sig s = Some s'"
  obtains tx s2 where "iom_get (st_submitted_transactions s) sig = Some tx"
    "iom_get (st_failed_transactions s) sig = None" "\<not> bm_contains (st_succeeded_transactions s) sig"
    "case tx of TxSweepDeposit _ \<Rightarrow> \<exists>d. drop_swept sig (st_deposits s) = Some d \<and> s2 = s\<lparr>st_deposits := d\<rparr>
      | TxWithdrawal _ n _ _ \<Rightarrow> \<exists>pool. free_nonce n (st_nonce_pool s) = Some pool \<and> s2 = s\<lparr>st_nonce_pool := pool\<rparr>"
    "s' = s2\<lparr>st_submitted_transactions := fst (iom_remove sig (st_submitted_transactions s)),
       st_failed_transactions := fst (iom_insert sig tx (st_failed_transactions s)),
       st_failed_withdrawal_requests := extract_sent sig s (st_failed_withdrawal_requests s),
       st_sent_withdrawal_requests := remaining_sent sig s\<rparr>"
proof -
  obtain txs r where rm: "iom_remove sig (st_submitted_transactions s) = (txs, r)" by force
  then have r: "r = iom_get (st_submitted_transactions s) sig" using iom_remove_old[of sig] by (metis snd_conv)
  from assms rm obtain tx where tx: "r = Some tx" and ns: "\<not> bm_contains (st_succeeded_transactions s) sig"
    by (auto simp: process_transaction_failed_def Option.bind_eq_Some_conv assert_that_bind split: if_splits)
  obtain failed old where ins: "iom_insert sig tx (st_failed_transactions s) = (failed, old)" by force
  then have old: "old = iom_get (st_failed_transactions s) sig" using iom_insert_old[of sig] by (metis snd_conv)
  show thesis
  proof (cases tx)
    case (TxSweepDeposit h)
    from assms rm tx ns ins TxSweepDeposit obtain d where "drop_swept sig (st_deposits s) = Some d" "old = None"
      "s' = s\<lparr>st_submitted_transactions := txs, st_deposits := d, st_failed_transactions := failed,
         st_failed_withdrawal_requests := extract_sent sig s (st_failed_withdrawal_requests s),
         st_sent_withdrawal_requests := remaining_sent sig s\<rparr>"
      by (auto simp: process_transaction_failed_def Option.bind_eq_Some_conv assert_that_bind
          lift_deposits_def extract_sent_def remaining_sent_def split: if_splits)
    then show thesis using ns TxSweepDeposit r tx rm ins old
      by (intro that[of tx "s\<lparr>st_deposits := d\<rparr>"]) simp_all
  next
    case (TxWithdrawal m n h t)
    from assms rm tx ns ins TxWithdrawal obtain pool where "free_nonce n (st_nonce_pool s) = Some pool" "old = None"
      "s' = s\<lparr>st_submitted_transactions := txs, st_nonce_pool := pool, st_failed_transactions := failed,
         st_failed_withdrawal_requests := extract_sent sig s (st_failed_withdrawal_requests s),
         st_sent_withdrawal_requests := remaining_sent sig s\<rparr>"
      by (auto simp: process_transaction_failed_def Option.bind_eq_Some_conv assert_that_bind
          extract_sent_def remaining_sent_def split: if_splits)
    then show thesis using ns TxWithdrawal r tx rm ins old
      by (intro that[of tx "s\<lparr>st_nonce_pool := pool\<rparr>"]) simp_all
  qed
qed

lemma process_transaction_expiredD:
  assumes "process_transaction_expired sig s = Some s'"
  obtains h d where "iom_get (st_submitted_transactions s) sig = Some (TxSweepDeposit h)"
    "drop_swept sig (st_deposits s) = Some d" "iom_get (st_failed_transactions s) sig = None"
    "\<not> bm_contains (st_succeeded_transactions s) sig"
    "s' = s\<lparr>st_submitted_transactions := fst (iom_remove sig (st_submitted_transactions s)), st_deposits := d\<rparr>"
proof -
  obtain txs r where rm: "iom_remove sig (st_submitted_transactions s) = (txs, r)" by force
  then have r: "r = iom_get (st_submitted_transactions s) sig" using iom_remove_old[of sig] by (metis snd_conv)
  from assms rm obtain tx where tx: "r = Some tx" and no: "iom_get (st_failed_transactions s) sig = None"
    "\<not> bm_contains (st_succeeded_transactions s) sig"
    by (auto simp: process_transaction_expired_def Option.bind_eq_Some_conv assert_that_bind iom_contains_key_iff split: if_splits)
  show thesis
  proof (cases tx)
    case (TxSweepDeposit h)
    with assms rm tx no obtain d where "drop_swept sig (st_deposits s) = Some d"
      "s' = s\<lparr>st_submitted_transactions := txs, st_deposits := d\<rparr>"
      by (auto simp: process_transaction_expired_def assert_that_bind iom_contains_key_iff lift_deposits_def)
    then show thesis using no TxSweepDeposit r tx rm by (intro that[of h d]) simp_all
  next
    case (TxWithdrawal m n h t)
    with assms rm tx no show thesis
      by (simp add: process_transaction_expired_def assert_that_bind iom_contains_key_iff)
  qed
qed

subsection \<open>The invariant\<close>

text \<open>The created requests are exactly those of the created transactions, each in one of them.\<close>

definition created_wf ::
  "(ledger_burn_index, pending_withdrawal_request) btree_map \<Rightarrow>
   (address, created_withdrawal_transaction) btree_map \<Rightarrow> bool" where
  "created_wf C T \<longleftrightarrow>
     (\<forall>b. bm_get C b \<noteq> None \<longleftrightarrow> (\<exists>n c. bm_get T n = Some c \<and> b \<in> set (cw_burn_indices c))) \<and>
     (\<forall>n c. bm_get T n = Some c \<longrightarrow> distinct (cw_burn_indices c)) \<and>
     (\<forall>n c n' c' b. bm_get T n = Some c \<longrightarrow> bm_get T n' = Some c' \<longrightarrow>
        b \<in> set (cw_burn_indices c) \<longrightarrow> b \<in> set (cw_burn_indices c') \<longrightarrow> n' = n)"

text \<open>A nonce account is bound exactly while one created or submitted transaction uses it.\<close>

definition submitted_withdrawal ::
  "(signature, minter_transaction) iom \<Rightarrow> signature \<Rightarrow> address \<Rightarrow> hash \<Rightarrow> bool" where
  "submitted_withdrawal X sig n h \<longleftrightarrow> (\<exists>m t. iom_get X sig = Some (TxWithdrawal m n h t))"

definition nonces_wf ::
  "nonce_pool \<Rightarrow> (address, created_withdrawal_transaction) btree_map \<Rightarrow> (signature, minter_transaction) iom \<Rightarrow> bool" where
  "nonces_wf pool T X \<longleftrightarrow>
     bound_accounts pool = {n. bm_get T n \<noteq> None} \<union> {n. \<exists>sig h. submitted_withdrawal X sig n h} \<and>
     (\<forall>n sig h. submitted_withdrawal X sig n h \<longrightarrow> bm_get T n = None) \<and>
     (\<forall>n sig h sig' h'. submitted_withdrawal X sig n h \<longrightarrow> submitted_withdrawal X sig' n h' \<longrightarrow> sig' = sig) \<and>
     (\<forall>n c. bm_get T n = Some c \<longrightarrow> (n, cw_nonce_value c) \<in> seen_values pool) \<and>
     (\<forall>n sig h. submitted_withdrawal X sig n h \<longrightarrow> (n, h) \<in> seen_values pool)"

text \<open>A signature is submitted, succeeded or failed; requests and sweeps follow their transaction.\<close>

fun is_withdrawal :: "minter_transaction option \<Rightarrow> bool" where
  "is_withdrawal (Some (TxWithdrawal _ _ _ _)) = True"
| "is_withdrawal _ = False"

fun is_sweep :: "minter_transaction option \<Rightarrow> bool" where
  "is_sweep (Some (TxSweepDeposit _)) = True"
| "is_sweep _ = False"

definition txs_ok ::
  "(signature \<Rightarrow> minter_transaction option) \<Rightarrow> signature set \<Rightarrow> (signature \<Rightarrow> minter_transaction option) \<Rightarrow>
   (ledger_burn_index \<Rightarrow> sent_withdrawal_request option) \<Rightarrow> (ledger_burn_index \<Rightarrow> sent_withdrawal_request option) \<Rightarrow>
   (ledger_burn_index \<Rightarrow> sent_withdrawal_request option) \<Rightarrow> signature set \<Rightarrow> signature set \<Rightarrow> bool" where
  "txs_ok X S F sent ok failed swept finalized \<longleftrightarrow>
     (\<forall>sig. X sig \<noteq> None \<longrightarrow> sig \<notin> S \<and> F sig = None) \<and>
     (\<forall>sig \<in> S. F sig = None) \<and>
     (\<forall>b x. sent b = Some x \<longrightarrow> is_withdrawal (X (sn_signature x))) \<and>
     (\<forall>b x. ok b = Some x \<longrightarrow> sn_signature x \<in> S) \<and>
     (\<forall>b x. failed b = Some x \<longrightarrow> is_withdrawal (F (sn_signature x))) \<and>
     (\<forall>sig. sig \<in> swept \<longleftrightarrow> is_sweep (X sig)) \<and>
     finalized \<subseteq> S"

definition sweep_sigs :: "sweeps \<Rightarrow> signature set" where
  "sweep_sigs w = {sig. sweeps_get w sig \<noteq> None}"

definition transactions_wf :: "minter_state \<Rightarrow> bool" where
  "transactions_wf s \<longleftrightarrow>
     iom_wf (st_submitted_transactions s) \<and> iom_wf (st_failed_transactions s) \<and>
     txs_ok (iom_get (st_submitted_transactions s)) {sig. bm_contains (st_succeeded_transactions s) sig}
       (iom_get (st_failed_transactions s)) (bm_get (st_sent_withdrawal_requests s))
       (bm_get (st_successful_withdrawal_requests s)) (bm_get (st_failed_withdrawal_requests s))
       (sweep_sigs (d_swept (st_deposits s))) (sweep_sigs (d_finalized (st_deposits s)))"

definition state_wf :: "minter_state \<Rightarrow> bool" where
  "state_wf s \<longleftrightarrow> deposits_wf (st_deposits s) \<and> requests_wf s \<and> transactions_wf s \<and>
     created_wf (st_created_withdrawal_requests s) (st_created_withdrawal_txs s) \<and>
     nonces_wf (st_nonce_pool s) (st_created_withdrawal_txs s) (st_submitted_transactions s)"

lemma state_wfD:
  assumes "state_wf s"
  shows "deposits_wf (st_deposits s)" "requests_wf s" "transactions_wf s"
    "created_wf (st_created_withdrawal_requests s) (st_created_withdrawal_txs s)"
    "nonces_wf (st_nonce_pool s) (st_created_withdrawal_txs s) (st_submitted_transactions s)"
  using assms by (simp_all add: state_wf_def)

subsection \<open>Creating a transaction keeps the invariant\<close>

lemma created_wfD:
  assumes "created_wf C T"
  shows "bm_get C b \<noteq> None \<longleftrightarrow> (\<exists>n c. bm_get T n = Some c \<and> b \<in> set (cw_burn_indices c))"
    and "bm_get T n = Some c \<Longrightarrow> distinct (cw_burn_indices c)"
    and "bm_get T n = Some c \<Longrightarrow> bm_get T n' = Some c' \<Longrightarrow>
        b \<in> set (cw_burn_indices c) \<Longrightarrow> b \<in> set (cw_burn_indices c') \<Longrightarrow> n' = n"
  using assms unfolding created_wf_def by blast+

lemma created_wfI:
  assumes "\<And>b. bm_get C b \<noteq> None \<longleftrightarrow> (\<exists>n c. bm_get T n = Some c \<and> b \<in> set (cw_burn_indices c))"
    and "\<And>n c. bm_get T n = Some c \<Longrightarrow> distinct (cw_burn_indices c)"
    and "\<And>n c n' c' b. bm_get T n = Some c \<Longrightarrow> bm_get T n' = Some c' \<Longrightarrow>
        b \<in> set (cw_burn_indices c) \<Longrightarrow> b \<in> set (cw_burn_indices c') \<Longrightarrow> n' = n"
  shows "created_wf C T"
  unfolding created_wf_def using assms by blast

lemma created_wf_create:
  assumes wf: "created_wf C T" and n: "bm_get T n = None" and d: "distinct bs"
    and fresh: "\<And>b. b \<in> set bs \<Longrightarrow> bm_get C b = None"
    and C': "\<And>b. bm_get C' b \<noteq> None \<longleftrightarrow> b \<in> set bs \<or> bm_get C b \<noteq> None"
  shows "created_wf C' (bm_insert n \<lparr>cw_nonce_value = h, cw_burn_indices = bs\<rparr> T)"
proof -
  let ?c = "\<lparr>cw_nonce_value = h, cw_burn_indices = bs\<rparr>"
  have old: "b \<notin> set bs" if "bm_get T x = Some c" "b \<in> set (cw_burn_indices c)" for x c b
    using that created_wfD(1)[OF wf, of b] fresh[of b] by metis
  have 1: "bm_get C' b \<noteq> None \<longleftrightarrow> (\<exists>x c. bm_get (bm_insert n ?c T) x = Some c \<and> b \<in> set (cw_burn_indices c))" for b
  proof -
    have "(\<exists>x c. bm_get (bm_insert n ?c T) x = Some c \<and> b \<in> set (cw_burn_indices c)) \<longleftrightarrow>
        b \<in> set bs \<or> (\<exists>x c. bm_get T x = Some c \<and> b \<in> set (cw_burn_indices c))"
      using n by (auto split: if_splits) (metis option.distinct(1))
    then show ?thesis by (simp only: C' created_wfD(1)[OF wf])
  qed
  have 2: "distinct (cw_burn_indices c)" if "bm_get (bm_insert n ?c T) x = Some c" for x c
    using that d created_wfD(2)[OF wf] by (auto split: if_splits)
  have 3: "x' = x" if "bm_get (bm_insert n ?c T) x = Some c" "bm_get (bm_insert n ?c T) x' = Some c'"
      "b \<in> set (cw_burn_indices c)" "b \<in> set (cw_burn_indices c')" for x c x' c' b
  proof (cases "x = n"; cases "x' = n")
    assume "x \<noteq> n" "x' \<noteq> n"
    then have "bm_get T x = Some c" "bm_get T x' = Some c'" using that by simp_all
    then show ?thesis using created_wfD(3)[OF wf] that(3,4) by blast
  next
    assume "x = n" "x' \<noteq> n"
    then show ?thesis using that old[of x' c' b] by auto
  next
    assume "x \<noteq> n" "x' = n"
    then show ?thesis using that old[of x c b] by auto
  qed simp
  show ?thesis by (rule created_wfI[OF 1 2 3])
qed

lemma nonces_wfI:
  assumes "bound_accounts pool = {n. bm_get T n \<noteq> None} \<union> {n. \<exists>sig h. submitted_withdrawal X sig n h}"
    and "\<And>n sig h. submitted_withdrawal X sig n h \<Longrightarrow> bm_get T n = None"
    and "\<And>n sig h sig' h'. submitted_withdrawal X sig n h \<Longrightarrow> submitted_withdrawal X sig' n h' \<Longrightarrow> sig' = sig"
    and "\<And>n c. bm_get T n = Some c \<Longrightarrow> (n, cw_nonce_value c) \<in> seen_values pool"
    and "\<And>n sig h. submitted_withdrawal X sig n h \<Longrightarrow> (n, h) \<in> seen_values pool"
  shows "nonces_wf pool T X"
  unfolding nonces_wf_def using assms by blast

lemma nonces_wfD:
  assumes "nonces_wf pool T X"
  shows "bound_accounts pool = {n. bm_get T n \<noteq> None} \<union> {n. \<exists>sig h. submitted_withdrawal X sig n h}"
    and "submitted_withdrawal X sig n h \<Longrightarrow> bm_get T n = None"
    and "submitted_withdrawal X sig n h \<Longrightarrow> submitted_withdrawal X sig' n h' \<Longrightarrow> sig' = sig"
    and "bm_get T n = Some c \<Longrightarrow> (n, cw_nonce_value c) \<in> seen_values pool"
    and "submitted_withdrawal X sig n h \<Longrightarrow> (n, h) \<in> seen_values pool"
  using assms unfolding nonces_wf_def by blast+

lemma nonces_wf_create:
  assumes wf: "nonces_wf pool T X" and b: "bind_nonce n h pool = Some pool'" and n: "bm_get T n = None"
  shows "nonces_wf pool' (bm_insert n \<lparr>cw_nonce_value = h, cw_burn_indices = bs\<rparr> T) X"
proof -
  note bd = bind_nonceD[OF b]
  have "bm_get T n = None" "\<not> submitted_withdrawal X sig n h'" for sig h'
    using wf bd(4) unfolding nonces_wf_def by blast+
  then show ?thesis using wf unfolding nonces_wf_def bd(1,2) by (auto split: if_splits)
qed

subsection \<open>Submitting and finalizing transactions keep the invariant\<close>

lemma created_wf_send:
  assumes wf: "created_wf C T" and n: "bm_get T n = Some c"
    and C': "\<And>b. bm_get C' b = (if b \<in> set (cw_burn_indices c) then None else bm_get C b)"
  shows "created_wf C' (bm_remove n T)"
proof -
  have 1: "bm_get C' b \<noteq> None \<longleftrightarrow> (\<exists>x c. bm_get (bm_remove n T) x = Some c \<and> b \<in> set (cw_burn_indices c))" for b
  proof -
    have "(\<exists>x c. bm_get (bm_remove n T) x = Some c \<and> b \<in> set (cw_burn_indices c)) \<longleftrightarrow>
        b \<notin> set (cw_burn_indices c) \<and> (\<exists>x c. bm_get T x = Some c \<and> b \<in> set (cw_burn_indices c))"
    proof
      assume "\<exists>x c. bm_get (bm_remove n T) x = Some c \<and> b \<in> set (cw_burn_indices c)"
      then obtain x y where x: "bm_get (bm_remove n T) x = Some y" "b \<in> set (cw_burn_indices y)" by blast
      then have "x \<noteq> n" "bm_get T x = Some y" by (auto split: if_splits)
      then show "b \<notin> set (cw_burn_indices c) \<and> (\<exists>x c. bm_get T x = Some c \<and> b \<in> set (cw_burn_indices c))"
        using created_wfD(3)[OF wf n, of x y b] x(2) by blast
    next
      assume "b \<notin> set (cw_burn_indices c) \<and> (\<exists>x c. bm_get T x = Some c \<and> b \<in> set (cw_burn_indices c))"
      then obtain x y where x: "bm_get T x = Some y" "b \<in> set (cw_burn_indices y)" "b \<notin> set (cw_burn_indices c)" by blast
      then have "x \<noteq> n" using n by auto
      then show "\<exists>x c. bm_get (bm_remove n T) x = Some c \<and> b \<in> set (cw_burn_indices c)" using x by auto
    qed
    then show ?thesis by (simp add: C') (metis created_wfD(1)[OF wf] not_None_eq)
  qed
  have rm: "bm_get (bm_remove n T) x = Some y \<Longrightarrow> bm_get T x = Some y" for x y by (auto split: if_splits)
  show ?thesis
    by (rule created_wfI[OF 1 created_wfD(2)[OF wf rm] created_wfD(3)[OF wf rm rm]])
qed

lemma submitted_withdrawal_simps [simp]:
  "submitted_withdrawal (fst (iom_remove sig X)) x n h \<longleftrightarrow> x \<noteq> sig \<and> submitted_withdrawal X x n h"
  "submitted_withdrawal (fst (iom_insert sig tx X)) x n h \<longleftrightarrow>
     (if x = sig then \<exists>m t. tx = TxWithdrawal m n h t else submitted_withdrawal X x n h)"
  by (auto simp: submitted_withdrawal_def)

lemma nonces_wf_send:
  assumes wf: "nonces_wf pool T X" and n: "bm_get T n = Some c" and sig: "iom_get X sig = None"
  shows "nonces_wf pool (bm_remove n T) (fst (iom_insert sig (TxWithdrawal m n (cw_nonce_value c) t) X))"
proof -
  have none: "\<not> submitted_withdrawal X sig x h" for x h using sig by (simp add: submitted_withdrawal_def)
  have free: "\<not> submitted_withdrawal X x n h" for x h using nonces_wfD(2)[OF wf, of x n h] n by auto
  have "bound_accounts pool = {x. bm_get T x \<noteq> None} \<union> {x. \<exists>sig h. submitted_withdrawal X sig x h}"
    using wf by (simp add: nonces_wf_def)
  also have "\<dots> = {x. bm_get (bm_remove n T) x \<noteq> None} \<union>
      {x. \<exists>y h. submitted_withdrawal (fst (iom_insert sig (TxWithdrawal m n (cw_nonce_value c) t) X)) y x h}"
    using n none by (auto split: if_splits) metis
  finally have b: "bound_accounts pool = \<dots>" .
  show ?thesis
  proof (rule nonces_wfI[OF b])
    fix x y h assume s: "submitted_withdrawal (fst (iom_insert sig (TxWithdrawal m n (cw_nonce_value c) t) X)) y x h"
    then show "bm_get (bm_remove n T) x = None" "(x, h) \<in> seen_values pool"
      using nonces_wfD(2,5)[OF wf, of y x h] nonces_wfD(4)[OF wf n] by (auto split: if_splits)
    fix y' h' assume "submitted_withdrawal (fst (iom_insert sig (TxWithdrawal m n (cw_nonce_value c) t) X)) y' x h'"
    then show "y' = y" using s free[of y h] free[of y' h'] nonces_wfD(3)[OF wf, of y x h y' h'] by (auto split: if_splits)
  next
    fix x c' assume "bm_get (bm_remove n T) x = Some c'"
    then show "(x, cw_nonce_value c') \<in> seen_values pool" using nonces_wfD(4)[OF wf, of x c'] by (auto split: if_splits)
  qed
qed

lemma nonces_wf_free:
  assumes wf: "nonces_wf pool T X" and sig: "submitted_withdrawal X sig n h" and f: "free_nonce n pool = Some pool'"
  shows "nonces_wf pool' T (fst (iom_remove sig X))"
proof -
  note fd = free_nonceD[OF f]
  have T: "bm_get T n = None" using wf sig unfolding nonces_wf_def by blast
  have uniq: "x = sig" if "submitted_withdrawal X x n h'" for x h' using wf sig that unfolding nonces_wf_def by blast
  have "bound_accounts pool' = {x. bm_get T x \<noteq> None} \<union> {x. \<exists>y h. submitted_withdrawal (fst (iom_remove sig X)) y x h}"
  proof (rule set_eqI)
    fix x
    show "x \<in> bound_accounts pool' \<longleftrightarrow>
        x \<in> {x. bm_get T x \<noteq> None} \<union> {x. \<exists>y h. submitted_withdrawal (fst (iom_remove sig X)) y x h}"
    proof (cases "x = n")
      case True
      have "\<not> (\<exists>y h. y \<noteq> sig \<and> submitted_withdrawal X y n h)" using uniq by blast
      then show ?thesis using T by (simp add: True fd(1))
    next
      case False
      then have other: "\<not> submitted_withdrawal X sig x h'" for h' using sig by (auto simp: submitted_withdrawal_def)
      have "(\<exists>y h. submitted_withdrawal (fst (iom_remove sig X)) y x h) \<longleftrightarrow> (\<exists>y h. submitted_withdrawal X y x h)"
        unfolding submitted_withdrawal_simps(1) using other by metis
      then show ?thesis using False by (simp only: fd(1) nonces_wfD(1)[OF wf]) blast
    qed
  qed
  then show ?thesis
  proof (rule nonces_wfI)
    fix x y h assume "submitted_withdrawal (fst (iom_remove sig X)) y x h"
    then have s: "submitted_withdrawal X y x h" by simp
    then show "bm_get T x = None" "(x, h) \<in> seen_values pool'" using nonces_wfD(2,5)[OF wf s] by (simp_all add: fd(2))
    fix y' h' assume "submitted_withdrawal (fst (iom_remove sig X)) y' x h'"
    then have "submitted_withdrawal X y' x h'" by simp
    then show "y' = y" by (rule nonces_wfD(3)[OF wf s])
  qed (simp add: fd(2) nonces_wfD(4)[OF wf])
qed

lemma nonces_wf_sweep:
  assumes "nonces_wf pool T X" "\<And>n h. \<not> submitted_withdrawal X sig n h"
  shows "nonces_wf pool T (fst (iom_insert sig (TxSweepDeposit t) X))" "nonces_wf pool T (fst (iom_remove sig X))"
proof -
  have "submitted_withdrawal (fst (iom_insert sig (TxSweepDeposit t) X)) = submitted_withdrawal X"
    "submitted_withdrawal (fst (iom_remove sig X)) = submitted_withdrawal X"
    using assms(2) by (auto simp: fun_eq_iff)
  then show "nonces_wf pool T (fst (iom_insert sig (TxSweepDeposit t) X))" "nonces_wf pool T (fst (iom_remove sig X))"
    using assms(1) by (simp_all add: nonces_wf_def)
qed

lemma txs_okI:
  assumes "\<And>sig. X sig \<noteq> None \<Longrightarrow> sig \<notin> S \<and> F sig = None" "\<And>sig. sig \<in> S \<Longrightarrow> F sig = None"
    "\<And>b x. sent b = Some x \<Longrightarrow> is_withdrawal (X (sn_signature x))"
    "\<And>b x. ok b = Some x \<Longrightarrow> sn_signature x \<in> S"
    "\<And>b x. failed b = Some x \<Longrightarrow> is_withdrawal (F (sn_signature x))"
    "\<And>sig. sig \<in> swept \<longleftrightarrow> is_sweep (X sig)" "finalized \<subseteq> S"
  shows "txs_ok X S F sent ok failed swept finalized"
  unfolding txs_ok_def using assms by blast

lemma txs_okD:
  assumes "txs_ok X S F sent ok failed swept finalized"
  shows "X sig \<noteq> None \<Longrightarrow> sig \<notin> S \<and> F sig = None" "sig \<in> S \<Longrightarrow> F sig = None"
    "sent b = Some x \<Longrightarrow> is_withdrawal (X (sn_signature x))"
    "ok b = Some x \<Longrightarrow> sn_signature x \<in> S"
    "failed b = Some x \<Longrightarrow> is_withdrawal (F (sn_signature x))"
    "sig \<in> swept \<longleftrightarrow> is_sweep (X sig)" "finalized \<subseteq> S"
  using assms unfolding txs_ok_def by blast+

lemma is_withdrawal_not_sweep: "is_withdrawal tx \<Longrightarrow> \<not> is_sweep tx"
  by (cases tx rule: is_withdrawal.cases) auto

lemma is_sweep_Some: "is_sweep tx \<Longrightarrow> \<exists>h. tx = Some (TxSweepDeposit h)"
  by (cases tx rule: is_sweep.cases) auto

lemma is_withdrawal_Some: "is_withdrawal tx \<Longrightarrow> \<exists>m n h t. tx = Some (TxWithdrawal m n h t)"
  by (cases tx rule: is_withdrawal.cases) auto

lemma txs_ok_submit:
  assumes ok: "txs_ok X S F sent ok failed swept fin" and new: "X sig = None" "sig \<notin> S" "F sig = None"
    and sent': "\<And>b x. sent' b = Some x \<Longrightarrow> sent b = Some x \<or> sn_signature x = sig \<and> is_withdrawal (Some tx)"
    and swept': "swept' = (if is_sweep (Some tx) then insert sig swept else swept)"
  shows "txs_ok (X(sig \<mapsto> tx)) S F sent' ok failed swept' fin"
proof (rule txs_okI)
  fix x assume "(X(sig \<mapsto> tx)) x \<noteq> None"
  then show "x \<notin> S \<and> F x = None" using txs_okD(1)[OF ok, of x] new by (cases "x = sig") simp_all
next
  fix b x assume "sent' b = Some x"
  then show "is_withdrawal ((X(sig \<mapsto> tx)) (sn_signature x))"
    using sent'[of b x] txs_okD(3)[OF ok, of b x] new(1) by (cases "sn_signature x = sig") auto
next
  fix x show "x \<in> swept' \<longleftrightarrow> is_sweep ((X(sig \<mapsto> tx)) x)"
    using txs_okD(6)[OF ok, of x] new(1) by (cases "x = sig") (simp_all add: swept')
qed (use txs_okD(2,4,5,7)[OF ok] in blast)+

lemma txs_ok_succeed:
  assumes ok: "txs_ok X S F sent ok failed swept fin" and X: "X sig \<noteq> None"
    and sent': "\<And>b x. sent' b = Some x \<Longrightarrow> sent b = Some x \<and> sn_signature x \<noteq> sig"
    and ok': "\<And>b x. ok' b = Some x \<Longrightarrow> ok b = Some x \<or> sn_signature x = sig"
    and sw: "swept' = swept - {sig}" "fin' \<subseteq> insert sig fin"
  shows "txs_ok (X(sig := None)) (insert sig S) F sent' ok' failed swept' fin'"
proof (rule txs_okI)
  fix x assume "(X(sig := None)) x \<noteq> None"
  then show "x \<notin> insert sig S \<and> F x = None" using txs_okD(1)[OF ok, of x] by (cases "x = sig") simp_all
next
  fix x assume "x \<in> insert sig S"
  then show "F x = None" using txs_okD(1)[OF ok X] txs_okD(2)[OF ok, of x] by auto
next
  fix b x assume "sent' b = Some x"
  then show "is_withdrawal ((X(sig := None)) (sn_signature x))"
    using sent'[of b x] txs_okD(3)[OF ok, of b x] by simp
next
  fix b x assume "ok' b = Some x"
  then show "sn_signature x \<in> insert sig S" using ok'[of b x] txs_okD(4)[OF ok, of b x] by blast
next
  fix x show "x \<in> swept' \<longleftrightarrow> is_sweep ((X(sig := None)) x)"
    using txs_okD(6)[OF ok, of x] by (cases "x = sig") (simp_all add: sw)
qed (use txs_okD(5,7)[OF ok] sw in blast)+

lemma txs_ok_fail:
  assumes ok: "txs_ok X S F sent ok failed swept fin" and X: "X sig = Some tx"
    and sent': "\<And>b x. sent' b = Some x \<Longrightarrow> sent b = Some x \<and> sn_signature x \<noteq> sig"
    and failed': "\<And>b x. failed' b = Some x \<Longrightarrow> failed b = Some x \<or> sent b = Some x \<and> sn_signature x = sig"
    and sw: "swept' = swept - {sig}"
  shows "txs_ok (X(sig := None)) S (F(sig \<mapsto> tx)) sent' ok failed' swept' fin"
proof (rule txs_okI)
  fix x assume "(X(sig := None)) x \<noteq> None"
  then show "x \<notin> S \<and> (F(sig \<mapsto> tx)) x = None" using txs_okD(1)[OF ok, of x] by (cases "x = sig") simp_all
next
  fix x assume "x \<in> S"
  then show "(F(sig \<mapsto> tx)) x = None"
    using txs_okD(1)[OF ok, of sig] txs_okD(2)[OF ok, of x] X by (cases "x = sig") simp_all
next
  fix b x assume "sent' b = Some x"
  then show "is_withdrawal ((X(sig := None)) (sn_signature x))"
    using sent'[of b x] txs_okD(3)[OF ok, of b x] by simp
next
  fix b x assume "failed' b = Some x"
  then have "failed b = Some x \<or> sent b = Some x \<and> sn_signature x = sig" by (rule failed')
  then show "is_withdrawal ((F(sig \<mapsto> tx)) (sn_signature x))"
  proof
    assume "failed b = Some x"
    moreover from this have "sn_signature x \<noteq> sig"
      using txs_okD(5)[OF ok, of b x] txs_okD(1)[OF ok, of sig] X by (cases "sn_signature x = sig") auto
    ultimately show ?thesis using txs_okD(5)[OF ok, of b x] by simp
  next
    assume "sent b = Some x \<and> sn_signature x = sig"
    then show ?thesis using txs_okD(3)[OF ok, of b x] X by simp
  qed
next
  fix x show "x \<in> swept' \<longleftrightarrow> is_sweep ((X(sig := None)) x)"
    using txs_okD(6)[OF ok, of x] by (cases "x = sig") (simp_all add: sw)
qed (use txs_okD(4,7)[OF ok] in blast)+

lemma txs_ok_expire:
  assumes ok: "txs_ok X S F sent ok failed swept fin" and X: "is_sweep (X sig)"
  shows "txs_ok (X(sig := None)) S F sent ok failed (swept - {sig}) fin"
proof (rule txs_okI)
  fix x assume "(X(sig := None)) x \<noteq> None"
  then show "x \<notin> S \<and> F x = None" using txs_okD(1)[OF ok, of x] by (cases "x = sig") simp_all
next
  fix b x assume "sent b = Some x"
  then have w: "is_withdrawal (X (sn_signature x))" by (rule txs_okD(3)[OF ok])
  then have "sn_signature x \<noteq> sig" using X is_withdrawal_not_sweep by blast
  then show "is_withdrawal ((X(sig := None)) (sn_signature x))" using w by simp
next
  fix x show "x \<in> swept - {sig} \<longleftrightarrow> is_sweep ((X(sig := None)) x)"
    using txs_okD(6)[OF ok, of x] by (cases "x = sig") simp_all
qed (use txs_okD(2,4,5,7)[OF ok] in blast)+

end
