(* ===== verification/Minter_Invariant.thy ===== *)
theory Minter_Invariant
  imports Withdrawal_Stages
begin

text \<open>
  Every event of the log keeps the invariant \<open>state_wf\<close> of the minter, and what that means for the
  withdrawals and the nonce accounts of a replayed log.
\<close>

subsection \<open>Sweeps of the deposits under the operations\<close>

lemma queue_sweeps:
  "queue i q t d = Some d' \<Longrightarrow> d_swept d' = d_swept d \<and> d_finalized d' = d_finalized d"
  by (auto elim: queueD)

lemma sweep_deposits_sweeps:
  assumes "sweep_deposits lib ids to msg sig d = Some (d', received)"
  shows "sweep_sigs (d_swept d') = insert sig (sweep_sigs (d_swept d))" "d_finalized d' = d_finalized d"
  using assms by (auto elim!: sweep_depositsD simp: sweep_sigs_def sweeps_get_insert)

lemma finalize_swept_sweeps:
  assumes "finalize_swept sig d = Some d'"
  shows "sweep_sigs (d_swept d') = sweep_sigs (d_swept d) - {sig}"
    "sweep_sigs (d_finalized d') = insert sig (sweep_sigs (d_finalized d))"
  using assms by (auto elim!: finalize_sweptD simp: sweep_sigs_def sweeps_get_insert sweeps_get_remove split: if_splits)

lemma drop_swept_sweeps:
  assumes "deposits_wf d" "drop_swept sig d = Some d'"
  shows "sweep_sigs (d_swept d') = sweep_sigs (d_swept d) - {sig}" "d_finalized d' = d_finalized d"
proof -
  obtain w where w: "sweeps_get (d_swept d) sig = Some w" using drop_sweptD[OF assms(2)] by blast
  obtain swept m n r where "sweeps_remove sig (d_swept d) = Some (swept, w)"
    "drop_swept sig d = Some (d\<lparr>d_swept := swept, d_in_flight_ids := m, d_queued_at_by_id := n, d_dropped := r\<rparr>)"
    by (rule drop_sweptE[OF assms(1) w]) blast
  then show "sweep_sigs (d_swept d') = sweep_sigs (d_swept d) - {sig}" "d_finalized d' = d_finalized d"
    using assms(2) by (auto simp: sweep_sigs_def sweeps_get_remove split: if_splits)
qed

lemma quarantine_sweep_sweeps:
  assumes "quarantine_sweep sig d = Some d'"
  shows "d_swept d' = d_swept d" "sweep_sigs (d_finalized d') = sweep_sigs (d_finalized d) - {sig}"
  using assms by (auto elim!: quarantine_sweepD simp: sweep_sigs_def sweeps_get_remove split: if_splits)

lemma credit_sweep_sweeps:
  assumes "credit_sweep sig cs t d = Some (d', w)"
  shows "d_swept d' = d_swept d" "sweep_sigs (d_finalized d') = sweep_sigs (d_finalized d) - {sig}"
  using assms by (auto elim!: credit_sweepD simp: sweep_sigs_def sweeps_get_remove split: if_splits)

lemma mint_deposit_sweeps:
  "mint_deposit i b d = Some d' \<Longrightarrow> d_swept d' = d_swept d \<and> d_finalized d' = d_finalized d"
  by (auto elim!: mint_depositD)

lemma quarantine_pending_mint_sweeps:
  "quarantine_pending_mint i d = Some d' \<Longrightarrow> d_swept d' = d_swept d \<and> d_finalized d' = d_finalized d"
  by (auto elim!: quarantine_pending_mintD)

subsection \<open>Every operation keeps the invariant\<close>

lemma transactions_wf_deposits:
  assumes "transactions_wf s" "sweep_sigs (d_swept d) = sweep_sigs (d_swept (st_deposits s))"
    "sweep_sigs (d_finalized d) \<subseteq> sweep_sigs (d_finalized (st_deposits s))"
  shows "transactions_wf (s\<lparr>st_deposits := d\<rparr>)"
  using assms unfolding transactions_wf_def txs_ok_def by auto

text \<open>The fields the invariant depends on.\<close>

definition wf_fields where
  "wf_fields s = (st_deposits s, st_pending_withdrawal_requests s, st_created_withdrawal_requests s,
     st_sent_withdrawal_requests s, st_successful_withdrawal_requests s, st_failed_withdrawal_requests s,
     st_submitted_transactions s, st_created_withdrawal_txs s, st_succeeded_transactions s,
     st_failed_transactions s, st_nonce_pool s)"

lemma wf_fields_cong:
  fixes s s' :: minter_state
  assumes "wf_fields s' = wf_fields s"
  shows "state_wf s' = state_wf s" "wstages s' = wstages s" "wview s' = wview s"
proof -
  have eq: "st_deposits s' = st_deposits s" "st_pending_withdrawal_requests s' = st_pending_withdrawal_requests s"
    "st_created_withdrawal_requests s' = st_created_withdrawal_requests s"
    "st_sent_withdrawal_requests s' = st_sent_withdrawal_requests s"
    "st_successful_withdrawal_requests s' = st_successful_withdrawal_requests s"
    "st_failed_withdrawal_requests s' = st_failed_withdrawal_requests s"
    "st_submitted_transactions s' = st_submitted_transactions s" "st_created_withdrawal_txs s' = st_created_withdrawal_txs s"
    "st_succeeded_transactions s' = st_succeeded_transactions s" "st_failed_transactions s' = st_failed_transactions s"
    "st_nonce_pool s' = st_nonce_pool s"
    using assms by (simp_all add: wf_fields_def)
  show st: "wstages s' = wstages s" by (simp add: wstages_def eq fun_eq_iff)
  then show "wview s' = wview s" by (simp add: wview_def fun_eq_iff)
  then show "state_wf s' = state_wf s" by (simp add: state_wf_def transactions_wf_def requests_wf_def eq st)
qed

text \<open>Operations on the deposits alone.\<close>

lemma state_wf_deposits:
  assumes "state_wf s" "deposits_wf d" "sweep_sigs (d_swept d) = sweep_sigs (d_swept (st_deposits s))"
    "sweep_sigs (d_finalized d) \<subseteq> sweep_sigs (d_finalized (st_deposits s))"
  shows "state_wf (s\<lparr>st_deposits := d\<rparr>)"
proof -
  have "wstages (s\<lparr>st_deposits := d\<rparr>) b = wstages s b" for b by (simp add: wstages_def)
  then have "requests_wf (s\<lparr>st_deposits := d\<rparr>)" using state_wfD(2)[OF assms(1)] wstages_eq_wf(1) by blast
  then show ?thesis
    using assms(2) state_wfD(4,5)[OF assms(1)] transactions_wf_deposits[OF state_wfD(3)[OF assms(1)] assms(3,4)]
    by (simp add: state_wf_def)
qed

lemma lift_depositsD:
  assumes "lift_deposits f s = Some s'"
  obtains d where "f (st_deposits s) = Some d" "s' = s\<lparr>st_deposits := d\<rparr>"
  using assms by (auto simp: lift_deposits_def)

lemma state_wf_queue:
  assumes "state_wf s" "process_queued_deposit i q t s = Some s'" "d_next_id (st_deposits s) \<noteq> - 1"
  shows "state_wf s'"
proof -
  from assms(2) obtain d where d: "queue i q t (st_deposits s) = Some d" and s': "s' = s\<lparr>st_deposits := d\<rparr>"
    unfolding process_queued_deposit_def by (rule lift_depositsD)
  show ?thesis unfolding s'
    using queue_wf[OF state_wfD(1)[OF assms(1)] d assms(3)] queue_sweeps[OF d]
    by (intro state_wf_deposits[OF assms(1)]) simp_all
qed

lemma state_wf_minted:
  assumes "state_wf s" "process_minted_swept_deposit i b s = Some s'"
  shows "state_wf s'"
proof -
  from assms(2) obtain d where d: "mint_deposit i b (st_deposits s) = Some d" and s': "s' = s\<lparr>st_deposits := d\<rparr>"
    unfolding process_minted_swept_deposit_def by (rule lift_depositsD)
  obtain p where p: "bm_get (d_pending_mints (st_deposits s)) i = Some p" using d by (auto elim: mint_depositD)
  show ?thesis unfolding s'
    using mint_deposit_moves(2)[OF state_wfD(1)[OF assms(1)] d p] mint_deposit_sweeps[OF d]
    by (intro state_wf_deposits[OF assms(1)]) simp_all
qed

lemma state_wf_quarantined_mint:
  assumes "state_wf s" "process_quarantined_pending_mint i s = Some s'"
  shows "state_wf s'"
proof -
  from assms(2) obtain d where d: "quarantine_pending_mint i (st_deposits s) = Some d" and s': "s' = s\<lparr>st_deposits := d\<rparr>"
    unfolding process_quarantined_pending_mint_def by (rule lift_depositsD)
  obtain p where p: "bm_get (d_pending_mints (st_deposits s)) i = Some p" using d by (auto elim: quarantine_pending_mintD)
  show ?thesis unfolding s'
    using quarantine_pending_mint_moves(2)[OF state_wfD(1)[OF assms(1)] d p] quarantine_pending_mint_sweeps[OF d]
    by (intro state_wf_deposits[OF assms(1)]) simp_all
qed

lemma state_wf_quarantined_sweep:
  assumes "state_wf s" "process_quarantined_sweep sig s = Some s'"
  shows "state_wf s'"
proof -
  from assms(2) obtain d where d: "quarantine_sweep sig (st_deposits s) = Some d" and s': "s' = s\<lparr>st_deposits := d\<rparr>"
    unfolding process_quarantined_sweep_def by (rule lift_depositsD)
  show ?thesis unfolding s'
    using quarantine_sweep_wf[OF state_wfD(1)[OF assms(1)] d] quarantine_sweep_sweeps[OF d]
    by (intro state_wf_deposits[OF assms(1)]) auto
qed

lemma process_credited_sweepD:
  assumes "process_credited_sweep sig received cs t s = Some s'"
  obtains d w total where "credit_sweep sig cs t (st_deposits s) = Some (d, w)"
    "unat total = unat (sum_list (map cd_amount_to_mint cs)) + unat (deposit_fees w)" "total \<le> received"
    "s' = s\<lparr>st_deposits := d,
       st_collected_automatic_deposit_fees := st_collected_automatic_deposit_fees s + deposit_fees w,
       st_balance := st_balance s + received\<rparr>"
  using assms
  by (auto simp: process_credited_sweep_def Let_def Option.bind_eq_Some_conv assert_that_bind checked_add_Some_iff split: if_splits)

lemma state_wf_credited:
  assumes "state_wf s" "process_credited_sweep sig received cs t s = Some s'"
  shows "state_wf s'"
proof -
  from assms(2) obtain d w total where d: "credit_sweep sig cs t (st_deposits s) = Some (d, w)"
    and s': "s' = s\<lparr>st_deposits := d,
       st_collected_automatic_deposit_fees := st_collected_automatic_deposit_fees s + deposit_fees w,
       st_balance := st_balance s + received\<rparr>"
    by (rule process_credited_sweepD)
  have "state_wf (s\<lparr>st_deposits := d\<rparr>)"
    using credit_sweep_moves(2)[OF state_wfD(1)[OF assms(1)] d] credit_sweep_sweeps[OF d]
    by (intro state_wf_deposits[OF assms(1)]) auto
  moreover have "wf_fields s' = wf_fields (s\<lparr>st_deposits := d\<rparr>)" by (simp add: s' wf_fields_def)
  ultimately show ?thesis using wf_fields_cong(1) by blast
qed

lemma cache_key_fields:
  assumes "cache_minter_public_key k s = Some s'"
  shows "wf_fields s' = wf_fields s"
  using assms by (auto simp: cache_minter_public_key_def wf_fields_def split: option.splits if_splits)

lemma upgradeD:
  assumes "upgrade lib args s = Inr s'"
  obtains as pool where "add_accounts as (st_nonce_pool s) = Inr pool"
    "\<And>a. a \<in> set as \<Longrightarrow> \<not> bm_contains (incomplete_destinations s) a"
    "s' = (upgrade_settings args s)\<lparr>st_nonce_pool := pool\<rparr>" "validate s' = Inr ()"
proof -
  from assms have add: "add_nonce_accounts lib (ua_nonce_accounts_to_add args) (upgrade_settings args s) = Inr s'"
    and v: "validate s' = Inr ()" by (auto simp: upgrade_def split: sum.splits)
  have same: "st_nonce_pool (upgrade_settings args s) = st_nonce_pool s"
    "incomplete_destinations (upgrade_settings args s) = incomplete_destinations s"
    by (simp_all add: upgrade_settings_def incomplete_destinations_def)
  show thesis
  proof (cases "ua_nonce_accounts_to_add args")
    case None
    have "add_accounts [] (st_nonce_pool s) = Inr (st_nonce_pool s)" by (simp add: add_accounts_def bm_extend_def)
    moreover have "s' = (upgrade_settings args s)\<lparr>st_nonce_pool := st_nonce_pool s\<rparr>"
      using add None same by (simp add: add_nonce_accounts_def)
    ultimately show thesis using that[of "[]"] v by simp
  next
    case (Some names)
    with add obtain as pool where "ensure_no_incomplete_withdrawal_to (upgrade_settings args s) as = Inr ()"
      "add_accounts as (st_nonce_pool s) = Inr pool" "s' = (upgrade_settings args s)\<lparr>st_nonce_pool := pool\<rparr>"
      by (auto simp: add_nonce_accounts_def same(1) split: sum.splits)
    then show thesis using that[of as pool] v
      by (auto simp: ensure_no_incomplete_withdrawal_to_def same(2) find_None_iff split: option.splits)
  qed
qed

lemma state_wf_upgrade:
  assumes "state_wf s" "upgrade lib args s = Inr s'"
  shows "state_wf s'" "wstages s' = wstages s" "wview s' = wview s"
proof -
  from assms(2) obtain as pool where add: "add_accounts as (st_nonce_pool s) = Inr pool"
    and s': "s' = (upgrade_settings args s)\<lparr>st_nonce_pool := pool\<rparr>" by (rule upgradeD)
  note ad = add_accountsD[OF add]
  have nw: "nonces_wf pool (st_created_withdrawal_txs s) (st_submitted_transactions s)"
    using state_wfD(5)[OF assms(1)] by (simp add: nonces_wf_def ad(4,5))
  have st: "wstages (s\<lparr>st_nonce_pool := pool\<rparr>) = wstages s" by (simp add: wstages_def fun_eq_iff)
  then have vw: "wview (s\<lparr>st_nonce_pool := pool\<rparr>) = wview s" by (simp add: wview_def fun_eq_iff)
  have "state_wf (s\<lparr>st_nonce_pool := pool\<rparr>)"
    using nw state_wfD(1-4)[OF assms(1)] by (simp add: state_wf_def transactions_wf_def requests_wf_def st vw)
  moreover have "wf_fields s' = wf_fields (s\<lparr>st_nonce_pool := pool\<rparr>)"
    by (simp add: s' wf_fields_def upgrade_settings_def)
  ultimately show "state_wf s'" "wstages s' = wstages s" "wview s' = wview s"
    using wf_fields_cong[of s' "s\<lparr>st_nonce_pool := pool\<rparr>"] st vw by simp_all
qed

lemma process_accepted_withdrawalD:
  assumes "process_accepted_withdrawal r t s = Some s'"
  shows "s' = s\<lparr>st_pending_withdrawal_requests := bm_insert (wr_burn_block_index r)
       \<lparr>pw_request = r, pw_created_at = t\<rparr> (st_pending_withdrawal_requests s)\<rparr>"
    and "bm_get (st_pending_withdrawal_requests s) (wr_burn_block_index r) = None"
  using assms by (auto simp: process_accepted_withdrawal_def assert_that_bind split: if_splits)

lemma accepted_wview:
  assumes wf: "requests_wf s" and ac: "process_accepted_withdrawal r t s = Some s'"
    and fresh: "wview s (wr_burn_block_index r) = None"
  shows "requests_wf s'" "wview s' = (wview s)(wr_burn_block_index r \<mapsto> (r, WtPending))"
proof -
  let ?b = "wr_burn_block_index r"
  note s' = process_accepted_withdrawalD(1)[OF ac]
  have st: "wstages s' b = (if b = ?b then (wstages s b)[0 := Some (r, WtPending)] else wstages s b)" for b
    by (simp add: s' wstages_def)
  have one: "one_stage (wstages s b)" for b using wf by (simp add: requests_wf_def)
  have so: "sole (wstages s' ?b) 0 (r, WtPending)"
    using one_stage_None[OF one, of ?b 0] fresh by (simp add: st wview_def)
  show view: "wview s' = (wview s)(?b \<mapsto> (r, WtPending))"
  proof
    fix b show "wview s' b = ((wview s)(?b \<mapsto> (r, WtPending))) b"
      using sole_find_map[OF so] by (cases "b = ?b") (simp_all add: wview_def st)
  qed
  have "one_stage (wstages s' b)" for b
    using one[of b] sole_one_stage[OF so] by (cases "b = ?b") (simp_all add: st)
  moreover have "wr_burn_block_index r' = b" if "wview s' b = Some (r', x)" for b r' x
    using that wf unfolding view requests_wf_def by (auto split: if_splits)
  ultimately show "requests_wf s'" by (simp add: requests_wf_def)
qed

lemma state_wf_accepted:
  assumes "state_wf s" "process_accepted_withdrawal r t s = Some s'" "wview s (wr_burn_block_index r) = None"
  shows "state_wf s'"
  using state_wfD[OF assms(1)] accepted_wview(1)[OF state_wfD(2)[OF assms(1)] assms(2,3)]
  by (simp add: state_wf_def transactions_wf_def process_accepted_withdrawalD(1)[OF assms(2)])

lemma created_wmoves:
  assumes "process_transaction_created bs n h s = Some s'"
  shows "wmoves s s' (set bs) 0 1 WtCreated"
proof -
  from assms obtain pool s1 balance where cf: "created_from s bs s1"
    and s': "s' = s1\<lparr>st_nonce_pool := pool, st_balance := balance,
       st_created_withdrawal_txs := bm_insert n \<lparr>cw_nonce_value = h, cw_burn_indices = bs\<rparr> (st_created_withdrawal_txs s)\<rparr>"
    by (rule process_transaction_createdD)
  show ?thesis by (rule created_from_wmoves[OF cf]) (simp add: s' wstages_def fun_eq_iff)
qed

lemma created_from_same:
  assumes "created_from s bs s1"
  shows "st_deposits s1 = st_deposits s" "st_submitted_transactions s1 = st_submitted_transactions s"
    "st_failed_transactions s1 = st_failed_transactions s" "st_succeeded_transactions s1 = st_succeeded_transactions s"
    "st_sent_withdrawal_requests s1 = st_sent_withdrawal_requests s"
    "st_successful_withdrawal_requests s1 = st_successful_withdrawal_requests s"
    "st_failed_withdrawal_requests s1 = st_failed_withdrawal_requests s"
    "bm_get (st_created_withdrawal_requests s1) b \<noteq> None \<longleftrightarrow> b \<in> set bs \<or> bm_get (st_created_withdrawal_requests s) b \<noteq> None"
    "distinct bs" "b \<in> set bs \<Longrightarrow> bm_get (st_created_withdrawal_requests s) b = None"
  using assms unfolding created_from_def by auto

lemma state_wf_created:
  assumes wf: "state_wf s" and cr: "process_transaction_created bs n h s = Some s'"
  shows "state_wf s'"
proof -
  from cr obtain pool s1 balance where b: "bind_nonce n h (st_nonce_pool s) = Some pool" and cf: "created_from s bs s1"
    and n: "bm_get (st_created_withdrawal_txs s) n = None"
    and s': "s' = s1\<lparr>st_nonce_pool := pool, st_balance := balance,
       st_created_withdrawal_txs := bm_insert n \<lparr>cw_nonce_value = h, cw_burn_indices = bs\<rparr> (st_created_withdrawal_txs s)\<rparr>"
    by (rule process_transaction_createdD)
  note same = created_from_same[OF cf]
  have "requests_wf s'" using wmoves_wf[OF created_wmoves[OF cr] state_wfD(2)[OF wf]] .
  moreover have "created_wf (st_created_withdrawal_requests s') (st_created_withdrawal_txs s')"
    using created_wf_create[OF state_wfD(4)[OF wf] n same(9,10,8)] by (simp add: s')
  moreover have "nonces_wf (st_nonce_pool s') (st_created_withdrawal_txs s') (st_submitted_transactions s')"
    using nonces_wf_create[OF state_wfD(5)[OF wf] b n] by (simp add: s' same)
  moreover have "transactions_wf s'" using state_wfD(3)[OF wf] by (simp add: s' same transactions_wf_def)
  moreover have "deposits_wf (st_deposits s')" using state_wfD(1)[OF wf] by (simp add: s' same)
  ultimately show ?thesis by (simp add: state_wf_def)
qed

subsection \<open>Submission\<close>

lemma sent_from_same:
  assumes "sent_from sig s bs s1"
  shows "st_deposits s1 = st_deposits s" "st_submitted_transactions s1 = st_submitted_transactions s"
    "st_failed_transactions s1 = st_failed_transactions s" "st_succeeded_transactions s1 = st_succeeded_transactions s"
    "st_successful_withdrawal_requests s1 = st_successful_withdrawal_requests s"
    "st_failed_withdrawal_requests s1 = st_failed_withdrawal_requests s"
    "st_nonce_pool s1 = st_nonce_pool s" "st_created_withdrawal_txs s1 = st_created_withdrawal_txs s"
    "bm_get (st_created_withdrawal_requests s1) b = (if b \<in> set bs then None else bm_get (st_created_withdrawal_requests s) b)"
    "bm_get (st_sent_withdrawal_requests s1) b = Some x \<Longrightarrow>
       bm_get (st_sent_withdrawal_requests s) b = Some x \<or> b \<in> set bs \<and> sn_signature x = sig"
proof -
  from assms obtain C S where s1: "s1 = s\<lparr>st_created_withdrawal_requests := C, st_sent_withdrawal_requests := S\<rparr>"
    and C: "\<And>b. bm_get C b = (if b \<in> set bs then None else bm_get (st_created_withdrawal_requests s) b)"
    and S: "\<And>b. bm_get S b = (if b \<in> set bs then map_option (sent_of sig) (bm_get (st_created_withdrawal_requests s) b)
                           else bm_get (st_sent_withdrawal_requests s) b)"
    unfolding sent_from_def by blast
  show "st_deposits s1 = st_deposits s" "st_submitted_transactions s1 = st_submitted_transactions s"
    "st_failed_transactions s1 = st_failed_transactions s" "st_succeeded_transactions s1 = st_succeeded_transactions s"
    "st_successful_withdrawal_requests s1 = st_successful_withdrawal_requests s"
    "st_failed_withdrawal_requests s1 = st_failed_withdrawal_requests s"
    "st_nonce_pool s1 = st_nonce_pool s" "st_created_withdrawal_txs s1 = st_created_withdrawal_txs s"
    "bm_get (st_created_withdrawal_requests s1) b = (if b \<in> set bs then None else bm_get (st_created_withdrawal_requests s) b)"
    by (simp_all add: s1 C)
  assume "bm_get (st_sent_withdrawal_requests s1) b = Some x"
  then have "bm_get S b = Some x" by (simp add: s1)
  then show "bm_get (st_sent_withdrawal_requests s) b = Some x \<or> b \<in> set bs \<and> sn_signature x = sig"
    unfolding S by (cases "b \<in> set bs") (auto simp: sent_of_def)
qed

lemma process_transaction_submittedD:
  assumes "process_transaction_submitted lib sig msg signers purpose t s = Some s'"
  obtains s1 tx where "\<not> bm_contains (st_succeeded_transactions s) sig" "iom_get (st_failed_transactions s) sig = None"
    "case purpose of PurposeWithdrawal bs \<Rightarrow> send_nonce_withdrawal lib sig msg signers bs t s = Some (s1, tx)
      | PurposeSweepDeposit ids h \<Rightarrow> \<exists>key d received. st_minter_public_key s = Some key \<and>
          sweep_deposits lib ids (minter_address lib key) msg sig (st_deposits s) = Some (d, received) \<and>
          s1 = s\<lparr>st_deposits := d\<rparr> \<and> tx = TxSweepDeposit h"
    "iom_get (st_submitted_transactions s1) sig = None"
    "s' = s1\<lparr>st_submitted_transactions := fst (iom_insert sig tx (st_submitted_transactions s1))\<rparr>"
proof -
  from assms obtain s1 tx where no: "\<not> bm_contains (st_succeeded_transactions s) sig" "iom_get (st_failed_transactions s) sig = None"
    and r: "(case purpose of
          PurposeWithdrawal burn_indices \<Rightarrow> send_nonce_withdrawal lib sig msg signers burn_indices t s
        | PurposeSweepDeposit deposit_ids block_height \<Rightarrow> do {
            public_key \<leftarrow> st_minter_public_key s;
            (d, _) \<leftarrow> sweep_deposits lib deposit_ids (minter_address lib public_key) msg sig (st_deposits s);
            Some (s\<lparr>st_deposits := d\<rparr>, TxSweepDeposit block_height)
          }) = Some (s1, tx)"
    and rest: "(let (txs, old) = iom_insert sig tx (st_submitted_transactions s1) in do {
        assert_that (old = None); Some (s1\<lparr>st_submitted_transactions := txs\<rparr>)}) = Some s'"
    by (auto simp: process_transaction_submitted_def Option.bind_eq_Some_conv assert_that_bind iom_contains_key_iff split: if_splits)
  have "iom_get (st_submitted_transactions s1) sig = None"
    and "s' = s1\<lparr>st_submitted_transactions := fst (iom_insert sig tx (st_submitted_transactions s1))\<rparr>"
    using rest iom_insert_old[of sig tx "st_submitted_transactions s1"]
    by (auto simp: Let_def case_prod_unfold assert_that_bind split: if_splits)
  moreover have "case purpose of PurposeWithdrawal bs \<Rightarrow> send_nonce_withdrawal lib sig msg signers bs t s = Some (s1, tx)
      | PurposeSweepDeposit ids h \<Rightarrow> \<exists>key d received. st_minter_public_key s = Some key \<and>
          sweep_deposits lib ids (minter_address lib key) msg sig (st_deposits s) = Some (d, received) \<and>
          s1 = s\<lparr>st_deposits := d\<rparr> \<and> tx = TxSweepDeposit h"
    using r by (cases purpose) (auto simp: Option.bind_eq_Some_conv)
  ultimately show thesis using that no by blast
qed

text \<open>A submitted batch withdrawal: what it read, what it checked and what it changed.\<close>

lemma submitted_withdrawalD:
  assumes "process_transaction_submitted lib sig msg signers (PurposeWithdrawal bs) t s = Some s'"
  obtains n c m s1 where "advanced_nonce_account lib msg = Some n" "bm_get (st_created_withdrawal_txs s) n = Some c"
    "bs = cw_burn_indices c" "signers = [SignerMinter]" "msg = Legacy m"
    "bound_withdrawal_message lib s n c = Some m"
    "sent_from sig (s\<lparr>st_created_withdrawal_txs := bm_remove n (st_created_withdrawal_txs s)\<rparr>) bs s1"
    "s' = s1\<lparr>st_submitted_transactions := fst (iom_insert sig (TxWithdrawal msg n (cw_nonce_value c) t) (st_submitted_transactions s))\<rparr>"
    "\<not> bm_contains (st_succeeded_transactions s) sig" "iom_get (st_failed_transactions s) sig = None"
    "iom_get (st_submitted_transactions s) sig = None"
proof -
  from assms obtain s1 tx where no: "\<not> bm_contains (st_succeeded_transactions s) sig" "iom_get (st_failed_transactions s) sig = None"
    and send: "case PurposeWithdrawal bs of PurposeWithdrawal bs \<Rightarrow> send_nonce_withdrawal lib sig msg signers bs t s = Some (s1, tx)
      | PurposeSweepDeposit ids h \<Rightarrow> \<exists>key d received. st_minter_public_key s = Some key \<and>
          sweep_deposits lib ids (minter_address lib key) msg sig (st_deposits s) = Some (d, received) \<and>
          s1 = s\<lparr>st_deposits := d\<rparr> \<and> tx = TxSweepDeposit h"
    and X: "iom_get (st_submitted_transactions s1) sig = None"
      "s' = s1\<lparr>st_submitted_transactions := fst (iom_insert sig tx (st_submitted_transactions s1))\<rparr>"
    by (rule process_transaction_submittedD)
  from send have send: "send_nonce_withdrawal lib sig msg signers bs t s = Some (s1, tx)" by simp
  from send obtain n c m where *: "advanced_nonce_account lib msg = Some n" "bm_get (st_created_withdrawal_txs s) n = Some c"
    "bs = cw_burn_indices c" "signers = [SignerMinter]" "msg = Legacy m"
    "bound_withdrawal_message lib s n c = Some m"
    "sent_from sig (s\<lparr>st_created_withdrawal_txs := bm_remove n (st_created_withdrawal_txs s)\<rparr>) bs s1"
    "tx = TxWithdrawal msg n (cw_nonce_value c) t"
    by (rule send_nonce_withdrawalD)
  have same: "st_submitted_transactions s1 = st_submitted_transactions s" using sent_from_same(2)[OF *(7)] by simp
  show thesis using that[OF *(1-7) _ no] X unfolding same *(8) by blast
qed

lemma submitted_withdrawal_wmoves:
  assumes "process_transaction_submitted lib sig msg signers (PurposeWithdrawal bs) t s = Some s'"
  shows "wmoves s s' (set bs) 1 2 (WtSent sig)"
proof -
  from assms obtain n c m s1 where "bm_get (st_created_withdrawal_txs s) n = Some c"
    and sf: "sent_from sig (s\<lparr>st_created_withdrawal_txs := bm_remove n (st_created_withdrawal_txs s)\<rparr>) bs s1"
    and s': "s' = s1\<lparr>st_submitted_transactions := fst (iom_insert sig (TxWithdrawal msg n (cw_nonce_value c) t) (st_submitted_transactions s))\<rparr>"
    by (rule submitted_withdrawalD)
  show ?thesis by (rule sent_from_wmoves[OF sf]) (simp_all add: s' wstages_def fun_eq_iff)
qed

lemma iom_get_insert_fun: "iom_get (fst (iom_insert k v m)) = (iom_get m)(k \<mapsto> v)"
  by (simp add: fun_eq_iff)

lemma iom_get_remove_fun: "iom_get (fst (iom_remove k m)) = (iom_get m)(k := None)"
  by (simp add: fun_eq_iff)

lemma transactions_wfD:
  assumes "transactions_wf s"
  shows "iom_wf (st_submitted_transactions s)" "iom_wf (st_failed_transactions s)"
    "txs_ok (iom_get (st_submitted_transactions s)) {sig. bm_contains (st_succeeded_transactions s) sig}
       (iom_get (st_failed_transactions s)) (bm_get (st_sent_withdrawal_requests s))
       (bm_get (st_successful_withdrawal_requests s)) (bm_get (st_failed_withdrawal_requests s))
       (sweep_sigs (d_swept (st_deposits s))) (sweep_sigs (d_finalized (st_deposits s)))"
  using assms by (simp_all add: transactions_wf_def)

lemma state_wf_submitted_withdrawal:
  assumes wf: "state_wf s" and room: "iom_room (st_submitted_transactions s)"
    and sub: "process_transaction_submitted lib sig msg signers (PurposeWithdrawal bs) t s = Some s'"
  shows "state_wf s'"
proof -
  let ?T = "bm_remove" and ?s0 = "\<lambda>n. s\<lparr>st_created_withdrawal_txs := bm_remove n (st_created_withdrawal_txs s)\<rparr>"
  from sub obtain n c m s1 where n: "bm_get (st_created_withdrawal_txs s) n = Some c" and bs: "bs = cw_burn_indices c"
    and sf: "sent_from sig (?s0 n) bs s1"
    and s': "s' = s1\<lparr>st_submitted_transactions := fst (iom_insert sig (TxWithdrawal msg n (cw_nonce_value c) t) (st_submitted_transactions s))\<rparr>"
    and no: "\<not> bm_contains (st_succeeded_transactions s) sig" "iom_get (st_failed_transactions s) sig = None"
      "iom_get (st_submitted_transactions s) sig = None"
    by (rule submitted_withdrawalD)
  note same = sent_from_same[OF sf]
  have "requests_wf s'" by (rule wmoves_wf[OF submitted_withdrawal_wmoves[OF sub] state_wfD(2)[OF wf]])
  moreover have "created_wf (st_created_withdrawal_requests s') (st_created_withdrawal_txs s')"
    using created_wf_send[OF state_wfD(4)[OF wf] n, of "st_created_withdrawal_requests s1"] same(9) by (simp add: s' same(8) bs)
  moreover have "nonces_wf (st_nonce_pool s') (st_created_withdrawal_txs s') (st_submitted_transactions s')"
    using nonces_wf_send[OF state_wfD(5)[OF wf] n no(3)] by (simp add: s' same)
  moreover have "transactions_wf s'"
  proof -
    note tw = transactions_wfD[OF state_wfD(3)[OF wf]]
    have "txs_ok ((iom_get (st_submitted_transactions s))(sig \<mapsto> TxWithdrawal msg n (cw_nonce_value c) t))
       {sig. bm_contains (st_succeeded_transactions s) sig}
       (iom_get (st_failed_transactions s)) (bm_get (st_sent_withdrawal_requests s1))
       (bm_get (st_successful_withdrawal_requests s)) (bm_get (st_failed_withdrawal_requests s))
       (sweep_sigs (d_swept (st_deposits s))) (sweep_sigs (d_finalized (st_deposits s)))"
      by (rule txs_ok_submit[OF tw(3)]) (use no same(10) in auto)
    then show ?thesis using iom_wf_insert[OF tw(1) room] tw(2)
      by (simp add: transactions_wf_def s' same iom_get_insert_fun)
  qed
  moreover have "deposits_wf (st_deposits s')" using state_wfD(1)[OF wf] by (simp add: s' same)
  ultimately show ?thesis by (simp add: state_wf_def)
qed

lemma state_wf_submitted_sweep:
  assumes wf: "state_wf s" and room: "iom_room (st_submitted_transactions s)"
    and sub: "process_transaction_submitted lib sig msg signers (PurposeSweepDeposit ids h) t s = Some s'"
  shows "state_wf s'" and "wstages s' = wstages s"
proof -
  from sub obtain s1 tx where no: "\<not> bm_contains (st_succeeded_transactions s) sig" "iom_get (st_failed_transactions s) sig = None"
    and send: "case PurposeSweepDeposit ids h of PurposeWithdrawal bs \<Rightarrow> send_nonce_withdrawal lib sig msg signers bs t s = Some (s1, tx)
      | PurposeSweepDeposit ids h \<Rightarrow> \<exists>key d received. st_minter_public_key s = Some key \<and>
          sweep_deposits lib ids (minter_address lib key) msg sig (st_deposits s) = Some (d, received) \<and>
          s1 = s\<lparr>st_deposits := d\<rparr> \<and> tx = TxSweepDeposit h"
    and X: "iom_get (st_submitted_transactions s1) sig = None"
      "s' = s1\<lparr>st_submitted_transactions := fst (iom_insert sig tx (st_submitted_transactions s1))\<rparr>"
    by (rule process_transaction_submittedD)
  from send obtain key d received where d: "sweep_deposits lib ids (minter_address lib key) msg sig (st_deposits s) = Some (d, received)"
    and s1: "s1 = s\<lparr>st_deposits := d\<rparr>" "tx = TxSweepDeposit h" by auto
  have s': "s' = s\<lparr>st_deposits := d, st_submitted_transactions := fst (iom_insert sig (TxSweepDeposit h) (st_submitted_transactions s))\<rparr>"
    and X': "iom_get (st_submitted_transactions s) sig = None" using X by (simp_all add: s1)
  show st: "wstages s' = wstages s" by (simp add: s' wstages_def fun_eq_iff)
  have "requests_wf s'" using wstages_eq_wf(1)[of s' s] st state_wfD(2)[OF wf] by simp
  moreover have "nonces_wf (st_nonce_pool s') (st_created_withdrawal_txs s') (st_submitted_transactions s')"
    using nonces_wf_sweep(1)[OF state_wfD(5)[OF wf], of sig h] X' by (simp add: s' submitted_withdrawal_def)
  moreover have "transactions_wf s'"
  proof -
    note tw = transactions_wfD[OF state_wfD(3)[OF wf]]
    have "txs_ok ((iom_get (st_submitted_transactions s))(sig \<mapsto> TxSweepDeposit h))
       {sig. bm_contains (st_succeeded_transactions s) sig}
       (iom_get (st_failed_transactions s)) (bm_get (st_sent_withdrawal_requests s))
       (bm_get (st_successful_withdrawal_requests s)) (bm_get (st_failed_withdrawal_requests s))
       (sweep_sigs (d_swept d)) (sweep_sigs (d_finalized (st_deposits s)))"
      by (rule txs_ok_submit[OF tw(3)]) (use no X' sweep_deposits_sweeps[OF d] in auto)
    then show ?thesis using iom_wf_insert[OF tw(1) room] tw(2) sweep_deposits_sweeps(2)[OF d]
      by (simp add: transactions_wf_def s' iom_get_insert_fun)
  qed
  moreover have "deposits_wf (st_deposits s')" using sweep_deposits_wf[OF state_wfD(1)[OF wf] d] by (simp add: s')
  moreover have "created_wf (st_created_withdrawal_requests s') (st_created_withdrawal_txs s')"
    using state_wfD(4)[OF wf] by (simp add: s')
  ultimately show "state_wf s'" by (simp add: state_wf_def)
qed

subsection \<open>Finalization\<close>

lemma succeeded_wmoves:
  assumes "process_transaction_succeeded sig s = Some s'"
  shows "wmoves s s' (sent_by s sig) 2 3 (WtSucceeded sig)"
proof -
  from assms obtain tx s2 where "iom_get (st_submitted_transactions s) sig = Some tx"
    and s2: "case tx of TxSweepDeposit _ \<Rightarrow> \<exists>d. finalize_swept sig (st_deposits s) = Some d \<and> s2 = s\<lparr>st_deposits := d\<rparr>
      | TxWithdrawal _ n _ _ \<Rightarrow> \<exists>pool. free_nonce n (st_nonce_pool s) = Some pool \<and> s2 = s\<lparr>st_nonce_pool := pool\<rparr>"
    and s': "s' = s2\<lparr>st_submitted_transactions := fst (iom_remove sig (st_submitted_transactions s)),
       st_succeeded_transactions := bs_insert sig (st_succeeded_transactions s),
       st_successful_withdrawal_requests := extract_sent sig s (st_successful_withdrawal_requests s),
       st_sent_withdrawal_requests := remaining_sent sig s\<rparr>"
    by (rule process_transaction_succeededD)
  have "wstages s' b = (wstages s b)[2 := map_option (sent_view WtSent) (bm_get (remaining_sent sig s) b),
        3 := map_option (sent_view WtSucceeded) (bm_get (extract_sent sig s (st_successful_withdrawal_requests s)) b)]" for b
    using s2 by (auto simp: s' wstages_def numeral_eq_Suc split: minter_transaction.splits)
  then show ?thesis by (rule finalize_wmoves[OF HOL.refl]) simp_all
qed

lemma failed_wmoves:
  assumes "process_transaction_failed sig s = Some s'"
  shows "wmoves s s' (sent_by s sig) 2 4 (WtFailed sig)"
proof -
  from assms obtain tx s2 where "iom_get (st_submitted_transactions s) sig = Some tx"
    and s2: "case tx of TxSweepDeposit _ \<Rightarrow> \<exists>d. drop_swept sig (st_deposits s) = Some d \<and> s2 = s\<lparr>st_deposits := d\<rparr>
      | TxWithdrawal _ n _ _ \<Rightarrow> \<exists>pool. free_nonce n (st_nonce_pool s) = Some pool \<and> s2 = s\<lparr>st_nonce_pool := pool\<rparr>"
    and s': "s' = s2\<lparr>st_submitted_transactions := fst (iom_remove sig (st_submitted_transactions s)),
       st_failed_transactions := fst (iom_insert sig tx (st_failed_transactions s)),
       st_failed_withdrawal_requests := extract_sent sig s (st_failed_withdrawal_requests s),
       st_sent_withdrawal_requests := remaining_sent sig s\<rparr>"
    by (rule process_transaction_failedD)
  have "wstages s' b = (wstages s b)[2 := map_option (sent_view WtSent) (bm_get (remaining_sent sig s) b),
        4 := map_option (sent_view WtFailed) (bm_get (extract_sent sig s (st_failed_withdrawal_requests s)) b)]" for b
    using s2 by (auto simp: s' wstages_def numeral_eq_Suc split: minter_transaction.splits)
  then show ?thesis by (rule finalize_wmoves[OF HOL.refl]) simp_all
qed

lemma remaining_sent_SomeD:
  "bm_get (remaining_sent sig s) b = Some x \<Longrightarrow> bm_get (st_sent_withdrawal_requests s) b = Some x \<and> sn_signature x \<noteq> sig"
  by (auto simp: extract_sent_get(2) sent_by_def split: if_splits)

lemma extract_sent_SomeD:
  "bm_get (extract_sent sig s m) b = Some x \<Longrightarrow>
     bm_get m b = Some x \<or> bm_get (st_sent_withdrawal_requests s) b = Some x \<and> sn_signature x = sig"
  by (auto simp: extract_sent_get(1) sent_by_def split: if_splits)

text \<open>The deposits and the nonce pool after the transaction of a signature is finalized.\<close>

lemma finalized_parts:
  assumes wf: "state_wf s" and X: "iom_get (st_submitted_transactions s) sig = Some tx"
    and s2: "case tx of TxSweepDeposit _ \<Rightarrow> \<exists>d. (finalize_swept sig (st_deposits s) = Some d \<or>
         drop_swept sig (st_deposits s) = Some d) \<and> s2 = s\<lparr>st_deposits := d\<rparr>
      | TxWithdrawal _ n _ _ \<Rightarrow> \<exists>pool. free_nonce n (st_nonce_pool s) = Some pool \<and> s2 = s\<lparr>st_nonce_pool := pool\<rparr>"
  shows "deposits_wf (st_deposits s2)"
    "nonces_wf (st_nonce_pool s2) (st_created_withdrawal_txs s) (fst (iom_remove sig (st_submitted_transactions s)))"
    "sweep_sigs (d_swept (st_deposits s2)) = sweep_sigs (d_swept (st_deposits s)) - {sig}"
    "sweep_sigs (d_finalized (st_deposits s2)) \<subseteq> insert sig (sweep_sigs (d_finalized (st_deposits s)))"
    "st_created_withdrawal_requests s2 = st_created_withdrawal_requests s"
    "st_created_withdrawal_txs s2 = st_created_withdrawal_txs s"
    "st_failed_transactions s2 = st_failed_transactions s"
    "st_succeeded_transactions s2 = st_succeeded_transactions s"
    "st_successful_withdrawal_requests s2 = st_successful_withdrawal_requests s"
    "st_failed_withdrawal_requests s2 = st_failed_withdrawal_requests s"
proof -
  note dw = state_wfD(1)[OF wf] and nw = state_wfD(5)[OF wf]
  have "deposits_wf (st_deposits s2) \<and>
    nonces_wf (st_nonce_pool s2) (st_created_withdrawal_txs s) (fst (iom_remove sig (st_submitted_transactions s))) \<and>
    sweep_sigs (d_swept (st_deposits s2)) = sweep_sigs (d_swept (st_deposits s)) - {sig} \<and>
    sweep_sigs (d_finalized (st_deposits s2)) \<subseteq> insert sig (sweep_sigs (d_finalized (st_deposits s)))"
  proof (cases tx)
    case (TxSweepDeposit h)
    with s2 obtain d where d: "finalize_swept sig (st_deposits s) = Some d \<or> drop_swept sig (st_deposits s) = Some d"
      and s2: "s2 = s\<lparr>st_deposits := d\<rparr>" by auto
    have "nonces_wf (st_nonce_pool s) (st_created_withdrawal_txs s) (fst (iom_remove sig (st_submitted_transactions s)))"
      by (rule nonces_wf_sweep(2)[OF nw]) (use X TxSweepDeposit in \<open>simp add: submitted_withdrawal_def\<close>)
    moreover from d have "deposits_wf d \<and> sweep_sigs (d_swept d) = sweep_sigs (d_swept (st_deposits s)) - {sig} \<and>
      sweep_sigs (d_finalized d) \<subseteq> insert sig (sweep_sigs (d_finalized (st_deposits s)))"
    proof
      assume f: "finalize_swept sig (st_deposits s) = Some d"
      show ?thesis using finalize_swept_wf[OF dw f] finalize_swept_sweeps[OF f] by simp
    next
      assume f: "drop_swept sig (st_deposits s) = Some d"
      obtain w where w: "sweeps_get (d_swept (st_deposits s)) sig = Some w" using drop_sweptD[OF f] by blast
      show ?thesis using drop_swept_moves(2)[OF dw f w] drop_swept_sweeps[OF dw f] by auto
    qed
    ultimately show ?thesis by (simp add: s2)
  next
    case (TxWithdrawal m n h t)
    with s2 obtain pool where f: "free_nonce n (st_nonce_pool s) = Some pool" and s2: "s2 = s\<lparr>st_nonce_pool := pool\<rparr>" by auto
    have sub: "submitted_withdrawal (st_submitted_transactions s) sig n h"
      using X TxWithdrawal by (simp add: submitted_withdrawal_def)
    have "sig \<notin> sweep_sigs (d_swept (st_deposits s))"
      using txs_okD(6)[OF transactions_wfD(3)[OF state_wfD(3)[OF wf]], of sig] X TxWithdrawal by simp
    then show ?thesis using nonces_wf_free[OF nw sub f] dw by (auto simp: s2)
  qed
  then show "deposits_wf (st_deposits s2)"
    "nonces_wf (st_nonce_pool s2) (st_created_withdrawal_txs s) (fst (iom_remove sig (st_submitted_transactions s)))"
    "sweep_sigs (d_swept (st_deposits s2)) = sweep_sigs (d_swept (st_deposits s)) - {sig}"
    "sweep_sigs (d_finalized (st_deposits s2)) \<subseteq> insert sig (sweep_sigs (d_finalized (st_deposits s)))" by simp_all
  show "st_created_withdrawal_requests s2 = st_created_withdrawal_requests s"
    "st_created_withdrawal_txs s2 = st_created_withdrawal_txs s"
    "st_failed_transactions s2 = st_failed_transactions s"
    "st_succeeded_transactions s2 = st_succeeded_transactions s"
    "st_successful_withdrawal_requests s2 = st_successful_withdrawal_requests s"
    "st_failed_withdrawal_requests s2 = st_failed_withdrawal_requests s"
    using s2 by (auto split: minter_transaction.splits)
qed

lemma state_wf_succeeded:
  assumes wf: "state_wf s" and su: "process_transaction_succeeded sig s = Some s'"
  shows "state_wf s'"
proof -
  from su obtain tx s2 where X: "iom_get (st_submitted_transactions s) sig = Some tx"
    and s2: "case tx of TxSweepDeposit _ \<Rightarrow> \<exists>d. finalize_swept sig (st_deposits s) = Some d \<and> s2 = s\<lparr>st_deposits := d\<rparr>
      | TxWithdrawal _ n _ _ \<Rightarrow> \<exists>pool. free_nonce n (st_nonce_pool s) = Some pool \<and> s2 = s\<lparr>st_nonce_pool := pool\<rparr>"
    and s': "s' = s2\<lparr>st_submitted_transactions := fst (iom_remove sig (st_submitted_transactions s)),
       st_succeeded_transactions := bs_insert sig (st_succeeded_transactions s),
       st_successful_withdrawal_requests := extract_sent sig s (st_successful_withdrawal_requests s),
       st_sent_withdrawal_requests := remaining_sent sig s\<rparr>"
    by (rule process_transaction_succeededD)
  have "case tx of TxSweepDeposit _ \<Rightarrow> \<exists>d. (finalize_swept sig (st_deposits s) = Some d \<or>
         drop_swept sig (st_deposits s) = Some d) \<and> s2 = s\<lparr>st_deposits := d\<rparr>
      | TxWithdrawal _ n _ _ \<Rightarrow> \<exists>pool. free_nonce n (st_nonce_pool s) = Some pool \<and> s2 = s\<lparr>st_nonce_pool := pool\<rparr>"
    using s2 by (cases tx) auto
  note parts = finalized_parts[OF wf X this]
  note tw = transactions_wfD[OF state_wfD(3)[OF wf]]
  have "txs_ok ((iom_get (st_submitted_transactions s))(sig := None)) (insert sig {sig. bm_contains (st_succeeded_transactions s) sig})
       (iom_get (st_failed_transactions s)) (bm_get (remaining_sent sig s))
       (bm_get (extract_sent sig s (st_successful_withdrawal_requests s))) (bm_get (st_failed_withdrawal_requests s))
       (sweep_sigs (d_swept (st_deposits s2))) (sweep_sigs (d_finalized (st_deposits s2)))"
    by (rule txs_ok_succeed[OF tw(3) _ remaining_sent_SomeD _ parts(3,4)]) (use X in \<open>auto dest: extract_sent_SomeD\<close>)
  moreover have "insert sig {sig. bm_contains (st_succeeded_transactions s) sig} =
      {x. bm_contains (bs_insert sig (st_succeeded_transactions s)) x}" by auto
  ultimately have "transactions_wf s'" using iom_wf_remove[OF tw(1), of sig] tw(2)
    by (simp add: transactions_wf_def s' parts(5-) iom_get_remove_fun)
  moreover have "requests_wf s'" by (rule wmoves_wf[OF succeeded_wmoves[OF su] state_wfD(2)[OF wf]])
  ultimately show ?thesis using parts(1,2) state_wfD(4)[OF wf] by (simp add: state_wf_def s' parts(5-))
qed

lemma state_wf_failed:
  assumes wf: "state_wf s" and su: "process_transaction_failed sig s = Some s'"
    and room: "iom_room (st_failed_transactions s)"
  shows "state_wf s'"
proof -
  from su obtain tx s2 where X: "iom_get (st_submitted_transactions s) sig = Some tx"
    and s2: "case tx of TxSweepDeposit _ \<Rightarrow> \<exists>d. drop_swept sig (st_deposits s) = Some d \<and> s2 = s\<lparr>st_deposits := d\<rparr>
      | TxWithdrawal _ n _ _ \<Rightarrow> \<exists>pool. free_nonce n (st_nonce_pool s) = Some pool \<and> s2 = s\<lparr>st_nonce_pool := pool\<rparr>"
    and s': "s' = s2\<lparr>st_submitted_transactions := fst (iom_remove sig (st_submitted_transactions s)),
       st_failed_transactions := fst (iom_insert sig tx (st_failed_transactions s)),
       st_failed_withdrawal_requests := extract_sent sig s (st_failed_withdrawal_requests s),
       st_sent_withdrawal_requests := remaining_sent sig s\<rparr>"
    by (rule process_transaction_failedD)
  have "case tx of TxSweepDeposit _ \<Rightarrow> \<exists>d. (finalize_swept sig (st_deposits s) = Some d \<or>
         drop_swept sig (st_deposits s) = Some d) \<and> s2 = s\<lparr>st_deposits := d\<rparr>
      | TxWithdrawal _ n _ _ \<Rightarrow> \<exists>pool. free_nonce n (st_nonce_pool s) = Some pool \<and> s2 = s\<lparr>st_nonce_pool := pool\<rparr>"
    using s2 by (cases tx) auto
  note parts = finalized_parts[OF wf X this]
  note tw = transactions_wfD[OF state_wfD(3)[OF wf]]
  have fin: "d_finalized (st_deposits s2) = d_finalized (st_deposits s)"
    using s2 drop_swept_sweeps(2)[OF state_wfD(1)[OF wf]] by (cases tx) auto
  have "txs_ok ((iom_get (st_submitted_transactions s))(sig := None)) {sig. bm_contains (st_succeeded_transactions s) sig}
       ((iom_get (st_failed_transactions s))(sig \<mapsto> tx)) (bm_get (remaining_sent sig s))
       (bm_get (st_successful_withdrawal_requests s)) (bm_get (extract_sent sig s (st_failed_withdrawal_requests s)))
       (sweep_sigs (d_swept (st_deposits s2))) (sweep_sigs (d_finalized (st_deposits s)))"
    by (rule txs_ok_fail[OF tw(3) X remaining_sent_SomeD extract_sent_SomeD parts(3)])
  then have "transactions_wf s'" using iom_wf_remove[OF tw(1), of sig] iom_wf_insert[OF tw(2) room, of sig tx]
    by (simp add: transactions_wf_def s' parts(5-) fin iom_get_remove_fun iom_get_insert_fun)
  moreover have "requests_wf s'" by (rule wmoves_wf[OF failed_wmoves[OF su] state_wfD(2)[OF wf]])
  ultimately show ?thesis using parts(1,2) state_wfD(4)[OF wf] by (simp add: state_wf_def s' parts(5-))
qed

lemma state_wf_expired:
  assumes wf: "state_wf s" and ex: "process_transaction_expired sig s = Some s'"
  shows "state_wf s'" "wstages s' = wstages s"
proof -
  from ex obtain h d where X: "iom_get (st_submitted_transactions s) sig = Some (TxSweepDeposit h)"
    and d: "drop_swept sig (st_deposits s) = Some d"
    and s': "s' = s\<lparr>st_submitted_transactions := fst (iom_remove sig (st_submitted_transactions s)), st_deposits := d\<rparr>"
    by (rule process_transaction_expiredD)
  show st: "wstages s' = wstages s" by (simp add: s' wstages_def fun_eq_iff)
  have rw: "requests_wf s'" using wstages_eq_wf(1)[of s' s] st state_wfD(2)[OF wf] by simp
  have fin: "case TxSweepDeposit h of TxSweepDeposit _ \<Rightarrow> \<exists>d'. (finalize_swept sig (st_deposits s) = Some d' \<or>
         drop_swept sig (st_deposits s) = Some d') \<and> s\<lparr>st_deposits := d\<rparr> = s\<lparr>st_deposits := d'\<rparr>
      | TxWithdrawal _ n _ _ \<Rightarrow> \<exists>pool. free_nonce n (st_nonce_pool s) = Some pool \<and> s\<lparr>st_deposits := d\<rparr> = s\<lparr>st_nonce_pool := pool\<rparr>"
    using d by auto
  note parts = finalized_parts(1,2)[OF wf X fin]
  note tw = transactions_wfD[OF state_wfD(3)[OF wf]]
  have sw: "sweep_sigs (d_swept d) = sweep_sigs (d_swept (st_deposits s)) - {sig}" "d_finalized d = d_finalized (st_deposits s)"
    using drop_swept_sweeps[OF state_wfD(1)[OF wf] d] by simp_all
  have "transactions_wf s'" using txs_ok_expire[OF tw(3), of sig] X iom_wf_remove[OF tw(1), of sig] tw(2)
    by (simp add: transactions_wf_def s' iom_get_remove_fun sw)
  then show "state_wf s'" using rw parts state_wfD(4)[OF wf] by (simp add: state_wf_def s')
qed

subsection \<open>Counters\<close>

text \<open>The sequence numbers, which wrap at \<open>2^64\<close>.\<close>

definition counters_le :: "minter_state \<Rightarrow> nat \<Rightarrow> bool" where
  "counters_le s n \<longleftrightarrow> unat (d_next_id (st_deposits s)) \<le> n \<and>
     unat (iom_next_seq (st_submitted_transactions s)) \<le> n \<and> unat (iom_next_seq (st_failed_transactions s)) \<le> n"

lemma counters_room:
  assumes "counters_le s n" "n + 1 < 2 ^ 64"
  shows "d_next_id (st_deposits s) \<noteq> - 1" "iom_room (st_submitted_transactions s)" "iom_room (st_failed_transactions s)"
proof -
  have "unat (- 1 :: u64) = 2 ^ 64 - 1" by (simp add: unsigned_minus_1_eq_mask mask_eq_exp_minus_1)
  then show "d_next_id (st_deposits s) \<noteq> - 1" using assms by (auto simp: counters_le_def)
  show "iom_room (st_submitted_transactions s)" "iom_room (st_failed_transactions s)"
    using assms by (simp_all add: counters_le_def iom_room_def)
qed

lemma counters_le_mono: "counters_le s n \<Longrightarrow> n \<le> m \<Longrightarrow> counters_le s m"
  by (auto simp: counters_le_def)

lemma unat_Suc_le: "unat (x + 1) \<le> Suc (unat x)" for x :: "'a::len word"
  by (simp add: unat_word_ariths)

lemma counters_deposits:
  assumes "counters_le s n" "deposits_wf (st_deposits s)" "deposits_step lib (st_deposits s) d"
  shows "counters_le (s\<lparr>st_deposits := d\<rparr>) (Suc n)"
proof -
  have "d_next_id d = d_next_id (st_deposits s) \<or> d_next_id d = d_next_id (st_deposits s) + 1"
    using step_moves[OF assms(2,3)] by (auto elim: queueD)
  then have "unat (d_next_id d) \<le> Suc (unat (d_next_id (st_deposits s)))" using unat_Suc_le by auto
  then show ?thesis using assms(1) by (simp add: counters_le_def)
qed

lemma counters_fields:
  assumes "st_deposits s' = st_deposits s" "st_submitted_transactions s' = st_submitted_transactions s"
    "st_failed_transactions s' = st_failed_transactions s" "counters_le s n"
  shows "counters_le s' (Suc n)"
  using assms by (simp add: counters_le_def)

lemma counters_insert:
  "counters_le s n \<Longrightarrow> counters_le (s\<lparr>st_submitted_transactions := fst (iom_insert sig tx (st_submitted_transactions s))\<rparr>) (Suc n)"
  "counters_le s n \<Longrightarrow> counters_le (s\<lparr>st_failed_transactions := fst (iom_insert sig tx (st_failed_transactions s))\<rparr>) (Suc n)"
  using unat_Suc_le[of "iom_next_seq (st_submitted_transactions s)"] unat_Suc_le[of "iom_next_seq (st_failed_transactions s)"]
  by (simp_all add: counters_le_def)

lemma counters_submitted:
  assumes wf: "state_wf s" and cs: "counters_le s n"
    and tr: "process_transaction_submitted lib sig msg signers purpose t s = Some s'"
  shows "counters_le s' (Suc n)"
proof (cases purpose)
  case (PurposeSweepDeposit ids h)
  from tr[unfolded PurposeSweepDeposit] obtain key d received where
    d: "sweep_deposits lib ids (minter_address lib key) msg sig (st_deposits s) = Some (d, received)"
    and s': "s' = s\<lparr>st_deposits := d, st_submitted_transactions := fst (iom_insert sig (TxSweepDeposit h) (st_submitted_transactions s))\<rparr>"
    by (rule process_transaction_submittedD) auto
  have "d_next_id d = d_next_id (st_deposits s)"
    using sweep_deposits_moves(1)[OF state_wfD(1)[OF wf] d] by (simp add: moves_def)
  then show ?thesis using cs unat_Suc_le[of "iom_next_seq (st_submitted_transactions s)"]
    by (simp add: counters_le_def s')
next
  case (PurposeWithdrawal bs)
  from tr[unfolded PurposeWithdrawal] obtain na c m s1 where "bm_get (st_created_withdrawal_txs s) na = Some c"
    and sf: "sent_from sig (s\<lparr>st_created_withdrawal_txs := bm_remove na (st_created_withdrawal_txs s)\<rparr>) bs s1"
    and s': "s' = s1\<lparr>st_submitted_transactions := fst (iom_insert sig (TxWithdrawal msg na (cw_nonce_value c) t) (st_submitted_transactions s))\<rparr>"
    by (rule submitted_withdrawalD)
  show ?thesis using cs unat_Suc_le[of "iom_next_seq (st_submitted_transactions s)"]
    by (simp add: s' counters_le_def sent_from_same[OF sf])
qed

lemma counters_finalized:
  assumes wf: "state_wf s" and cs: "counters_le s n"
    and s2: "case tx of TxSweepDeposit _ \<Rightarrow> \<exists>d. (finalize_swept sig (st_deposits s) = Some d \<or>
         drop_swept sig (st_deposits s) = Some d) \<and> s2 = s\<lparr>st_deposits := d\<rparr>
      | TxWithdrawal _ n _ _ \<Rightarrow> \<exists>pool. free_nonce n (st_nonce_pool s) = Some pool \<and> s2 = s\<lparr>st_nonce_pool := pool\<rparr>"
  shows "counters_le s2 (Suc n)"
proof (cases tx)
  case (TxSweepDeposit h)
  then show ?thesis using s2 counters_deposits[OF cs state_wfD(1)[OF wf] deposits_step.finalize]
    counters_deposits[OF cs state_wfD(1)[OF wf] deposits_step.drop] by auto
next
  case (TxWithdrawal m na h t)
  then show ?thesis using s2 counters_fields[OF _ _ _ cs] by auto
qed

lemma counters_succeeded:
  assumes wf: "state_wf s" and cs: "counters_le s n" and tr: "process_transaction_succeeded sig s = Some s'"
  shows "counters_le s' (Suc n)"
proof -
  from tr obtain tx s2 where s2: "case tx of TxSweepDeposit _ \<Rightarrow> \<exists>d. finalize_swept sig (st_deposits s) = Some d \<and> s2 = s\<lparr>st_deposits := d\<rparr>
      | TxWithdrawal _ n _ _ \<Rightarrow> \<exists>pool. free_nonce n (st_nonce_pool s) = Some pool \<and> s2 = s\<lparr>st_nonce_pool := pool\<rparr>"
    and s': "s' = s2\<lparr>st_submitted_transactions := fst (iom_remove sig (st_submitted_transactions s)),
       st_succeeded_transactions := bs_insert sig (st_succeeded_transactions s),
       st_successful_withdrawal_requests := extract_sent sig s (st_successful_withdrawal_requests s),
       st_sent_withdrawal_requests := remaining_sent sig s\<rparr>"
    by (rule process_transaction_succeededD)
  have "counters_le s2 (Suc n)" by (rule counters_finalized[OF wf cs, where tx = tx and sig = sig]) (use s2 in \<open>cases tx; auto\<close>)
  then show ?thesis using cs by (simp add: s' counters_le_def)
qed

lemma counters_failed:
  assumes wf: "state_wf s" and cs: "counters_le s n" and tr: "process_transaction_failed sig s = Some s'"
  shows "counters_le s' (Suc n)"
proof -
  from tr obtain tx s2 where s2: "case tx of TxSweepDeposit _ \<Rightarrow> \<exists>d. drop_swept sig (st_deposits s) = Some d \<and> s2 = s\<lparr>st_deposits := d\<rparr>
      | TxWithdrawal _ n _ _ \<Rightarrow> \<exists>pool. free_nonce n (st_nonce_pool s) = Some pool \<and> s2 = s\<lparr>st_nonce_pool := pool\<rparr>"
    and s': "s' = s2\<lparr>st_submitted_transactions := fst (iom_remove sig (st_submitted_transactions s)),
       st_failed_transactions := fst (iom_insert sig tx (st_failed_transactions s)),
       st_failed_withdrawal_requests := extract_sent sig s (st_failed_withdrawal_requests s),
       st_sent_withdrawal_requests := remaining_sent sig s\<rparr>"
    by (rule process_transaction_failedD)
  have "counters_le s2 (Suc n)" by (rule counters_finalized[OF wf cs, where tx = tx and sig = sig]) (use s2 in \<open>cases tx; auto\<close>)
  then show ?thesis using cs unat_Suc_le[of "iom_next_seq (st_failed_transactions s)"] by (simp add: s' counters_le_def)
qed

lemma counters_expired:
  assumes wf: "state_wf s" and cs: "counters_le s n" and tr: "process_transaction_expired sig s = Some s'"
  shows "counters_le s' (Suc n)"
proof -
  from tr obtain h d where d: "drop_swept sig (st_deposits s) = Some d"
    and s': "s' = s\<lparr>st_submitted_transactions := fst (iom_remove sig (st_submitted_transactions s)), st_deposits := d\<rparr>"
    by (rule process_transaction_expiredD)
  show ?thesis using counters_deposits[OF cs state_wfD(1)[OF wf] deposits_step.drop[OF d]] cs
    by (simp add: s' counters_le_def)
qed

lemma counters_created:
  assumes cs: "counters_le s n" and tr: "process_transaction_created bs na h s = Some s'"
  shows "counters_le s' (Suc n)"
proof -
  from tr obtain pool s1 balance where cf: "created_from s bs s1"
    and s': "s' = s1\<lparr>st_nonce_pool := pool, st_balance := balance,
       st_created_withdrawal_txs := bm_insert na \<lparr>cw_nonce_value = h, cw_burn_indices = bs\<rparr> (st_created_withdrawal_txs s)\<rparr>"
    by (rule process_transaction_createdD)
  show ?thesis using counters_fields[OF _ _ _ cs] by (simp add: s' created_from_same[OF cf])
qed

lemma counters_credited:
  assumes wf: "state_wf s" and cs: "counters_le s n" and tr: "process_credited_sweep sig received cs' t s = Some s'"
  shows "counters_le s' (Suc n)"
proof -
  from tr obtain d w total where d: "credit_sweep sig cs' t (st_deposits s) = Some (d, w)"
    and s': "s' = s\<lparr>st_deposits := d,
       st_collected_automatic_deposit_fees := st_collected_automatic_deposit_fees s + deposit_fees w,
       st_balance := st_balance s + received\<rparr>" by (rule process_credited_sweepD)
  show ?thesis using counters_deposits[OF cs state_wfD(1)[OF wf] deposits_step.credit[OF d]] by (simp add: s' counters_le_def)
qed

lemma counters_lift:
  assumes "state_wf s" "counters_le s n" "lift_deposits f s = Some s'"
    and "\<And>d. f (st_deposits s) = Some d \<Longrightarrow> deposits_step lib (st_deposits s) d"
  shows "counters_le s' (Suc n)"
  using assms(3) by (rule lift_depositsD) (use counters_deposits[OF assms(2) state_wfD(1)[OF assms(1)] assms(4)] in simp)

subsection \<open>Every transition keeps the invariant\<close>

lemmas payload_defs = apply_state_transition_def process_queued_deposit_def process_quarantined_sweep_def
  process_minted_swept_deposit_def process_quarantined_pending_mint_def

lemma transition_counters:
  assumes wf: "state_wf s" and tr: "apply_state_transition lib payload t s = Some s'" and cs: "counters_le s n"
  shows "counters_le s' (Suc n)"
proof (cases payload)
  case (EvUpgrade args)
  then show ?thesis using tr counters_fields[OF _ _ _ cs]
    by (auto simp: apply_state_transition_def upgrade_settings_def elim!: upgradeD split: sum.splits)
next
  case (EvAcceptedWithdrawalRequest r)
  then have "process_accepted_withdrawal r t s = Some s'" using tr by (simp add: apply_state_transition_def)
  from process_accepted_withdrawalD(1)[OF this] show ?thesis using counters_fields[OF _ _ _ cs] by simp
next
  case (EvMinterPublicKeyFetched k c)
  then show ?thesis using tr counters_fields[OF _ _ _ cs]
    by (auto simp: apply_state_transition_def cache_minter_public_key_def split: option.splits if_splits)
next
  case (EvQueuedDeposit i a ad b f)
  then show ?thesis using tr counters_lift[OF wf cs, where lib = lib] by (simp add: payload_defs) (metis deposits_step.queue)
next
  case (EvQuarantinedSweep sig)
  then show ?thesis using tr counters_lift[OF wf cs, where lib = lib] by (simp add: payload_defs) (metis deposits_step.quarantine)
next
  case (EvMintedSweptDeposit i b)
  then show ?thesis using tr counters_lift[OF wf cs, where lib = lib] by (simp add: payload_defs) (metis deposits_step.mint)
next
  case (EvQuarantinedPendingMint i)
  then show ?thesis using tr counters_lift[OF wf cs, where lib = lib] by (simp add: payload_defs) (metis deposits_step.give_up)
qed (use tr in \<open>auto simp: apply_state_transition_def intro: counters_submitted[OF wf cs] counters_succeeded[OF wf cs]
   counters_failed[OF wf cs] counters_expired[OF wf cs] counters_credited[OF wf cs] counters_created[OF cs]\<close>)

text \<open>An accepted request has a burn index that no earlier request has.\<close>

definition fresh_request :: "event_type \<Rightarrow> minter_state \<Rightarrow> bool" where
  "fresh_request payload s \<longleftrightarrow> (case payload of
     EvAcceptedWithdrawalRequest r \<Rightarrow> wview s (wr_burn_block_index r) = None | _ \<Rightarrow> True)"

lemma transition_wf:
  assumes wf: "state_wf s" and tr: "apply_state_transition lib payload t s = Some s'"
    and fresh: "fresh_request payload s" and cs: "counters_le s n" "n + 1 < 2 ^ 64"
  shows "state_wf s'"
proof (cases payload)
  case (EvSubmittedTransaction sig msg signers purpose)
  then show ?thesis using tr state_wf_submitted_sweep(1)[OF wf counters_room(2)[OF cs]]
    state_wf_submitted_withdrawal[OF wf counters_room(2)[OF cs]]
    by (cases purpose) (auto simp: apply_state_transition_def)
next
  case (EvAcceptedWithdrawalRequest r)
  then show ?thesis using tr fresh state_wf_accepted[OF wf] by (auto simp: apply_state_transition_def fresh_request_def)
next
  case (EvMinterPublicKeyFetched k c)
  then have "wf_fields s' = wf_fields s" using tr cache_key_fields by (simp add: apply_state_transition_def)
  then show ?thesis using wf_fields_cong(1) wf by blast
next
  case (EvUpgrade args)
  then show ?thesis using tr state_wf_upgrade(1)[OF wf] by (auto simp: apply_state_transition_def split: sum.splits)
qed (use tr in \<open>auto simp: apply_state_transition_def
  intro: state_wf_queue[OF wf _ counters_room(1)[OF cs]] state_wf_minted[OF wf] state_wf_quarantined_mint[OF wf]
    state_wf_quarantined_sweep[OF wf] state_wf_credited[OF wf] state_wf_created[OF wf]
    state_wf_succeeded[OF wf] state_wf_failed[OF wf _ counters_room(3)[OF cs]] state_wf_expired(1)[OF wf]\<close>)

end
