(* ===== verification/Example_Log.thy ===== *)
theory Example_Log
  imports Audit_Log Deposit_Stages
begin

text \<open>
  A concrete life of the minter, used as the common witness of the properties of the log: two
  deposits are queued, swept, credited and one is minted; a withdrawal is accepted, bound to a nonce
  account, submitted and finalized.
\<close>

lemma bm_remove_insert:
  "bm_remove k (bm_insert k' v m) = (if k = k' then bm_remove k m else bm_insert k' v (bm_remove k m))"
  by (rule bm_ext) simp

lemma bm_remove_empty: "bm_remove k bm_empty = bm_empty"
  by (rule bm_ext) simp

lemma bm_insert_insert: "bm_insert k v (bm_insert k w m) = bm_insert k v m"
  by (rule bm_ext) simp

lemma bm_filter_empty: "bm_filter P bm_empty = bm_empty"
  by (rule bm_ext) simp

subsection \<open>Initialization\<close>

definition example_init_args :: init_args where
  "example_init_args = \<lparr>ia_sol_rpc_canister_id = Principal [1], ia_ledger_canister_id = Principal [2],
     ia_master_key_name = MainnetProdKey1, ia_minimum_withdrawal_amount = 2000000,
     ia_minimum_deposit_amount = 2000000, ia_withdrawal_fee = 10000,
     ia_deposit_sol_required_cycles = 100000000000, ia_solana_network = Mainnet, ia_deposit_sol_fee = 0,
     ia_nonce_accounts = [''n''], ia_automatic_deposit_fee = None\<rparr>"

definition example_pool :: nonce_pool where
  "example_pool = \<lparr>np_accounts = bm_insert 1 nonce_account_default bm_empty\<rparr>"

definition example_s0 :: minter_state where
  "example_s0 = \<lparr>
     st_minter_public_key = None, st_master_key_name = MainnetProdKey1,
     st_ledger_canister_id = Principal [2], st_sol_rpc_canister_id = Principal [1],
     st_solana_network = Mainnet, st_withdrawal_fee = 10000,
     st_minimum_withdrawal_amount = 2000000, st_minimum_deposit_amount = 2000000,
     st_deposit_sol_required_cycles = 100000000000, st_deposit_sol_fee = 0,
     st_automatic_deposit_fee = None, st_collected_automatic_deposit_fees = 0,
     st_pending_deposit_sol_request_guards = bm_empty, st_pending_withdrawal_request_guards = bm_empty,
     st_deposits = deposits_default,
     st_pending_withdrawal_requests = bm_empty, st_created_withdrawal_requests = bm_empty,
     st_sent_withdrawal_requests = bm_empty, st_successful_withdrawal_requests = bm_empty,
     st_failed_withdrawal_requests = bm_empty,
     st_submitted_transactions = iom_new, st_created_withdrawal_txs = bm_empty,
     st_succeeded_transactions = bm_empty, st_failed_transactions = iom_new,
     st_nonce_pool = example_pool, st_active_tasks = bm_empty, st_balance = 0\<rparr>"

lemma example_pool_new: "nonce_pool_new [1] = Inr example_pool"
  by (simp add: nonce_pool_new_def add_accounts_def nonce_pool_default_def example_pool_def bm_extend_def)

lemma example_validate: "validate example_s0 = Inr ()"
  by (simp add: validate_def example_s0_def anonymous_principal_def bm_collect_def bm_extend_def bm_len_insert
      MAX_SIGNATURES_def FEE_PER_SIGNATURE_def RENT_EXEMPTION_THRESHOLD_def GET_BALANCE_CYCLES_def)

lemma example_init: "state_from_init example_sdk example_init_args = Inr example_s0"
  using example_validate
  by (simp add: state_from_init_def example_init_args_def parse_nonce_accounts_def example_sdk_def
      example_pool_new example_s0_def)

subsection \<open>Deposits\<close>

definition example_s1 :: minter_state where
  "example_s1 = example_s0\<lparr>st_minter_public_key := Some \<lparr>spk_public_key = 9, spk_chain_code = 3\<rparr>\<rparr>"

definition example_s2 :: minter_state where
  "example_s2 = example_s1\<lparr>st_deposits := example_queued\<rparr>"

definition example_two_queued :: deposits where
  "example_two_queued = example_queued\<lparr>
     d_in_flight_ids := bm_insert (qd_account (example_deposit 2 1890880)) 1 (d_in_flight_ids example_queued),
     d_latest_ids := bm_insert (qd_account (example_deposit 2 1890880)) 1 (d_latest_ids example_queued),
     d_queued := bm_insert 1 (example_deposit 2 1890880) (d_queued example_queued),
     d_queued_at_by_id := bm_insert 1 6 (d_queued_at_by_id example_queued), d_next_id := 2\<rparr>"

definition example_s3 :: minter_state where
  "example_s3 = example_s2\<lparr>st_deposits := example_two_queued\<rparr>"

definition example_sweeps :: sweeps where
  "example_sweeps = \<lparr>by_signature = bm_insert 100 example_sweep bm_empty\<rparr>"

definition example_s4 :: minter_state where
  "example_s4 = example_s3\<lparr>st_deposits := example_two_queued\<lparr>d_queued := bm_empty, d_swept := example_sweeps\<rparr>,
     st_submitted_transactions := fst (iom_insert 100 (TxSweepDeposit 50) iom_new)\<rparr>"

definition example_s5 :: minter_state where
  "example_s5 = example_s4\<lparr>st_deposits := example_two_queued\<lparr>d_queued := bm_empty, d_finalized := example_sweeps\<rparr>,
     st_submitted_transactions := fst (iom_remove 100 (fst (iom_insert 100 (TxSweepDeposit 50) iom_new))),
     st_succeeded_transactions := bs_insert 100 bm_empty\<rparr>"

definition example_mint_of :: "queued_deposit \<Rightarrow> lamport \<Rightarrow> pending_mint" where
  "example_mint_of q amount = \<lparr>pm_deposit = \<lparr>sd_deposit = q, sd_signature = 100\<rparr>,
     pm_amount_to_mint = amount, pm_created_at_time = 16\<rparr>"

definition example_credited :: deposits where
  "example_credited = example_two_queued\<lparr>d_queued := bm_empty,
     d_pending_mints := bm_insert 1 (example_mint_of (example_deposit 2 1890880) 995000)
       (bm_insert 0 (example_mint_of (example_deposit 1 2890880) 1995000) bm_empty)\<rparr>"

definition example_s6 :: minter_state where
  "example_s6 = example_s5\<lparr>st_deposits := example_credited, st_balance := 2990000\<rparr>"

definition example_minted :: deposits where
  "example_minted = example_credited\<lparr>
     d_pending_mints := bm_insert 1 (example_mint_of (example_deposit 2 1890880) 995000) bm_empty,
     d_in_flight_ids := bm_remove (qd_account (example_deposit 1 2890880)) (d_in_flight_ids example_credited),
     d_queued_at_by_id := bm_remove 0 (d_queued_at_by_id example_credited),
     d_minted := bm_insert 0 \<lparr>ms_deposit = \<lparr>sd_deposit = example_deposit 1 2890880, sd_signature = 100\<rparr>,
       ms_minted_amount = 1995000, ms_mint_block_index = 1\<rparr> bm_empty\<rparr>"

definition example_s7 :: minter_state where
  "example_s7 = example_s6\<lparr>st_deposits := example_minted\<rparr>"

definition example_credits :: "credited_deposit list" where
  "example_credits = [\<lparr>cd_deposit_id = 0, cd_amount_to_mint = 1995000\<rparr>, \<lparr>cd_deposit_id = 1, cd_amount_to_mint = 995000\<rparr>]"

definition example_queue_event :: "deposit_sol_id \<Rightarrow> queued_deposit \<Rightarrow> event_type" where
  "example_queue_event i q = EvQueuedDeposit i (qd_account q) (qd_address q) (qd_balance q) (qd_deposit_fee q)"

lemma example_step1:
  "apply_state_transition lib (EvMinterPublicKeyFetched 9 3) 11 example_s0 = Some example_s1"
  by (simp add: apply_state_transition_def cache_minter_public_key_def example_s0_def example_s1_def)

lemma example_deposits_s1: "st_deposits example_s1 = deposits_default"
  by (simp add: example_s1_def example_s0_def)

lemma queued_deposit_fields:
  "\<lparr>qd_account = qd_account q, qd_address = qd_address q, qd_balance = qd_balance q, qd_deposit_fee = qd_deposit_fee q\<rparr> = q"
  by (cases q) simp

lemma example_step2:
  "apply_state_transition lib (example_queue_event 0 (example_deposit 1 2890880)) 5 example_s1 = Some example_s2"
  using example_queue
  by (simp add: apply_state_transition_def example_queue_event_def process_queued_deposit_def lift_deposits_def
      queued_deposit_fields       example_deposits_s1 example_s2_def)

lemma example_accounts: "qd_account (example_deposit 2 b) \<noteq> qd_account (example_deposit 1 b')"
  by (simp add: example_deposit_def account_from_def)

lemma example_queue2: "queue 1 (example_deposit 2 1890880) 6 example_queued = Some example_two_queued"
  by (simp add: queue_def example_two_queued_def example_queued_def deposits_default_def watchlist_remove_def
      watchlist_default_def tsm_remove_def tsm_new_def example_accounts)

lemma example_step3:
  "apply_state_transition lib (example_queue_event 1 (example_deposit 2 1890880)) 6 example_s2 = Some example_s3"
  using example_queue2
  by (simp add: apply_state_transition_def example_queue_event_def process_queued_deposit_def lift_deposits_def
      queued_deposit_fields       example_s3_def example_s2_def)

lemma example_sweep_deposits:
  "sweep_deposits example_sdk [0, 1] 9 (Legacy example_sweep_message) 100 example_two_queued =
     Some (example_two_queued\<lparr>d_queued := bm_empty, d_swept := example_sweeps\<rparr>, 2990000)"
proof -
  have "take_queued [0, 1] (d_queued example_two_queued) = Some (example_deposits, bm_empty)"
    by (simp add: example_two_queued_def example_queued_def deposits_default_def example_deposits_def
        bm_remove_insert bm_remove_empty)
  moreover have "recover example_sdk example_deposits 9 (Legacy example_sweep_message) = Some (Inr example_sweep)"
    by (simp add: recover_def example_plan example_sweep_message_simps flip: example_sweep_message_def)
  moreover have "sweeps_insert 100 example_sweep (d_swept example_two_queued) = Some example_sweeps"
    by (simp add: sweeps_insert_def example_two_queued_def example_queued_def deposits_default_def
        example_sweeps_def sweeps_empty_def sweeps_deposit_def assert_that_bind)
  ultimately show ?thesis by (simp add: sweep_deposits_def example_sweep_simps assert_that_bind)
qed

lemma example_minter_address: "minter_address example_sdk \<lparr>spk_public_key = 9, spk_chain_code = c\<rparr> = 9"
  by (simp add: minter_address_def example_sdk_def)

lemma example_step4:
  "apply_state_transition example_sdk (EvSubmittedTransaction 100 (Legacy example_sweep_message) signers
     (PurposeSweepDeposit [0, 1] 50)) 14 example_s3 = Some example_s4"
  using example_sweep_deposits
  by (simp add: apply_state_transition_def process_transaction_submitted_def example_s4_def example_s3_def
      example_s2_def example_s1_def example_s0_def assert_that_bind iom_contains_key_iff example_minter_address
      Let_def case_prod_unfold)

lemma example_two_queued_sweeps:
  "d_swept example_two_queued = sweeps_empty" "d_finalized example_two_queued = sweeps_empty"
  "d_pending_mints example_two_queued = bm_empty" "d_minted example_two_queued = bm_empty"
  by (simp_all add: example_two_queued_def example_queued_def deposits_default_def)

lemma example_sweeps_remove: "sweeps_remove 100 example_sweeps = Some (sweeps_empty, example_sweep)"
  by (simp add: sweeps_remove_def example_sweeps_def sweeps_empty_def bm_remove_insert bm_remove_empty)

lemma example_finalize:
  "finalize_swept 100 (example_two_queued\<lparr>d_queued := bm_empty, d_swept := example_sweeps\<rparr>) =
     Some (example_two_queued\<lparr>d_queued := bm_empty, d_finalized := example_sweeps\<rparr>)"
proof -
  have "sweeps_insert 100 example_sweep sweeps_empty = Some example_sweeps"
    by (simp add: sweeps_insert_def example_sweeps_def sweeps_empty_def sweeps_deposit_def assert_that_bind)
  then show ?thesis
    by (simp add: finalize_swept_def example_sweeps_remove example_two_queued_sweeps(2))
       (simp add: example_two_queued_def example_queued_def deposits_default_def)
qed

lemmas example_no_withdrawals = example_s4_def example_s3_def example_s2_def example_s1_def example_s0_def

lemma example_step5:
  "apply_state_transition lib (EvSucceededTransaction 100) 15 example_s4 = Some example_s5"
  using example_finalize
  by (simp add: apply_state_transition_def process_transaction_succeeded_def example_s5_def example_no_withdrawals
      iom_contains_key_iff lift_deposits_def extract_sent_def remaining_sent_def Let_def case_prod_unfold
      bm_extend_def assert_that_bind bm_filter_empty)

lemma example_credit:
  "credit_sweep 100 example_credits 16 (example_two_queued\<lparr>d_queued := bm_empty, d_finalized := example_sweeps\<rparr>) =
     Some (example_credited, example_sweep)"
proof -
  have "deposit_count example_sweep = 2"
    by (simp add: deposit_count_def bm_len_def example_sweep_def example_iter) (simp add: example_deposits_def)
  moreover have "bm_get (sw_deposits example_sweep) 0 = Some (example_deposit 1 2890880)"
    "bm_get (sw_deposits example_sweep) 1 = Some (example_deposit 2 1890880)"
    by (simp_all add: example_sweep_def example_deposits_def bm_get_collect)
  ultimately show ?thesis
    by (simp add: credit_sweep_def example_sweeps_remove example_credits_def assert_that_bind credit_one_def
        example_sweepable example_credited_def example_mint_of_def example_two_queued_def example_queued_def
        deposits_default_def)
qed

lemma example_fees: "deposit_fees example_sweep = 0"
  by (simp add: deposit_fees_def bm_values_def example_sweep_def example_iter)
     (simp add: example_deposits_def example_deposit_fee)

lemma example_step6:
  "apply_state_transition lib (EvCreditedSweep 100 2990000 example_credits) 16 example_s5 = Some example_s6"
proof -
  have "sum_list (map cd_amount_to_mint example_credits) = 2990000" by (simp add: example_credits_def)
  then show ?thesis using example_credit
    by (simp add: apply_state_transition_def process_credited_sweep_def example_s5_def example_fees
        checked_add_def assert_that_bind example_s6_def example_no_withdrawals)
qed

lemma example_step7:
  "apply_state_transition lib (EvMintedSweptDeposit 0 1) 17 example_s6 = Some example_s7"
proof -
  have "mint_deposit 0 1 example_credited = Some example_minted"
    by (simp add: mint_deposit_def release_in_flight_def example_minted_def example_credited_def bm_remove_insert
        bm_remove_empty pending_account_def example_mint_of_def assert_that_bind)
       (simp add: example_two_queued_def example_queued_def deposits_default_def example_accounts[symmetric])
  then show ?thesis
    by (simp add: apply_state_transition_def process_minted_swept_deposit_def lift_deposits_def example_s7_def example_s6_def)
qed

subsection \<open>Withdrawal\<close>

definition example_request :: withdrawal_request where
  "example_request = \<lparr>wr_account = account_from (Principal [1]) None, wr_solana_address = 33, wr_burn_block_index = 5,
     wr_burned_amount = 2000000, wr_amount_to_transfer = 1990000\<rparr>"

definition example_pending :: pending_withdrawal_request where
  "example_pending = \<lparr>pw_request = example_request, pw_created_at = 18\<rparr>"

definition example_s8 :: minter_state where
  "example_s8 = example_s7\<lparr>st_pending_withdrawal_requests := bm_insert 5 example_pending bm_empty\<rparr>"

definition example_bound_pool :: nonce_pool where
  "example_bound_pool = \<lparr>np_accounts = bm_insert 1 \<lparr>na_state = Bound, na_seen = bs_insert 44 bm_empty\<rparr> bm_empty\<rparr>"

definition example_s9 :: minter_state where
  "example_s9 = example_s8\<lparr>st_nonce_pool := example_bound_pool,
     st_pending_withdrawal_requests := bm_empty,
     st_created_withdrawal_requests := bm_insert 5 example_pending bm_empty, st_balance := 995000,
     st_created_withdrawal_txs := bm_insert 1 \<lparr>cw_nonce_value = 44, cw_burn_indices = [5]\<rparr> bm_empty\<rparr>"

definition example_withdrawal_message :: message where
  "example_withdrawal_message = sdk_new_with_blockhash example_sdk
     [sdk_advance_nonce_account example_sdk 1 9, sdk_transfer example_sdk 9 33 1990000] (Some 9) 44"

definition example_sent :: sent_withdrawal_request where
  "example_sent = \<lparr>sn_request = example_request, sn_signature = 200, sn_created_at = 18\<rparr>"

definition example_s10 :: minter_state where
  "example_s10 = example_s9\<lparr>st_created_withdrawal_txs := bm_empty, st_created_withdrawal_requests := bm_empty,
     st_sent_withdrawal_requests := bm_insert 5 example_sent bm_empty,
     st_submitted_transactions := fst (iom_insert 200
       (TxWithdrawal (Legacy example_withdrawal_message) 1 44 20) (st_submitted_transactions example_s5))\<rparr>"

definition example_s11 :: minter_state where
  "example_s11 = example_s10\<lparr>
     st_submitted_transactions := fst (iom_remove 200 (st_submitted_transactions example_s10)),
     st_nonce_pool := \<lparr>np_accounts = bm_insert 1 \<lparr>na_state = Free, na_seen = bs_insert 44 bm_empty\<rparr> bm_empty\<rparr>,
     st_succeeded_transactions := bs_insert 200 (st_succeeded_transactions example_s10),
     st_successful_withdrawal_requests := bm_insert 5 example_sent bm_empty,
     st_sent_withdrawal_requests := bm_empty\<rparr>"

lemmas example_base_defs = example_s7_def example_s6_def example_s5_def example_no_withdrawals

lemma example_step8:
  "apply_state_transition lib (EvAcceptedWithdrawalRequest example_request) 18 example_s7 = Some example_s8"
  by (simp add: apply_state_transition_def process_accepted_withdrawal_def example_s8_def example_pending_def
      example_request_def example_base_defs assert_that_bind)

lemma example_bind: "bind_nonce 1 44 example_pool = Some example_bound_pool"
  by (simp add: bind_nonce_def example_pool_def example_bound_pool_def nonce_account_default_def assert_that_bind
      bm_insert_insert)

lemma example_step9:
  "apply_state_transition lib (EvCreatedWithdrawalTransaction [5] 1 44) 19 example_s8 = Some example_s9"
proof -
  have "st_nonce_pool example_s8 = example_pool" by (simp add: example_s8_def example_base_defs)
  then show ?thesis
    by (simp add: apply_state_transition_def process_transaction_created_def example_bind create_one_def
        example_s9_def example_s8_def example_pending_def example_request_def checked_add_def checked_sub_def
        assert_that_bind bm_remove_insert bm_remove_empty Let_def BATCH_WITHDRAWAL_TX_FEE_def FEE_PER_SIGNATURE_def
        example_base_defs)
qed

lemma example_build:
  "(build_batch_withdrawal_message example_sdk 9 1 44 [(33, 1990000)] :: 'e create_transfer_error + message) =
     Inr example_withdrawal_message"
proof -
  have "transaction_size example_sdk example_withdrawal_message \<le> MAX_TX_SIZE"
    by (simp add: transaction_size_def example_withdrawal_message_def example_sdk_def example_compile_def Let_def
        MAX_TX_SIZE_def BYTES_PER_SIGNATURE_def)
  then show ?thesis
    by (simp add: build_batch_withdrawal_message_def ensure_within_transaction_size_def
        flip: example_withdrawal_message_def)
qed

lemma example_advanced: "advanced_nonce_account example_sdk (Legacy example_withdrawal_message) = Some 1"
  by (simp add: advanced_nonce_account_def example_withdrawal_message_def example_sdk_def example_compile_def
      Let_def list_get_def)

lemma example_blockhash: "recent_blockhash example_withdrawal_message = 44"
  by (simp add: example_withdrawal_message_def example_sdk_def example_compile_def Let_def)

lemma example_bound:
  "bound_withdrawal_message example_sdk example_s9 1 \<lparr>cw_nonce_value = 44, cw_burn_indices = [5]\<rparr> =
     Some example_withdrawal_message"
proof -
  have key: "st_minter_public_key example_s9 = Some \<lparr>spk_public_key = 9, spk_chain_code = 3\<rparr>"
    by (simp add: example_s9_def example_s8_def example_base_defs)
  show ?thesis
    by (simp add: bound_withdrawal_message_def key example_minter_address)
       (simp add: example_s9_def example_pending_def example_request_def example_build)
qed

lemma example_step10:
  "apply_state_transition example_sdk (EvSubmittedTransaction 200 (Legacy example_withdrawal_message) [SignerMinter]
     (PurposeWithdrawal [5])) 20 example_s9 = Some example_s10"
proof -
  have bound: "bound_withdrawal_message example_sdk
      (example_s9\<lparr>st_created_withdrawal_txs := bm_empty\<rparr>) 1 \<lparr>cw_nonce_value = 44, cw_burn_indices = [5]\<rparr> =
      Some example_withdrawal_message"
    using example_bound by (simp add: bound_withdrawal_message_def)
  have send: "send_nonce_withdrawal example_sdk 200 (Legacy example_withdrawal_message) [SignerMinter] [5] 20 example_s9 =
      Some (example_s9\<lparr>st_created_withdrawal_txs := bm_empty, st_created_withdrawal_requests := bm_empty,
        st_sent_withdrawal_requests := bm_insert 5 example_sent bm_empty\<rparr>,
        TxWithdrawal (Legacy example_withdrawal_message) 1 44 20)"
    using bound
    by (simp add: send_nonce_withdrawal_def example_advanced example_s9_def bm_remove_insert bm_remove_empty Let_def
        assert_that_bind send_one_def example_sent_def example_pending_def)
       (simp add: example_s8_def example_base_defs)
  show ?thesis
    by (simp add: apply_state_transition_def process_transaction_submitted_def send assert_that_bind
        iom_contains_key_iff Let_def case_prod_unfold)
       (simp add: example_s10_def example_s9_def example_s8_def example_base_defs)
qed

lemma example_step11:
  "apply_state_transition lib (EvSucceededTransaction 200) 21 example_s10 = Some example_s11"
proof -
  have free: "free_nonce 1 example_bound_pool =
      Some \<lparr>np_accounts = bm_insert 1 \<lparr>na_state = Free, na_seen = bs_insert 44 bm_empty\<rparr> bm_empty\<rparr>"
    by (simp add: free_nonce_def example_bound_pool_def assert_that_bind bm_insert_insert)
  have "bm_filter (\<lambda>p. sn_signature (snd p) \<noteq> 200) (bm_insert 5 example_sent bm_empty) = bm_empty"
    by (rule bm_ext) (simp add: example_sent_def)
  then show ?thesis using free
    by (simp add: apply_state_transition_def process_transaction_succeeded_def example_s11_def example_s10_def
        example_s9_def example_s8_def example_base_defs iom_contains_key_iff extract_sent_def remaining_sent_def
        Let_def case_prod_unfold bm_extend_def assert_that_bind)
       (simp add: example_sent_def)
qed

subsection \<open>The log\<close>

definition example_log :: "event list" where
  "example_log =
     [\<lparr>ev_timestamp = 10, ev_payload = EvInit example_init_args\<rparr>,
      \<lparr>ev_timestamp = 11, ev_payload = EvMinterPublicKeyFetched 9 3\<rparr>,
      \<lparr>ev_timestamp = 5, ev_payload = example_queue_event 0 (example_deposit 1 2890880)\<rparr>,
      \<lparr>ev_timestamp = 6, ev_payload = example_queue_event 1 (example_deposit 2 1890880)\<rparr>,
      \<lparr>ev_timestamp = 14, ev_payload = EvSubmittedTransaction 100 (Legacy example_sweep_message) []
         (PurposeSweepDeposit [0, 1] 50)\<rparr>,
      \<lparr>ev_timestamp = 15, ev_payload = EvSucceededTransaction 100\<rparr>,
      \<lparr>ev_timestamp = 16, ev_payload = EvCreditedSweep 100 2990000 example_credits\<rparr>,
      \<lparr>ev_timestamp = 17, ev_payload = EvMintedSweptDeposit 0 1\<rparr>,
      \<lparr>ev_timestamp = 18, ev_payload = EvAcceptedWithdrawalRequest example_request\<rparr>,
      \<lparr>ev_timestamp = 19, ev_payload = EvCreatedWithdrawalTransaction [5] 1 44\<rparr>,
      \<lparr>ev_timestamp = 20, ev_payload = EvSubmittedTransaction 200 (Legacy example_withdrawal_message) [SignerMinter]
         (PurposeWithdrawal [5])\<rparr>,
      \<lparr>ev_timestamp = 21, ev_payload = EvSucceededTransaction 200\<rparr>]"

lemma example_log_length: "length example_log = 12"
  by (simp add: example_log_def)

lemmas example_steps = example_step1 example_step2 example_step3 example_step4 example_step5 example_step6
  example_step7 example_step8 example_step9 example_step10 example_step11

lemma example_replay:
  "replay_events example_sdk example_log = Some example_s11"
  "replay_events example_sdk (take 11 example_log) = Some example_s10"
  "replay_events example_sdk (take 10 example_log) = Some example_s9"
  by (simp_all add: replay_events_def example_log_def example_init apply_events_def example_steps)

end
