(* ===== verification/Minter_Log.thy ===== *)
theory Minter_Log
  imports Minter_Invariant Example_Log
begin

text \<open>
  What a replayed event log guarantees: the stages of the withdrawal requests, the use of the nonce
  values, and the totality of the operations on a state the log rebuilds.
\<close>

subsection \<open>The withdrawal requests along a log\<close>

definition view_step :: "minter_state \<Rightarrow> minter_state \<Rightarrow> bool" where
  "view_step s s' \<longleftrightarrow> (\<forall>b. case wview s b of
     None \<Rightarrow> wview s' b = None
   | Some (r, st) \<Rightarrow> \<exists>st'. wview s' b = Some (r, st') \<and> (st' = st \<or> wstage_step st st'))"

lemma view_step_same: "wview s' = wview s \<Longrightarrow> view_step s s'"
  by (auto simp: view_step_def split: option.splits)

lemma wmoves_view_step:
  assumes "wmoves s s' B k l st" "requests_wf s"
    and "\<And>b r st0. b \<in> B \<Longrightarrow> wstages s b ! k = Some (r, st0) \<Longrightarrow> wstage_step st0 st"
  shows "view_step s s'"
  unfolding view_step_def
proof
  fix b
  show "case wview s b of None \<Rightarrow> wview s' b = None
    | Some (r, st) \<Rightarrow> \<exists>st'. wview s' b = Some (r, st') \<and> (st' = st \<or> wstage_step st st')"
  proof (cases "b \<in> B")
    case True
    then obtain r st0 where "wstages s b ! k = Some (r, st0)" "wview s b = Some (r, st0)"
      using wmoves_stage[OF assms(1,2) True] by blast
    then show ?thesis using wmoves_view[OF assms(1,2), of b] assms(3)[OF True] True by simp
  next
    case False
    then show ?thesis using wmoves_view[OF assms(1,2), of b] by (simp split: option.splits)
  qed
qed

lemma transition_view_step:
  assumes wf: "state_wf s" and tr: "apply_state_transition lib payload t s = Some s'"
    and na: "\<And>r. payload \<noteq> EvAcceptedWithdrawalRequest r"
  shows "view_step s s'"
proof -
  note rw = state_wfD(2)[OF wf]
  have deposits: "view_step s s'" if "lift_deposits f s = Some s'" for f
    using that by (rule lift_depositsD) (auto intro!: view_step_same simp: wview_def wstages_def)
  show ?thesis
  proof (cases payload)
    case (EvCreatedWithdrawalTransaction bs n h)
    then have "process_transaction_created bs n h s = Some s'" using tr by (simp add: apply_state_transition_def)
    then show ?thesis
      by (intro wmoves_view_step[OF created_wmoves rw]) (auto simp: wstage_step_simps)
  next
    case (EvSubmittedTransaction sig msg signers purpose)
    then have sub: "process_transaction_submitted lib sig msg signers purpose t s = Some s'"
      using tr by (simp add: apply_state_transition_def)
    show ?thesis
    proof (cases purpose)
      case (PurposeSweepDeposit ids h)
      have "wstages s' = wstages s"
        using sub[unfolded PurposeSweepDeposit] by (rule process_transaction_submittedD) (auto simp: wstages_def)
      then show ?thesis by (intro view_step_same) (simp add: wview_def fun_eq_iff)
    next
      case (PurposeWithdrawal bs)
      show ?thesis
        by (rule wmoves_view_step[OF submitted_withdrawal_wmoves[OF sub[unfolded PurposeWithdrawal]] rw])
           (auto simp: wstage_step_simps)
    qed
  next
    case (EvSucceededTransaction sig)
    then have "process_transaction_succeeded sig s = Some s'" using tr by (simp add: apply_state_transition_def)
    then show ?thesis
      by (intro wmoves_view_step[OF succeeded_wmoves rw]) (auto dest!: sent_by_SomeD simp: sent_view_def wstage_step_simps)
  next
    case (EvFailedTransaction sig)
    then have "process_transaction_failed sig s = Some s'" using tr by (simp add: apply_state_transition_def)
    then show ?thesis
      by (intro wmoves_view_step[OF failed_wmoves rw]) (auto dest!: sent_by_SomeD simp: sent_view_def wstage_step_simps)
  next
    case (EvExpiredTransaction sig)
    then have "wstages s' = wstages s" using tr state_wf_expired(2)[OF wf] by (simp add: apply_state_transition_def)
    then show ?thesis by (intro view_step_same) (simp add: wview_def fun_eq_iff)
  next
    case (EvCreditedSweep sig received cs)
    then have "process_credited_sweep sig received cs t s = Some s'" using tr by (simp add: apply_state_transition_def)
    then show ?thesis
      by (rule process_credited_sweepD) (auto intro!: view_step_same simp: wview_def wstages_def)
  next
    case (EvMinterPublicKeyFetched k c)
    then have "wf_fields s' = wf_fields s" using tr cache_key_fields by (simp add: apply_state_transition_def)
    then show ?thesis using wf_fields_cong(3) view_step_same by blast
  next
    case (EvUpgrade args)
    then have "upgrade lib args s = Inr s'" using tr by (auto simp: apply_state_transition_def split: sum.splits)
    from state_wf_upgrade(3)[OF wf this] show ?thesis by (rule view_step_same)
  qed (use tr na in \<open>auto simp: payload_defs intro: deposits\<close>)
qed

text \<open>The requests a log accepts, in order.\<close>

definition accepted_request :: "event \<Rightarrow> withdrawal_request option" where
  "accepted_request e = (case ev_payload e of EvAcceptedWithdrawalRequest r \<Rightarrow> Some r | _ \<Rightarrow> None)"

definition accepted_requests :: "event list \<Rightarrow> withdrawal_request list" where
  "accepted_requests log = List.map_filter accepted_request log"

lemma accepted_requests_append:
  "accepted_requests (log @ [e]) = accepted_requests log @ (case accepted_request e of None \<Rightarrow> [] | Some r \<Rightarrow> [r])"
  by (auto simp: accepted_requests_def List.map_filter_def split: option.splits)

definition requests_of :: "minter_state \<Rightarrow> withdrawal_request set" where
  "requests_of s = {r. \<exists>b st. wview s b = Some (r, st)}"

lemma init_wf:
  assumes "state_from_init lib args = Inr s"
  shows "state_wf s" "requests_of s = {}" "counters_le s 0" "seen_values (st_nonce_pool s) = {}" "wview s b = None"
    "bm_get (st_created_withdrawal_txs s) n = None"
proof -
  from assms obtain addresses pool where pool: "nonce_pool_new addresses = Inr pool"
    and s: "st_nonce_pool s = pool" "st_deposits s = deposits_default" "st_pending_withdrawal_requests s = bm_empty"
      "st_created_withdrawal_requests s = bm_empty" "st_sent_withdrawal_requests s = bm_empty"
      "st_successful_withdrawal_requests s = bm_empty" "st_failed_withdrawal_requests s = bm_empty"
      "st_submitted_transactions s = iom_new" "st_failed_transactions s = iom_new"
      "st_succeeded_transactions s = bm_empty" "st_created_withdrawal_txs s = bm_empty"
    by (auto simp: state_from_init_def Let_def split: sum.splits)
  note ad = add_accountsD[OF pool[unfolded nonce_pool_new_def]]
  have st: "wstages s b = [None, None, None, None, None]" for b by (simp add: wstages_def s)
  show vw: "wview s b = None" for b by (simp add: wview_def st)
  then show "requests_of s = {}" by (simp add: requests_of_def)
  show "counters_le s 0" by (simp add: counters_le_def s iom_new_def deposits_default_def)
  show "seen_values (st_nonce_pool s) = {}" by (simp add: s ad(5))
  show "bm_get (st_created_withdrawal_txs s) n = None" by (simp add: s)
  have "requests_wf s" by (simp add: requests_wf_def vw st one_stage_def)
  moreover have "transactions_wf s"
    by (simp add: transactions_wf_def txs_ok_def s sweep_sigs_def deposits_default_def)
  moreover have "nonces_wf pool bm_empty (iom_new :: (signature, minter_transaction) iom)"
    by (simp add: nonces_wf_def submitted_withdrawal_def ad(4))
  ultimately show "state_wf s" by (simp add: state_wf_def s deposits_wf_default created_wf_def)
qed

lemma view_step_requests: "view_step s s' \<Longrightarrow> requests_of s' = requests_of s"
proof -
  assume vs: "view_step s s'"
  have "(\<exists>st. wview s' b = Some (r, st)) \<longleftrightarrow> (\<exists>st. wview s b = Some (r, st))" for b r
    using vs[unfolded view_step_def, rule_format, of b] by (cases "wview s b") auto
  then show ?thesis by (auto simp: requests_of_def)
qed

text \<open>The invariant along a log whose accepted requests have distinct burn indices.\<close>

lemma log_wf:
  assumes "replay_events lib log = Some s" "length log < 2 ^ 64"
    and "distinct (map wr_burn_block_index (accepted_requests log))"
  shows "state_wf s \<and> counters_le s (length log) \<and> requests_of s = set (accepted_requests log)"
  using assms
proof (induction rule: replay_induct)
  case (init args t s)
  then show ?case using init_wf[of lib args s] counters_le_mono[of s 0]
    by (simp add: accepted_requests_def accepted_request_def List.map_filter_def)
next
  case (step log s t payload s')
  let ?e = "\<lparr>ev_timestamp = t, ev_payload = payload\<rparr>"
  have "distinct (map wr_burn_block_index (accepted_requests log))"
    using step.prems(2) by (simp add: accepted_requests_append)
  with step have IH: "state_wf s" "counters_le s (length log)" "requests_of s = set (accepted_requests log)" by simp_all
  have fresh: "fresh_request payload s"
  proof (cases payload)
    case (EvAcceptedWithdrawalRequest r)
    have "wview s (wr_burn_block_index r) = None"
    proof (rule ccontr)
      assume "wview s (wr_burn_block_index r) \<noteq> None"
      then obtain r' st where r': "wview s (wr_burn_block_index r) = Some (r', st)" by auto
      then have "r' \<in> set (accepted_requests log)" using IH(3) unfolding requests_of_def by blast
      moreover have "wr_burn_block_index r' = wr_burn_block_index r"
        using state_wfD(2)[OF IH(1)] r' by (simp add: requests_wf_def)
      ultimately show False
        using step.prems(2) EvAcceptedWithdrawalRequest
        by (auto simp: accepted_requests_append accepted_request_def image_iff)
    qed
    then show ?thesis by (simp add: fresh_request_def EvAcceptedWithdrawalRequest)
  qed (simp_all add: fresh_request_def)
  have wf: "state_wf s'" using transition_wf[OF IH(1) step.hyps(2) fresh IH(2)] step.prems(1) by simp
  moreover have "counters_le s' (Suc (length log))" using transition_counters[OF IH(1) step.hyps(2) IH(2)] .
  moreover have "requests_of s' = set (accepted_requests (log @ [?e]))"
  proof (cases "\<exists>r. payload = EvAcceptedWithdrawalRequest r")
    case True
    then obtain r where r: "payload = EvAcceptedWithdrawalRequest r" by blast
    have "wview s' = (wview s)(wr_burn_block_index r \<mapsto> (r, WtPending))"
      using accepted_wview(2)[OF state_wfD(2)[OF IH(1)]] step.hyps(2) fresh
      by (simp add: r apply_state_transition_def fresh_request_def)
    moreover have "wview s (wr_burn_block_index r) = None" using fresh by (simp add: r fresh_request_def)
    ultimately have "requests_of s' = insert r (requests_of s)"
      by (auto simp: requests_of_def split: if_splits) (metis option.distinct(1))
    then show ?thesis using IH(3) by (simp add: accepted_requests_append accepted_request_def r)
  next
    case False
    then have "requests_of s' = requests_of s"
      using view_step_requests transition_view_step[OF IH(1) step.hyps(2)] by blast
    then show ?thesis using IH(3) False
      by (auto simp: accepted_requests_append accepted_request_def split: event_type.splits)
  qed
  ultimately show ?case by simp
qed

lemma replay_not_Nil: "replay_events lib log = Some s \<Longrightarrow> log \<noteq> []"
  by (auto simp: replay_events_def)

lemma replay_prefix:
  assumes "replay_events lib log = Some s"
  shows "replay_events lib (log @ rest) = apply_events lib rest s"
proof (induction rest rule: rev_induct)
  case (snoc e rest)
  have "replay_events lib ((log @ rest) @ [e]) =
      Option.bind (replay_events lib (log @ rest)) (apply_state_transition lib (ev_payload e) (ev_timestamp e))"
    by (rule replay_append) (use replay_not_Nil[OF assms] in simp)
  then show ?case using snoc.IH by (simp add: apply_events_append)
qed (simp add: assms apply_events_def)

lemma view_step_forward:
  assumes "view_step s s'" "wview s b = Some (r, st)"
  shows "\<exists>st'. wview s' b = Some (r, st') \<and> wstage_step\<^sup>*\<^sup>* st st'"
  using assms(1)[unfolded view_step_def, rule_format, of b] assms(2) by auto

lemma log_forward:
  assumes "replay_events lib log = Some s" "replay_events lib (log @ rest) = Some s'"
    and "length (log @ rest) < 2 ^ 64" "distinct (map wr_burn_block_index (accepted_requests (log @ rest)))"
    and "wview s b = Some (r, st)"
  shows "\<exists>st'. wview s' b = Some (r, st') \<and> wstage_step\<^sup>*\<^sup>* st st'"
  using assms(2-)
proof (induction rest arbitrary: s' rule: rev_induct)
  case Nil
  then show ?case using assms(1) by auto
next
  case (snoc e rest)
  have ne: "log @ rest \<noteq> []" using replay_not_Nil[OF assms(1)] by simp
  have "Option.bind (replay_events lib (log @ rest)) (apply_state_transition lib (ev_payload e) (ev_timestamp e)) = Some s'"
    using snoc.prems(1) replay_append[OF ne, of lib e] by simp
  then obtain s1 where s1: "replay_events lib (log @ rest) = Some s1"
    and tr: "apply_state_transition lib (ev_payload e) (ev_timestamp e) s1 = Some s'"
    by (auto simp: Option.bind_eq_Some_conv)
  have dist: "distinct (map wr_burn_block_index (accepted_requests (log @ rest)))"
    using snoc.prems(3) accepted_requests_append[of "log @ rest" e] by simp
  have wf: "state_wf s1" "requests_of s1 = set (accepted_requests (log @ rest))"
    using log_wf[OF s1 _ dist] snoc.prems(2) by simp_all
  obtain st1 where st1: "wview s1 b = Some (r, st1)" "wstage_step\<^sup>*\<^sup>* st st1"
    using snoc.IH[OF s1 _ dist snoc.prems(4)] snoc.prems(2) by auto
  have "\<exists>st'. wview s' b = Some (r, st') \<and> wstage_step\<^sup>*\<^sup>* st1 st'"
  proof (cases "\<exists>q. ev_payload e = EvAcceptedWithdrawalRequest q")
    case True
    then obtain q where q: "ev_payload e = EvAcceptedWithdrawalRequest q" by blast
    have other: "wr_burn_block_index q \<noteq> wr_burn_block_index r'" if "r' \<in> set (accepted_requests (log @ rest))" for r'
      using snoc.prems(3) that accepted_requests_append[of "log @ rest" e]
      by (auto simp: accepted_request_def q)
    have "wview s1 (wr_burn_block_index q) = None"
    proof (rule ccontr)
      assume "wview s1 (wr_burn_block_index q) \<noteq> None"
      then obtain r' x where "wview s1 (wr_burn_block_index q) = Some (r', x)" by auto
      moreover from this have "wr_burn_block_index r' = wr_burn_block_index q"
        using state_wfD(2)[OF wf(1)] by (simp add: requests_wf_def)
      ultimately show False using other[of r'] wf(2) unfolding requests_of_def by auto
    qed
    then have "wview s' = (wview s1)(wr_burn_block_index q \<mapsto> (q, WtPending))"
      using accepted_wview(2)[OF state_wfD(2)[OF wf(1)]] tr by (simp add: q apply_state_transition_def)
    then show ?thesis using st1(1) \<open>wview s1 (wr_burn_block_index q) = None\<close> by auto
  next
    case False
    then show ?thesis using view_step_forward[OF transition_view_step[OF wf(1) tr] st1(1)] by blast
  qed
  then show ?case using st1(2) by auto
qed

subsection \<open>Properties of the withdrawals\<close>

fun wstage_status :: "wstage \<Rightarrow> withdraw_sol_status" where
  "wstage_status WtPending = WithdrawPending"
| "wstage_status WtCreated = WithdrawPending"
| "wstage_status (WtSent x) = WithdrawTxSent x"
| "wstage_status (WtSucceeded x) = WithdrawTxFinalized (TxSuccess x)"
| "wstage_status (WtFailed x) = WithdrawTxFinalized (TxFailure x)"

lemma withdrawal_status_wview:
  "withdrawal_status s b = (case wview s b of None \<Rightarrow> WithdrawNotFound | Some (r, st) \<Rightarrow> wstage_status st)"
  by (simp add: withdrawal_status_def wview_def wstages_def bm_contains_def sent_view_def split: option.split)

lemma example_accepted: "accepted_requests example_log = [example_request]"
  by (simp add: accepted_requests_def accepted_request_def List.map_filter_def example_log_def example_queue_event_def)

text \<open>C5: In the state replayed from any log whose accepted requests have distinct burn indices, every
  accepted withdrawal request is in exactly one of the five buckets, no other request is in any, and
  the status endpoint finds exactly the accepted requests.\<close>

theorem withdrawals_invariant:
  assumes "replay_events lib log = Some s" "length log < 2 ^ 64"
    and "distinct (map wr_burn_block_index (accepted_requests log))"
  shows "(\<forall>r \<in> set (accepted_requests log). \<exists>k st. sole (wstages s (wr_burn_block_index r)) k (r, st) \<and>
       withdrawal_status s (wr_burn_block_index r) = wstage_status st) \<and>
    (\<forall>b. b \<notin> wr_burn_block_index ` set (accepted_requests log) \<longrightarrow>
       wstages s b = replicate 5 None \<and> withdrawal_status s b = WithdrawNotFound)"
proof (intro conjI ballI allI impI)
  note wf = log_wf[OF assms]
  have rw: "requests_wf s" using wf state_wfD(2) by blast
  fix r assume "r \<in> set (accepted_requests log)"
  then obtain b st where v: "wview s b = Some (r, st)" using wf unfolding requests_of_def by blast
  moreover from this have "wr_burn_block_index r = b" using rw by (simp add: requests_wf_def)
  moreover obtain k where k: "k < 5" "wstages s b ! k = Some (r, st)" using v by (rule wview_SomeE)
  have one: "one_stage (wstages s b)" using rw by (simp add: requests_wf_def)
  ultimately show "\<exists>k st. sole (wstages s (wr_burn_block_index r)) k (r, st) \<and>
       withdrawal_status s (wr_burn_block_index r) = wstage_status st"
    using wview_stage(2)[OF one k] by (auto simp: withdrawal_status_wview)
next
  fix b assume b: "b \<notin> wr_burn_block_index ` set (accepted_requests log)"
  note wf = log_wf[OF assms]
  have none: "wview s b = None"
  proof (cases "wview s b")
    case (Some v)
    then obtain r st where v: "wview s b = Some (r, st)" by (cases v) auto
    then have "r \<in> set (accepted_requests log)" using wf unfolding requests_of_def by blast
    moreover have "wr_burn_block_index r = b" using wf v state_wfD(2) by (auto simp: requests_wf_def)
    ultimately show ?thesis using b by blast
  qed
  then show "withdrawal_status s b = WithdrawNotFound" by (simp add: withdrawal_status_wview)
  from none have "\<forall>x \<in> set (wstages s b). x = None" by (simp add: wview_def find_map_None_iff)
  then show "wstages s b = replicate 5 None" by (simp add: wstages_def numeral_eq_Suc)
qed

theorem withdrawals_invariant_witness:
  "replay_events example_sdk example_log = Some example_s11 \<and>
   (\<exists>k st. sole (wstages example_s11 5) k (example_request, st)) \<and>
   withdrawal_status example_s11 6 = WithdrawNotFound"
  using withdrawals_invariant[OF example_replay(1)] example_replay(1)
  by (auto simp: example_accepted example_log_length) (auto simp: example_request_def)

text \<open>C6: Along a log, a withdrawal request never changes and only moves from pending to created to
  sent to finalized: it never returns to an earlier stage, and a succeeded or failed request stays
  so.\<close>

theorem withdrawals_move_forward:
  assumes "replay_events lib log = Some s" "replay_events lib (log @ rest) = Some s'"
    and "length (log @ rest) < 2 ^ 64" "distinct (map wr_burn_block_index (accepted_requests (log @ rest)))"
    and "wview s b = Some (r, st)"
  shows "\<exists>st'. wview s' b = Some (r, st') \<and> wstage_step\<^sup>*\<^sup>* st st' \<and>
    (case st of WtSucceeded _ \<Rightarrow> st' = st | WtFailed _ \<Rightarrow> st' = st
      | WtSent sig \<Rightarrow> st' \<in> {st, WtSucceeded sig, WtFailed sig} | _ \<Rightarrow> True)"
proof -
  have "case st of WtSucceeded _ \<Rightarrow> st' = st | WtFailed _ \<Rightarrow> st' = st
      | WtSent sig \<Rightarrow> st' \<in> {st, WtSucceeded sig, WtFailed sig} | _ \<Rightarrow> True" if "wstage_step\<^sup>*\<^sup>* st st'" for st'
    using that by (induction rule: rtranclp_induct) (auto simp: wstage_step_simps split: wstage.splits)
  then show ?thesis using log_forward[OF assms] by blast
qed

theorem withdrawals_move_forward_witness:
  "\<exists>st. wview example_s11 5 = Some (example_request, st) \<and> wstage_step\<^sup>*\<^sup>* (WtSent 200) st"
proof -
  have "wview example_s10 5 = Some (example_request, WtSent 200)"
    by (simp add: wview_def wstages_def example_s10_def example_s9_def example_s8_def example_base_defs
        example_sent_def sent_view_def)
  moreover have "take 11 example_log @ drop 11 example_log = example_log" by simp
  ultimately show ?thesis
    using withdrawals_move_forward[OF example_replay(2), of "drop 11 example_log" example_s11 5 example_request "WtSent 200"]
      example_replay(1) by (auto simp: example_accepted example_log_length)
qed

end
