(* ===== verification/Nonce_Safety.thy ===== *)
theory Nonce_Safety
  imports Minter_Log
begin

text \<open>
  The use of the durable nonces along an event log: a nonce value is bound to one transaction, and at
  most one transaction with it is ever submitted.
\<close>

definition created_nonce :: "event \<Rightarrow> (address \<times> hash) option" where
  "created_nonce e = (case ev_payload e of EvCreatedWithdrawalTransaction bs n h \<Rightarrow> Some (n, h) | _ \<Rightarrow> None)"

definition created_nonces :: "event list \<Rightarrow> (address \<times> hash) list" where
  "created_nonces log = List.map_filter created_nonce log"

text \<open>The nonce account and the nonce value of a withdrawal message.\<close>

definition message_nonce :: "sdk \<Rightarrow> versioned_message \<Rightarrow> (address \<times> hash) option" where
  "message_nonce lib msg = (case msg of Legacy m \<Rightarrow>
     map_option (\<lambda>n. (n, recent_blockhash m)) (advanced_nonce_account lib msg))"

definition submitted_nonce :: "sdk \<Rightarrow> event \<Rightarrow> (address \<times> hash) option" where
  "submitted_nonce lib e = (case ev_payload e of
     EvSubmittedTransaction sig msg signers (PurposeWithdrawal bs) \<Rightarrow> message_nonce lib msg | _ \<Rightarrow> None)"

definition submitted_nonces :: "sdk \<Rightarrow> event list \<Rightarrow> (address \<times> hash) list" where
  "submitted_nonces lib log = List.map_filter (submitted_nonce lib) log"

lemma map_filter_append: "List.map_filter f (xs @ [x]) = List.map_filter f xs @ (case f x of None \<Rightarrow> [] | Some y \<Rightarrow> [y])"
  by (auto simp: List.map_filter_def split: option.splits)

definition unsigned_nonces :: "minter_state \<Rightarrow> (address \<times> hash) set" where
  "unsigned_nonces s = {(n, h). \<exists>c. bm_get (st_created_withdrawal_txs s) n = Some c \<and> cw_nonce_value c = h}"

text \<open>\<open>Message::new_with_blockhash\<close> stores the given blockhash.\<close>

definition sdk_keeps_blockhash :: "sdk \<Rightarrow> bool" where
  "sdk_keeps_blockhash lib \<longleftrightarrow>
     (\<forall>ins payer h. recent_blockhash (sdk_new_with_blockhash lib ins payer h) = h)"

lemma bound_withdrawal_messageD:
  assumes "bound_withdrawal_message lib s n c = Some m"
  obtains key transfers where "st_minter_public_key s = Some key"
    "(build_batch_withdrawal_message lib (minter_address lib key) n (cw_nonce_value c) transfers
        :: unit create_transfer_error + message) = Inr m"
    "map (\<lambda>b. map_option (\<lambda>p. (wr_solana_address (pw_request p), wr_amount_to_transfer (pw_request p)))
        (bm_get (st_created_withdrawal_requests s) b)) (cw_burn_indices c) = map Some transfers"
proof -
  from assms obtain key transfers where *: "st_minter_public_key s = Some key"
    "collect_opt (map (\<lambda>b. map_option (\<lambda>p. (wr_solana_address (pw_request p), wr_amount_to_transfer (pw_request p)))
        (bm_get (st_created_withdrawal_requests s) b)) (cw_burn_indices c)) = Some transfers"
    by (auto simp: bound_withdrawal_message_def Option.bind_eq_Some_conv)
  obtain e where "(build_batch_withdrawal_message lib (minter_address lib key) n (cw_nonce_value c) transfers
        :: unit create_transfer_error + message) = e" by blast
  then show thesis using that[of key transfers] assms *
    by (cases e) (simp_all add: bound_withdrawal_message_def collect_opt_Some_iff)
qed

lemma bound_message_blockhash:
  assumes "sdk_keeps_blockhash lib" "bound_withdrawal_message lib s n c = Some m"
  shows "recent_blockhash m = cw_nonce_value c"
  using assms(2)
  by (rule bound_withdrawal_messageD) (use assms(1) in \<open>auto dest!: build_batch_Inr(1) simp: sdk_keeps_blockhash_def\<close>)

subsection \<open>The transitions\<close>

lemma finalized_nonces:
  assumes "case tx of TxSweepDeposit _ \<Rightarrow> \<exists>d. Q d \<and> s2 = s\<lparr>st_deposits := d\<rparr>
      | TxWithdrawal _ n _ _ \<Rightarrow> \<exists>pool. free_nonce n (st_nonce_pool s) = Some pool \<and> s2 = s\<lparr>st_nonce_pool := pool\<rparr>"
  shows "seen_values (st_nonce_pool s2) = seen_values (st_nonce_pool s)"
    "st_created_withdrawal_txs s2 = st_created_withdrawal_txs s"
  using assms free_nonceD(2) by (auto split: minter_transaction.splits)

definition nonces_kept :: "minter_state \<Rightarrow> minter_state \<Rightarrow> bool" where
  "nonces_kept s s' \<longleftrightarrow>
     seen_values (st_nonce_pool s') = seen_values (st_nonce_pool s) \<and> unsigned_nonces s' = unsigned_nonces s"

lemma finalize_nonces:
  "process_transaction_succeeded sig s = Some s' \<Longrightarrow> nonces_kept s s'"
  "process_transaction_failed sig s = Some s' \<Longrightarrow> nonces_kept s s'"
  by (erule process_transaction_succeededD, frule finalized_nonces(1), drule finalized_nonces(2), simp add: nonces_kept_def unsigned_nonces_def)
     (erule process_transaction_failedD, frule finalized_nonces(1), drule finalized_nonces(2), simp add: nonces_kept_def unsigned_nonces_def)

lemma other_nonces:
  assumes tr: "apply_state_transition lib payload t s = Some s'"
    and no: "created_nonce \<lparr>ev_timestamp = t, ev_payload = payload\<rparr> = None"
      "\<And>sig msg signers bs. payload \<noteq> EvSubmittedTransaction sig msg signers (PurposeWithdrawal bs)"
  shows "seen_values (st_nonce_pool s') = seen_values (st_nonce_pool s)" "unsigned_nonces s' = unsigned_nonces s"
proof -
  have lift: "nonces_kept s s'"
    if "lift_deposits f s = Some s'" for f
    using that by (rule lift_depositsD) (simp add: nonces_kept_def unsigned_nonces_def)
  have "nonces_kept s s'"
  proof (cases payload)
    case (EvUpgrade args)
    then have "upgrade lib args s = Inr s'" using tr by (auto simp: apply_state_transition_def split: sum.splits)
    then show ?thesis
      by (rule upgradeD) (auto dest!: add_accountsD(5) simp: nonces_kept_def unsigned_nonces_def upgrade_settings_def)
  next
    case (EvSubmittedTransaction sig msg signers purpose)
    with no(2) obtain ids h where "purpose = PurposeSweepDeposit ids h" by (cases purpose) auto
    with EvSubmittedTransaction tr
    have "process_transaction_submitted lib sig msg signers (PurposeSweepDeposit ids h) t s = Some s'"
      by (simp add: apply_state_transition_def)
    then show ?thesis by (rule process_transaction_submittedD) (auto simp: nonces_kept_def unsigned_nonces_def)
  next
    case (EvExpiredTransaction sig)
    then have "process_transaction_expired sig s = Some s'" using tr by (simp add: apply_state_transition_def)
    then show ?thesis by (rule process_transaction_expiredD) (simp add: nonces_kept_def unsigned_nonces_def)
  next
    case (EvCreditedSweep sig received cs)
    then have "process_credited_sweep sig received cs t s = Some s'" using tr by (simp add: apply_state_transition_def)
    then show ?thesis by (rule process_credited_sweepD) (simp add: nonces_kept_def unsigned_nonces_def)
  next
    case (EvAcceptedWithdrawalRequest r)
    then have "process_accepted_withdrawal r t s = Some s'" using tr by (simp add: apply_state_transition_def)
    from process_accepted_withdrawalD(1)[OF this] show ?thesis by (simp add: nonces_kept_def unsigned_nonces_def)
  next
    case (EvMinterPublicKeyFetched k c)
    then show ?thesis using tr
      by (auto simp: apply_state_transition_def cache_minter_public_key_def nonces_kept_def unsigned_nonces_def split: option.splits if_splits)
  qed (use tr no in \<open>auto simp: payload_defs created_nonce_def intro: lift finalize_nonces\<close>)
  then show "seen_values (st_nonce_pool s') = seen_values (st_nonce_pool s)" "unsigned_nonces s' = unsigned_nonces s"
    by (simp_all add: nonces_kept_def)
qed

lemma create_nonces:
  assumes "process_transaction_created bs n h s = Some s'"
  shows "seen_values (st_nonce_pool s') = insert (n, h) (seen_values (st_nonce_pool s))"
    "unsigned_nonces s' = insert (n, h) (unsigned_nonces s)" "(n, h) \<notin> seen_values (st_nonce_pool s)"
proof -
  from assms obtain pool s1 balance where pool: "bind_nonce n h (st_nonce_pool s) = Some pool"
    and n: "bm_get (st_created_withdrawal_txs s) n = None"
    and s': "s' = s1\<lparr>st_nonce_pool := pool, st_balance := balance,
       st_created_withdrawal_txs := bm_insert n \<lparr>cw_nonce_value = h, cw_burn_indices = bs\<rparr> (st_created_withdrawal_txs s)\<rparr>"
    by (rule process_transaction_createdD)
  show "seen_values (st_nonce_pool s') = insert (n, h) (seen_values (st_nonce_pool s))"
    "(n, h) \<notin> seen_values (st_nonce_pool s)"
    using bind_nonceD(2,5)[OF pool] by (simp_all add: s')
  show "unsigned_nonces s' = insert (n, h) (unsigned_nonces s)"
    using n by (auto simp: s' unsigned_nonces_def split: if_splits)
qed

lemma submit_nonces:
  assumes lib: "sdk_keeps_blockhash lib"
    and sub: "process_transaction_submitted lib sig msg signers (PurposeWithdrawal bs) t s = Some s'"
  shows "\<exists>p. message_nonce lib msg = Some p \<and> p \<in> unsigned_nonces s \<and> unsigned_nonces s' = unsigned_nonces s - {p} \<and>
    seen_values (st_nonce_pool s') = seen_values (st_nonce_pool s)"
proof -
  from sub obtain n c m s1 where ad: "advanced_nonce_account lib msg = Some n"
    and n: "bm_get (st_created_withdrawal_txs s) n = Some c" and msg: "msg = Legacy m"
    and b: "bound_withdrawal_message lib s n c = Some m"
    and sf: "sent_from sig (s\<lparr>st_created_withdrawal_txs := bm_remove n (st_created_withdrawal_txs s)\<rparr>) bs s1"
    and s': "s' = s1\<lparr>st_submitted_transactions := fst (iom_insert sig (TxWithdrawal msg n (cw_nonce_value c) t) (st_submitted_transactions s))\<rparr>"
    by (rule submitted_withdrawalD)
  have "message_nonce lib msg = Some (n, cw_nonce_value c)"
    using ad bound_message_blockhash[OF lib b] by (simp add: message_nonce_def msg)
  moreover have "unsigned_nonces s' = unsigned_nonces s - {(n, cw_nonce_value c)}"
    using n by (auto simp: s' unsigned_nonces_def sent_from_same[OF sf] split: if_splits)
  moreover have "(n, cw_nonce_value c) \<in> unsigned_nonces s" using n by (auto simp: unsigned_nonces_def)
  ultimately show ?thesis by (auto simp: s' sent_from_same[OF sf])
qed

subsection \<open>Along a log\<close>

lemma log_nonces:
  assumes "replay_events lib log = Some s" and lib: "sdk_keeps_blockhash lib"
  shows "distinct (created_nonces log) \<and> seen_values (st_nonce_pool s) = set (created_nonces log) \<and>
    distinct (submitted_nonces lib log) \<and>
    set (submitted_nonces lib log) \<inter> unsigned_nonces s = {} \<and>
    set (submitted_nonces lib log) \<union> unsigned_nonces s = set (created_nonces log)"
  using assms(1)
proof (induction rule: replay_induct)
  case (init args t s)
  then show ?case using init_wf[of lib args s]
    by (simp add: created_nonces_def submitted_nonces_def created_nonce_def submitted_nonce_def
        List.map_filter_def unsigned_nonces_def)
next
  case (step log s t payload s')
  let ?e = "\<lparr>ev_timestamp = t, ev_payload = payload\<rparr>"
  consider bs n h where "payload = EvCreatedWithdrawalTransaction bs n h"
    | sig msg signers bs where "payload = EvSubmittedTransaction sig msg signers (PurposeWithdrawal bs)"
    | "created_nonce ?e = None" "\<And>sig msg signers bs. payload \<noteq> EvSubmittedTransaction sig msg signers (PurposeWithdrawal bs)"
    by (cases payload) (auto simp: created_nonce_def)
  then show ?case
  proof cases
    case (1 bs n h)
    then have "process_transaction_created bs n h s = Some s'" using step.hyps(2) by (simp add: apply_state_transition_def)
    note cn = create_nonces[OF this]
    have log: "created_nonces (log @ [?e]) = created_nonces log @ [(n, h)]" "submitted_nonces lib (log @ [?e]) = submitted_nonces lib log"
      by (simp_all add: created_nonces_def submitted_nonces_def map_filter_append created_nonce_def submitted_nonce_def 1)
    show ?thesis using step.IH cn unfolding log by auto
  next
    case (2 sig msg signers bs)
    then have "process_transaction_submitted lib sig msg signers (PurposeWithdrawal bs) t s = Some s'"
      using step.hyps(2) by (simp add: apply_state_transition_def)
    from submit_nonces[OF lib this] obtain p where p: "message_nonce lib msg = Some p" "p \<in> unsigned_nonces s"
      "unsigned_nonces s' = unsigned_nonces s - {p}" "seen_values (st_nonce_pool s') = seen_values (st_nonce_pool s)" by blast
    have log: "created_nonces (log @ [?e]) = created_nonces log" "submitted_nonces lib (log @ [?e]) = submitted_nonces lib log @ [p]"
      by (simp_all add: created_nonces_def submitted_nonces_def map_filter_append created_nonce_def submitted_nonce_def 2 p(1))
    show ?thesis using step.IH p(2-4) unfolding log by auto
  next
    case 3
    have "submitted_nonce lib ?e = None" using 3(2) by (auto simp: submitted_nonce_def split: event_type.splits transaction_purpose.splits)
    then have log: "created_nonces (log @ [?e]) = created_nonces log" "submitted_nonces lib (log @ [?e]) = submitted_nonces lib log"
      using 3(1) by (simp_all add: created_nonces_def submitted_nonces_def map_filter_append)
    show ?thesis using step.IH other_nonces[OF step.hyps(2) 3] unfolding log by simp
  qed
qed

text \<open>C2: No durable nonce value is used twice. Along any log the minter binds each value of a nonce
  account to at most one batch of withdrawals, it submits at most one transaction carrying that
  value, and only for a batch bound to it. Since the network accepts a nonce value once, no batch
  of withdrawals can be paid out by two transactions.\<close>

theorem nonce_used_once:
  assumes "replay_events lib log = Some s" and "sdk_keeps_blockhash lib"
  shows "distinct (created_nonces log) \<and> distinct (submitted_nonces lib log) \<and>
    set (submitted_nonces lib log) \<subseteq> set (created_nonces log) \<and>
    (\<forall>n h. (n, h) \<in> set (created_nonces log) \<longleftrightarrow> has_seen (st_nonce_pool s) n h)"
  using log_nonces[OF assms] by (auto simp: seen_values_def)

theorem nonce_used_once_witness:
  "submitted_nonces example_sdk example_log = [(1, 44)] \<and> has_seen (st_nonce_pool example_s11) 1 44"
proof -
  have "sdk_keeps_blockhash example_sdk"
    by (simp add: sdk_keeps_blockhash_def example_sdk_def example_compile_def Let_def)
  moreover have "created_nonces example_log = [(1, 44)]"
    by (simp add: created_nonces_def created_nonce_def List.map_filter_def example_log_def example_queue_event_def)
  moreover have "submitted_nonces example_sdk example_log = [(1, 44)]"
    by (simp add: submitted_nonces_def submitted_nonce_def message_nonce_def List.map_filter_def example_log_def
        example_queue_event_def example_advanced example_blockhash)
  ultimately show ?thesis using nonce_used_once[OF example_replay(1)] by auto
qed

subsection \<open>Finalization and submission never fail\<close>

lemma submitted_cases:
  assumes wf: "state_wf s" and X: "iom_get (st_submitted_transactions s) sig = Some tx"
  shows "case tx of
      TxSweepDeposit _ \<Rightarrow> (\<exists>d. finalize_swept sig (st_deposits s) = Some d) \<and> (\<exists>d. drop_swept sig (st_deposits s) = Some d)
    | TxWithdrawal _ n _ _ \<Rightarrow> \<exists>pool. free_nonce n (st_nonce_pool s) = Some pool"
    "iom_get (st_failed_transactions s) sig = None" "\<not> bm_contains (st_succeeded_transactions s) sig"
proof -
  note tx = transactions_wfD(3)[OF state_wfD(3)[OF wf]]
  show no: "iom_get (st_failed_transactions s) sig = None" "\<not> bm_contains (st_succeeded_transactions s) sig"
    using txs_okD(1)[OF tx, of sig] X by simp_all
  show "case tx of
      TxSweepDeposit _ \<Rightarrow> (\<exists>d. finalize_swept sig (st_deposits s) = Some d) \<and> (\<exists>d. drop_swept sig (st_deposits s) = Some d)
    | TxWithdrawal _ n _ _ \<Rightarrow> \<exists>pool. free_nonce n (st_nonce_pool s) = Some pool"
  proof (cases tx)
    case (TxSweepDeposit h)
    then obtain w where w: "sweeps_get (d_swept (st_deposits s)) sig = Some w"
      using txs_okD(6)[OF tx, of sig] X by (auto simp: sweep_sigs_def)
    have "sig \<notin> sweep_sigs (d_finalized (st_deposits s))" using txs_okD(7)[OF tx] no(2) by auto
    then have "sweeps_get (d_finalized (st_deposits s)) sig = None" by (simp add: sweep_sigs_def)
    moreover have "\<exists>d. drop_swept sig (st_deposits s) = Some d" by (rule drop_sweptE[OF state_wfD(1)[OF wf] w]) blast
    ultimately show ?thesis using finalize_swept_exists[OF state_wfD(1)[OF wf] w] by (simp add: TxSweepDeposit)
  next
    case (TxWithdrawal m n h t)
    then have "submitted_withdrawal (st_submitted_transactions s) sig n h" using X by (simp add: submitted_withdrawal_def)
    then have "n \<in> bound_accounts (st_nonce_pool s)" using nonces_wfD(1)[OF state_wfD(5)[OF wf]] by blast
    then show ?thesis using free_nonce_Some_iff by (simp add: TxWithdrawal)
  qed
qed

lemma succeeded_exists:
  assumes "state_wf s" "iom_get (st_submitted_transactions s) sig = Some tx"
  shows "\<exists>s'. process_transaction_succeeded sig s = Some s'" "\<exists>s'. process_transaction_failed sig s = Some s'"
    "(\<exists>s'. process_transaction_expired sig s = Some s') \<longleftrightarrow> is_sweep (Some tx)"
proof -
  obtain txs where rm: "iom_remove sig (st_submitted_transactions s) = (txs, Some tx)"
    using iom_remove_old[of sig "st_submitted_transactions s"] assms(2) by (metis prod.collapse)
  obtain failed where ins: "iom_insert sig tx (st_failed_transactions s) = (failed, None)"
    using iom_insert_old[of sig tx "st_failed_transactions s"] submitted_cases(2)[OF assms] by (metis prod.collapse)
  note cases = submitted_cases[OF assms]
  show "\<exists>s'. process_transaction_succeeded sig s = Some s'"
    using cases by (cases tx) (auto simp: process_transaction_succeeded_def rm iom_contains_key_iff lift_deposits_def
        assert_that_bind)
  show "\<exists>s'. process_transaction_failed sig s = Some s'"
    using cases ins by (cases tx) (auto simp: process_transaction_failed_def rm lift_deposits_def assert_that_bind)
  show "(\<exists>s'. process_transaction_expired sig s = Some s') \<longleftrightarrow> is_sweep (Some tx)"
    using cases by (cases tx) (auto simp: process_transaction_expired_def rm iom_contains_key_iff lift_deposits_def
        assert_that_bind)
qed

text \<open>C12: Recording the outcome of a transaction never panics in a state replayed from a log: success and
  failure can be recorded exactly for the submitted transactions, and expiry exactly for the submitted
  sweeps.\<close>

theorem finalization_total:
  assumes "replay_events lib log = Some s" "length log < 2 ^ 64"
    and "distinct (map wr_burn_block_index (accepted_requests log))"
  shows "((\<exists>s'. process_transaction_succeeded sig s = Some s') \<longleftrightarrow> iom_get (st_submitted_transactions s) sig \<noteq> None) \<and>
    ((\<exists>s'. process_transaction_failed sig s = Some s') \<longleftrightarrow> iom_get (st_submitted_transactions s) sig \<noteq> None) \<and>
    ((\<exists>s'. process_transaction_expired sig s = Some s') \<longleftrightarrow>
       (\<exists>h. iom_get (st_submitted_transactions s) sig = Some (TxSweepDeposit h)))"
proof (cases "iom_get (st_submitted_transactions s) sig")
  case None
  then have "process_transaction_succeeded sig s = None" "process_transaction_failed sig s = None"
    "process_transaction_expired sig s = None"
    using process_transaction_succeededD[of sig s] process_transaction_failedD[of sig s] process_transaction_expiredD[of sig s]
    by (metis not_None_eq option.distinct(1))+
  then show ?thesis using None by simp
next
  case (Some tx)
  have wf: "state_wf s" using log_wf[OF assms] by blast
  show ?thesis using succeeded_exists[OF wf Some] is_sweep_Some[of "Some tx"] Some by auto
qed

theorem finalization_total_witness:
  "(\<exists>s'. process_transaction_failed 200 example_s10 = Some s') \<and> process_transaction_expired 200 example_s10 = None"
proof -
  have "accepted_requests (take 11 example_log) = [example_request]"
    by (simp add: accepted_requests_def accepted_request_def List.map_filter_def example_log_def example_queue_event_def)
  moreover have "iom_get (st_submitted_transactions example_s10) 200 =
      Some (TxWithdrawal (Legacy example_withdrawal_message) 1 44 20)" by (simp add: example_s10_def)
  ultimately show ?thesis
    using finalization_total[OF example_replay(2), of 200] by (auto simp: example_log_length)
qed

lemma submit_exists:
  assumes wf: "state_wf s" and n: "bm_get (st_created_withdrawal_txs s) n = Some c"
    and b: "bound_withdrawal_message lib s n c = Some m" and ad: "advanced_nonce_account lib (Legacy m) = Some n"
    and new: "iom_get (st_submitted_transactions s) sig = None" "iom_get (st_failed_transactions s) sig = None"
      "\<not> bm_contains (st_succeeded_transactions s) sig"
  shows "\<exists>s'. process_transaction_submitted lib sig (Legacy m) [SignerMinter] (PurposeWithdrawal (cw_burn_indices c)) t s = Some s'"
proof -
  let ?s1 = "s\<lparr>st_created_withdrawal_txs := bm_remove n (st_created_withdrawal_txs s)\<rparr>"
  note cw = state_wfD(4)[OF wf]
  have "bm_get (st_created_withdrawal_requests s) x \<noteq> None \<and> bm_get (st_sent_withdrawal_requests s) x = None"
    if "x \<in> set (cw_burn_indices c)" for x
  proof -
    have "bm_get (st_created_withdrawal_requests s) x \<noteq> None" unfolding created_wfD(1)[OF cw] using n that by blast
    then obtain p where p: "bm_get (st_created_withdrawal_requests s) x = Some p" by blast
    have "one_stage (wstages s x)" using state_wfD(2)[OF wf] by (simp add: requests_wf_def)
    then have "sole (wstages s x) 1 (pw_request p, WtCreated)" using one_stage_sole[of "wstages s x" 1] p by simp
    then have "wstages s x ! 2 = None" by (rule sole_other) simp_all
    then show ?thesis using p by simp
  qed
  then obtain s2 where fold: "foldM (send_one sig) (cw_burn_indices c) ?s1 = Some s2"
    using foldM_send_exists[OF created_wfD(2)[OF cw n], of ?s1 sig] by auto
  have X: "st_submitted_transactions s2 = st_submitted_transactions s" using sent_from_same(2)[OF foldM_sendD[OF fold]] by simp
  have "bound_withdrawal_message lib ?s1 n c = Some m" using b by (simp add: bound_withdrawal_message_def)
  then have send: "send_nonce_withdrawal lib sig (Legacy m) [SignerMinter] (cw_burn_indices c) t s =
      Some (s2, TxWithdrawal (Legacy m) n (cw_nonce_value c) t)"
    using n fold by (simp add: send_nonce_withdrawal_def ad assert_that_bind)
  show ?thesis
    using new X iom_insert_old[of sig _ "st_submitted_transactions s"]
    by (simp add: process_transaction_submitted_def send assert_that_bind iom_contains_key_iff Let_def case_prod_unfold)
qed

text \<open>C13: A batch that was bound to a nonce account can always be submitted. In a state replayed from a
  log, the message rebuilt from the binding of a created transaction, signed by the minter under a
  signature not used before, is accepted; the requests of the batch become sent, and the account stays
  bound to this one transaction.\<close>

theorem created_transaction_submittable:
  assumes "replay_events lib log = Some s" "length log < 2 ^ 64"
    and "distinct (map wr_burn_block_index (accepted_requests log))"
    and "bm_get (st_created_withdrawal_txs s) n = Some c" "bound_withdrawal_message lib s n c = Some m"
    and "advanced_nonce_account lib (Legacy m) = Some n"
    and "iom_get (st_submitted_transactions s) sig = None" "iom_get (st_failed_transactions s) sig = None"
      "\<not> bm_contains (st_succeeded_transactions s) sig"
  shows "\<exists>s'. process_transaction_submitted lib sig (Legacy m) [SignerMinter] (PurposeWithdrawal (cw_burn_indices c)) t s = Some s' \<and>
    (\<forall>b \<in> set (cw_burn_indices c). \<exists>r. wview s b = Some (r, WtCreated) \<and> wview s' b = Some (r, WtSent sig)) \<and>
    bound_accounts (st_nonce_pool s') = bound_accounts (st_nonce_pool s)"
proof -
  have wf: "state_wf s" using log_wf[OF assms(1-3)] by blast
  obtain s' where s': "process_transaction_submitted lib sig (Legacy m) [SignerMinter] (PurposeWithdrawal (cw_burn_indices c)) t s = Some s'"
    using submit_exists[OF wf assms(4-)] by blast
  note mv = submitted_withdrawal_wmoves[OF s'] and rw = state_wfD(2)[OF wf]
  have "\<exists>r. wview s b = Some (r, WtCreated) \<and> wview s' b = Some (r, WtSent sig)" if "b \<in> set (cw_burn_indices c)" for b
    using wmoves_stage[OF mv rw that] wmoves_view[OF mv rw, of b] that by auto
  moreover have "st_nonce_pool s' = st_nonce_pool s"
    using s' by (rule submitted_withdrawalD) (simp add: sent_from_same)
  ultimately show ?thesis using s' by auto
qed

theorem created_transaction_submittable_witness:
  "\<exists>s'. process_transaction_submitted example_sdk 201 (Legacy example_withdrawal_message) [SignerMinter]
     (PurposeWithdrawal [5]) 30 example_s9 = Some s' \<and> (\<exists>r. wview s' 5 = Some (r, WtSent 201))"
proof -
  have "accepted_requests (take 10 example_log) = [example_request]"
    by (simp add: accepted_requests_def accepted_request_def List.map_filter_def example_log_def example_queue_event_def)
  moreover have "bm_get (st_created_withdrawal_txs example_s9) 1 = Some \<lparr>cw_nonce_value = 44, cw_burn_indices = [5]\<rparr>"
    by (simp add: example_s9_def)
  moreover have "bound_withdrawal_message example_sdk example_s9 1 \<lparr>cw_nonce_value = 44, cw_burn_indices = [5]\<rparr> =
      Some example_withdrawal_message"
    by (rule example_bound)
  moreover have "iom_get (st_submitted_transactions example_s9) 201 = None" "iom_get (st_failed_transactions example_s9) 201 = None"
      "\<not> bm_contains (st_succeeded_transactions example_s9) 201"
    by (simp_all add: example_s9_def example_s8_def example_base_defs)
  ultimately show ?thesis
    using created_transaction_submittable[OF example_replay(3), of 1 "\<lparr>cw_nonce_value = 44, cw_burn_indices = [5]\<rparr>"
        example_withdrawal_message 201 30] example_advanced by (auto simp: example_log_length)
qed

end
