(* ===== verification/Solvency.thy ===== *)
theory Solvency
  imports Nonce_Safety
begin

text \<open>
  The books of the minter along an event log: what it received, owes and paid out, and that the
  tracked balance of the main account covers the ckSOL it owes.

  Amounts are summed as natural numbers. The counters of the code are \<open>u64\<close> and wrap, so the
  equations hold while the totals of the log stay below \<open>2^64\<close> lamports.
\<close>

subsection \<open>Sums over a partial function with a finite domain\<close>

definition vsum :: "('v \<Rightarrow> nat) \<Rightarrow> ('i::finite \<Rightarrow> 'v option) \<Rightarrow> nat" where
  "vsum f V = (\<Sum>i \<in> {i. V i \<noteq> None}. f (the (V i)))"

lemma vsum_empty: "(\<And>i. V i = None) \<Longrightarrow> vsum f V = 0"
  by (simp add: vsum_def)

lemma vsum_add: "V i = None \<Longrightarrow> vsum f (V(i \<mapsto> v)) = vsum f V + f v"
proof -
  assume "V i = None"
  then have "{j. (V(i \<mapsto> v)) j \<noteq> None} = insert i {j. V j \<noteq> None}" "i \<notin> {j. V j \<noteq> None}" by auto
  moreover have "(\<Sum>j \<in> {j. V j \<noteq> None}. f (the ((V(i \<mapsto> v)) j))) = vsum f V"
    unfolding vsum_def using \<open>V i = None\<close> by (intro sum.cong) auto
  ultimately show ?thesis by (simp add: vsum_def)
qed

lemma vsum_change:
  assumes V': "\<And>i. V' i = (if i \<in> I then Some (F i) else V i)" and I: "\<And>i. i \<in> I \<Longrightarrow> V i \<noteq> None"
  shows "vsum f V' + (\<Sum>i \<in> I. f (the (V i))) = vsum f V + (\<Sum>i \<in> I. f (F i))"
proof -
  let ?D = "{i. V i \<noteq> None}"
  have dom: "{i. V' i \<noteq> None} = ?D" and sub: "I \<subseteq> ?D" using V' I by auto
  have "vsum f V' = (\<Sum>i \<in> ?D - I. f (the (V' i))) + (\<Sum>i \<in> I. f (the (V' i)))"
    unfolding vsum_def dom by (rule sum.subset_diff[OF sub]) simp
  moreover have "(\<Sum>i \<in> ?D - I. f (the (V' i))) = (\<Sum>i \<in> ?D - I. f (the (V i)))"
    by (rule sum.cong) (simp_all add: V')
  moreover have "(\<Sum>i \<in> I. f (the (V' i))) = (\<Sum>i \<in> I. f (F i))" by (rule sum.cong) (simp_all add: V')
  moreover have "vsum f V = (\<Sum>i \<in> ?D - I. f (the (V i))) + (\<Sum>i \<in> I. f (the (V i)))"
    unfolding vsum_def by (rule sum.subset_diff[OF sub]) simp
  ultimately show ?thesis by simp
qed

lemma vsum_subset:
  assumes "\<And>i. i \<in> I \<Longrightarrow> V i = Some (G i)"
  shows "(\<Sum>i \<in> I. f (G i)) \<le> vsum f V"
proof -
  have "(\<Sum>i \<in> I. f (G i)) = (\<Sum>i \<in> I. f (the (V i)))" using assms by (intro sum.cong) auto
  also have "\<dots> \<le> vsum f V" unfolding vsum_def by (rule sum_mono2) (use assms in auto)
  finally show ?thesis .
qed

lemma vsum_mono: "(\<And>i v. V i = Some v \<Longrightarrow> f v \<le> g v) \<Longrightarrow> vsum f V \<le> vsum g V"
  unfolding vsum_def by (rule sum_mono) auto

lemma vsum_plus: "vsum (\<lambda>v. f v + g v) V = vsum f V + vsum g V"
  by (simp add: vsum_def sum.distrib)

lemma vsum_times: "vsum (\<lambda>v. c * f v) V = c * vsum f V"
  by (simp add: vsum_def sum_distrib_left)

subsection \<open>What the minter owes for deposits\<close>

text \<open>The amount minted, or still to be minted, for a deposit; an unresolved mint counts as owed.\<close>

fun owed_stage :: "stage \<Rightarrow> nat" where
  "owed_stage (StPending _ amount _) = unat amount"
| "owed_stage (StMinted _ amount _) = unat amount"
| "owed_stage (StQuarantined _ (MintUnresolved amount _)) = unat amount"
| "owed_stage _ = 0"

definition owed :: "deposits \<Rightarrow> nat" where
  "owed d = vsum (\<lambda>v. owed_stage (snd v)) (view d)"

definition deposit_size :: "queued_deposit \<Rightarrow> nat" where
  "deposit_size q = unat (deposit_balance_lamports (qd_balance q))"

definition queued_size :: "deposits \<Rightarrow> nat" where
  "queued_size d = vsum (\<lambda>v. deposit_size (fst v)) (view d)"

lemma moves_vsum:
  assumes wf: "deposits_wf d" and mv: "moves d d' I k l st"
    and f: "\<And>i q s. i \<in> I \<Longrightarrow> stages d i ! k = Some (q, s) \<Longrightarrow> f (q, st i) = f (q, s) + extra i"
  shows "vsum f (view d') = vsum f (view d) + (\<Sum>i \<in> I. extra i)"
proof -
  let ?F = "\<lambda>i. (fst (the (view d i)), st i)"
  have at: "\<exists>q s. view d i = Some (q, s) \<and> stages d i ! k = Some (q, s)" if "i \<in> I" for i
    by (rule moves_from[OF mv deposits_wfD(1)[OF wf] that])
  have "view d' i = (if i \<in> I then Some (?F i) else view d i)" for i
    unfolding moves_view[OF mv deposits_wfD(1)[OF wf]] restage_def using at[of i] by auto
  moreover have "view d i \<noteq> None" if "i \<in> I" for i using at[OF that] by auto
  ultimately have "vsum f (view d') + (\<Sum>i \<in> I. f (the (view d i))) = vsum f (view d) + (\<Sum>i \<in> I. f (?F i))"
    by (rule vsum_change)
  moreover have "(\<Sum>i \<in> I. f (?F i)) = (\<Sum>i \<in> I. f (the (view d i)) + extra i)"
  proof (rule sum.cong)
    fix i assume i: "i \<in> I"
    obtain q s where "view d i = Some (q, s)" "stages d i ! k = Some (q, s)" using at[OF i] by blast
    then show "f (?F i) = f (the (view d i)) + extra i" using f[OF i] by simp
  qed simp
  ultimately show ?thesis by (simp add: sum.distrib)
qed

lemma moves_sizes:
  assumes "deposits_wf d" "moves d d' I k l st"
    and "\<And>i q s. i \<in> I \<Longrightarrow> stages d i ! k = Some (q, s) \<Longrightarrow> owed_stage (st i) = owed_stage s + extra i"
  shows "queued_size d' = queued_size d" "owed d' = owed d + (\<Sum>i \<in> I. extra i)"
  using moves_vsum[OF assms(1,2), of "\<lambda>v. deposit_size (fst v)" "\<lambda>_. 0"]
    moves_vsum[OF assms(1,2), of "\<lambda>v. owed_stage (snd v)" extra] assms(3)
  by (simp_all add: queued_size_def owed_def)

lemma queue_sizes:
  assumes "deposits_wf d" "queue i q t d = Some d'"
  shows "queued_size d' = queued_size d + deposit_size q" "owed d' = owed d"
  using queue_view(1,2)[OF assms] by (simp_all add: queued_size_def owed_def vsum_add)

text \<open>Operations after which the minter owes the same.\<close>

definition owes_same :: "deposits \<Rightarrow> deposits \<Rightarrow> bool" where
  "owes_same d d' \<longleftrightarrow> queued_size d' = queued_size d \<and> owed d' = owed d"

lemma moves_owes_same:
  assumes "deposits_wf d" "moves d d' I k l st"
    and "\<And>i q s. i \<in> I \<Longrightarrow> stages d i ! k = Some (q, s) \<Longrightarrow> owed_stage (st i) = owed_stage s"
  shows "owes_same d d'"
  using moves_sizes[OF assms(1,2), of "\<lambda>_. 0"] assms(3) by (simp add: owes_same_def)

lemma sweep_owes_same: "deposits_wf d \<Longrightarrow> sweep_deposits lib ids to msg sig d = Some (d', received) \<Longrightarrow> owes_same d d'"
  by (rule moves_owes_same[OF _ sweep_deposits_moves(1)]) auto

lemma finalize_owes_same:
  assumes "deposits_wf d" "finalize_swept sig d = Some d'" shows "owes_same d d'"
proof -
  obtain w where w: "sweeps_get (d_swept d) sig = Some w"
    using assms(2) by (elim finalize_sweptD) (auto simp: sweeps_remove_Some_iff)
  show ?thesis by (rule moves_owes_same[OF assms(1) finalize_swept_moves(1)[OF assms w]]) auto
qed

lemma drop_owes_same:
  assumes "deposits_wf d" "drop_swept sig d = Some d'" shows "owes_same d d'"
proof -
  obtain w where w: "sweeps_get (d_swept d) sig = Some w" using drop_sweptD[OF assms(2)] by blast
  show ?thesis by (rule moves_owes_same[OF assms(1) drop_swept_moves(1)[OF assms w]]) auto
qed

lemma quarantine_owes_same:
  assumes "deposits_wf d" "quarantine_sweep sig d = Some d'" shows "owes_same d d'"
proof -
  obtain w where w: "sweeps_get (d_finalized d) sig = Some w"
    using assms(2) by (elim quarantine_sweepD) (auto simp: sweeps_remove_Some_iff)
  show ?thesis by (rule moves_owes_same[OF assms(1) quarantine_sweep_moves(1)[OF assms w]]) auto
qed

lemma mint_owes_same:
  assumes "deposits_wf d" "mint_deposit i b d = Some d'" shows "owes_same d d'"
proof -
  obtain p where p: "bm_get (d_pending_mints d) i = Some p" using assms(2) by (auto elim: mint_depositD)
  show ?thesis by (rule moves_owes_same[OF assms(1) mint_deposit_moves(1)[OF assms p]]) (use p in \<open>auto simp: pending_view_def\<close>)
qed

lemma give_up_owes_same:
  assumes "deposits_wf d" "quarantine_pending_mint i d = Some d'" shows "owes_same d d'"
proof -
  obtain p where p: "bm_get (d_pending_mints d) i = Some p" using assms(2) by (auto elim: quarantine_pending_mintD)
  show ?thesis
    by (rule moves_owes_same[OF assms(1) quarantine_pending_mint_moves(1)[OF assms p]]) (use p in \<open>auto simp: pending_view_def\<close>)
qed

lemma sum_credited:
  assumes "distinct (map cd_deposit_id cs)" "cd_deposit_id ` set cs = I"
  shows "(\<Sum>i \<in> I. unat (credited_amount cs i)) = sum_list (map (unat \<circ> cd_amount_to_mint) cs)"
proof -
  have inj: "inj_on cd_deposit_id (set cs)" and dist: "distinct cs" using assms(1) by (simp_all add: distinct_map)
  have "(\<Sum>i \<in> I. unat (credited_amount cs i)) = (\<Sum>c \<in> set cs. unat (credited_amount cs (cd_deposit_id c)))"
    using sum.reindex[OF inj, of "\<lambda>i. unat (credited_amount cs i)"] assms(2) by simp
  also have "\<dots> = (\<Sum>c \<in> set cs. unat (cd_amount_to_mint c))"
    using credited_amount_eq[OF assms(1)] by simp
  also have "\<dots> = sum_list (map (unat \<circ> cd_amount_to_mint) cs)"
    using sum_list_distinct_conv_sum_set[OF dist, of "unat \<circ> cd_amount_to_mint"] by simp
  finally show ?thesis .
qed

lemma credit_sizes:
  assumes wf: "deposits_wf d" and cr: "credit_sweep sig cs t d = Some (d', w)" and fits: "queued_size d < 2 ^ 64"
  shows "queued_size d' = queued_size d" "owed d' = owed d + unat (sum_list (map cd_amount_to_mint cs))"
proof -
  from cr obtain fin P where rm: "sweeps_remove sig (d_finalized d) = Some (fin, w)"
    and dist: "distinct (map cd_deposit_id cs)" and ids: "cd_deposit_id ` set cs = sweep_ids w"
    and le: "\<forall>c \<in> set cs. \<exists>q. bm_get (sw_deposits w) (cd_deposit_id c) = Some q \<and> cd_amount_to_mint c \<le> sweepable_amount q"
    by (rule credit_sweepD)
  note mv = credit_sweep_moves(1)[OF wf cr]
  note sizes = moves_sizes[OF wf mv, of "\<lambda>i. unat (credited_amount cs i)"]
  show "queued_size d' = queued_size d" by (rule sizes(1)) auto
  have "owed d' = owed d + (\<Sum>i \<in> sweep_ids w. unat (credited_amount cs i))" by (rule sizes(2)) auto
  then have own: "owed d' = owed d + sum_list (map (unat \<circ> cd_amount_to_mint) cs)"
    by (simp only: sum_credited[OF dist ids])
  have at: "\<exists>q. view d (cd_deposit_id c) = Some (q, StFinalized sig) \<and> unat (cd_amount_to_mint c) \<le> deposit_size q"
    if c: "c \<in> set cs" for c
  proof -
    obtain q where q: "bm_get (sw_deposits w) (cd_deposit_id c) = Some q" "cd_amount_to_mint c \<le> sweepable_amount q"
      using bspec[OF le c] by blast
    have "sweeps_deposit (d_finalized d) (cd_deposit_id c) = Some (sig, q)"
      using sweeps_remove_deposit(1)[OF rm deposits_wfD(3)[OF wf] q(1)] .
    then have "view d (cd_deposit_id c) = Some (q, StFinalized sig)"
      using staged_view(1)[OF deposits_wfD(1)[OF wf], of 2 "cd_deposit_id c" "(q, StFinalized sig)"] by simp
    moreover have "unat (cd_amount_to_mint c) \<le> deposit_size q"
      using q(2) unat_balance[of "qd_balance q"] by (simp add: word_le_nat_alt deposit_size_def sweepable_amount_def)
    ultimately show ?thesis by blast
  qed
  have inj: "inj_on cd_deposit_id (set cs)" and dcs: "distinct cs" using dist by (simp_all add: distinct_map)
  have "sum_list (map (unat \<circ> cd_amount_to_mint) cs) = (\<Sum>c \<in> set cs. unat (cd_amount_to_mint c))"
    using sum_list_distinct_conv_sum_set[OF dcs, of "unat \<circ> cd_amount_to_mint"] by simp
  also have "\<dots> \<le> (\<Sum>c \<in> set cs. deposit_size (fst (the (view d (cd_deposit_id c)))))"
    by (rule sum_mono) (use at in fastforce)
  also have "\<dots> = (\<Sum>i \<in> sweep_ids w. deposit_size (fst (the (view d i))))"
    using sum.reindex[OF inj, of "\<lambda>i. deposit_size (fst (the (view d i)))"] ids by simp
  also have "\<dots> \<le> queued_size d"
    unfolding queued_size_def
  proof (rule vsum_subset)
    fix i assume "i \<in> sweep_ids w"
    then obtain c where "c \<in> set cs" "i = cd_deposit_id c" using ids by blast
    then show "view d i = Some (the (view d i))" using at[of c] by auto
  qed
  finally have "sum_list (map unat (map cd_amount_to_mint cs)) < 2 ^ LENGTH(64)" using fits by simp
  then show "owed d' = owed d + unat (sum_list (map cd_amount_to_mint cs))"
    using own unat_sum_list_word[of "map cd_amount_to_mint cs"] by simp
qed

subsection \<open>What the minter paid out for withdrawals\<close>

text \<open>Sums over the requests that depend on the request and on whether it is still pending.\<close>

definition rsum :: "(withdrawal_request \<Rightarrow> bool \<Rightarrow> nat) \<Rightarrow> minter_state \<Rightarrow> nat" where
  "rsum h s = vsum (\<lambda>v. h (fst v) (snd v = WtPending)) (wview s)"

definition committed :: "minter_state \<Rightarrow> nat" where
  "committed = rsum (\<lambda>r pending. if pending then 0 else unat (wr_amount_to_transfer r))"

definition committed_count :: "minter_state \<Rightarrow> nat" where
  "committed_count = rsum (\<lambda>r pending. if pending then 0 else 1)"

definition burned :: "minter_state \<Rightarrow> nat" where
  "burned = rsum (\<lambda>r pending. unat (wr_burned_amount r))"

definition pending_burned :: "minter_state \<Rightarrow> nat" where
  "pending_burned = rsum (\<lambda>r pending. if pending then unat (wr_burned_amount r) else 0)"

lemma wview_pending_iff:
  "(\<exists>r. wview s b = Some (r, WtPending)) \<longleftrightarrow> bm_get (st_pending_withdrawal_requests s) b \<noteq> None"
  by (cases "bm_get (st_pending_withdrawal_requests s) b")
     (auto simp: wview_def wstages_def sent_view_def split: option.splits)

lemma view_step_rsum:
  assumes vs: "view_step s s'" and same: "st_pending_withdrawal_requests s' = st_pending_withdrawal_requests s"
  shows "rsum h s' = rsum h s"
proof -
  have at: "wview s' b = None" if "wview s b = None" for b
    using vs[unfolded view_step_def, rule_format, of b] that by simp
  have st: "\<exists>st'. wview s' b = Some (r, st') \<and> (st' = WtPending \<longleftrightarrow> st = WtPending)" if b: "wview s b = Some (r, st)" for b r st
  proof -
    obtain st' where st': "wview s' b = Some (r, st')" using vs[unfolded view_step_def, rule_format, of b] b by auto
    have "(\<exists>r. wview s' b = Some (r, WtPending)) \<longleftrightarrow> (\<exists>r. wview s b = Some (r, WtPending))"
      unfolding wview_pending_iff same ..
    then show ?thesis using st' b by auto
  qed
  have "{b. wview s' b \<noteq> None} = {b. wview s b \<noteq> None}" using at st by fastforce
  moreover have "h (fst (the (wview s' b))) (snd (the (wview s' b)) = WtPending) =
      h (fst (the (wview s b))) (snd (the (wview s b)) = WtPending)" if b: "wview s b \<noteq> None" for b
  proof -
    obtain r x where "wview s b = Some (r, x)" using b by auto
    then show ?thesis using st by fastforce
  qed
  ultimately show ?thesis unfolding rsum_def vsum_def by (intro sum.cong) simp_all
qed

lemma accepted_rsum:
  assumes "requests_wf s" "process_accepted_withdrawal r t s = Some s'" "wview s (wr_burn_block_index r) = None"
  shows "rsum h s' = rsum h s + h r True"
  using accepted_wview(2)[OF assms] assms(3) by (simp add: rsum_def vsum_add)

lemma created_rsum:
  assumes wf: "requests_wf s" and cr: "process_transaction_created bs n h s = Some s'"
    and f: "\<And>r. f r False = f r True + g r" and d: "distinct bs"
    and P: "\<And>b. b \<in> set bs \<Longrightarrow> \<exists>p. bm_get (st_pending_withdrawal_requests s) b = Some p \<and> g (pw_request p) = G b"
  shows "rsum f s' = rsum f s + sum_list (map G bs)"
proof -
  note mv = created_wmoves[OF cr]
  have at: "\<exists>r. wview s b = Some (r, WtPending) \<and> g r = G b" if b: "b \<in> set bs" for b
  proof -
    obtain p where p: "bm_get (st_pending_withdrawal_requests s) b = Some p" "g (pw_request p) = G b" using P[OF b] by blast
    obtain r st0 where "wstages s b ! 0 = Some (r, st0)" "wview s b = Some (r, st0)"
      using wmoves_stage[OF mv wf b] by blast
    then show ?thesis using p by auto
  qed
  let ?f = "\<lambda>v. f (fst v) (snd v = WtPending)" and ?F = "\<lambda>b. (fst (the (wview s b)), WtCreated)"
  have "wview s' b = (if b \<in> set bs then Some (?F b) else wview s b)" for b
    using wmoves_view[OF mv wf, of b] at[of b] by auto
  moreover have "wview s b \<noteq> None" if "b \<in> set bs" for b using at[OF that] by auto
  ultimately have "vsum ?f (wview s') + (\<Sum>b \<in> set bs. ?f (the (wview s b))) = vsum ?f (wview s) + (\<Sum>b \<in> set bs. ?f (?F b))"
    by (rule vsum_change)
  moreover have "(\<Sum>b \<in> set bs. ?f (?F b)) = (\<Sum>b \<in> set bs. ?f (the (wview s b)) + G b)"
  proof (rule sum.cong)
    fix b assume "b \<in> set bs"
    then obtain r where "wview s b = Some (r, WtPending)" "g r = G b" using at by blast
    then show "?f (?F b) = ?f (the (wview s b)) + G b" using f[of r] by simp
  qed simp
  moreover have "(\<Sum>b \<in> set bs. G b) = sum_list (map G bs)" using sum_list_distinct_conv_sum_set[OF d, of G] by simp
  ultimately show ?thesis by (simp add: rsum_def sum.distrib)
qed

subsection \<open>The transitions\<close>

text \<open>The amounts a transition leaves alone.\<close>

definition money_kept :: "minter_state \<Rightarrow> minter_state \<Rightarrow> bool" where
  "money_kept s s' \<longleftrightarrow> st_balance s' = st_balance s \<and>
     st_collected_automatic_deposit_fees s' = st_collected_automatic_deposit_fees s \<and>
     st_pending_withdrawal_requests s' = st_pending_withdrawal_requests s \<and>
     owes_same (st_deposits s) (st_deposits s')"

lemma owes_same_refl [simp]: "owes_same d d"
  by (simp add: owes_same_def)

lemma money_kept_lift:
  assumes "lift_deposits f s = Some s'" "\<And>d. f (st_deposits s) = Some d \<Longrightarrow> owes_same (st_deposits s) d"
  shows "money_kept s s'"
  using assms(1) by (rule lift_depositsD) (use assms(2) in \<open>auto simp: money_kept_def\<close>)

lemma money_kept_finalized:
  assumes wf: "deposits_wf (st_deposits s)"
    and s2: "case tx of TxSweepDeposit _ \<Rightarrow> \<exists>d. (finalize_swept sig (st_deposits s) = Some d \<or>
         drop_swept sig (st_deposits s) = Some d) \<and> s2 = s\<lparr>st_deposits := d\<rparr>
      | TxWithdrawal _ n _ _ \<Rightarrow> \<exists>pool. free_nonce n (st_nonce_pool s) = Some pool \<and> s2 = s\<lparr>st_nonce_pool := pool\<rparr>"
  shows "money_kept s s2"
  using s2 finalize_owes_same[OF wf] drop_owes_same[OF wf]
  by (cases tx) (auto simp: money_kept_def)

lemma money_kept_outcome:
  assumes wf: "deposits_wf (st_deposits s)"
  shows "process_transaction_succeeded sig s = Some s' \<Longrightarrow> money_kept s s'"
    "process_transaction_failed sig s = Some s' \<Longrightarrow> money_kept s s'"
    "process_transaction_expired sig s = Some s' \<Longrightarrow> money_kept s s'"
proof -
  assume "process_transaction_succeeded sig s = Some s'"
  then obtain tx s2 where s2: "case tx of TxSweepDeposit _ \<Rightarrow> \<exists>d. finalize_swept sig (st_deposits s) = Some d \<and> s2 = s\<lparr>st_deposits := d\<rparr>
      | TxWithdrawal _ n _ _ \<Rightarrow> \<exists>pool. free_nonce n (st_nonce_pool s) = Some pool \<and> s2 = s\<lparr>st_nonce_pool := pool\<rparr>"
    and s': "s' = s2\<lparr>st_submitted_transactions := fst (iom_remove sig (st_submitted_transactions s)),
       st_succeeded_transactions := bs_insert sig (st_succeeded_transactions s),
       st_successful_withdrawal_requests := extract_sent sig s (st_successful_withdrawal_requests s),
       st_sent_withdrawal_requests := remaining_sent sig s\<rparr>"
    by (rule process_transaction_succeededD)
  have "money_kept s s2" by (rule money_kept_finalized[OF wf, where tx = tx and sig = sig]) (use s2 in \<open>cases tx; auto\<close>)
  then show "money_kept s s'" by (simp add: s' money_kept_def)
next
  assume "process_transaction_failed sig s = Some s'"
  then obtain tx s2 where s2: "case tx of TxSweepDeposit _ \<Rightarrow> \<exists>d. drop_swept sig (st_deposits s) = Some d \<and> s2 = s\<lparr>st_deposits := d\<rparr>
      | TxWithdrawal _ n _ _ \<Rightarrow> \<exists>pool. free_nonce n (st_nonce_pool s) = Some pool \<and> s2 = s\<lparr>st_nonce_pool := pool\<rparr>"
    and s': "s' = s2\<lparr>st_submitted_transactions := fst (iom_remove sig (st_submitted_transactions s)),
       st_failed_transactions := fst (iom_insert sig tx (st_failed_transactions s)),
       st_failed_withdrawal_requests := extract_sent sig s (st_failed_withdrawal_requests s),
       st_sent_withdrawal_requests := remaining_sent sig s\<rparr>"
    by (rule process_transaction_failedD)
  have "money_kept s s2" by (rule money_kept_finalized[OF wf, where tx = tx and sig = sig]) (use s2 in \<open>cases tx; auto\<close>)
  then show "money_kept s s'" by (simp add: s' money_kept_def)
next
  assume "process_transaction_expired sig s = Some s'"
  then show "money_kept s s'"
    by (rule process_transaction_expiredD) (use drop_owes_same[OF wf] in \<open>auto simp: money_kept_def\<close>)
qed

lemma sent_from_money:
  assumes "sent_from sig s bs s1"
  shows "st_balance s1 = st_balance s"
    "st_collected_automatic_deposit_fees s1 = st_collected_automatic_deposit_fees s"
    "st_pending_withdrawal_requests s1 = st_pending_withdrawal_requests s"
  using assms unfolding sent_from_def by auto

lemma money_kept_submitted:
  assumes wf: "deposits_wf (st_deposits s)"
    and tr: "process_transaction_submitted lib sig msg signers purpose t s = Some s'"
  shows "money_kept s s'"
proof (cases purpose)
  case (PurposeSweepDeposit ids h)
  from tr[unfolded PurposeSweepDeposit] show ?thesis
    by (rule process_transaction_submittedD) (use sweep_owes_same[OF wf] in \<open>auto simp: money_kept_def\<close>)
next
  case (PurposeWithdrawal bs)
  from tr[unfolded PurposeWithdrawal] obtain na c m s1 where "bm_get (st_created_withdrawal_txs s) na = Some c"
    and sf: "sent_from sig (s\<lparr>st_created_withdrawal_txs := bm_remove na (st_created_withdrawal_txs s)\<rparr>) bs s1"
    and s': "s' = s1\<lparr>st_submitted_transactions := fst (iom_insert sig (TxWithdrawal msg na (cw_nonce_value c) t) (st_submitted_transactions s))\<rparr>"
    by (rule submitted_withdrawalD)
  show ?thesis by (simp add: s' money_kept_def sent_from_money[OF sf] sent_from_same(1)[OF sf])
qed

lemma money_kept_other:
  assumes wf: "state_wf s" and tr: "apply_state_transition lib payload t s = Some s'"
    and no: "\<And>r. payload \<noteq> EvAcceptedWithdrawalRequest r" "\<And>i a ad b f. payload \<noteq> EvQueuedDeposit i a ad b f"
      "\<And>sig x cs. payload \<noteq> EvCreditedSweep sig x cs" "\<And>bs n h. payload \<noteq> EvCreatedWithdrawalTransaction bs n h"
  shows "money_kept s s'"
proof (cases payload)
  case (EvUpgrade args)
  then have "upgrade lib args s = Inr s'" using tr by (auto simp: apply_state_transition_def split: sum.splits)
  then show ?thesis by (rule upgradeD) (auto simp: money_kept_def upgrade_settings_def)
next
  case (EvMinterPublicKeyFetched k c)
  then show ?thesis using tr
    by (auto simp: apply_state_transition_def cache_minter_public_key_def money_kept_def split: option.splits if_splits)
next
  case (EvQuarantinedSweep sig)
  show ?thesis
    by (rule money_kept_lift[of "quarantine_sweep sig"])
       (use tr EvQuarantinedSweep quarantine_owes_same[OF state_wfD(1)[OF wf]] in \<open>auto simp: payload_defs\<close>)
next
  case (EvMintedSweptDeposit i b)
  show ?thesis
    by (rule money_kept_lift[of "mint_deposit i b"])
       (use tr EvMintedSweptDeposit mint_owes_same[OF state_wfD(1)[OF wf]] in \<open>auto simp: payload_defs\<close>)
next
  case (EvQuarantinedPendingMint i)
  show ?thesis
    by (rule money_kept_lift[of "quarantine_pending_mint i"])
       (use tr EvQuarantinedPendingMint give_up_owes_same[OF state_wfD(1)[OF wf]] in \<open>auto simp: payload_defs\<close>)
qed (use tr no money_kept_submitted[OF state_wfD(1)[OF wf]] money_kept_outcome[OF state_wfD(1)[OF wf]] in
    \<open>auto simp: apply_state_transition_def\<close>)

subsection \<open>The books\<close>

text \<open>\<open>R\<close> lamports received, \<open>Q\<close> lamports queued, \<open>B\<close> ckSOL burned, \<open>C\<close> transactions created.\<close>

definition books :: "nat \<Rightarrow> nat \<Rightarrow> nat \<Rightarrow> nat \<Rightarrow> minter_state \<Rightarrow> bool" where
  "books R Q B C s \<longleftrightarrow>
     queued_size (st_deposits s) = Q \<and>
     owed (st_deposits s) + unat (st_collected_automatic_deposit_fees s) \<le> R \<and>
     unat (st_balance s) + committed s + unat BATCH_WITHDRAWAL_TX_FEE * C = R \<and>
     burned s = B \<and> C \<le> committed_count s"

lemma books_same_requests:
  assumes "view_step s s'" "st_pending_withdrawal_requests s' = st_pending_withdrawal_requests s"
  shows "committed s' = committed s" "burned s' = burned s" "committed_count s' = committed_count s"
  using view_step_rsum[OF assms] by (simp_all add: committed_def burned_def committed_count_def)

lemma books_kept:
  assumes "books R Q B C s" "money_kept s s'" "view_step s s'"
  shows "books R Q B C s'"
proof -
  have "st_pending_withdrawal_requests s' = st_pending_withdrawal_requests s" using assms(2) by (simp add: money_kept_def)
  from books_same_requests[OF assms(3) this] show ?thesis
    using assms(1,2) by (simp add: books_def money_kept_def owes_same_def)
qed

lemma books_queue:
  assumes "books R Q B C s" "deposits_wf (st_deposits s)" "process_queued_deposit i q t s = Some s'" "view_step s s'"
  shows "books R (Q + deposit_size q) B C s'"
proof -
  from assms(3)[unfolded process_queued_deposit_def] obtain d where d: "queue i q t (st_deposits s) = Some d"
    and s': "s' = s\<lparr>st_deposits := d\<rparr>" by (rule lift_depositsD)
  from books_same_requests[OF assms(4)] have "committed s' = committed s" "burned s' = burned s"
    "committed_count s' = committed_count s" by (simp_all add: s')
  then show ?thesis using assms(1) queue_sizes[OF assms(2) d] by (simp add: books_def s')
qed

lemma unat_add_le: "unat ((a :: 'a::len word) + b) \<le> unat a + unat b"
  by (simp add: unat_word_ariths)

lemma unat_add_fits: "unat (a :: u64) + unat b < 2 ^ 64 \<Longrightarrow> unat (a + b) = unat a + unat b"
  by (simp add: unat_word_ariths)

lemma books_credit:
  assumes bk: "books R Q B C s" and wf: "deposits_wf (st_deposits s)" and fits: "Q < 2 ^ 64" "R + unat received < 2 ^ 64"
    and cr: "process_credited_sweep sig received cs t s = Some s'" and vs: "view_step s s'"
  shows "books (R + unat received) Q B C s'"
proof -
  from cr obtain d w total where d: "credit_sweep sig cs t (st_deposits s) = Some (d, w)"
    and total: "unat total = unat (sum_list (map cd_amount_to_mint cs)) + unat (deposit_fees w)" "total \<le> received"
    and s': "s' = s\<lparr>st_deposits := d,
       st_collected_automatic_deposit_fees := st_collected_automatic_deposit_fees s + deposit_fees w,
       st_balance := st_balance s + received\<rparr>" by (rule process_credited_sweepD)
  have Q: "queued_size (st_deposits s) = Q" using bk by (simp add: books_def)
  note sizes = credit_sizes[OF wf d, unfolded Q, OF fits(1)]
  from books_same_requests[OF vs] have req: "committed s' = committed s" "burned s' = burned s"
    "committed_count s' = committed_count s" by (simp_all add: s')
  have "unat (st_collected_automatic_deposit_fees s + deposit_fees w)
      \<le> unat (st_collected_automatic_deposit_fees s) + unat (deposit_fees w)" by (rule unat_add_le)
  moreover have "unat total \<le> unat received" using total(2) by (simp add: word_le_nat_alt)
  moreover have "unat (st_balance s + received) = unat (st_balance s) + unat received"
    using bk fits(2) by (intro unat_add_fits) (simp add: books_def)
  moreover have "st_deposits s' = d" "st_balance s' = st_balance s + received"
    "st_collected_automatic_deposit_fees s' = st_collected_automatic_deposit_fees s + deposit_fees w" by (simp_all add: s')
  ultimately show ?thesis using bk sizes total(1) by (simp add: books_def req)
qed

lemma books_accept:
  assumes bk: "books R Q B C s" and wf: "requests_wf s" and ac: "process_accepted_withdrawal r t s = Some s'"
    and new: "wview s (wr_burn_block_index r) = None"
  shows "books R Q (B + unat (wr_burned_amount r)) C s'"
  using bk accepted_rsum[OF wf ac new] process_accepted_withdrawalD(1)[OF ac]
  by (simp add: books_def committed_def burned_def committed_count_def)

text \<open>Every request pays for its transfer and a transaction fee.\<close>

definition fee_covered :: "withdrawal_request \<Rightarrow> bool" where
  "fee_covered r \<longleftrightarrow> unat (wr_amount_to_transfer r) + unat BATCH_WITHDRAWAL_TX_FEE \<le> unat (wr_burned_amount r)"

lemma requests_cost:
  assumes "\<And>r. r \<in> requests_of s \<Longrightarrow> fee_covered r"
  shows "committed s + unat BATCH_WITHDRAWAL_TX_FEE * committed_count s + pending_burned s \<le> burned s"
proof -
  have "committed s + unat BATCH_WITHDRAWAL_TX_FEE * committed_count s + pending_burned s =
      rsum (\<lambda>r p. if p then unat (wr_burned_amount r) else unat (wr_amount_to_transfer r) + unat BATCH_WITHDRAWAL_TX_FEE) s"
    unfolding committed_def committed_count_def pending_burned_def rsum_def vsum_times[symmetric] vsum_plus[symmetric]
    by (rule arg_cong[where f = "\<lambda>f. vsum f (wview s)"]) auto
  also have "\<dots> \<le> burned s" unfolding rsum_def burned_def
  proof (rule vsum_mono)
    fix b v assume "wview s b = Some v"
    then have "fst v \<in> requests_of s" unfolding requests_of_def by (metis (mono_tags, lifting) mem_Collect_eq prod.collapse)
    then show "(if snd v = WtPending then unat (wr_burned_amount (fst v))
        else unat (wr_amount_to_transfer (fst v)) + unat BATCH_WITHDRAWAL_TX_FEE) \<le> unat (wr_burned_amount (fst v))"
      using assms[unfolded fee_covered_def] by simp
  qed
  finally show ?thesis .
qed

lemma books_create:
  assumes bk: "books R Q B C s" and wf: "requests_wf s" and cr: "process_transaction_created bs n h s = Some s'"
    and ne: "bs \<noteq> []" and fee: "\<And>r. r \<in> requests_of s' \<Longrightarrow> fee_covered r" and fits: "B < 2 ^ 64"
  shows "books R Q B (Suc C) s'"
proof -
  from cr obtain pool s1 balance where cf: "created_from s bs s1"
    and bal: "unat (st_balance s) = unat balance + unat ((of_nat (sum_list (map (pending_amount s) bs)) :: u64) + BATCH_WITHDRAWAL_TX_FEE)"
    and S: "sum_list (map (pending_amount s) bs) < 2 ^ 64"
    and s': "s' = s1\<lparr>st_nonce_pool := pool, st_balance := balance,
       st_created_withdrawal_txs := bm_insert n \<lparr>cw_nonce_value = h, cw_burn_indices = bs\<rparr> (st_created_withdrawal_txs s)\<rparr>"
    by (rule process_transaction_createdD)
  let ?S = "sum_list (map (pending_amount s) bs)"
  have d: "distinct bs" and P: "\<And>b. b \<in> set bs \<Longrightarrow> bm_get (st_pending_withdrawal_requests s) b \<noteq> None"
    and dep: "st_deposits s1 = st_deposits s" "st_collected_automatic_deposit_fees s1 = st_collected_automatic_deposit_fees s"
    using cf by (auto simp: created_from_def)
  have com: "committed s' = committed s + ?S" unfolding committed_def
    by (rule created_rsum[OF wf cr, where g = "\<lambda>r. unat (wr_amount_to_transfer r)"])
       (use d in \<open>auto dest!: P simp: pending_amount_def\<close>)
  have brn: "burned s' = burned s + sum_list (map (\<lambda>_. 0) bs)" unfolding burned_def
    by (rule created_rsum[OF wf cr, where g = "\<lambda>r. 0"]) (use d in \<open>auto dest!: P\<close>)
  have cnt: "committed_count s' = committed_count s + sum_list (map (\<lambda>_. 1) bs)" unfolding committed_count_def
    by (rule created_rsum[OF wf cr, where g = "\<lambda>r. 1"]) (use d in \<open>auto dest!: P\<close>)
  have n1: "1 \<le> sum_list (map (\<lambda>_. 1 :: nat) bs)" using ne by (cases bs) auto
  then have "unat BATCH_WITHDRAWAL_TX_FEE \<le> unat BATCH_WITHDRAWAL_TX_FEE * committed_count s'" using cnt by simp
  moreover have "burned s' = B" using brn bk by (simp add: books_def sum_list_0)
  ultimately have "?S + unat BATCH_WITHDRAWAL_TX_FEE < 2 ^ 64"
    using requests_cost[of s'] fee com fits by fastforce
  then have "unat ((of_nat ?S :: u64) + BATCH_WITHDRAWAL_TX_FEE) = ?S + unat BATCH_WITHDRAWAL_TX_FEE"
    using S by (subst unat_add_fits) (simp_all add: unat_of_nat take_bit_nat_eq_self)
  moreover have "st_deposits s' = st_deposits s" "st_balance s' = balance"
    "st_collected_automatic_deposit_fees s' = st_collected_automatic_deposit_fees s" by (simp_all add: s' dep)
  ultimately show ?thesis using bk bal com cnt n1 \<open>burned s' = B\<close> by (simp add: books_def)
qed

subsection \<open>Along a log\<close>

definition received_amount :: "event \<Rightarrow> nat" where
  "received_amount e = (case ev_payload e of EvCreditedSweep sig x cs \<Rightarrow> unat x | _ \<Rightarrow> 0)"

definition queued_amount :: "event \<Rightarrow> nat" where
  "queued_amount e = (case ev_payload e of EvQueuedDeposit i a ad b f \<Rightarrow> unat (deposit_balance_lamports b) | _ \<Rightarrow> 0)"

definition total_received :: "event list \<Rightarrow> nat" where
  "total_received log = sum_list (map received_amount log)"

definition total_queued :: "event list \<Rightarrow> nat" where
  "total_queued log = sum_list (map queued_amount log)"

definition total_burned :: "event list \<Rightarrow> nat" where
  "total_burned log = sum_list (map (unat \<circ> wr_burned_amount) (accepted_requests log))"

definition nonempty_batch :: "event \<Rightarrow> bool" where
  "nonempty_batch e = (case ev_payload e of EvCreatedWithdrawalTransaction bs n h \<Rightarrow> bs \<noteq> [] | _ \<Rightarrow> True)"

text \<open>What the callers of the state machine ensure: burn indices are those of distinct ledger blocks, a
  request burns its transfer and the fee, a batch is not empty, and the amounts do not exceed \<open>u64\<close>.\<close>

definition sound_log :: "event list \<Rightarrow> bool" where
  "sound_log log \<longleftrightarrow> length log < 2 ^ 64 \<and> distinct (map wr_burn_block_index (accepted_requests log)) \<and>
     list_all fee_covered (accepted_requests log) \<and> list_all nonempty_batch log \<and>
     total_received log < 2 ^ 64 \<and> total_queued log < 2 ^ 64 \<and> total_burned log < 2 ^ 64"

lemma sound_log_prefix: "sound_log (log @ [e]) \<Longrightarrow> sound_log log"
  by (auto simp: sound_log_def accepted_requests_append total_received_def total_queued_def total_burned_def)

lemma sound_logD:
  assumes "replay_events lib log = Some s" "sound_log log"
  shows "state_wf s" "requests_of s = set (accepted_requests log)" "\<And>r. r \<in> requests_of s \<Longrightarrow> fee_covered r"
  using log_wf[OF assms(1)] assms(2) by (auto simp: sound_log_def list_all_iff)

lemma log_fresh:
  assumes "replay_events lib log = Some s" "sound_log (log @ [\<lparr>ev_timestamp = t, ev_payload = EvAcceptedWithdrawalRequest r\<rparr>])"
  shows "wview s (wr_burn_block_index r) = None"
proof (rule ccontr)
  note wf = sound_logD[OF assms(1) sound_log_prefix[OF assms(2)]]
  assume "wview s (wr_burn_block_index r) \<noteq> None"
  then obtain r' st where r': "wview s (wr_burn_block_index r) = Some (r', st)" by auto
  then have "r' \<in> set (accepted_requests log)" using wf(2) unfolding requests_of_def by blast
  moreover have "wr_burn_block_index r' = wr_burn_block_index r"
    using state_wfD(2)[OF wf(1)] r' by (simp add: requests_wf_def)
  ultimately show False
    using assms(2) by (auto simp: sound_log_def accepted_requests_append accepted_request_def image_iff)
qed

lemma init_books: "state_from_init lib args = Inr s \<Longrightarrow> books 0 0 0 0 s"
proof -
  assume init: "state_from_init lib args = Inr s"
  then have f: "st_deposits s = deposits_default" "st_balance s = 0" "st_collected_automatic_deposit_fees s = 0"
    by (auto simp: state_from_init_def Let_def split: sum.splits)
  have "view deposits_default i = None" for i
    by (simp add: view_def stages_def deposits_default_def)
  then have "queued_size deposits_default = 0" "owed deposits_default = 0"
    by (simp_all add: queued_size_def owed_def vsum_empty)
  moreover have "committed s = 0" "burned s = 0" "committed_count s = 0"
    by (simp_all add: committed_def burned_def committed_count_def rsum_def vsum_empty init_wf(5)[OF init])
  ultimately show ?thesis by (simp add: books_def f)
qed

lemma log_books:
  assumes "replay_events lib log = Some s" "sound_log log"
  shows "books (total_received log) (total_queued log) (total_burned log) (length (created_nonces log)) s"
  using assms
proof (induction rule: replay_induct)
  case (init args t s)
  then show ?case using init_books[of lib args s]
    by (simp add: total_received_def total_queued_def total_burned_def created_nonces_def received_amount_def
        queued_amount_def accepted_requests_def accepted_request_def created_nonce_def List.map_filter_def)
next
  case (step log s t payload s')
  let ?e = "\<lparr>ev_timestamp = t, ev_payload = payload\<rparr>"
  note pre = sound_log_prefix[OF step.prems]
  note bk = step.IH[OF pre] and wf = sound_logD[OF step.hyps(1) pre]
  have replay': "replay_events lib (log @ [?e]) = Some s'"
    using step.hyps replay_append[of log lib ?e] replay_not_Nil[OF step.hyps(1)] by simp
  note wf' = sound_logD[OF replay' step.prems]
  note tr = step.hyps(2)
  have vs: "view_step s s'" if "\<And>r. payload \<noteq> EvAcceptedWithdrawalRequest r"
    by (rule transition_view_step[OF wf(1) tr that])
  have totals: "total_received (log @ [?e]) = total_received log + received_amount ?e"
    "total_queued (log @ [?e]) = total_queued log + queued_amount ?e"
    "total_burned (log @ [?e]) = total_burned log + (case accepted_request ?e of None \<Rightarrow> 0 | Some r \<Rightarrow> unat (wr_burned_amount r))"
    "created_nonces (log @ [?e]) = created_nonces log @ (case created_nonce ?e of None \<Rightarrow> [] | Some p \<Rightarrow> [p])"
    by (simp_all add: total_received_def total_queued_def total_burned_def accepted_requests_append
        created_nonces_def map_filter_append split: option.split)
  note ev = received_amount_def queued_amount_def accepted_request_def created_nonce_def apply_state_transition_def
  have kept: "books (total_received log) (total_queued log) (total_burned log) (length (created_nonces log)) s'"
    if "\<And>r. payload \<noteq> EvAcceptedWithdrawalRequest r" "\<And>i a ad b f. payload \<noteq> EvQueuedDeposit i a ad b f"
      "\<And>sig x cs. payload \<noteq> EvCreditedSweep sig x cs" "\<And>bs n h. payload \<noteq> EvCreatedWithdrawalTransaction bs n h"
    by (rule books_kept[OF bk money_kept_other[OF wf(1) tr that] vs[OF that(1)]])
  show ?case
  proof (cases payload)
    case (EvAcceptedWithdrawalRequest r)
    have ac: "process_accepted_withdrawal r t s = Some s'" using tr by (simp add: ev EvAcceptedWithdrawalRequest)
    show ?thesis
      using books_accept[OF bk state_wfD(2)[OF wf(1)] ac log_fresh[OF step.hyps(1)]] step.prems
      unfolding totals by (simp add: ev EvAcceptedWithdrawalRequest)
  next
    case (EvQueuedDeposit i a ad b f)
    let ?q = "\<lparr>qd_account = a, qd_address = ad, qd_balance = b, qd_deposit_fee = f\<rparr>"
    have q: "process_queued_deposit i ?q t s = Some s'" using tr by (simp add: ev EvQueuedDeposit)
    show ?thesis using books_queue[OF bk state_wfD(1)[OF wf(1)] q vs]
      unfolding totals by (simp add: ev EvQueuedDeposit deposit_size_def)
  next
    case (EvCreditedSweep sig x cs)
    have cr: "process_credited_sweep sig x cs t s = Some s'" using tr by (simp add: ev EvCreditedSweep)
    have "total_received log + unat x < 2 ^ 64" "total_queued log < 2 ^ 64"
      using step.prems pre unfolding sound_log_def totals by (simp_all add: ev EvCreditedSweep)
    then show ?thesis using books_credit[OF bk state_wfD(1)[OF wf(1)] _ _ cr vs]
      unfolding totals by (simp add: ev EvCreditedSweep)
  next
    case (EvCreatedWithdrawalTransaction bs n h)
    have cr: "process_transaction_created bs n h s = Some s'" using tr by (simp add: ev EvCreatedWithdrawalTransaction)
    have "bs \<noteq> []" "total_burned log < 2 ^ 64"
      using step.prems pre unfolding sound_log_def by (simp_all add: nonempty_batch_def EvCreatedWithdrawalTransaction)
    then show ?thesis using books_create[OF bk state_wfD(2)[OF wf(1)] cr _ wf'(3)]
      unfolding totals by (simp add: ev EvCreatedWithdrawalTransaction)
  qed (unfold totals, use kept in \<open>simp_all add: ev\<close>)
qed

lemma books_cover:
  assumes "replay_events lib log = Some s" "sound_log log"
  shows "owed (st_deposits s) + unat (st_collected_automatic_deposit_fees s) + pending_burned s
      \<le> unat (st_balance s) + total_burned log \<and>
    unat (st_balance s) + committed s + 5000 * length (created_nonces log) = total_received log"
proof -
  note bk = log_books[OF assms, unfolded books_def]
  have "5000 * length (created_nonces log) \<le> 5000 * committed_count s" using bk by simp
  moreover have "committed s + 5000 * committed_count s + pending_burned s \<le> burned s"
    using requests_cost[of s] sound_logD(3)[OF assms] by simp
  moreover have "unat (st_balance s) + committed s + 5000 * length (created_nonces log) = total_received log" using bk by simp
  ultimately show ?thesis using bk by linarith
qed



end
