(* ===== verification/Minter_Key.thy ===== *)
theory Minter_Key
  imports Audit_Log
begin

text \<open>
  The account checks of \<^verbatim>\<open>minter/src/utils/mod.rs\<close> and the functions of
  \<^verbatim>\<open>minter/src/address/mod.rs\<close> that need the state: the deposit address of an account, and the
  master key of the minter, which is fetched once.
\<close>

definition assert_non_anonymous_account :: "account \<Rightarrow> unit option" where
  "assert_non_anonymous_account account = assert_that (account_owner account \<noteq> anonymous_principal)"

definition assert_valid_deposit_owner :: "account \<Rightarrow> principal \<Rightarrow> unit option" where
  "assert_valid_deposit_owner account minter_id = do {
     assert_non_anonymous_account account;
     assert_that (account_owner account \<noteq> minter_id)
   }"

definition get_deposit_address :: "sdk \<Rightarrow> minter_state \<Rightarrow> account \<Rightarrow> address option" where
  "get_deposit_address lib s account = map_option (\<lambda>key. account_address lib key account) (st_minter_public_key s)"

definition key_not_yet_available :: string where
  "key_not_yet_available = ''the minter public key is not yet available, try again later''"

definition minter_public_key :: "minter_state \<Rightarrow> string + schnorr_public_key" where
  "minter_public_key s = ok_or (st_minter_public_key s) key_not_yet_available"

definition MINTER_PUBLIC_KEY_RETRY_DELAY :: duration where
  "MINTER_PUBLIC_KEY_RETRY_DELAY = seconds 5"

text \<open>The key response: \<open>None\<close> for a key or chain code that is malformed, on which the code traps.
  A failed or trapped fetch leaves its retry timer armed.\<close>

definition record_minter_public_key ::
  "sdk \<Rightarrow> string + (public_key \<times> chain_code) option \<Rightarrow> u64 \<Rightarrow> canister \<Rightarrow> canister option" where
  "record_minter_public_key lib response now c =
     (case response of
        Inl _ \<Rightarrow> Some (set_timer MINTER_PUBLIC_KEY_RETRY_DELAY FetchKeyTimer c)
      | Inr None \<Rightarrow> None
      | Inr (Some (public_key, chain_code)) \<Rightarrow>
          if st_minter_public_key (can_state c) \<noteq> None then Some c
          else process_event lib (EvMinterPublicKeyFetched public_key chain_code) now c)"

definition fetch_and_record_minter_public_key ::
  "sdk \<Rightarrow> string + (public_key \<times> chain_code) option \<Rightarrow> u64 \<Rightarrow> canister \<Rightarrow> canister" where
  "fetch_and_record_minter_public_key lib response now c =
     (if st_minter_public_key (can_state c) \<noteq> None then c
      else case record_minter_public_key lib response now c of
        Some c' \<Rightarrow> c'
      | None \<Rightarrow> set_timer MINTER_PUBLIC_KEY_RETRY_DELAY FetchKeyTimer c)"

text \<open>The key is recorded at most once, whatever the fetches return and in whatever order.\<close>

lemma record_key_once:
  assumes "record_minter_public_key lib response now c = Some c'" "st_minter_public_key (can_state c) = Some key"
  shows "can_state c' = can_state c" "can_log c' = can_log c"
  using assms by (auto simp: record_minter_public_key_def set_timer_def split: sum.splits option.splits)

end
