(* ===== verification/Guards.thy ===== *)
theory Guards
  imports Audit_Log
begin

text \<open>
  \<^verbatim>\<open>minter/src/guard/mod.rs\<close>: the guards that keep an account from having two calls of the same
  kind in progress and a timer task from running twice. A guard is released when it is dropped, at
  the end of the call or in the cleanup after a trap.
\<close>

definition MAX_CONCURRENT :: nat where
  "MAX_CONCURRENT = 100"

datatype guard_error = GuardAlreadyProcessing | GuardTooManyConcurrentRequests

fun deposit_guard_error :: "guard_error \<Rightarrow> deposit_sol_error" where
  "deposit_guard_error GuardAlreadyProcessing = DepositAlreadyProcessing"
| "deposit_guard_error GuardTooManyConcurrentRequests =
     DepositTemporarilyUnavailable ''too many concurrent requests''"

fun withdraw_guard_error :: "guard_error \<Rightarrow> withdraw_sol_error" where
  "withdraw_guard_error GuardAlreadyProcessing = WithdrawAlreadyProcessing"
| "withdraw_guard_error GuardTooManyConcurrentRequests =
     WithdrawTemporarilyUnavailable ''too many concurrent requests''"

definition guard_new :: "account \<Rightarrow> account btree_set \<Rightarrow> guard_error + account btree_set" where
  "guard_new account accounts =
     (if bm_contains accounts account then Inl GuardAlreadyProcessing
      else if bm_len accounts \<ge> MAX_CONCURRENT then Inl GuardTooManyConcurrentRequests
      else Inr (bs_insert account accounts))"

definition deposit_sol_guard :: "account \<Rightarrow> minter_state \<Rightarrow> guard_error + minter_state" where
  "deposit_sol_guard account s =
     map_sum id (\<lambda>guards. s\<lparr>st_pending_deposit_sol_request_guards := guards\<rparr>)
       (guard_new account (st_pending_deposit_sol_request_guards s))"

definition drop_deposit_sol_guard :: "account \<Rightarrow> minter_state \<Rightarrow> minter_state" where
  "drop_deposit_sol_guard account s =
     s\<lparr>st_pending_deposit_sol_request_guards := bm_remove account (st_pending_deposit_sol_request_guards s)\<rparr>"

definition withdrawal_guard :: "account \<Rightarrow> minter_state \<Rightarrow> guard_error + minter_state" where
  "withdrawal_guard account s =
     map_sum id (\<lambda>guards. s\<lparr>st_pending_withdrawal_request_guards := guards\<rparr>)
       (guard_new account (st_pending_withdrawal_request_guards s))"

definition drop_withdrawal_guard :: "account \<Rightarrow> minter_state \<Rightarrow> minter_state" where
  "drop_withdrawal_guard account s =
     s\<lparr>st_pending_withdrawal_request_guards := bm_remove account (st_pending_withdrawal_request_guards s)\<rparr>"

datatype timer_guard_error = TimerAlreadyProcessing

definition timer_guard_new :: "task_type \<Rightarrow> minter_state \<Rightarrow> timer_guard_error + minter_state" where
  "timer_guard_new task s =
     (if bm_contains (st_active_tasks s) task then Inl TimerAlreadyProcessing
      else Inr (s\<lparr>st_active_tasks := bs_insert task (st_active_tasks s)\<rparr>))"

definition drop_timer_guard :: "task_type \<Rightarrow> minter_state \<Rightarrow> minter_state" where
  "drop_timer_guard task s = s\<lparr>st_active_tasks := bm_remove task (st_active_tasks s)\<rparr>"

text \<open>The same on the memory of the canister.\<close>

definition on_state :: "(minter_state \<Rightarrow> minter_state) \<Rightarrow> canister \<Rightarrow> canister" where
  "on_state f c = c\<lparr>can_state := f (can_state c)\<rparr>"

definition on_metrics :: "(metrics \<Rightarrow> metrics) \<Rightarrow> canister \<Rightarrow> canister" where
  "on_metrics f c = c\<lparr>can_metrics := f (can_metrics c)\<rparr>"

lemma guard_new_Inr_iff:
  "guard_new a G = Inr G' \<longleftrightarrow> \<not> bm_contains G a \<and> bm_len G < 100 \<and> G' = bs_insert a G"
  by (auto simp: guard_new_def MAX_CONCURRENT_def)

end
