(* ===== verification/Rpc.thy ===== *)
theory Rpc
  imports Minter_State
begin

text \<open>
  \<^verbatim>\<open>minter/src/rpc/mod.rs\<close> and \<^verbatim>\<open>minter/src/withdraw/nonce/mod.rs\<close>: the requests to the SOL RPC
  canister and what the minter makes of the responses. A request is a value of type \<open>rpc_request\<close>;
  the response is an argument of the function that reads it. Errors of the callee are given by
  their display text.
\<close>

definition MAX_CONCURRENT_RPC_CALLS :: nat where
  "MAX_CONCURRENT_RPC_CALLS = 10"

definition MAX_CONCURRENT_SIGNATURES :: nat where
  "MAX_CONCURRENT_SIGNATURES = 10"

definition GET_RECENT_BLOCK_MAX_TRIES :: nat where
  "GET_RECENT_BLOCK_MAX_TRIES = 3"

definition GET_TRANSACTION_CYCLES :: u128 where
  "GET_TRANSACTION_CYCLES = 50000000000"

definition GET_SIGNATURE_STATUSES_CYCLES :: u128 where
  "GET_SIGNATURE_STATUSES_CYCLES = 50000000000"

definition GET_ACCOUNT_INFO_CYCLES :: u128 where
  "GET_ACCOUNT_INFO_CYCLES = 10000000000"

subsection \<open>Requests and responses\<close>

type_synonym ic_error = string
type_synonym rpc_error = string

datatype commitment_level = CommitmentProcessed | CommitmentConfirmed | CommitmentFinalized

datatype preflight = PreflightSimulate commitment_level | PreflightSkip

datatype rpc_request =
    ReqGetTransaction signature commitment_level u8 u128
  | ReqGetBalance address commitment_level u128
  | ReqSendTransaction transaction preflight
  | ReqGetAccountInfo address commitment_level u128
  | ReqGetRecentBlock commitment_level nat
  | ReqGetSignatureStatuses "signature list" bool u128

datatype 'a multi_rpc_result = Consistent "rpc_error + 'a" | Inconsistent

type_synonym 'a rpc_response = "ic_error + 'a multi_rpc_result"

subsection \<open>Transactions\<close>

text \<open>\<open>EncodedConfirmedTransactionWithStatusMeta\<close>, with the encoded transaction as text.\<close>

record encoded_transaction =
  et_transaction :: string
  et_meta :: "status_meta option"

record fetched_transaction =
  ft_transaction :: versioned_transaction
  ft_meta :: "status_meta option"

datatype get_transaction_error =
    GtIcError ic_error
  | GtRpcError rpc_error
  | GtInconsistentRpcResults
  | GtUndecodableTransaction signature
  | GtSignatureMismatch signature "signature option"
  | GtInvalidSignature signature

fun is_response_untrustworthy :: "get_transaction_error \<Rightarrow> bool" where
  "is_response_untrustworthy (GtUndecodableTransaction _) = True"
| "is_response_untrustworthy (GtSignatureMismatch _ _) = True"
| "is_response_untrustworthy (GtInvalidSignature _) = True"
| "is_response_untrustworthy (GtIcError _) = False"
| "is_response_untrustworthy (GtRpcError _) = False"
| "is_response_untrustworthy GtInconsistentRpcResults = False"

definition ensure_signed_with ::
  "sdk \<Rightarrow> encoded_transaction \<Rightarrow> signature \<Rightarrow> get_transaction_error + versioned_transaction" where
  "ensure_signed_with lib outcome queried =
     (case sdk_decode_transaction lib (et_transaction outcome) of
        None \<Rightarrow> Inl (GtUndecodableTransaction queried)
      | Some decoded \<Rightarrow>
          if list_get (vt_signatures decoded) 0 \<noteq> Some queried
          then Inl (GtSignatureMismatch queried (list_get (vt_signatures decoded) 0))
          else if list_get (sdk_verify_with_results lib decoded) 0 \<noteq> Some True
          then Inl (GtInvalidSignature queried)
          else Inr decoded)"

definition get_transaction_request :: "signature \<Rightarrow> rpc_request" where
  "get_transaction_request signature =
     ReqGetTransaction signature CommitmentFinalized 0 GET_TRANSACTION_CYCLES"

definition get_transaction ::
  "sdk \<Rightarrow> signature \<Rightarrow> encoded_transaction option rpc_response \<Rightarrow>
   get_transaction_error + fetched_transaction option" where
  "get_transaction lib signature response =
     (case response of
        Inl e \<Rightarrow> Inl (GtIcError e)
      | Inr (Consistent (Inr (Some outcome))) \<Rightarrow>
          (case ensure_signed_with lib outcome signature of
             Inl e \<Rightarrow> Inl e
           | Inr transaction \<Rightarrow> Inr (Some \<lparr>ft_transaction = transaction, ft_meta = et_meta outcome\<rparr>))
      | Inr (Consistent (Inr None)) \<Rightarrow> Inr None
      | Inr (Consistent (Inl e)) \<Rightarrow> Inl (GtRpcError e)
      | Inr Inconsistent \<Rightarrow> Inl GtInconsistentRpcResults)"

subsection \<open>Balances\<close>

datatype get_balance_error = GbIcError ic_error | GbRpcError rpc_error | GbInconsistentRpcResults

fun show_get_balance_error :: "get_balance_error \<Rightarrow> string" where
  "show_get_balance_error (GbIcError e) = ''Error while calling SOL RPC canister: '' @ e"
| "show_get_balance_error (GbRpcError e) = ''RPC error while fetching balance: '' @ e"
| "show_get_balance_error GbInconsistentRpcResults = ''Inconsistent RPC results for balance''"

definition deposit_balance_error :: "get_balance_error \<Rightarrow> deposit_sol_error" where
  "deposit_balance_error e = DepositTemporarilyUnavailable (show_get_balance_error e)"

definition get_balance_request :: "address \<Rightarrow> rpc_request" where
  "get_balance_request address = ReqGetBalance address CommitmentFinalized GET_BALANCE_CYCLES"

definition get_balance :: "lamport rpc_response \<Rightarrow> get_balance_error + lamport" where
  "get_balance response =
     (case response of
        Inl e \<Rightarrow> Inl (GbIcError e)
      | Inr (Consistent (Inr balance)) \<Rightarrow> Inr balance
      | Inr (Consistent (Inl e)) \<Rightarrow> Inl (GbRpcError e)
      | Inr Inconsistent \<Rightarrow> Inl GbInconsistentRpcResults)"

subsection \<open>Sending transactions\<close>

datatype submit_transaction_error = StIcError ic_error | StRpcError rpc_error | StInconsistentRpcResults

definition send_transaction_request :: "transaction \<Rightarrow> preflight \<Rightarrow> rpc_request" where
  "send_transaction_request transaction preflight = ReqSendTransaction transaction preflight"

definition send_transaction :: "signature rpc_response \<Rightarrow> submit_transaction_error + signature" where
  "send_transaction response =
     (case response of
        Inr (Consistent (Inr signature)) \<Rightarrow> Inr signature
      | Inr (Consistent (Inl e)) \<Rightarrow> Inl (StRpcError e)
      | Inr Inconsistent \<Rightarrow> Inl StInconsistentRpcResults
      | Inl e \<Rightarrow> Inl (StIcError e))"

definition submit_transaction :: "transaction \<Rightarrow> commitment_level \<Rightarrow> rpc_request" where
  "submit_transaction transaction preflight_commitment =
     send_transaction_request transaction (PreflightSimulate preflight_commitment)"

definition submit_transaction_skipping_preflight :: "transaction \<Rightarrow> rpc_request" where
  "submit_transaction_skipping_preflight transaction = send_transaction_request transaction PreflightSkip"

subsection \<open>Nonce accounts\<close>

text \<open>\<open>UiAccount\<close>, with its encoded data as text.\<close>

record ui_account =
  ui_owner :: string
  ui_executable :: bool
  ui_data :: string

record onchain_nonce =
  on_authority :: address
  on_nonce :: hash

datatype get_nonce_account_error =
    GnIcError ic_error
  | GnRpcError rpc_error
  | GnInconsistentRpcResults
  | GnAccountNotFound
  | GnUnexpectedAccountMetadata string bool
  | GnNotAnInitializedNonceAccount string
  | GnLegacyNonceAccount

definition nonce_account_try_from :: "sdk \<Rightarrow> ui_account \<Rightarrow> get_nonce_account_error + onchain_nonce" where
  "nonce_account_try_from lib account =
     (if ui_owner account \<noteq> sdk_show_address lib (sdk_system_program_id lib) \<or> ui_executable account
      then Inl (GnUnexpectedAccountMetadata (ui_owner account) (ui_executable account))
      else case sdk_decode_account_data lib (ui_data account) of
        None \<Rightarrow> Inl (GnNotAnInitializedNonceAccount ''undecodable account data'')
      | Some data \<Rightarrow>
     (case sdk_deserialize_nonce lib data of
        Inl e \<Rightarrow> Inl (GnNotAnInitializedNonceAccount e)
      | Inr (NonceLegacy _) \<Rightarrow> Inl GnLegacyNonceAccount
      | Inr (NonceCurrent NonceUninitialized) \<Rightarrow>
          Inl (GnNotAnInitializedNonceAccount ''the nonce account is uninitialized'')
      | Inr (NonceCurrent (NonceInitialized authority nonce)) \<Rightarrow>
          Inr \<lparr>on_authority = authority, on_nonce = nonce\<rparr>))"

definition get_nonce_account_request :: "address \<Rightarrow> rpc_request" where
  "get_nonce_account_request address = ReqGetAccountInfo address CommitmentFinalized GET_ACCOUNT_INFO_CYCLES"

definition get_nonce_account ::
  "sdk \<Rightarrow> ui_account option rpc_response \<Rightarrow> get_nonce_account_error + onchain_nonce" where
  "get_nonce_account lib response =
     (case response of
        Inl e \<Rightarrow> Inl (GnIcError e)
      | Inr (Consistent (Inr (Some account))) \<Rightarrow> nonce_account_try_from lib account
      | Inr (Consistent (Inr None)) \<Rightarrow> Inl GnAccountNotFound
      | Inr (Consistent (Inl e)) \<Rightarrow> Inl (GnRpcError e)
      | Inr Inconsistent \<Rightarrow> Inl GnInconsistentRpcResults)"

datatype read_nonce_error = RnGetNonceAccount get_nonce_account_error | RnForeignAuthority address address

definition read_verified_nonce ::
  "sdk \<Rightarrow> address \<Rightarrow> ui_account option rpc_response \<Rightarrow> read_nonce_error + hash" where
  "read_verified_nonce lib minter_addr response =
     (case get_nonce_account lib response of
        Inl e \<Rightarrow> Inl (RnGetNonceAccount e)
      | Inr nonce_account \<Rightarrow>
          if on_authority nonce_account \<noteq> minter_addr
          then Inl (RnForeignAuthority (on_authority nonce_account) minter_addr)
          else Inr (on_nonce nonce_account))"

fun is_rpc_failure :: "read_nonce_error \<Rightarrow> bool" where
  "is_rpc_failure (RnGetNonceAccount (GnIcError _)) = True"
| "is_rpc_failure (RnGetNonceAccount (GnRpcError _)) = True"
| "is_rpc_failure (RnGetNonceAccount GnInconsistentRpcResults) = True"
| "is_rpc_failure (RnGetNonceAccount GnAccountNotFound) = False"
| "is_rpc_failure (RnGetNonceAccount (GnUnexpectedAccountMetadata _ _)) = False"
| "is_rpc_failure (RnGetNonceAccount (GnNotAnInitializedNonceAccount _)) = False"
| "is_rpc_failure (RnGetNonceAccount GnLegacyNonceAccount) = False"
| "is_rpc_failure (RnForeignAuthority _ _) = False"

subsection \<open>Blocks\<close>

record confirmed_block =
  cb_blockhash :: string
  cb_block_height :: "u64 option"

record block =
  bl_slot :: u64
  bl_blockhash :: hash
  bl_block_height :: block_height

datatype get_recent_block_error = GrFailed "string list" | GrMissingBlockHeight u64

definition get_recent_block_request :: "commitment_level \<Rightarrow> rpc_request" where
  "get_recent_block_request commitment = ReqGetRecentBlock commitment GET_RECENT_BLOCK_MAX_TRIES"

definition get_recent_block ::
  "sdk \<Rightarrow> string list + u64 \<times> confirmed_block \<Rightarrow> get_recent_block_error + block" where
  "get_recent_block lib response =
     (case response of
        Inl errors \<Rightarrow> Inl (GrFailed errors)
      | Inr (slot, cb) \<Rightarrow>
          (case sdk_parse_hash lib (cb_blockhash cb) of
             Inl e \<Rightarrow> Inl (GrFailed [e])
           | Inr blockhash \<Rightarrow>
          (case cb_block_height cb of
             None \<Rightarrow> Inl (GrMissingBlockHeight slot)
           | Some height \<Rightarrow> Inr \<lparr>bl_slot = slot, bl_blockhash = blockhash, bl_block_height = height\<rparr>)))"

definition block_height_saturating_sub :: "block_height \<Rightarrow> block_height \<Rightarrow> block_height" where
  "block_height_saturating_sub a b = saturating_sub a b"

subsection \<open>Signature statuses\<close>

datatype confirmation_status = StatusProcessed | StatusConfirmed | StatusFinalized

record transaction_status =
  ts_confirmation_status :: "confirmation_status option"
  ts_err :: "string option"

datatype get_signature_statuses_error = GsIcError ic_error | GsRpcError rpc_error | GsInconsistentRpcResults

text \<open>The client may reject the signatures before it sends the request.\<close>

definition get_signature_statuses_request :: "signature list \<Rightarrow> rpc_request" where
  "get_signature_statuses_request signatures =
     ReqGetSignatureStatuses signatures True GET_SIGNATURE_STATUSES_CYCLES"

definition get_signature_statuses ::
  "rpc_error + transaction_status option list rpc_response \<Rightarrow>
   get_signature_statuses_error + transaction_status option list" where
  "get_signature_statuses sent =
     (case sent of
        Inl e \<Rightarrow> Inl (GsRpcError e)
      | Inr (Inl e) \<Rightarrow> Inl (GsIcError e)
      | Inr (Inr (Consistent (Inr statuses))) \<Rightarrow> Inr statuses
      | Inr (Inr (Consistent (Inl e))) \<Rightarrow> Inl (GsRpcError e)
      | Inr (Inr Inconsistent) \<Rightarrow> Inl GsInconsistentRpcResults)"

subsection \<open>Properties\<close>

text \<open>C23: A transaction is attributed to the queried signature only if the providers agree on a response
  that decodes to a transaction whose first signature is the queried one and verifies; the metadata
  is that of the response. A response is called untrustworthy exactly if the providers agree on a
  transaction that fails one of these tests.\<close>

theorem get_transaction_attributed:
  "(get_transaction lib signature response = Inr (Some fetched) \<longleftrightarrow>
     (\<exists>outcome. response = Inr (Consistent (Inr (Some outcome))) \<and>
        sdk_decode_transaction lib (et_transaction outcome) = Some (ft_transaction fetched) \<and>
        list_get (vt_signatures (ft_transaction fetched)) 0 = Some signature \<and>
        list_get (sdk_verify_with_results lib (ft_transaction fetched)) 0 = Some True \<and>
        ft_meta fetched = et_meta outcome)) \<and>
   ((\<exists>e. get_transaction lib signature response = Inl e \<and> is_response_untrustworthy e) \<longleftrightarrow>
     (\<exists>outcome. response = Inr (Consistent (Inr (Some outcome))) \<and>
        (\<forall>f. get_transaction lib signature response \<noteq> Inr (Some f))))"
proof (cases "\<exists>outcome. response = Inr (Consistent (Inr (Some outcome)))")
  case True
  then obtain outcome where r: "response = Inr (Consistent (Inr (Some outcome)))" by blast
  show ?thesis
    by (cases fetched)
       (auto simp: r get_transaction_def ensure_signed_with_def split: option.splits if_splits)
next
  case False
  then show ?thesis
    by (auto simp: get_transaction_def split: sum.splits multi_rpc_result.splits option.splits)
qed

lemma read_verified_nonce_Inr_iff:
  "read_verified_nonce lib minter_addr response = Inr h \<longleftrightarrow>
     (\<exists>account data. response = Inr (Consistent (Inr (Some account))) \<and>
        ui_owner account = sdk_show_address lib (sdk_system_program_id lib) \<and> \<not> ui_executable account \<and>
        sdk_decode_account_data lib (ui_data account) = Some data \<and>
        sdk_deserialize_nonce lib data = Inr (NonceCurrent (NonceInitialized minter_addr h)))"
  by (auto simp: read_verified_nonce_def get_nonce_account_def nonce_account_try_from_def
      split: sum.splits multi_rpc_result.splits option.splits if_splits nonce_versions.splits nonce_state.splits)

end
