(* ===== verification/Ledger.thy ===== *)
theory Ledger
  imports Minter_State
begin

text \<open>
  The memos of \<^verbatim>\<open>libs/types/src/memo/mod.rs\<close> and the calls to the ckSOL ledger of
  \<^verbatim>\<open>minter/src/ledger/mod.rs\<close> and \<^verbatim>\<open>minter/src/ledger/client.rs\<close>. Amounts and block indices of
  the ledger are unbounded naturals. The CBOR encoder of the memos is the parameter \<open>encode\<close>; errors
  of the platform and numeric error codes are given by their display text.
\<close>

subsection \<open>Memos\<close>

definition MAX_SERIALIZED_MEMO_BYTES :: nat where
  "MAX_SERIALIZED_MEMO_BYTES = 81"

datatype mint_memo = MintMemoSweep (mm_signature: bytes) (mm_deposit_id: deposit_sol_id)

datatype burn_memo = BurnMemoConvert (bm_to_address: bytes)

datatype memo = MemoMint mint_memo | MemoBurn burn_memo

definition mint_memo_sweep :: "signature \<Rightarrow> deposit_sol_id \<Rightarrow> mint_memo" where
  "mint_memo_sweep signature deposit_id = MintMemoSweep (be_bytes 64 signature) deposit_id"

definition burn_memo_convert :: "address \<Rightarrow> burn_memo" where
  "burn_memo_convert to_address = BurnMemoConvert (be_bytes 32 to_address)"

lemma mint_memo_sweep_inject:
  "mint_memo_sweep x i = mint_memo_sweep y j \<longleftrightarrow> x = y \<and> i = j"
  using be_bytes_inj[of 64 x y] by (auto simp: mint_memo_sweep_def)

lemma burn_memo_convert_inject: "burn_memo_convert a = burn_memo_convert b \<longleftrightarrow> a = b"
  using be_bytes_inj[of 32 a b] by (auto simp: burn_memo_convert_def)

subsection \<open>Types of the ledger interface\<close>

record transfer_arg =
  ta_from_subaccount :: "(256 word) option"
  ta_to :: account
  ta_fee :: "nat option"
  ta_created_at_time :: "u64 option"
  ta_memo :: "bytes option"
  ta_amount :: nat

datatype transfer_error =
    TransferBadFee nat
  | TransferBadBurn nat
  | TransferInsufficientFunds nat
  | TransferTooOld
  | TransferCreatedInFuture u64
  | TransferTemporarilyUnavailable
  | TransferDuplicate nat
  | TransferGenericError string string

record transfer_from_args =
  tf_spender_subaccount :: "(256 word) option"
  tf_from :: account
  tf_to :: account
  tf_fee :: "nat option"
  tf_created_at_time :: "u64 option"
  tf_memo :: "bytes option"
  tf_amount :: nat

datatype transfer_from_error =
    FromBadFee nat
  | FromBadBurn nat
  | FromInsufficientFunds nat
  | FromInsufficientAllowance nat
  | FromTooOld
  | FromCreatedInFuture u64
  | FromDuplicate nat
  | FromTemporarilyUnavailable
  | FromGenericError string string

definition to_u64 :: "nat \<Rightarrow> u64 option" where
  "to_u64 n = (if n < 2 ^ 64 then Some (of_nat n) else None)"

lemma to_u64_Some_iff: "to_u64 n = Some w \<longleftrightarrow> unat w = n"
  using unsigned_less[of w, where 'a = nat] by (auto simp: to_u64_def unat_of_nat take_bit_nat_eq_self)

subsection \<open>The client\<close>

definition to_ledger_mint_index :: "nat \<Rightarrow> ledger_mint_index option" where
  "to_ledger_mint_index block_index = to_u64 block_index"

definition ledger_transfer ::
  "string + (transfer_error + nat) \<Rightarrow> (string + (transfer_error + ledger_mint_index)) option" where
  "ledger_transfer response =
     (case response of
        Inr (Inr block_index) \<Rightarrow> map_option (Inr \<circ> Inr) (to_ledger_mint_index block_index)
      | Inr (Inl e) \<Rightarrow> Some (Inr (Inl e))
      | Inl e \<Rightarrow> Some (Inl e))"

subsection \<open>Burning\<close>

datatype burn_error =
    BurnTemporarilyUnavailable string
  | BurnInsufficientFunds lamport
  | BurnInsufficientAllowance lamport

definition burn_args :: "(memo \<Rightarrow> bytes) \<Rightarrow> account \<Rightarrow> account \<Rightarrow> lamport \<Rightarrow> address \<Rightarrow> transfer_from_args" where
  "burn_args encode minter_account from burn_amount to_address =
     \<lparr>tf_spender_subaccount = None, tf_from = from, tf_to = minter_account, tf_fee = None,
      tf_created_at_time = None, tf_memo = Some (encode (MemoBurn (burn_memo_convert to_address))),
      tf_amount = unat burn_amount\<rparr>"

fun parse_burn_transfer_from_error :: "transfer_from_error \<Rightarrow> burn_error option" where
  "parse_burn_transfer_from_error (FromInsufficientFunds balance) =
     map_option BurnInsufficientFunds (to_u64 balance)"
| "parse_burn_transfer_from_error (FromInsufficientAllowance allowance) =
     map_option BurnInsufficientAllowance (to_u64 allowance)"
| "parse_burn_transfer_from_error FromTemporarilyUnavailable =
     Some (BurnTemporarilyUnavailable ''Ledger is temporarily unavailable'')"
| "parse_burn_transfer_from_error (FromGenericError error_code message) =
     Some (BurnTemporarilyUnavailable
       (''Ledger returned a generic error: code '' @ error_code @ '', message: '' @ message))"
| "parse_burn_transfer_from_error (FromBadFee _) = None"
| "parse_burn_transfer_from_error (FromBadBurn _) = None"
| "parse_burn_transfer_from_error FromTooOld = None"
| "parse_burn_transfer_from_error (FromCreatedInFuture _) = None"
| "parse_burn_transfer_from_error (FromDuplicate _) = None"

definition burn :: "string + (transfer_from_error + nat) \<Rightarrow> (burn_error + u64) option" where
  "burn response =
     (case response of
        Inr (Inr block_index) \<Rightarrow> map_option Inr (to_u64 block_index)
      | Inr (Inl transfer_from_error) \<Rightarrow> map_option Inl (parse_burn_transfer_from_error transfer_from_error)
      | Inl ic_error \<Rightarrow> Some (Inl (BurnTemporarilyUnavailable (''Failed to burn tokens: '' @ ic_error))))"

lemma burn_Inr_iff: "burn response = Some (Inr b) \<longleftrightarrow> response = Inr (Inr (unat b))"
  by (auto simp: burn_def to_u64_Some_iff split: sum.splits)

end
