(* ===== verification/Withdraw.thy ===== *)
theory Withdraw
  imports Minter_Key Guards Rpc Ledger "HOL-Library.Option_ord"
begin

text \<open>
  \<^verbatim>\<open>minter/src/withdraw/mod.rs\<close>: the \<open>withdraw\<close> endpoint and the timer task that creates, signs and
  sends the withdrawal transactions.

  The code between two \<open>await\<close>s runs without interruption and its changes are undone if it traps. Each
  such piece is a function of its own: it takes the response that resumes it, the time and the
  memory of the canister, and returns \<open>None\<close> if it traps. \<open>process_pending_withdrawals\<close> composes the
  pieces into a round that no other call interrupts; theory \<open>Interleaving\<close> lets other calls run
  between them.
\<close>

definition WITHDRAWAL_PROCESSING_DELAY :: duration where
  "WITHDRAWAL_PROCESSING_DELAY = seconds 60"

definition WITHDRAWAL_PROCESSING_RETRY_DELAY :: duration where
  "WITHDRAWAL_PROCESSING_RETRY_DELAY = seconds 10"

subsection \<open>The endpoint\<close>

definition RESERVED_ACCOUNT_KEYS :: "sdk \<Rightarrow> address list" where
  "RESERVED_ACCOUNT_KEYS lib = map (sdk_program_id lib)
     [''address_lookup_table'', ''bpf_loader'', ''bpf_loader_deprecated'', ''bpf_loader_upgradeable'',
      ''compute_budget'', ''config'', ''ed25519_program'', ''feature'', ''loader_v4'',
      ''secp256k1_program'', ''secp256r1_program'', ''stake::config'', ''stake''] @
     sdk_system_program_id lib # map (sdk_program_id lib)
     [''vote'', ''zk_elgamal_proof_program'', ''zk_token_proof_program'', ''sysvar::clock'',
      ''sysvar::epoch_rewards'', ''sysvar::epoch_schedule'', ''sysvar::fees'', ''sysvar::instructions'',
      ''sysvar::last_restart_slot'', ''sysvar::recent_blockhashes'', ''sysvar::rent'', ''sysvar::rewards'',
      ''sysvar::slot_hashes'', ''sysvar::slot_history'', ''sysvar::stake_history'', ''native_loader'', ''sysvar'']"

definition is_reserved_account_key :: "sdk \<Rightarrow> address \<Rightarrow> bool" where
  "is_reserved_account_key lib address \<longleftrightarrow> address \<in> set (RESERVED_ACCOUNT_KEYS lib)"

definition validate_destination :: "sdk \<Rightarrow> address \<Rightarrow> minter_state \<Rightarrow> withdraw_sol_error + unit" where
  "validate_destination lib destination s =
     (if is_reserved_account_key lib destination
      then Inl (WithdrawInvalidDestination
        (sdk_show_address lib destination @ '' is an account key reserved by the Solana runtime''))
      else if pool_contains (st_nonce_pool s) destination
      then Inl (WithdrawInvalidDestination
        (sdk_show_address lib destination @ '' is a durable nonce account of the ckSOL minter''))
      else case minter_public_key s of
        Inl e \<Rightarrow> Inl (WithdrawTemporarilyUnavailable e)
      | Inr master_key \<Rightarrow>
          if destination = minter_address lib master_key
          then Inl (WithdrawInvalidDestination
            (sdk_show_address lib destination @ '' is the ckSOL minter's main address''))
          else Inr ())"

definition validate_nonce_pool_not_empty :: "minter_state \<Rightarrow> withdraw_sol_error + unit" where
  "validate_nonce_pool_not_empty s =
     (if pool_addresses (st_nonce_pool s) = []
      then Inl (WithdrawTemporarilyUnavailable
        ''The durable nonce account pool is empty, no withdrawal can be processed'')
      else Inr ())"

text \<open>Up to the burn: the checks, and the guard that the call then holds.\<close>

definition withdraw_start ::
  "sdk \<Rightarrow> account \<Rightarrow> lamport \<Rightarrow> string \<Rightarrow> canister \<Rightarrow> withdraw_sol_error + address \<times> canister" where
  "withdraw_start lib from amount_to_burn address c =
     (let s = can_state c in
      if amount_to_burn < st_minimum_withdrawal_amount s
      then Inl (WithdrawValueTooSmall (st_minimum_withdrawal_amount s) amount_to_burn)
      else case sdk_parse_address lib address of
        Inl e \<Rightarrow> Inl (WithdrawMalformedAddress e)
      | Inr solana_address \<Rightarrow>
     (case validate_destination lib solana_address s of
        Inl e \<Rightarrow> Inl e
      | Inr _ \<Rightarrow>
     (case validate_nonce_pool_not_empty s of
        Inl e \<Rightarrow> Inl e
      | Inr _ \<Rightarrow>
     (case withdrawal_guard from s of
        Inl e \<Rightarrow> Inl (withdraw_guard_error e)
      | Inr s' \<Rightarrow> Inr (solana_address, c\<lparr>can_state := s'\<rparr>)))))"

fun withdraw_burn_error :: "burn_error \<Rightarrow> withdraw_sol_error" where
  "withdraw_burn_error (BurnTemporarilyUnavailable msg) = WithdrawTemporarilyUnavailable msg"
| "withdraw_burn_error (BurnInsufficientFunds balance) = WithdrawInsufficientFunds balance"
| "withdraw_burn_error (BurnInsufficientAllowance allowance) = WithdrawInsufficientAllowance allowance"

text \<open>Once the ledger answered; the guard is dropped on return.\<close>

definition withdraw_burned ::
  "sdk \<Rightarrow> account \<Rightarrow> lamport \<Rightarrow> address \<Rightarrow> string + (transfer_from_error + nat) \<Rightarrow> u64 \<Rightarrow> canister \<Rightarrow>
   ((withdraw_sol_error + ledger_burn_index) \<times> canister) option" where
  "withdraw_burned lib from amount_to_burn solana_address response now c =
     (case burn response of
        None \<Rightarrow> None
      | Some (Inl e) \<Rightarrow> Some (Inl (withdraw_burn_error e), on_state (drop_withdrawal_guard from) c)
      | Some (Inr block_index) \<Rightarrow> do {
          amount_to_transfer \<leftarrow> checked_sub amount_to_burn (st_withdrawal_fee (can_state c));
          c' \<leftarrow> process_event lib (EvAcceptedWithdrawalRequest
            \<lparr>wr_account = from, wr_solana_address = solana_address, wr_burn_block_index = block_index,
             wr_burned_amount = amount_to_burn, wr_amount_to_transfer = amount_to_transfer\<rparr>) now c;
          Some (Inr block_index, on_state (drop_withdrawal_guard from) c')
        })"

definition withdraw ::
  "sdk \<Rightarrow> account \<Rightarrow> lamport \<Rightarrow> string \<Rightarrow> string + (transfer_from_error + nat) \<Rightarrow> u64 \<Rightarrow> canister \<Rightarrow>
   ((withdraw_sol_error + ledger_burn_index) \<times> canister) option" where
  "withdraw lib from amount_to_burn address response now c =
     (case withdraw_start lib from amount_to_burn address c of
        Inl e \<Rightarrow> Some (Inl e, c)
      | Inr (solana_address, c') \<Rightarrow> withdraw_burned lib from amount_to_burn solana_address response now c')"

subsection \<open>Creating transactions\<close>

record reserved_batch =
  rb_nonce_account :: address
  rb_requests :: "withdrawal_request list"

fun zip_batches :: "address list \<Rightarrow> batches_state \<Rightarrow> nat \<Rightarrow> reserved_batch list" where
  "zip_batches (nonce_account # accounts) b (Suc n) =
     (case next_batch b of
        (None, _) \<Rightarrow> []
      | (Some requests, b') \<Rightarrow>
          \<lparr>rb_nonce_account = nonce_account, rb_requests = requests\<rparr> # zip_batches accounts b' n)"
| "zip_batches _ _ _ = []"

definition reserve_batches :: "minter_state \<Rightarrow> reserved_batch list" where
  "reserve_batches s =
     zip_batches (free_accounts (st_nonce_pool s)) (withdrawal_batches s)
       (min MAX_CONCURRENT_RPC_CALLS (MAX_CONCURRENT_SIGNATURES - bm_len (st_created_withdrawal_txs s)))"

definition withdrawal_transfers :: "withdrawal_request list \<Rightarrow> (address \<times> lamport) list" where
  "withdrawal_transfers requests = map (\<lambda>r. (wr_solana_address r, wr_amount_to_transfer r)) requests"

text \<open>Once the nonce account was read.\<close>

definition create_transaction ::
  "sdk \<Rightarrow> address \<Rightarrow> reserved_batch \<Rightarrow> ui_account option rpc_response \<Rightarrow> u64 \<Rightarrow> canister \<Rightarrow>
   (bool \<times> canister) option" where
  "create_transaction lib minter_addr batch response now c =
     (case read_verified_nonce lib minter_addr response of
        Inl _ \<Rightarrow> Some (False, c)
      | Inr nonce_value \<Rightarrow>
          if has_seen (st_nonce_pool (can_state c)) (rb_nonce_account batch) nonce_value
          then Some (False, c)
          else case build_batch_withdrawal_message lib minter_addr (rb_nonce_account batch) nonce_value
                      (withdrawal_transfers (rb_requests batch)) :: unit create_transfer_error + message of
            Inl _ \<Rightarrow> Some (False, c)
          | Inr _ \<Rightarrow>
              map_option (Pair True)
                (process_event lib (EvCreatedWithdrawalTransaction (map wr_burn_block_index (rb_requests batch))
                   (rb_nonce_account batch) nonce_value) now c))"

subsection \<open>Signing and sending\<close>

record bound_withdrawal =
  bw_nonce_account :: address
  bw_burn_indices :: "ledger_burn_index list"
  bw_message :: message

definition created_withdrawal_request :: "minter_state \<Rightarrow> ledger_burn_index \<Rightarrow> withdrawal_request option" where
  "created_withdrawal_request s burn_index = map_option pw_request (bm_get (st_created_withdrawal_requests s) burn_index)"

definition bound_withdrawal ::
  "sdk \<Rightarrow> minter_state \<Rightarrow> address \<Rightarrow> address \<Rightarrow> created_withdrawal_transaction \<Rightarrow>
   (unit create_transfer_error + bound_withdrawal) option" where
  "bound_withdrawal lib s minter_addr nonce_account created = do {
     requests \<leftarrow> collect_opt (map (created_withdrawal_request s) (cw_burn_indices created));
     Some (case build_batch_withdrawal_message lib minter_addr nonce_account (cw_nonce_value created)
                  (withdrawal_transfers requests) of
       Inl e \<Rightarrow> Inl e
     | Inr message \<Rightarrow> Inr \<lparr>bw_nonce_account = nonce_account, bw_burn_indices = cw_burn_indices created,
         bw_message = message\<rparr>)
   }"

definition min_burn_index :: "address \<times> created_withdrawal_transaction \<Rightarrow> ledger_burn_index option" where
  "min_burn_index p = min_option (cw_burn_indices (snd p))"

definition bound_withdrawals :: "sdk \<Rightarrow> minter_state \<Rightarrow> address \<Rightarrow> bound_withdrawal list option" where
  "bound_withdrawals lib s minter_addr = do {
     results \<leftarrow> collect_opt (map (\<lambda>(nonce_account, created). bound_withdrawal lib s minter_addr nonce_account created)
       (take MAX_CONCURRENT_SIGNATURES (sort_key min_burn_index (bm_iter (st_created_withdrawal_txs s)))));
     Some (List.map_filter (\<lambda>r. case r of Inl _ \<Rightarrow> None | Inr w \<Rightarrow> Some w) results)
   }"

text \<open>Signs and records a bound withdrawal; \<open>sign\<close> is the threshold signer.\<close>

definition sign_bound_withdrawal ::
  "sdk \<Rightarrow> (bytes \<Rightarrow> derivation_path \<Rightarrow> 'e + bytes) \<Rightarrow> bound_withdrawal \<Rightarrow> u64 \<Rightarrow> canister \<Rightarrow>
   (transaction option \<times> canister) option" where
  "sign_bound_withdrawal lib sign withdrawal now c =
     (case sign_batch_withdrawal_message lib sign (bw_message withdrawal) of
        None \<Rightarrow> None
      | Some (Inl _) \<Rightarrow> Some (None, c)
      | Some (Inr transaction) \<Rightarrow> do {
          signature \<leftarrow> list_get (tx_signatures transaction) 0;
          c' \<leftarrow> process_event lib (EvSubmittedTransaction signature (Legacy (tx_message transaction)) [SignerMinter]
            (PurposeWithdrawal (bw_burn_indices withdrawal))) now c;
          Some (Some transaction, c')
        })"

definition send_transactions_batch :: "transaction list \<Rightarrow> rpc_request list" where
  "send_transactions_batch transactions = map submit_transaction_skipping_preflight transactions"

subsection \<open>The round\<close>

definition withdrawal_round_start :: "sdk \<Rightarrow> canister \<Rightarrow> (address \<times> canister) option" where
  "withdrawal_round_start lib c =
     (case timer_guard_new WithdrawalProcessing (can_state c) of
        Inl _ \<Rightarrow> None
      | Inr s \<Rightarrow> map_option (\<lambda>key. (minter_address lib key, c\<lparr>can_state := s\<rparr>)) (st_minter_public_key s))"

definition withdrawal_round_end :: "bool \<Rightarrow> canister \<Rightarrow> canister" where
  "withdrawal_round_end made_progress c =
     (let c' = (if made_progress \<and> (can_create_withdrawal_transaction (can_state c) \<or>
                  has_unsigned_withdrawal_transaction (can_state c))
                then set_timer WITHDRAWAL_PROCESSING_RETRY_DELAY WithdrawalTimer c else c)
      in on_state (drop_timer_guard WithdrawalProcessing) c')"

definition create_transactions_batch ::
  "sdk \<Rightarrow> address \<Rightarrow> (address \<Rightarrow> ui_account option rpc_response) \<Rightarrow> u64 \<Rightarrow> canister \<Rightarrow> (nat \<times> canister) option" where
  "create_transactions_batch lib minter_addr read_nonce now c =
     foldM (\<lambda>batch (created, c). map_option (\<lambda>(ok, c'). (if ok then Suc created else created, c'))
        (create_transaction lib minter_addr batch (read_nonce (rb_nonce_account batch)) now c))
       (reserve_batches (can_state c)) (0, c)"

definition sign_transactions_batch ::
  "sdk \<Rightarrow> address \<Rightarrow> (bytes \<Rightarrow> derivation_path \<Rightarrow> 'e + bytes) \<Rightarrow> u64 \<Rightarrow> canister \<Rightarrow>
   (transaction list \<times> canister) option" where
  "sign_transactions_batch lib minter_addr sign now c = do {
     withdrawals \<leftarrow> bound_withdrawals lib (can_state c) minter_addr;
     foldM (\<lambda>withdrawal (signed, c). map_option (\<lambda>(tx, c'). (case tx of None \<Rightarrow> signed | Some t \<Rightarrow> signed @ [t], c'))
         (sign_bound_withdrawal lib sign withdrawal now c))
       withdrawals ([], c)
   }"

text \<open>A round that no other call interrupts, with the requests it sends at the end.\<close>

definition process_pending_withdrawals ::
  "sdk \<Rightarrow> (address \<Rightarrow> ui_account option rpc_response) \<Rightarrow> (bytes \<Rightarrow> derivation_path \<Rightarrow> 'e + bytes) \<Rightarrow> u64 \<Rightarrow>
   canister \<Rightarrow> (rpc_request list \<times> canister) option" where
  "process_pending_withdrawals lib read_nonce sign now c =
     (case withdrawal_round_start lib c of
        None \<Rightarrow> Some ([], c)
      | Some (minter_addr, c0) \<Rightarrow> do {
          (num_created, c1) \<leftarrow> create_transactions_batch lib minter_addr read_nonce now c0;
          (signed, c2) \<leftarrow> sign_transactions_batch lib minter_addr sign now c1;
          Some (send_transactions_batch signed, withdrawal_round_end (num_created > 0 \<or> signed \<noteq> []) c2)
        })"

end
