(* ===== verification/Deposit_Flow.thy ===== *)
theory Deposit_Flow
  imports Minter_Key Guards Rpc
begin

text \<open>
  The deposit endpoints: \<^verbatim>\<open>minter/src/cycles.rs\<close>, \<open>deposit_sol\<close> of
  \<^verbatim>\<open>minter/src/deposit/sweep/mod.rs\<close> and \<open>watch_deposit_address\<close> of
  \<^verbatim>\<open>minter/src/deposit/automatic/mod.rs\<close>.

  The platform is given by arguments: the principal of the canister, the time, and the cycles of
  the call (available, refunded, and what \<open>msg_cycles_accept\<close> takes for a requested amount).
\<close>

subsection \<open>Cycles\<close>

record rpc_call_charge =
  attached_cycles :: u128
  fee_on_success :: u128

definition charge_caller_cycles :: "(u128 \<Rightarrow> u128) \<Rightarrow> u128 \<Rightarrow> unit option" where
  "charge_caller_cycles accept amount = assert_that (accept amount = amount)"

definition rpc_call_cost :: "rpc_call_charge \<Rightarrow> u128 \<Rightarrow> bool \<Rightarrow> u128" where
  "rpc_call_cost charge refunded is_ok =
     saturating_sub (attached_cycles charge) refunded + (if is_ok then fee_on_success charge else 0)"

definition charge_rpc_call :: "(u128 \<Rightarrow> u128) \<Rightarrow> u128 \<Rightarrow> rpc_call_charge \<Rightarrow> 'e + 'a \<Rightarrow> unit option" where
  "charge_rpc_call accept refunded charge result =
     charge_caller_cycles accept (rpc_call_cost charge refunded (\<not> isl result))"

definition check_caller_available_cycles :: "u128 \<Rightarrow> u128 \<Rightarrow> insufficient_cycles_error + u128" where
  "check_caller_available_cycles available expected =
     (if available < expected then Inl \<lparr>ice_expected = expected, ice_received = available\<rparr>
      else Inr available)"

subsection \<open>Depositing\<close>

definition balance_above_minimum :: "lamport \<Rightarrow> lamport \<Rightarrow> deposit_sol_error + lamport" where
  "balance_above_minimum balance minimum_deposit_amount =
     (if balance < minimum_deposit_amount then Inl (DepositValueTooSmall balance minimum_deposit_amount)
      else Inr balance)"

definition queue_deposit :: "sdk \<Rightarrow> queued_deposit \<Rightarrow> u64 \<Rightarrow> canister \<Rightarrow> (deposit_sol_id \<times> canister) option" where
  "queue_deposit lib deposit now c =
     (let deposit_id = d_next_id (st_deposits (can_state c))
      in map_option (Pair deposit_id)
           (process_event lib (EvQueuedDeposit deposit_id (qd_account deposit) (qd_address deposit)
              (qd_balance deposit) (qd_deposit_fee deposit)) now c))"

definition deposit_status :: "minter_state \<Rightarrow> deposit_sol_id \<Rightarrow> deposit_sol_status" where
  "deposit_status s deposit_id = status (st_deposits s) deposit_id"

text \<open>What a call of \<open>deposit_sol\<close> keeps across the balance read.\<close>

record deposit_call =
  dc_account :: account
  dc_address :: address
  dc_minimum_deposit_amount :: lamport
  dc_deposit_sol_fee :: u128

text \<open>Up to the balance read: the call returns early (and drops its guard), or holds its guard.\<close>

definition deposit_sol_start ::
  "sdk \<Rightarrow> principal \<Rightarrow> u128 \<Rightarrow> account \<Rightarrow> canister \<Rightarrow>
   ((deposit_sol_error + deposit_sol_id) + deposit_call \<times> canister) option" where
  "deposit_sol_start lib self available account c = do {
     assert_valid_deposit_owner account self;
     (case deposit_sol_guard account (can_state c) of
        Inl e \<Rightarrow> Some (Inl (Inl (deposit_guard_error e)))
      | Inr s \<Rightarrow>
     (case check_caller_available_cycles available (st_deposit_sol_required_cycles s) of
        Inl e \<Rightarrow> Some (Inl (Inl (DepositInsufficientCycles e)))
      | Inr _ \<Rightarrow> do {
          flight \<leftarrow> in_flight (st_deposits s) account;
          Some (case flight of
            Some (Processing deposit_id) \<Rightarrow> Inl (Inr deposit_id)
          | Some (Quarantined deposit_id) \<Rightarrow> Inl (Inl (DepositIsQuarantined deposit_id))
          | None \<Rightarrow>
              (case minter_public_key s of
                 Inl e \<Rightarrow> Inl (Inl (DepositTemporarilyUnavailable e))
               | Inr master_key \<Rightarrow>
                   Inr (\<lparr>dc_account = account, dc_address = account_address lib master_key account,
                         dc_minimum_deposit_amount = st_minimum_deposit_amount s,
                         dc_deposit_sol_fee = st_deposit_sol_fee s\<rparr>, c\<lparr>can_state := s\<rparr>)))
        }))
   }"

definition balance_read :: "deposit_call \<Rightarrow> lamport rpc_response \<Rightarrow> deposit_sol_error + lamport" where
  "balance_read call response =
     (case get_balance response of
        Inl e \<Rightarrow> Inl (deposit_balance_error e)
      | Inr balance \<Rightarrow> balance_above_minimum balance (dc_minimum_deposit_amount call))"

text \<open>Once the balance was read; the guard is dropped on return.\<close>

definition deposit_sol_balance ::
  "sdk \<Rightarrow> (u128 \<Rightarrow> u128) \<Rightarrow> u128 \<Rightarrow> deposit_call \<Rightarrow> lamport rpc_response \<Rightarrow> u64 \<Rightarrow> canister \<Rightarrow>
   ((deposit_sol_error + deposit_sol_id) \<times> canister) option" where
  "deposit_sol_balance lib accept refunded call response now c = do {
     let result = balance_read call response;
     charge_rpc_call accept refunded
       \<lparr>attached_cycles = GET_BALANCE_CYCLES, fee_on_success = dc_deposit_sol_fee call\<rparr> result;
     (case result of
        Inl e \<Rightarrow> Some (Inl e, on_state (drop_deposit_sol_guard (dc_account call)) c)
      | Inr lamports \<Rightarrow> do {
          balance \<leftarrow> deposit_balance_new lamports;
          (deposit_id, c') \<leftarrow> queue_deposit lib
            \<lparr>qd_account = dc_account call, qd_address = dc_address call, qd_balance = balance, qd_deposit_fee = None\<rparr> now c;
          Some (Inr deposit_id, on_state (drop_deposit_sol_guard (dc_account call)) c')
        })
   }"

definition deposit_sol ::
  "sdk \<Rightarrow> principal \<Rightarrow> u128 \<Rightarrow> (u128 \<Rightarrow> u128) \<Rightarrow> u128 \<Rightarrow> account \<Rightarrow> lamport rpc_response \<Rightarrow> u64 \<Rightarrow> canister \<Rightarrow>
   ((deposit_sol_error + deposit_sol_id) \<times> canister) option" where
  "deposit_sol lib self available accept refunded account response now c =
     (case deposit_sol_start lib self available account c of
        None \<Rightarrow> None
      | Some (Inl result) \<Rightarrow> Some (result, c)
      | Some (Inr (call, c')) \<Rightarrow> deposit_sol_balance lib accept refunded call response now c')"

subsection \<open>Watching an address\<close>

definition watching_status :: "watched_address \<Rightarrow> watch_deposit_address_status" where
  "watching_status w =
     Watching (wa_valid_until w) (wa_scan_count w) (wa_last_scanned_at w) (wa_next_scan_at w)"

definition set_watchlist :: "watchlist \<Rightarrow> canister \<Rightarrow> canister" where
  "set_watchlist w = on_state (\<lambda>s. s\<lparr>st_deposits := (st_deposits s)\<lparr>d_watchlist := w\<rparr>\<rparr>)"

definition watch_deposit_address ::
  "sdk \<Rightarrow> principal \<Rightarrow> account \<Rightarrow> timestamp \<Rightarrow> canister \<Rightarrow>
   ((watch_deposit_address_error + watch_deposit_address_ok) \<times> canister) option" where
  "watch_deposit_address lib self account now c = do {
     assert_valid_deposit_owner account self;
     let s = can_state c;
     (case minter_public_key s of
        Inl e \<Rightarrow> Some (Inl (WatchTemporarilyUnavailable e), c)
      | Inr master_key \<Rightarrow>
     (case st_automatic_deposit_fee s of
        None \<Rightarrow> Some (Inl (WatchTemporarilyUnavailable ''the automatic deposit fee is not configured''), c)
      | Some automatic_deposit_fee \<Rightarrow> do {
          let address = account_address lib master_key account;
          let latest_deposit_id = latest_id (st_deposits s) account;
          let ok = (\<lambda>status. \<lparr>wo_address = address, wo_minimum_deposit_amount = st_minimum_deposit_amount s,
            wo_automatic_deposit_fee = automatic_deposit_fee, wo_status = status,
            wo_latest_deposit_id = latest_deposit_id\<rparr>);
          flight \<leftarrow> in_flight (st_deposits s) account;
          (case flight of
             Some (Processing deposit_id) \<Rightarrow> Some (Inr (ok (Detected deposit_id)), c)
           | Some (Quarantined deposit_id) \<Rightarrow> Some (Inl (WatchQuarantined deposit_id), c)
           | None \<Rightarrow> do {
               (w, result) \<leftarrow> register now account address (d_watchlist (st_deposits s));
               Some ((case result of
                  Inl WatchlistFull \<Rightarrow> Inl (WatchTooManyWatchedAddresses latest_deposit_id)
                | Inr entry \<Rightarrow> Inr (ok (watching_status entry))), set_watchlist w c)
             })
        }))
   }"

end
