(* ===== verification/Sweep_Timer.thy ===== *)
theory Sweep_Timer
  imports Minter_Key Guards Rpc
begin

text \<open>
  \<^verbatim>\<open>minter/src/deposit/sweep/timer.rs\<close>: the timer task that sweeps the queued deposits to the main
  address, in batches signed and submitted concurrently. As in theory \<open>Withdraw\<close>, the pieces between
  two \<open>await\<close>s are functions of their own, composed by \<open>sweep_queued_deposits\<close>.
\<close>

definition MAX_DEPOSITS_PER_SWEEP :: nat where
  "MAX_DEPOSITS_PER_SWEEP = unat MAX_SIGNATURES"

definition MAX_DEPOSITS_PER_ROUND :: nat where
  "MAX_DEPOSITS_PER_ROUND = MAX_DEPOSITS_PER_SWEEP * MAX_CONCURRENT_RPC_CALLS"

definition SWEEP_DEPOSITS_DELAY :: duration where
  "SWEEP_DEPOSITS_DELAY = seconds 60"

definition SWEEP_BLOCKHASH_COMMITMENT :: commitment_level where
  "SWEEP_BLOCKHASH_COMMITMENT = CommitmentConfirmed"

record sweep_round =
  sr_batches :: "(deposit_sol_id \<times> queued_deposit) list list"
  sr_leaves_deposits_queued :: bool

definition take_from_queue :: "minter_state \<Rightarrow> sweep_round" where
  "take_from_queue s =
     (let deposits = take (MAX_DEPOSITS_PER_ROUND + 1) (bm_iter (d_queued (st_deposits s)))
      in \<lparr>sr_batches = chunks MAX_DEPOSITS_PER_SWEEP (take MAX_DEPOSITS_PER_ROUND deposits),
          sr_leaves_deposits_queued = length deposits > MAX_DEPOSITS_PER_ROUND\<rparr>)"

text \<open>Up to the block read: \<open>None\<close> if there is nothing to do, else the guard is held.\<close>

definition sweep_round_start :: "sdk \<Rightarrow> canister \<Rightarrow> (sweep_round \<times> address \<times> canister) option" where
  "sweep_round_start lib c =
     (case timer_guard_new SweepDeposits (can_state c) of
        Inl _ \<Rightarrow> None
      | Inr s \<Rightarrow>
          let sweep = take_from_queue s in
          if sr_batches sweep = [] then None
          else case minter_public_key s of
            Inl _ \<Rightarrow> None
          | Inr master_key \<Rightarrow> Some (sweep, minter_address lib master_key, c\<lparr>can_state := s\<rparr>))"

text \<open>Plans, signs and records the sweep of one batch, with the request that submits it.\<close>

definition submit_sweep_transaction ::
  "sdk \<Rightarrow> (bytes \<Rightarrow> derivation_path \<Rightarrow> 'e + bytes) \<Rightarrow> (deposit_sol_id \<times> queued_deposit) list \<Rightarrow> block \<Rightarrow>
   address \<Rightarrow> u64 \<Rightarrow> canister \<Rightarrow> (('e create_transfer_error + signature \<times> rpc_request) \<times> canister) option" where
  "submit_sweep_transaction lib sign deposits block sweep_destination now c = do {
     sweep \<leftarrow> plan deposits sweep_destination;
     signed \<leftarrow> sign_sweep_transaction lib sign sweep (bl_blockhash block);
     (case signed of
        Inl e \<Rightarrow> Some (Inl e, c)
      | Inr (transaction, signers) \<Rightarrow> do {
          signature \<leftarrow> list_get (tx_signatures transaction) 0;
          c' \<leftarrow> process_event lib (EvSubmittedTransaction signature (Legacy (tx_message transaction)) signers
            (PurposeSweepDeposit (bm_keys (sw_deposits sweep)) (bl_block_height block))) now c;
          Some (Inr (signature, submit_transaction transaction SWEEP_BLOCKHASH_COMMITMENT), c')
        })
   }"

definition sweep_round_end :: "bool \<Rightarrow> canister \<Rightarrow> canister" where
  "sweep_round_end leaves_deposits_queued c =
     on_state (drop_timer_guard SweepDeposits)
       (if leaves_deposits_queued then set_timer 0 SweepTimer c else c)"

definition sweep_queued_deposits ::
  "sdk \<Rightarrow> string list + u64 \<times> confirmed_block \<Rightarrow> (bytes \<Rightarrow> derivation_path \<Rightarrow> 'e + bytes) \<Rightarrow> u64 \<Rightarrow> canister \<Rightarrow>
   (rpc_request list \<times> canister) option" where
  "sweep_queued_deposits lib block_response sign now c =
     (case sweep_round_start lib c of
        None \<Rightarrow> Some ([], c)
      | Some (sweep, sweep_destination, c0) \<Rightarrow>
     (case get_recent_block lib block_response of
        Inl _ \<Rightarrow> Some ([], on_state (drop_timer_guard SweepDeposits) c0)
      | Inr block \<Rightarrow> do {
          (requests, c1) \<leftarrow> foldM (\<lambda>batch (requests, c). map_option (\<lambda>(result, c').
               (case result of Inl _ \<Rightarrow> requests | Inr (_, request) \<Rightarrow> requests @ [request], c'))
               (submit_sweep_transaction lib sign batch block sweep_destination now c))
             (sr_batches sweep) ([], c0);
          Some (requests, sweep_round_end (sr_leaves_deposits_queued sweep) c1)
        }))"

end
