(* ===== verification/Minting.thy ===== *)
theory Minting
  imports Guards Ledger Rpc
begin

text \<open>
  \<^verbatim>\<open>minter/src/deposit/sweep/mint/mod.rs\<close>: the timer task that mints the pending mints on the ckSOL
  ledger, one after the other. A pending mint is retried with the same arguments until the ledger
  answers definitively or its deduplication window has passed.
\<close>

definition PROCESS_PENDING_MINTS_DELAY :: duration where
  "PROCESS_PENDING_MINTS_DELAY = seconds 60"

definition MAX_PENDING_MINTS_PER_ROUND :: nat where
  "MAX_PENDING_MINTS_PER_ROUND = 10"

definition LEDGER_DEDUPLICATION_WINDOW :: duration where
  "LEDGER_DEDUPLICATION_WINDOW = seconds (24 * 60 * 60)"

record mint_round =
  mr_pending_mints :: "(deposit_sol_id \<times> pending_mint) list"
  mr_more_than_one_round :: bool

definition next_mint_round :: "minter_state \<Rightarrow> mint_round" where
  "next_mint_round s =
     \<lparr>mr_pending_mints = take MAX_PENDING_MINTS_PER_ROUND (bm_iter (d_pending_mints (st_deposits s))),
      mr_more_than_one_round = bm_len (d_pending_mints (st_deposits s)) > MAX_PENDING_MINTS_PER_ROUND\<rparr>"

definition is_beyond_deduplication_window :: "pending_mint \<Rightarrow> u64 \<Rightarrow> bool" where
  "is_beyond_deduplication_window pending now \<longleftrightarrow>
     unat (saturating_sub now (pm_created_at_time pending)) > LEDGER_DEDUPLICATION_WINDOW"

definition mint_transfer_arg :: "(memo \<Rightarrow> bytes) \<Rightarrow> deposit_sol_id \<Rightarrow> pending_mint \<Rightarrow> transfer_arg" where
  "mint_transfer_arg encode deposit_id pending =
     \<lparr>ta_from_subaccount = None, ta_to = pending_account pending, ta_fee = None,
      ta_created_at_time = Some (pm_created_at_time pending),
      ta_memo = Some (encode (MemoMint (mint_memo_sweep (pending_sweep_signature pending) deposit_id))),
      ta_amount = unat (pm_amount_to_mint pending)\<rparr>"

definition record_minted_swept_deposit ::
  "sdk \<Rightarrow> deposit_sol_id \<Rightarrow> ledger_mint_index \<Rightarrow> u64 \<Rightarrow> canister \<Rightarrow> canister option" where
  "record_minted_swept_deposit lib deposit_id mint_block_index now c =
     process_event lib (EvMintedSweptDeposit deposit_id mint_block_index) now c"

definition record_quarantined_pending_mint :: "sdk \<Rightarrow> deposit_sol_id \<Rightarrow> u64 \<Rightarrow> canister \<Rightarrow> canister option" where
  "record_quarantined_pending_mint lib deposit_id now c =
     process_event lib (EvQuarantinedPendingMint deposit_id) now c"

definition give_up_mint ::
  "sdk \<Rightarrow> failed_mint_reason \<Rightarrow> deposit_sol_id \<Rightarrow> u64 \<Rightarrow> canister \<Rightarrow> canister option" where
  "give_up_mint lib reason deposit_id now c =
     record_quarantined_pending_mint lib deposit_id now (on_metrics (record_failed_mint_attempt reason) c)"

definition retry_mint :: "failed_mint_reason \<Rightarrow> canister \<Rightarrow> canister option" where
  "retry_mint reason c = Some (on_metrics (record_failed_mint_attempt reason) c)"

text \<open>Up to the transfer: a mint beyond the window is quarantined, else the arguments are sent.\<close>

definition process_pending_mint_start ::
  "sdk \<Rightarrow> (memo \<Rightarrow> bytes) \<Rightarrow> deposit_sol_id \<Rightarrow> pending_mint \<Rightarrow> u64 \<Rightarrow> canister \<Rightarrow>
   (transfer_arg option \<times> canister) option" where
  "process_pending_mint_start lib encode deposit_id pending now c =
     (if is_beyond_deduplication_window pending now
      then map_option (Pair None) (give_up_mint lib MintExpired deposit_id now c)
      else Some (Some (mint_transfer_arg encode deposit_id pending), c))"

text \<open>The answer of the ledger.\<close>

definition process_mint_answer ::
  "sdk \<Rightarrow> deposit_sol_id \<Rightarrow> string + (transfer_error + nat) \<Rightarrow> u64 \<Rightarrow> canister \<Rightarrow> canister option" where
  "process_mint_answer lib deposit_id response now c = do {
     answer \<leftarrow> ledger_transfer response;
     (case answer of
        Inr (Inr mint_block_index) \<Rightarrow> record_minted_swept_deposit lib deposit_id mint_block_index now c
      | Inr (Inl (TransferDuplicate duplicate_of)) \<Rightarrow> do {
          mint_block_index \<leftarrow> to_ledger_mint_index duplicate_of;
          record_minted_swept_deposit lib deposit_id mint_block_index now c
        }
      | Inr (Inl TransferTooOld) \<Rightarrow> give_up_mint lib MintExpired deposit_id now c
      | Inr (Inl (TransferBadFee _)) \<Rightarrow> give_up_mint lib MintRejected deposit_id now c
      | Inr (Inl (TransferBadBurn _)) \<Rightarrow> give_up_mint lib MintRejected deposit_id now c
      | Inr (Inl (TransferInsufficientFunds _)) \<Rightarrow> give_up_mint lib MintRejected deposit_id now c
      | Inr (Inl TransferTemporarilyUnavailable) \<Rightarrow> retry_mint MintLedgerError c
      | Inr (Inl (TransferGenericError _ _)) \<Rightarrow> retry_mint MintLedgerError c
      | Inr (Inl (TransferCreatedInFuture _)) \<Rightarrow> retry_mint MintCreatedInFuture c
      | Inl _ \<Rightarrow> retry_mint MintCallError c)
   }"

text \<open>If the answer makes the call trap, its changes are undone, the armed guard quarantines the pending
  mint, whose outcome is unknown, and the task ends: the first component says whether it goes on.\<close>

definition process_pending_mint_answer ::
  "sdk \<Rightarrow> deposit_sol_id \<Rightarrow> string + (transfer_error + nat) \<Rightarrow> u64 \<Rightarrow> canister \<Rightarrow> (bool \<times> canister) option" where
  "process_pending_mint_answer lib deposit_id response now c =
     (case process_mint_answer lib deposit_id response now c of
        Some c' \<Rightarrow> Some (True, c')
      | None \<Rightarrow> map_option (Pair False) (give_up_mint lib MintUnknownOutcome deposit_id now c))"

definition process_pending_mint ::
  "sdk \<Rightarrow> (memo \<Rightarrow> bytes) \<Rightarrow> (transfer_arg \<Rightarrow> string + (transfer_error + nat)) \<Rightarrow> u64 \<Rightarrow>
   deposit_sol_id \<times> pending_mint \<Rightarrow> canister \<Rightarrow> (bool \<times> canister) option" where
  "process_pending_mint lib encode ledger now entry c = do {
     (arg, c') \<leftarrow> process_pending_mint_start lib encode (fst entry) (snd entry) now c;
     (case arg of
        None \<Rightarrow> Some (True, c')
      | Some a \<Rightarrow> process_pending_mint_answer lib (fst entry) (ledger a) now c')
   }"

definition mint_round_start :: "canister \<Rightarrow> (mint_round \<times> canister) option" where
  "mint_round_start c =
     (case timer_guard_new Mint (can_state c) of
        Inl _ \<Rightarrow> None
      | Inr s \<Rightarrow>
          let round = next_mint_round s in
          if mr_pending_mints round = [] then None else Some (round, c\<lparr>can_state := s\<rparr>))"

definition mint_round_end :: "mint_round \<Rightarrow> canister \<Rightarrow> canister" where
  "mint_round_end round c =
     (let made_progress = list_ex (\<lambda>(deposit_id, _).
            \<not> bm_contains (d_pending_mints (st_deposits (can_state c))) deposit_id) (mr_pending_mints round)
      in on_state (drop_timer_guard Mint)
           (if made_progress \<and> mr_more_than_one_round round then set_timer 0 MintTimer c else c))"

fun mint_all ::
  "sdk \<Rightarrow> (memo \<Rightarrow> bytes) \<Rightarrow> (transfer_arg \<Rightarrow> string + (transfer_error + nat)) \<Rightarrow> u64 \<Rightarrow>
   (deposit_sol_id \<times> pending_mint) list \<Rightarrow> canister \<Rightarrow> (bool \<times> canister) option" where
  "mint_all lib encode ledger now [] c = Some (True, c)"
| "mint_all lib encode ledger now (entry # rest) c =
     (case process_pending_mint lib encode ledger now entry c of
        None \<Rightarrow> None
      | Some (True, c') \<Rightarrow> mint_all lib encode ledger now rest c'
      | Some (False, c') \<Rightarrow> Some (False, c'))"

definition process_pending_mints ::
  "sdk \<Rightarrow> (memo \<Rightarrow> bytes) \<Rightarrow> (transfer_arg \<Rightarrow> string + (transfer_error + nat)) \<Rightarrow> u64 \<Rightarrow> canister \<Rightarrow> canister option" where
  "process_pending_mints lib encode ledger now c =
     (case mint_round_start c of
        None \<Rightarrow> Some c
      | Some (round, c0) \<Rightarrow>
     (case mint_all lib encode ledger now (mr_pending_mints round) c0 of
        None \<Rightarrow> None
      | Some (completed, c') \<Rightarrow>
          Some (if completed then mint_round_end round c' else on_state (drop_timer_guard Mint) c')))"

end
