(* ===== verification/Crediting.thy ===== *)
theory Crediting
  imports Guards Rpc
begin

text \<open>
  \<^verbatim>\<open>minter/src/deposit/sweep/finalize/mod.rs\<close>: crediting the deposits of the finalized sweeps. All
  outcomes of a round are fetched first; then they are settled in one uninterrupted piece.
\<close>

definition credit_round :: "minter_state \<Rightarrow> nat \<times> (signature \<times> sweep) list" where
  "credit_round s =
     (bm_len (by_signature (d_finalized (st_deposits s))),
      take MAX_CONCURRENT_RPC_CALLS (bm_iter (by_signature (d_finalized (st_deposits s)))))"

datatype credit_decision = RetryLater failed_credit_reason | Credit signature lamport "credited_deposit list" | Quarantine signature

definition decide_credit ::
  "sdk \<Rightarrow> signature \<times> sweep \<Rightarrow> get_transaction_error + fetched_transaction option \<Rightarrow> credit_decision" where
  "decide_credit lib entry outcome =
     (case outcome of
        Inr (Some fetched) \<Rightarrow>
          (case settle lib (snd entry) (vt_message (ft_transaction fetched)) (ft_meta fetched) of
             Inr settled \<Rightarrow> Credit (fst entry) (ss_amount_received settled) (ss_mints settled)
           | Inl (Unreadable _) \<Rightarrow> RetryLater CreditUnreadable
           | Inl (Mismatch _) \<Rightarrow> Quarantine (fst entry))
      | Inr None \<Rightarrow> RetryLater CreditNotFound
      | Inl e \<Rightarrow> RetryLater (if is_response_untrustworthy e then CreditInvalidResponse else CreditRpcError))"

definition credit_entry ::
  "sdk \<Rightarrow> u64 \<Rightarrow> (signature \<times> sweep) \<times> (get_transaction_error + fetched_transaction option) \<Rightarrow>
   nat \<times> canister \<Rightarrow> (nat \<times> canister) option" where
  "credit_entry lib now entry acc =
     (case decide_credit lib (fst entry) (snd entry) of
        RetryLater reason \<Rightarrow> Some (fst acc, on_metrics (record_failed_credit_attempt reason) (snd acc))
      | Credit signature amount_received credited \<Rightarrow>
          map_option (Pair (Suc (fst acc)))
            (process_event lib (EvCreditedSweep signature amount_received credited) now (snd acc))
      | Quarantine signature \<Rightarrow>
          map_option (Pair (Suc (fst acc)))
            (process_event lib (EvQuarantinedSweep signature) now
               (on_metrics (record_failed_credit_attempt CreditMismatch) (snd acc))))"

text \<open>Once the outcomes of the round were fetched: whether to run again at once, and the new memory.\<close>

definition credit_finalized_sweeps ::
  "sdk \<Rightarrow> nat \<times> (signature \<times> sweep) list \<Rightarrow> (get_transaction_error + fetched_transaction option) list \<Rightarrow> u64 \<Rightarrow>
   canister \<Rightarrow> (bool \<times> canister) option" where
  "credit_finalized_sweeps lib round outcomes now c =
     (if snd round = [] then Some (False, c)
      else map_option (\<lambda>(settled_count, c'). (settled_count > 0 \<and> settled_count < fst round, c'))
             (foldM (credit_entry lib now) (zip (snd round) outcomes) (0, c)))"

end
