(* ===== verification/Monitor.thy ===== *)
theory Monitor
  imports Crediting Minter_Key
begin

text \<open>
  \<^verbatim>\<open>minter/src/monitor/mod.rs\<close> and \<^verbatim>\<open>minter/src/monitor/withdrawals.rs\<close>: the timer task that finalizes
  the submitted transactions. Sweeps are decided by their signature status, or expire with their
  blockhash; withdrawals are decided by their nonce account, and re-broadcast while it did not
  advance. The pieces between two \<open>await\<close>s are functions of their own, composed by
  \<open>finalize_transactions\<close>.
\<close>

definition FINALIZE_TRANSACTIONS_DELAY :: duration where
  "FINALIZE_TRANSACTIONS_DELAY = seconds 120"

definition FINALIZE_TRANSACTIONS_RETRY_DELAY :: duration where
  "FINALIZE_TRANSACTIONS_RETRY_DELAY = seconds 10"

definition MIN_REBROADCAST_AGE :: duration where
  "MIN_REBROADCAST_AGE = seconds 90"

definition MAX_BLOCKHASH_AGE_IN_BLOCKS :: block_height where
  "MAX_BLOCKHASH_AGE_IN_BLOCKS = 150"

definition MAX_SIGNATURES_PER_STATUS_CHECK :: nat where
  "MAX_SIGNATURES_PER_STATUS_CHECK = 256"

subsection \<open>Sweeps\<close>

definition blockhash_transactions :: "minter_state \<Rightarrow> (signature, block_height) btree_map" where
  "blockhash_transactions s = bm_collect (List.map_filter (\<lambda>(signature, transaction).
     (case transaction of
        TxSweepDeposit block_height \<Rightarrow> Some (signature, block_height)
      | TxWithdrawal _ _ _ _ \<Rightarrow> None)) (iom_iter (st_submitted_transactions s)))"

record transaction_statuses =
  tst_succeeded :: "signature btree_set"
  tst_errored :: "(signature, string) btree_map"
  tst_not_found :: "signature btree_set"

definition statuses_empty :: transaction_statuses where
  "statuses_empty = \<lparr>tst_succeeded = bm_empty, tst_errored = bm_empty, tst_not_found = bm_empty\<rparr>"

definition status_batches :: "signature list \<Rightarrow> signature list list" where
  "status_batches signatures = take MAX_CONCURRENT_RPC_CALLS (chunks MAX_SIGNATURES_PER_STATUS_CHECK signatures)"

definition classify_status ::
  "signature \<times> transaction_status option \<Rightarrow> transaction_statuses \<Rightarrow> transaction_statuses" where
  "classify_status entry result =
     (case snd entry of
        Some st \<Rightarrow>
          if ts_confirmation_status st = Some StatusFinalized
          then (case ts_err st of
                  Some err \<Rightarrow> result\<lparr>tst_errored := bm_insert (fst entry) err (tst_errored result)\<rparr>
                | None \<Rightarrow> result\<lparr>tst_succeeded := bs_insert (fst entry) (tst_succeeded result)\<rparr>)
          else result
      | None \<Rightarrow> result\<lparr>tst_not_found := bs_insert (fst entry) (tst_not_found result)\<rparr>)"

text \<open>The statuses read for the batches whose request succeeded, in order.\<close>

definition check_transaction_statuses ::
  "(signature list \<times> (get_signature_statuses_error + transaction_status option list)) list \<Rightarrow> transaction_statuses" where
  "check_transaction_statuses batch_results =
     fold classify_status
       (concat (map (\<lambda>(signatures, result). case result of Inl _ \<Rightarrow> [] | Inr statuses \<Rightarrow> zip signatures statuses)
          batch_results))
       statuses_empty"

definition fetch_current_block_height :: "sdk \<Rightarrow> string list + u64 \<times> confirmed_block \<Rightarrow> block_height option" where
  "fetch_current_block_height lib response =
     (case get_recent_block lib response of Inl _ \<Rightarrow> None | Inr block \<Rightarrow> Some (bl_block_height block))"

definition is_blockhash_expired :: "block_height \<Rightarrow> block_height \<Rightarrow> bool" where
  "is_blockhash_expired transaction_block_height current_block_height \<longleftrightarrow>
     block_height_saturating_sub current_block_height transaction_block_height > MAX_BLOCKHASH_AGE_IN_BLOCKS"

definition expired_signatures ::
  "signature btree_set \<Rightarrow> (signature, block_height) btree_map \<Rightarrow> block_height \<Rightarrow> signature list" where
  "expired_signatures not_found transactions current_block_height =
     filter (\<lambda>signature. case bm_get transactions signature of
         None \<Rightarrow> False
       | Some height \<Rightarrow> is_blockhash_expired height current_block_height) (bm_keys not_found)"

definition expire_transactions ::
  "sdk \<Rightarrow> signature btree_set \<Rightarrow> (signature, block_height) btree_map \<Rightarrow> block_height \<Rightarrow> u64 \<Rightarrow> canister \<Rightarrow> canister option" where
  "expire_transactions lib not_found transactions current_block_height now c =
     foldM (\<lambda>signature. process_event lib (EvExpiredTransaction signature) now)
       (expired_signatures not_found transactions current_block_height) c"

text \<open>Once the block and the statuses were read.\<close>

definition apply_statuses ::
  "sdk \<Rightarrow> (signature, block_height) btree_map \<Rightarrow> block_height option \<Rightarrow> transaction_statuses \<Rightarrow> u64 \<Rightarrow>
   canister \<Rightarrow> canister option" where
  "apply_statuses lib transactions current_block_height statuses now c = do {
     c1 \<leftarrow> foldM (\<lambda>signature. process_event lib (EvFailedTransaction signature) now) (bm_keys (tst_errored statuses)) c;
     c2 \<leftarrow> foldM (\<lambda>signature. process_event lib (EvSucceededTransaction signature) now) (bm_keys (tst_succeeded statuses)) c1;
     (case current_block_height of
        None \<Rightarrow> Some c2
      | Some height \<Rightarrow> expire_transactions lib (tst_not_found statuses) transactions height now c2)
   }"

definition more_transactions_to_check :: "(signature, block_height) btree_map \<Rightarrow> bool" where
  "more_transactions_to_check transactions \<longleftrightarrow>
     bm_len transactions > MAX_CONCURRENT_RPC_CALLS * MAX_SIGNATURES_PER_STATUS_CHECK"

definition check_sweep_transactions ::
  "sdk \<Rightarrow> string list + u64 \<times> confirmed_block \<Rightarrow>
   (signature list \<Rightarrow> rpc_error + transaction_status option list rpc_response) \<Rightarrow> u64 \<Rightarrow> canister \<Rightarrow>
   (bool \<times> canister) option" where
  "check_sweep_transactions lib block_response statuses_response now c =
     (let transactions = blockhash_transactions (can_state c) in
      if bm_is_empty transactions then Some (False, c)
      else map_option (Pair (more_transactions_to_check transactions))
        (apply_statuses lib transactions (fetch_current_block_height lib block_response)
          (check_transaction_statuses (map (\<lambda>batch. (batch, get_signature_statuses (statuses_response batch)))
             (status_batches (bm_keys transactions)))) now c))"

subsection \<open>Withdrawals\<close>

record in_flight_withdrawal =
  iw_signature :: signature
  iw_message :: message
  iw_nonce_account :: address
  iw_nonce_value :: hash
  iw_submitted_at :: u64

definition signed_transaction :: "in_flight_withdrawal \<Rightarrow> transaction" where
  "signed_transaction w = \<lparr>tx_signatures = [iw_signature w], tx_message = iw_message w\<rparr>"

definition carries_message_of :: "in_flight_withdrawal \<Rightarrow> versioned_transaction \<Rightarrow> bool" where
  "carries_message_of w transaction \<longleftrightarrow>
     (case vt_message transaction of SolanaLegacy message \<Rightarrow> message = iw_message w | SolanaV0 \<Rightarrow> False)"

definition is_old_enough_to_rebroadcast :: "in_flight_withdrawal \<Rightarrow> u64 \<Rightarrow> bool" where
  "is_old_enough_to_rebroadcast w now \<longleftrightarrow> unat (saturating_sub now (iw_submitted_at w)) \<ge> MIN_REBROADCAST_AGE"

definition in_flight_withdrawals :: "minter_state \<Rightarrow> in_flight_withdrawal list" where
  "in_flight_withdrawals s = List.map_filter (\<lambda>(signature, transaction).
     (case transaction of
        TxWithdrawal (Legacy message) nonce_account nonce_value submitted_at \<Rightarrow>
          Some \<lparr>iw_signature = signature, iw_message = message, iw_nonce_account = nonce_account,
                iw_nonce_value = nonce_value, iw_submitted_at = submitted_at\<rparr>
      | TxSweepDeposit _ \<Rightarrow> None)) (iom_iter (st_submitted_transactions s))"

record in_flight_nonces =
  ifn_unchanged :: "in_flight_withdrawal list"
  ifn_advanced :: "in_flight_withdrawal list"
  ifn_undecided :: "(undecided_withdrawal_reason, u64) btree_map"

definition nonces_empty :: in_flight_nonces where
  "nonces_empty = \<lparr>ifn_unchanged = [], ifn_advanced = [], ifn_undecided = bm_empty\<rparr>"

definition leave_undecided :: "undecided_withdrawal_reason \<Rightarrow> in_flight_nonces \<Rightarrow> in_flight_nonces" where
  "leave_undecided reason nonces = nonces\<lparr>ifn_undecided := count_up reason (ifn_undecided nonces)\<rparr>"

definition read_nonce ::
  "sdk \<Rightarrow> address \<Rightarrow> in_flight_withdrawal \<Rightarrow> ui_account option rpc_response \<Rightarrow> minter_state \<Rightarrow> nonce_read option" where
  "read_nonce lib minter_addr w response s =
     (case read_verified_nonce lib minter_addr response of
        Inl _ \<Rightarrow> None
      | Inr read_nonce_value \<Rightarrow>
          Some (classify_read (st_nonce_pool s) (iw_nonce_account w) (iw_nonce_value w) read_nonce_value))"

definition sort_nonce_read ::
  "in_flight_withdrawal \<times> nonce_read option \<Rightarrow> in_flight_nonces \<Rightarrow> in_flight_nonces" where
  "sort_nonce_read entry nonces =
     (case snd entry of
        Some Unchanged \<Rightarrow> nonces\<lparr>ifn_unchanged := ifn_unchanged nonces @ [fst entry]\<rparr>
      | Some Advanced \<Rightarrow> nonces\<lparr>ifn_advanced := ifn_advanced nonces @ [fst entry]\<rparr>
      | Some Stale \<Rightarrow> leave_undecided UndecidedStaleNonce nonces
      | None \<Rightarrow> leave_undecided UndecidedNonceReadFailed nonces)"

definition read_in_flight_nonces ::
  "sdk \<Rightarrow> (address \<Rightarrow> ui_account option rpc_response) \<Rightarrow> minter_state \<Rightarrow> in_flight_nonces" where
  "read_in_flight_nonces lib nonce_response s =
     (case st_minter_public_key s of
        None \<Rightarrow> nonces_empty
      | Some key \<Rightarrow>
          fold sort_nonce_read
            (map (\<lambda>w. (w, read_nonce lib (minter_address lib key) w (nonce_response (iw_nonce_account w)) s))
               (concat (chunks MAX_CONCURRENT_RPC_CALLS (in_flight_withdrawals s))))
            nonces_empty)"

definition count_rebroadcast :: "metrics \<Rightarrow> metrics" where
  "count_rebroadcast m =
     m\<lparr>met_withdrawal_transaction_rebroadcasts := met_withdrawal_transaction_rebroadcasts m + 1\<rparr>"

definition rebroadcast :: "in_flight_withdrawal \<Rightarrow> canister \<Rightarrow> rpc_request \<times> canister" where
  "rebroadcast w c = (submit_transaction_skipping_preflight (signed_transaction w), on_metrics count_rebroadcast c)"

definition resubmit_transactions_batch ::
  "in_flight_nonces \<Rightarrow> u64 \<Rightarrow> canister \<Rightarrow> rpc_request list \<times> canister" where
  "resubmit_transactions_batch nonces now c =
     fold (\<lambda>w (requests, c). let (request, c') = rebroadcast w c in (requests @ [request], c'))
       (concat (chunks MAX_CONCURRENT_RPC_CALLS
          (filter (\<lambda>w. is_old_enough_to_rebroadcast w now) (ifn_unchanged nonces)))) ([], c)"

datatype finalization = Finalized | UnresolvedOutcome

definition landed_event ::
  "in_flight_withdrawal \<Rightarrow> get_transaction_error + fetched_transaction option \<Rightarrow> event_type option" where
  "landed_event w outcome =
     (case outcome of
        Inr (Some fetched) \<Rightarrow>
          if \<not> carries_message_of w (ft_transaction fetched) then None
          else (case ft_meta fetched of
            Some meta \<Rightarrow>
              (case meta_err meta of
                 None \<Rightarrow> Some (EvSucceededTransaction (iw_signature w))
               | Some _ \<Rightarrow> Some (EvFailedTransaction (iw_signature w)))
          | None \<Rightarrow> None)
      | Inr None \<Rightarrow> None
      | Inl _ \<Rightarrow> None)"

definition finalize_landed_withdrawal ::
  "sdk \<Rightarrow> in_flight_withdrawal \<Rightarrow> get_transaction_error + fetched_transaction option \<Rightarrow> u64 \<Rightarrow> canister \<Rightarrow>
   (finalization \<times> canister) option" where
  "finalize_landed_withdrawal lib w outcome now c =
     (case landed_event w outcome of
        None \<Rightarrow> Some (UnresolvedOutcome, c)
      | Some event \<Rightarrow> map_option (Pair Finalized) (process_event lib event now c))"

definition record_undecided :: "in_flight_nonces \<Rightarrow> nat \<Rightarrow> canister \<Rightarrow> canister" where
  "record_undecided nonces num_unresolved_outcomes =
     on_metrics (set_undecided_withdrawal_transactions
       (bm_insert UndecidedUnresolvedOutcome (of_nat num_unresolved_outcomes) (ifn_undecided nonces)))"

definition finalize_transactions_batch ::
  "sdk \<Rightarrow> in_flight_nonces \<Rightarrow> (signature \<Rightarrow> encoded_transaction option rpc_response) \<Rightarrow> u64 \<Rightarrow> canister \<Rightarrow>
   canister option" where
  "finalize_transactions_batch lib nonces transaction_response now c =
     map_option (\<lambda>(unresolved, c'). record_undecided nonces unresolved c')
       (foldM (\<lambda>w (unresolved, c). map_option
            (\<lambda>(finalization, c'). (if finalization = UnresolvedOutcome then Suc unresolved else unresolved, c'))
            (finalize_landed_withdrawal lib w
               (get_transaction lib (iw_signature w) (transaction_response (iw_signature w))) now c))
          (concat (chunks MAX_CONCURRENT_RPC_CALLS (ifn_advanced nonces))) (0, c))"

subsection \<open>The round\<close>

definition finalize_round_end :: "bool \<Rightarrow> canister \<Rightarrow> canister" where
  "finalize_round_end run_again c =
     on_state (drop_timer_guard FinalizeTransactions)
       (if run_again then set_timer FINALIZE_TRANSACTIONS_RETRY_DELAY FinalizeTimer c else c)"

definition finalize_transactions ::
  "sdk \<Rightarrow> string list + u64 \<times> confirmed_block \<Rightarrow>
   (signature list \<Rightarrow> rpc_error + transaction_status option list rpc_response) \<Rightarrow>
   (address \<Rightarrow> ui_account option rpc_response) \<Rightarrow>
   (signature \<Rightarrow> encoded_transaction option rpc_response) \<Rightarrow> u64 \<Rightarrow> canister \<Rightarrow>
   (rpc_request list \<times> canister) option" where
  "finalize_transactions lib block_response statuses_response nonce_response transaction_response now c =
     (case timer_guard_new FinalizeTransactions (can_state c) of
        Inl _ \<Rightarrow> Some ([], c)
      | Inr s \<Rightarrow> do {
          (more_transactions, c1) \<leftarrow> check_sweep_transactions lib block_response statuses_response now (c\<lparr>can_state := s\<rparr>);
          let nonces = read_in_flight_nonces lib nonce_response (can_state c1);
          let (requests, c2) = resubmit_transactions_batch nonces now c1;
          c3 \<leftarrow> finalize_transactions_batch lib nonces transaction_response now c2;
          let round = credit_round (can_state c3);
          (more_sweeps, c4) \<leftarrow> credit_finalized_sweeps lib round
            (map (\<lambda>(signature, _). get_transaction lib signature (transaction_response signature)) (snd round)) now c3;
          Some (requests, finalize_round_end (more_transactions \<or> more_sweeps) c4)
        })"

end
