(* ===== verification/Candid_Events.thy ===== *)
theory Candid_Events
  imports Audit_Log
begin

text \<open>
  The Candid form of the events: the types of \<^verbatim>\<open>libs/types-internal/src/event.rs\<close> and the conversions
  of \<^verbatim>\<open>minter/src/state/event/candid/mod.rs\<close>. The \<^verbatim>\<open>bincode\<close> form of a message and the raw form of a
  public key are those of their libraries, given by the parameter \<open>codec\<close>. Addresses, hashes and
  signatures have the same bytes in both forms.
\<close>

unbundle bit_operations_syntax

subsection \<open>Byte arrays\<close>

definition word_of_be_bytes :: "bytes \<Rightarrow> 'a::len word" where
  "word_of_be_bytes bs = fold (\<lambda>b acc. push_bit 8 acc OR ucast b) bs 0"

lemma be_bytes_Suc: "be_bytes (Suc n) w = ucast (drop_bit (8 * n) w) # be_bytes n w"
  by (simp add: be_bytes_def)

lemma fold_be_bytes:
  "fold (\<lambda>b acc. push_bit 8 acc OR ucast b) (be_bytes n w) a = push_bit (8 * n) a OR take_bit (8 * n) w"
  for a w :: "'a::len word"
proof (induction n arbitrary: a)
  case 0
  show ?case by (simp add: be_bytes_def)
next
  case (Suc n)
  have "push_bit (8 * n) (push_bit 8 a OR ucast (ucast (drop_bit (8 * n) w) :: u8)) OR take_bit (8 * n) w =
      push_bit (8 * Suc n) a OR take_bit (8 * Suc n) w"
    by (rule bit_word_eqI) (auto simp: bit_simps ac_simps)
  then show ?case by (simp only: be_bytes_Suc fold_simps Suc.IH)
qed

lemma word_of_be_bytes_be_bytes:
  "LENGTH('a) = 8 * n \<Longrightarrow> word_of_be_bytes (be_bytes n w) = w" for w :: "'a::len word"
proof -
  assume "LENGTH('a) = 8 * n"
  then have "take_bit (8 * n) w = w" by (intro bit_word_eqI) (simp add: bit_simps)
  then show ?thesis using fold_be_bytes[of n w 0] by (simp add: word_of_be_bytes_def)
qed

subsection \<open>Types\<close>

datatype candid_message = CandidLegacy bytes

datatype candid_signer = CandidMinter | CandidAccount account

datatype candid_purpose =
    CandidSweepDeposit "u64 list" u64
  | CandidWithdrawal "u64 list"

record candid_credited_deposit =
  ccd_deposit_id :: u64
  ccd_amount_to_mint :: lamport

datatype candid_event_type =
    CandidInit init_args
  | CandidUpgrade upgrade_args
  | CandidAcceptedWithdrawalRequest account address u64 lamport lamport
  | CandidSubmittedTransaction signature candid_message "candid_signer list" candid_purpose
  | CandidSucceededTransaction signature
  | CandidFailedTransaction signature
  | CandidExpiredTransaction signature
  | CandidQueuedDeposit u64 account address lamport "lamport option"
  | CandidCreditedSweep signature lamport "candid_credited_deposit list"
  | CandidQuarantinedSweep signature
  | CandidMinterPublicKeyFetched bytes bytes
  | CandidMintedSweptDeposit u64 u64
  | CandidQuarantinedPendingMint u64
  | CandidCreatedWithdrawalTransaction "u64 list" address hash

record candid_event =
  cev_timestamp :: u64
  cev_payload :: candid_event_type

datatype invalid_candid_event =
    InvalidMessage string
  | InvalidPublicKey string
  | InvalidChainCode nat
  | DepositBalanceBelowRentExemption lamport

record candid_codec =
  serialize_message :: "message \<Rightarrow> bytes"
  deserialize_message :: "bytes \<Rightarrow> string + message"
  serialize_key :: "public_key \<Rightarrow> bytes"
  deserialize_key :: "bytes \<Rightarrow> string + public_key"

subsection \<open>To Candid\<close>

definition candid_message_from :: "candid_codec \<Rightarrow> versioned_message \<Rightarrow> candid_message" where
  "candid_message_from codec message = (case message of Legacy m \<Rightarrow> CandidLegacy (serialize_message codec m))"

definition candid_signer_from :: "signer \<Rightarrow> candid_signer" where
  "candid_signer_from signer =
     (case signer of SignerMinter \<Rightarrow> CandidMinter | SignerAccount account \<Rightarrow> CandidAccount account)"

definition candid_purpose_from :: "transaction_purpose \<Rightarrow> candid_purpose" where
  "candid_purpose_from purpose =
     (case purpose of
        PurposeSweepDeposit deposit_ids block_height \<Rightarrow> CandidSweepDeposit deposit_ids block_height
      | PurposeWithdrawal burn_indices \<Rightarrow> CandidWithdrawal burn_indices)"

definition candid_credited_from :: "credited_deposit \<Rightarrow> candid_credited_deposit" where
  "candid_credited_from mint = \<lparr>ccd_deposit_id = cd_deposit_id mint, ccd_amount_to_mint = cd_amount_to_mint mint\<rparr>"

definition candid_event_type_from :: "candid_codec \<Rightarrow> event_type \<Rightarrow> candid_event_type" where
  "candid_event_type_from codec payload =
     (case payload of
        EvInit args \<Rightarrow> CandidInit args
      | EvUpgrade args \<Rightarrow> CandidUpgrade args
      | EvAcceptedWithdrawalRequest request \<Rightarrow>
          CandidAcceptedWithdrawalRequest (wr_account request) (wr_solana_address request) (wr_burn_block_index request)
            (wr_burned_amount request) (wr_amount_to_transfer request)
      | EvSubmittedTransaction signature message signers purpose \<Rightarrow>
          CandidSubmittedTransaction signature (candid_message_from codec message) (map candid_signer_from signers)
            (candid_purpose_from purpose)
      | EvSucceededTransaction signature \<Rightarrow> CandidSucceededTransaction signature
      | EvFailedTransaction signature \<Rightarrow> CandidFailedTransaction signature
      | EvExpiredTransaction signature \<Rightarrow> CandidExpiredTransaction signature
      | EvQueuedDeposit deposit_id account address balance fee \<Rightarrow>
          CandidQueuedDeposit deposit_id account address (deposit_balance_lamports balance) fee
      | EvCreditedSweep signature amount_received credited \<Rightarrow>
          CandidCreditedSweep signature amount_received (map candid_credited_from credited)
      | EvQuarantinedSweep signature \<Rightarrow> CandidQuarantinedSweep signature
      | EvMinterPublicKeyFetched public_key chain_code \<Rightarrow>
          CandidMinterPublicKeyFetched (serialize_key codec public_key) (be_bytes 32 chain_code)
      | EvMintedSweptDeposit deposit_id mint_block_index \<Rightarrow> CandidMintedSweptDeposit deposit_id mint_block_index
      | EvQuarantinedPendingMint deposit_id \<Rightarrow> CandidQuarantinedPendingMint deposit_id
      | EvCreatedWithdrawalTransaction burn_indices nonce_account nonce_value \<Rightarrow>
          CandidCreatedWithdrawalTransaction burn_indices nonce_account nonce_value)"

definition candid_event_from :: "candid_codec \<Rightarrow> event \<Rightarrow> candid_event" where
  "candid_event_from codec event =
     \<lparr>cev_timestamp = ev_timestamp event, cev_payload = candid_event_type_from codec (ev_payload event)\<rparr>"

subsection \<open>From Candid\<close>

definition message_try_from :: "candid_codec \<Rightarrow> candid_message \<Rightarrow> invalid_candid_event + versioned_message" where
  "message_try_from codec message =
     (case message of CandidLegacy bytes \<Rightarrow> map_sum InvalidMessage Legacy (deserialize_message codec bytes))"

definition signer_from :: "candid_signer \<Rightarrow> signer" where
  "signer_from signer = (case signer of CandidMinter \<Rightarrow> SignerMinter | CandidAccount account \<Rightarrow> SignerAccount account)"

definition purpose_from :: "candid_purpose \<Rightarrow> transaction_purpose" where
  "purpose_from purpose =
     (case purpose of
        CandidSweepDeposit deposit_ids block_height \<Rightarrow> PurposeSweepDeposit deposit_ids block_height
      | CandidWithdrawal burn_indices \<Rightarrow> PurposeWithdrawal burn_indices)"

definition credited_from :: "candid_credited_deposit \<Rightarrow> credited_deposit" where
  "credited_from mint = \<lparr>cd_deposit_id = ccd_deposit_id mint, cd_amount_to_mint = ccd_amount_to_mint mint\<rparr>"

definition chain_code_try_from :: "bytes \<Rightarrow> invalid_candid_event + chain_code" where
  "chain_code_try_from bytes = (if length bytes = 32 then Inr (word_of_be_bytes bytes) else Inl (InvalidChainCode (length bytes)))"

definition event_type_try_from :: "candid_codec \<Rightarrow> candid_event_type \<Rightarrow> invalid_candid_event + event_type" where
  "event_type_try_from codec payload =
     (case payload of
        CandidInit args \<Rightarrow> Inr (EvInit args)
      | CandidUpgrade args \<Rightarrow> Inr (EvUpgrade args)
      | CandidAcceptedWithdrawalRequest account solana_address burn_block_index burned_amount amount_to_transfer \<Rightarrow>
          Inr (EvAcceptedWithdrawalRequest \<lparr>wr_account = account, wr_solana_address = solana_address,
            wr_burn_block_index = burn_block_index, wr_burned_amount = burned_amount,
            wr_amount_to_transfer = amount_to_transfer\<rparr>)
      | CandidSubmittedTransaction signature message signers purpose \<Rightarrow>
          map_sum id (\<lambda>m. EvSubmittedTransaction signature m (map signer_from signers) (purpose_from purpose))
            (message_try_from codec message)
      | CandidSucceededTransaction signature \<Rightarrow> Inr (EvSucceededTransaction signature)
      | CandidFailedTransaction signature \<Rightarrow> Inr (EvFailedTransaction signature)
      | CandidExpiredTransaction signature \<Rightarrow> Inr (EvExpiredTransaction signature)
      | CandidQueuedDeposit deposit_id account address balance fee \<Rightarrow>
          (case deposit_balance_new balance of
             None \<Rightarrow> Inl (DepositBalanceBelowRentExemption balance)
           | Some b \<Rightarrow> Inr (EvQueuedDeposit deposit_id account address b fee))
      | CandidCreditedSweep signature amount_received credited \<Rightarrow>
          Inr (EvCreditedSweep signature amount_received (map credited_from credited))
      | CandidQuarantinedSweep signature \<Rightarrow> Inr (EvQuarantinedSweep signature)
      | CandidMinterPublicKeyFetched public_key chain_code \<Rightarrow>
          (case deserialize_key codec public_key of
             Inl e \<Rightarrow> Inl (InvalidPublicKey e)
           | Inr key \<Rightarrow> map_sum id (EvMinterPublicKeyFetched key) (chain_code_try_from chain_code))
      | CandidMintedSweptDeposit deposit_id mint_block_index \<Rightarrow> Inr (EvMintedSweptDeposit deposit_id mint_block_index)
      | CandidQuarantinedPendingMint deposit_id \<Rightarrow> Inr (EvQuarantinedPendingMint deposit_id)
      | CandidCreatedWithdrawalTransaction burn_indices nonce_account nonce_value \<Rightarrow>
          Inr (EvCreatedWithdrawalTransaction burn_indices nonce_account nonce_value))"

definition event_try_from :: "candid_codec \<Rightarrow> candid_event \<Rightarrow> invalid_candid_event + event" where
  "event_try_from codec event =
     map_sum id (\<lambda>payload. \<lparr>ev_timestamp = cev_timestamp event, ev_payload = payload\<rparr>)
       (event_type_try_from codec (cev_payload event))"

subsection \<open>Round trip\<close>

text \<open>What the conversion relies on: the libraries read back what they wrote.\<close>

definition codec_inverts :: "candid_codec \<Rightarrow> event_type \<Rightarrow> bool" where
  "codec_inverts codec payload =
     (case payload of
        EvSubmittedTransaction _ message _ _ \<Rightarrow>
          (case message of Legacy m \<Rightarrow> deserialize_message codec (serialize_message codec m) = Inr m)
      | EvMinterPublicKeyFetched key _ \<Rightarrow> deserialize_key codec (serialize_key codec key) = Inr key
      | _ \<Rightarrow> True)"

lemma signer_from_candid [simp]: "signer_from (candid_signer_from s) = s"
  by (cases s) (simp_all add: signer_from_def candid_signer_from_def)

lemma purpose_from_candid [simp]: "purpose_from (candid_purpose_from p) = p"
  by (cases p) (simp_all add: purpose_from_def candid_purpose_from_def)

lemma credited_from_candid [simp]: "credited_from (candid_credited_from m) = m"
  by (simp add: credited_from_def candid_credited_from_def)

lemma map_from_candid [simp]:
  "map (signer_from \<circ> candid_signer_from) ss = ss" "map (credited_from \<circ> candid_credited_from) ms = ms"
  by (simp_all add: comp_def)

lemma event_type_round_trip:
  assumes "codec_inverts codec payload"
  shows "event_type_try_from codec (candid_event_type_from codec payload) = Inr payload"
proof (cases payload)
  case (EvSubmittedTransaction signature message signers purpose)
  obtain m where "message = Legacy m" by (cases message)
  then show ?thesis
    using assms by (simp add: EvSubmittedTransaction event_type_try_from_def candid_event_type_from_def message_try_from_def
        candid_message_from_def codec_inverts_def)
next
  case (EvQueuedDeposit i account address balance fee)
  have "deposit_balance_new (deposit_balance_lamports balance) = Some balance"
    by (simp add: deposit_balance_new_Some_iff)
  then show ?thesis by (simp add: EvQueuedDeposit event_type_try_from_def candid_event_type_from_def)
next
  case (EvMinterPublicKeyFetched key chain_code)
  have "word_of_be_bytes (be_bytes 32 chain_code) = chain_code" by (rule word_of_be_bytes_be_bytes) simp
  then show ?thesis
    using assms by (simp add: EvMinterPublicKeyFetched event_type_try_from_def candid_event_type_from_def
        chain_code_try_from_def codec_inverts_def)
qed (simp_all add: event_type_try_from_def candid_event_type_from_def)

lemma candid_log_round_trip:
  assumes "list_all (\<lambda>e. codec_inverts codec (ev_payload e)) log"
  shows "collect_res (map (event_try_from codec) (map (candid_event_from codec) log)) = Inr log"
  using assms
  by (auto simp: collect_res_Inr_iff event_try_from_def candid_event_from_def event_type_round_trip list_all_iff)

end
