(* ===== verification/Lifecycle.thy ===== *)
theory Lifecycle
  imports Withdraw Deposit_Flow Sweep_Timer Minting Monitor Candid_Events
begin

text \<open>
  Installation and upgrade of the canister (\<^verbatim>\<open>minter/src/lifecycle.rs\<close>) and the endpoints of
  \<^verbatim>\<open>minter/src/main.rs\<close>. The caller and the principal of the canister are arguments.
\<close>

subsection \<open>Installation and upgrade\<close>

datatype minter_arg = ArgInit init_args | ArgUpgrade upgrade_args

definition lifecycle_init :: "sdk \<Rightarrow> init_args \<Rightarrow> u64 \<Rightarrow> canister option" where
  "lifecycle_init lib args now =
     (case state_from_init lib args of
        Inl _ \<Rightarrow> None
      | Inr s \<Rightarrow> Some \<lparr>can_state = s, can_log = [\<lparr>ev_timestamp = now, ev_payload = EvInit args\<rparr>],
          can_metrics = metrics_new, can_timers = []\<rparr>)"

text \<open>An upgrade keeps the event log only. \<open>consumed\<close> is the number of instructions of the replay.\<close>

definition lifecycle_post_upgrade :: "sdk \<Rightarrow> upgrade_args option \<Rightarrow> event list \<Rightarrow> u64 \<Rightarrow> u64 \<Rightarrow> canister option" where
  "lifecycle_post_upgrade lib args log consumed now = do {
     s \<leftarrow> replay_events lib log;
     let c = \<lparr>can_state = s, can_log = log, can_metrics = metrics_new, can_timers = []\<rparr>;
     c' \<leftarrow> (case args of None \<Rightarrow> Some c | Some a \<Rightarrow> process_event lib (EvUpgrade a) now c);
     Some (on_metrics (\<lambda>m. m\<lparr>met_post_upgrade_instructions_consumed := consumed\<rparr>) c')
   }"

text \<open>The repeating timers, with their interval; the key fetch is a one-shot timer.\<close>

definition interval_timers :: "(duration \<times> timer_task) list" where
  "interval_timers =
     [(WITHDRAWAL_PROCESSING_DELAY, WithdrawalTimer), (SWEEP_DEPOSITS_DELAY, SweepTimer),
      (PROCESS_PENDING_MINTS_DELAY, MintTimer), (FINALIZE_TRANSACTIONS_DELAY, FinalizeTimer)]"

definition setup_timers :: "canister \<Rightarrow> canister" where
  "setup_timers c = set_timer 0 FetchKeyTimer c"

definition init_canister :: "sdk \<Rightarrow> minter_arg \<Rightarrow> u64 \<Rightarrow> canister option" where
  "init_canister lib args now =
     (case args of
        ArgInit init \<Rightarrow> map_option setup_timers (lifecycle_init lib init now)
      | ArgUpgrade _ \<Rightarrow> None)"

definition post_upgrade :: "sdk \<Rightarrow> minter_arg option \<Rightarrow> event list \<Rightarrow> u64 \<Rightarrow> u64 \<Rightarrow> canister option" where
  "post_upgrade lib args log consumed now =
     (case args of
        Some (ArgInit _) \<Rightarrow> None
      | Some (ArgUpgrade a) \<Rightarrow> map_option setup_timers (lifecycle_post_upgrade lib (Some a) log consumed now)
      | None \<Rightarrow> map_option setup_timers (lifecycle_post_upgrade lib None log consumed now))"

subsection \<open>Endpoints\<close>

definition resolve_account :: "principal \<Rightarrow> principal option \<Rightarrow> (256 word) option \<Rightarrow> account" where
  "resolve_account caller owner subaccount =
     account_from (case owner of None \<Rightarrow> caller | Some p \<Rightarrow> p) subaccount"

definition get_deposit_address_endpoint ::
  "sdk \<Rightarrow> principal \<Rightarrow> principal \<Rightarrow> get_deposit_address_args \<Rightarrow> canister \<Rightarrow> address option" where
  "get_deposit_address_endpoint lib self caller args c = do {
     let account = resolve_account caller (gda_owner args) (gda_subaccount args);
     assert_valid_deposit_owner account self;
     get_deposit_address lib (can_state c) account
   }"

definition deposit_sol_endpoint ::
  "sdk \<Rightarrow> principal \<Rightarrow> u128 \<Rightarrow> (u128 \<Rightarrow> u128) \<Rightarrow> u128 \<Rightarrow> principal \<Rightarrow> deposit_sol_args \<Rightarrow> lamport rpc_response \<Rightarrow> u64 \<Rightarrow>
   canister \<Rightarrow> ((deposit_sol_error + deposit_sol_id) \<times> canister) option" where
  "deposit_sol_endpoint lib self available accept refunded caller args response now c =
     deposit_sol lib self available accept refunded
       (resolve_account caller (dsa_owner args) (dsa_subaccount args)) response now c"

definition watch_deposit_address_endpoint ::
  "sdk \<Rightarrow> principal \<Rightarrow> principal \<Rightarrow> (256 word) option \<Rightarrow> u64 \<Rightarrow> canister \<Rightarrow>
   ((watch_deposit_address_error + watch_deposit_address_ok) \<times> canister) option" where
  "watch_deposit_address_endpoint lib self caller subaccount now c = do {
     let account = resolve_account caller None subaccount;
     assert_non_anonymous_account account;
     watch_deposit_address lib self account now c
   }"

definition withdraw_sol_endpoint ::
  "sdk \<Rightarrow> principal \<Rightarrow> withdraw_sol_args \<Rightarrow> string + (transfer_from_error + nat) \<Rightarrow> u64 \<Rightarrow> canister \<Rightarrow>
   ((withdraw_sol_error + ledger_burn_index) \<times> canister) option" where
  "withdraw_sol_endpoint lib caller args response now c = do {
     let account = resolve_account caller None (wsa_from_subaccount args);
     assert_non_anonymous_account account;
     withdraw lib account (wsa_amount args) (wsa_address args) response now c
   }"

definition MAX_EVENTS_PER_RESPONSE :: u64 where
  "MAX_EVENTS_PER_RESPONSE = 2000"

definition total_event_count :: "canister \<Rightarrow> u64" where
  "total_event_count c = of_nat (length (can_log c))"

text \<open>On the 32-bit platform of the canister, \<open>args.start as usize\<close> keeps the low 32 bits.\<close>

definition get_events :: "candid_codec \<Rightarrow> u64 \<Rightarrow> u64 \<Rightarrow> canister \<Rightarrow> candid_event list \<times> u64" where
  "get_events codec start len c =
     (map (candid_event_from codec)
        (take (unat (min len MAX_EVENTS_PER_RESPONSE)) (drop (unat (ucast start :: u32)) (can_log c))),
      total_event_count c)"

definition get_minter_info :: "sdk \<Rightarrow> minter_state \<Rightarrow> minter_info" where
  "get_minter_info lib s =
     \<lparr>mi_deposit_sol_fee = st_deposit_sol_fee s, mi_minimum_withdrawal_amount = st_minimum_withdrawal_amount s,
      mi_minimum_deposit_amount = st_minimum_deposit_amount s, mi_withdrawal_fee = st_withdrawal_fee s,
      mi_deposit_sol_required_cycles = st_deposit_sol_required_cycles s, mi_balance = st_balance s,
      mi_minter_address = map_option (\<lambda>key. sdk_show_address lib (minter_address lib key)) (st_minter_public_key s),
      mi_nonce_accounts = map (sdk_show_address lib) (pool_addresses (st_nonce_pool s)),
      mi_automatic_deposit_fee = st_automatic_deposit_fee s,
      mi_collected_automatic_deposit_fees = Some (st_collected_automatic_deposit_fees s)\<rparr>"

end
