(* ===== verification/Persistence.thy ===== *)
theory Persistence
  imports Lifecycle Solvency
begin

text \<open>
  What an upgrade keeps. The guards, the active tasks and the watchlist live in memory only; every
  other part of the state is a function of the event log. So the state that a replay rebuilds is
  the state of the running canister with those parts reset, and what is proved of replayed logs
  holds of the running canister.
\<close>

subsection \<open>The persistent part of the state\<close>

definition forget :: "deposits \<Rightarrow> deposits" where
  "forget d = d\<lparr>d_watchlist := watchlist_default\<rparr>"

definition persistent :: "minter_state \<Rightarrow> minter_state" where
  "persistent s = s\<lparr>st_pending_deposit_sol_request_guards := bm_empty,
     st_pending_withdrawal_request_guards := bm_empty, st_active_tasks := bm_empty,
     st_deposits := forget (st_deposits s)\<rparr>"

lemma forget_sel [simp]:
  "d_next_id (forget d) = d_next_id d" "d_in_flight_ids (forget d) = d_in_flight_ids d"
  "d_latest_ids (forget d) = d_latest_ids d" "d_queued (forget d) = d_queued d" "d_swept (forget d) = d_swept d"
  "d_finalized (forget d) = d_finalized d" "d_pending_mints (forget d) = d_pending_mints d"
  "d_minted (forget d) = d_minted d" "d_dropped (forget d) = d_dropped d" "d_quarantined (forget d) = d_quarantined d"
  "d_queued_at_by_id (forget d) = d_queued_at_by_id d" "d_watchlist (forget d) = watchlist_default"
  by (simp_all add: forget_def)

lemma forget_upd [simp]:
  "forget (d\<lparr>d_next_id := a\<rparr>) = (forget d)\<lparr>d_next_id := a\<rparr>"
  "forget (d\<lparr>d_in_flight_ids := b\<rparr>) = (forget d)\<lparr>d_in_flight_ids := b\<rparr>"
  "forget (d\<lparr>d_latest_ids := b\<rparr>) = (forget d)\<lparr>d_latest_ids := b\<rparr>"
  "forget (d\<lparr>d_queued := e\<rparr>) = (forget d)\<lparr>d_queued := e\<rparr>"
  "forget (d\<lparr>d_swept := f\<rparr>) = (forget d)\<lparr>d_swept := f\<rparr>"
  "forget (d\<lparr>d_finalized := f\<rparr>) = (forget d)\<lparr>d_finalized := f\<rparr>"
  "forget (d\<lparr>d_pending_mints := g\<rparr>) = (forget d)\<lparr>d_pending_mints := g\<rparr>"
  "forget (d\<lparr>d_minted := h\<rparr>) = (forget d)\<lparr>d_minted := h\<rparr>"
  "forget (d\<lparr>d_dropped := i\<rparr>) = (forget d)\<lparr>d_dropped := i\<rparr>"
  "forget (d\<lparr>d_quarantined := j\<rparr>) = (forget d)\<lparr>d_quarantined := j\<rparr>"
  "forget (d\<lparr>d_queued_at_by_id := k\<rparr>) = (forget d)\<lparr>d_queued_at_by_id := k\<rparr>"
  "forget (d\<lparr>d_watchlist := w\<rparr>) = forget d"
  by (simp_all add: forget_def)

lemma persistent_sel [simp]:
  "st_minter_public_key (persistent s) = st_minter_public_key s"
  "st_withdrawal_fee (persistent s) = st_withdrawal_fee s"
  "st_minimum_withdrawal_amount (persistent s) = st_minimum_withdrawal_amount s"
  "st_minimum_deposit_amount (persistent s) = st_minimum_deposit_amount s"
  "st_sol_rpc_canister_id (persistent s) = st_sol_rpc_canister_id s"
  "st_ledger_canister_id (persistent s) = st_ledger_canister_id s"
  "st_deposit_sol_required_cycles (persistent s) = st_deposit_sol_required_cycles s"
  "st_deposit_sol_fee (persistent s) = st_deposit_sol_fee s"
  "st_automatic_deposit_fee (persistent s) = st_automatic_deposit_fee s"
  "st_collected_automatic_deposit_fees (persistent s) = st_collected_automatic_deposit_fees s"
  "st_pending_withdrawal_requests (persistent s) = st_pending_withdrawal_requests s"
  "st_created_withdrawal_requests (persistent s) = st_created_withdrawal_requests s"
  "st_sent_withdrawal_requests (persistent s) = st_sent_withdrawal_requests s"
  "st_successful_withdrawal_requests (persistent s) = st_successful_withdrawal_requests s"
  "st_failed_withdrawal_requests (persistent s) = st_failed_withdrawal_requests s"
  "st_submitted_transactions (persistent s) = st_submitted_transactions s"
  "st_created_withdrawal_txs (persistent s) = st_created_withdrawal_txs s"
  "st_succeeded_transactions (persistent s) = st_succeeded_transactions s"
  "st_failed_transactions (persistent s) = st_failed_transactions s"
  "st_nonce_pool (persistent s) = st_nonce_pool s" "st_balance (persistent s) = st_balance s"
  "st_deposits (persistent s) = forget (st_deposits s)"
  by (simp_all add: persistent_def)

lemma persistent_upd [simp]:
  "persistent (s\<lparr>st_minter_public_key := v1\<rparr>) = (persistent s)\<lparr>st_minter_public_key := v1\<rparr>"
  "persistent (s\<lparr>st_withdrawal_fee := v2\<rparr>) = (persistent s)\<lparr>st_withdrawal_fee := v2\<rparr>"
  "persistent (s\<lparr>st_minimum_withdrawal_amount := v2\<rparr>) = (persistent s)\<lparr>st_minimum_withdrawal_amount := v2\<rparr>"
  "persistent (s\<lparr>st_minimum_deposit_amount := v2\<rparr>) = (persistent s)\<lparr>st_minimum_deposit_amount := v2\<rparr>"
  "persistent (s\<lparr>st_sol_rpc_canister_id := v3\<rparr>) = (persistent s)\<lparr>st_sol_rpc_canister_id := v3\<rparr>"
  "persistent (s\<lparr>st_deposit_sol_required_cycles := v4\<rparr>) = (persistent s)\<lparr>st_deposit_sol_required_cycles := v4\<rparr>"
  "persistent (s\<lparr>st_deposit_sol_fee := v4\<rparr>) = (persistent s)\<lparr>st_deposit_sol_fee := v4\<rparr>"
  "persistent (s\<lparr>st_automatic_deposit_fee := v5\<rparr>) = (persistent s)\<lparr>st_automatic_deposit_fee := v5\<rparr>"
  "persistent (s\<lparr>st_collected_automatic_deposit_fees := v2\<rparr>) = (persistent s)\<lparr>st_collected_automatic_deposit_fees := v2\<rparr>"
  "persistent (s\<lparr>st_pending_withdrawal_requests := v6\<rparr>) = (persistent s)\<lparr>st_pending_withdrawal_requests := v6\<rparr>"
  "persistent (s\<lparr>st_created_withdrawal_requests := v6\<rparr>) = (persistent s)\<lparr>st_created_withdrawal_requests := v6\<rparr>"
  "persistent (s\<lparr>st_sent_withdrawal_requests := v7\<rparr>) = (persistent s)\<lparr>st_sent_withdrawal_requests := v7\<rparr>"
  "persistent (s\<lparr>st_successful_withdrawal_requests := v7\<rparr>) = (persistent s)\<lparr>st_successful_withdrawal_requests := v7\<rparr>"
  "persistent (s\<lparr>st_failed_withdrawal_requests := v7\<rparr>) = (persistent s)\<lparr>st_failed_withdrawal_requests := v7\<rparr>"
  "persistent (s\<lparr>st_submitted_transactions := v8\<rparr>) = (persistent s)\<lparr>st_submitted_transactions := v8\<rparr>"
  "persistent (s\<lparr>st_created_withdrawal_txs := v9\<rparr>) = (persistent s)\<lparr>st_created_withdrawal_txs := v9\<rparr>"
  "persistent (s\<lparr>st_succeeded_transactions := va\<rparr>) = (persistent s)\<lparr>st_succeeded_transactions := va\<rparr>"
  "persistent (s\<lparr>st_failed_transactions := v8\<rparr>) = (persistent s)\<lparr>st_failed_transactions := v8\<rparr>"
  "persistent (s\<lparr>st_nonce_pool := vb\<rparr>) = (persistent s)\<lparr>st_nonce_pool := vb\<rparr>"
  "persistent (s\<lparr>st_balance := v2\<rparr>) = (persistent s)\<lparr>st_balance := v2\<rparr>"
  "persistent (s\<lparr>st_deposits := d\<rparr>) = (persistent s)\<lparr>st_deposits := forget d\<rparr>"
  "persistent (s\<lparr>st_pending_deposit_sol_request_guards := g\<rparr>) = persistent s"
  "persistent (s\<lparr>st_pending_withdrawal_request_guards := g\<rparr>) = persistent s"
  "persistent (s\<lparr>st_active_tasks := ts\<rparr>) = persistent s"
  by (simp_all add: persistent_def)

lemma map_option_bind: "map_option f (Option.bind x g) = Option.bind x (\<lambda>y. map_option f (g y))"
  by (cases x) simp_all

lemma bind_map_option: "Option.bind (map_option f x) g = Option.bind x (\<lambda>y. g (f y))"
  by (cases x) simp_all

lemma map_option_if: "map_option f (if b then x else y) = (if b then map_option f x else map_option f y)"
  by simp

subsection \<open>The deposits\<close>

lemma release_forget: "release_in_flight i a (forget d) = map_option forget (release_in_flight i a d)"
  by (simp add: release_in_flight_def assert_that_bind)

lemma foldM_forget:
  assumes "\<And>x d. f x (forget d) = map_option forget (f x d)"
  shows "foldM f xs (forget d) = map_option forget (foldM f xs d)"
proof (induction xs arbitrary: d)
  case (Cons x xs)
  then show ?case by (cases "f x d") (simp_all add: assms)
qed simp

lemma drop_forget: "drop_swept sig (forget d) = map_option forget (drop_swept sig d)"
proof -
  have one: "drop_one sig p (forget d) = map_option forget (drop_one sig p d)" for p d
    by (cases "release_in_flight (fst p) (qd_account (snd p)) d") (simp_all add: drop_one_def release_forget)
  show ?thesis
    using foldM_forget[of "drop_one sig", OF one]
    by (cases "sweeps_remove sig (d_swept d)") (auto simp: drop_swept_def simp flip: forget_upd)
qed

lemma quarantine_forget: "quarantine_sweep sig (forget d) = map_option forget (quarantine_sweep sig d)"
  by (cases "sweeps_remove sig (d_finalized d)") (auto simp: quarantine_sweep_def)

lemma finalize_forget: "finalize_swept sig (forget d) = map_option forget (finalize_swept sig d)"
  by (auto simp: finalize_swept_def map_option_bind intro!: Option.bind_cong)

lemma mint_forget: "mint_deposit i b (forget d) = map_option forget (mint_deposit i b d)"
  by (cases "bm_get (d_pending_mints d) i") (simp_all add: mint_deposit_def release_in_flight_def assert_that_bind)

lemma give_up_forget: "quarantine_pending_mint i (forget d) = map_option forget (quarantine_pending_mint i d)"
  by (auto simp: quarantine_pending_mint_def map_option_bind intro!: Option.bind_cong)

lemma credit_forget: "credit_sweep sig cs t (forget d) = map_option (map_prod forget id) (credit_sweep sig cs t d)"
proof -
  have one: "credit_one sig w t c (forget d) = map_option forget (credit_one sig w t c d)" for w c d
    by (auto simp: credit_one_def map_option_bind assert_that_bind intro!: Option.bind_cong)
  have fold: "foldM (credit_one sig w t) cs ((forget d)\<lparr>d_finalized := f\<rparr>) =
      map_option forget (foldM (credit_one sig w t) cs (d\<lparr>d_finalized := f\<rparr>))" for w f
    using foldM_forget[of "credit_one sig w t", OF one] by (simp flip: forget_upd)
  show ?thesis
    by (cases "sweeps_remove sig (d_finalized d)")
       (auto simp: credit_sweep_def fold map_option_bind assert_that_bind bind_map_option)
qed

lemma sweep_forget:
  "sweep_deposits lib ids to msg sig (forget d) = map_option (map_prod forget id) (sweep_deposits lib ids to msg sig d)"
  by (auto simp: sweep_deposits_def map_option_bind assert_that_bind intro!: Option.bind_cong)

lemma queue_forget:
  assumes "watchlist_wf (d_watchlist d)"
  shows "queue i q t (forget d) = map_option forget (queue i q t d)"
proof -
  obtain w where "watchlist_remove (qd_account q) (d_watchlist d) = Some w"
    using watchlist_remove_ok[OF assms] by blast
  moreover have "watchlist_remove (qd_account q) watchlist_default = Some watchlist_default"
    by (simp add: watchlist_remove_def watchlist_default_def tsm_remove_def tsm_new_def)
  moreover have "(forget d')\<lparr>d_watchlist := watchlist_default\<rparr> = forget d'" for d' by (simp add: forget_def)
  ultimately show ?thesis by (simp add: queue_def assert_that_bind)
qed

subsection \<open>The state\<close>

lemma lift_persistent:
  assumes "f (forget (st_deposits s)) = map_option forget (f (st_deposits s))"
  shows "lift_deposits f (persistent s) = map_option persistent (lift_deposits f s)"
  by (simp add: lift_deposits_def assms option.map_comp comp_def)

lemma foldM_persistent:
  assumes "\<And>x s. f x (persistent s) = map_option persistent (f x s)"
  shows "foldM f xs (persistent s) = map_option persistent (foldM f xs s)"
proof (induction xs arbitrary: s)
  case (Cons x xs)
  then show ?case by (cases "f x s") (simp_all add: assms)
qed simp

lemma validate_persistent: "validate (persistent s) = validate s"
  unfolding validate_def max_automatic_deposit_fee_def persistent_sel ..

lemma upgrade_persistent: "upgrade lib args (persistent s) = map_sum id persistent (upgrade lib args s)"
proof -
  have "upgrade_settings args (persistent s) = persistent (upgrade_settings args s)"
    unfolding upgrade_settings_def persistent_sel persistent_upd ..
  moreover have "add_nonce_accounts lib ns (persistent s) = map_sum id persistent (add_nonce_accounts lib ns s)" for ns s
    by (simp add: add_nonce_accounts_def ensure_no_incomplete_withdrawal_to_def incomplete_destinations_def
        split: option.split sum.split)
  ultimately show ?thesis by (simp add: upgrade_def validate_persistent split: sum.split)
qed

lemma credited_persistent:
  "process_credited_sweep sig x cs t (persistent s) = map_option persistent (process_credited_sweep sig x cs t s)"
  by (simp add: process_credited_sweep_def credit_forget map_option_bind bind_map_option assert_that_bind
      case_prod_unfold Let_def map_option_if cong: if_cong)

lemma created_persistent:
  "process_transaction_created bs n h (persistent s) = map_option persistent (process_transaction_created bs n h s)"
proof -
  have one: "create_one b (persistent s, t) = map_option (map_prod persistent id) (create_one b (s, t))" for b s t
    by (simp add: create_one_def map_option_bind assert_that_bind map_option_if cong: if_cong)
  have fold: "foldM create_one bs (persistent s, t) = map_option (map_prod persistent id) (foldM create_one bs (s, t))" for s t
  proof (induction bs arbitrary: s t)
    case (Cons b bs)
    then show ?case by (cases "create_one b (s, t)") (auto simp: one)
  qed simp
  have "foldM create_one bs ((persistent s)\<lparr>st_nonce_pool := pool\<rparr>, 0) =
      map_option (map_prod persistent id) (foldM create_one bs (s\<lparr>st_nonce_pool := pool\<rparr>, 0))" for pool
    using fold[of "s\<lparr>st_nonce_pool := pool\<rparr>" 0] by simp
  then show ?thesis
    by (simp add: process_transaction_created_def map_option_bind bind_map_option assert_that_bind case_prod_unfold map_option_if cong: if_cong)
qed

lemma send_persistent:
  "send_nonce_withdrawal lib sig msg signers bs t (persistent s) =
     map_option (map_prod persistent id) (send_nonce_withdrawal lib sig msg signers bs t s)"
proof -
  have one: "send_one sig b (persistent s) = map_option persistent (send_one sig b s)" for b s
    by (simp add: send_one_def map_option_bind assert_that_bind map_option_if cong: if_cong)
  have fold: "foldM (send_one sig) bs ((persistent s)\<lparr>st_created_withdrawal_txs := T\<rparr>) =
      map_option persistent (foldM (send_one sig) bs (s\<lparr>st_created_withdrawal_txs := T\<rparr>))" for bs T
    using foldM_persistent[of "send_one sig", OF one, of bs "s\<lparr>st_created_withdrawal_txs := T\<rparr>"] by simp
  have "bound_withdrawal_message lib ((persistent s)\<lparr>st_created_withdrawal_txs := T\<rparr>) n c =
      bound_withdrawal_message lib (s\<lparr>st_created_withdrawal_txs := T\<rparr>) n c" for T n c
    by (simp add: bound_withdrawal_message_def)
  then show ?thesis
    by (simp add: send_nonce_withdrawal_def fold map_option_bind bind_map_option assert_that_bind Let_def map_option_if cong: if_cong)
qed

lemma submitted_persistent:
  "process_transaction_submitted lib sig msg signers purpose t (persistent s) =
     map_option persistent (process_transaction_submitted lib sig msg signers purpose t s)"
  by (cases purpose)
     (simp_all add: process_transaction_submitted_def send_persistent sweep_forget map_option_bind bind_map_option
        assert_that_bind case_prod_unfold Let_def map_option_if cong: if_cong)

lemma lift_submitted_persistent:
  assumes "\<And>d. f (forget d) = map_option forget (f d)"
  shows "lift_deposits f ((persistent s)\<lparr>st_submitted_transactions := txs\<rparr>) =
     map_option persistent (lift_deposits f (s\<lparr>st_submitted_transactions := txs\<rparr>))"
  using lift_persistent[of f "s\<lparr>st_submitted_transactions := txs\<rparr>"] assms by simp

lemmas outcome_simps = case_prod_unfold Let_def assert_that_bind map_option_bind map_option_if bind_map_option
  extract_sent_def remaining_sent_def lift_submitted_persistent[of "finalize_swept sig" for sig, OF finalize_forget]
  lift_submitted_persistent[of "drop_swept sig" for sig, OF drop_forget]

lemma succeeded_persistent:
  "process_transaction_succeeded sig (persistent s) = map_option persistent (process_transaction_succeeded sig s)"
proof (cases "iom_get (st_submitted_transactions s) sig")
  case (Some tx)
  then show ?thesis
    by (cases tx) (simp_all add: process_transaction_succeeded_def outcome_simps cong: if_cong)
qed (simp add: process_transaction_succeeded_def outcome_simps)

lemma failed_persistent:
  "process_transaction_failed sig (persistent s) = map_option persistent (process_transaction_failed sig s)"
proof (cases "iom_get (st_submitted_transactions s) sig")
  case (Some tx)
  then show ?thesis
    by (cases tx) (simp_all add: process_transaction_failed_def outcome_simps cong: if_cong)
qed (simp add: process_transaction_failed_def outcome_simps)

lemma expired_persistent:
  "process_transaction_expired sig (persistent s) = map_option persistent (process_transaction_expired sig s)"
proof (cases "iom_get (st_submitted_transactions s) sig")
  case (Some tx)
  then show ?thesis
    by (cases tx) (simp_all add: process_transaction_expired_def outcome_simps cong: if_cong)
qed (simp add: process_transaction_expired_def outcome_simps)

lemma transition_persistent:
  assumes wf: "watchlist_wf (d_watchlist (st_deposits s))"
  shows "apply_state_transition lib payload t (persistent s) = map_option persistent (apply_state_transition lib payload t s)"
proof (cases payload)
  case (EvUpgrade args)
  then show ?thesis by (simp add: apply_state_transition_def upgrade_persistent split: sum.split)
next
  case (EvMinterPublicKeyFetched k c)
  then show ?thesis
    by (simp add: apply_state_transition_def cache_minter_public_key_def split: option.split)
next
  case (EvAcceptedWithdrawalRequest r)
  then show ?thesis by (simp add: apply_state_transition_def process_accepted_withdrawal_def assert_that_bind)
qed (simp_all add: payload_defs lift_persistent queue_forget[OF wf] quarantine_forget mint_forget give_up_forget
    credited_persistent created_persistent submitted_persistent succeeded_persistent failed_persistent expired_persistent)

subsection \<open>The watchlist stays well-formed\<close>

abbreviation st_watchlist :: "minter_state \<Rightarrow> watchlist" where
  "st_watchlist s \<equiv> d_watchlist (st_deposits s)"

lemma deposit_operations_watchlist:
  "drop_swept sig d = Some d' \<Longrightarrow> d_watchlist d' = d_watchlist d"
  "quarantine_sweep sig d = Some d' \<Longrightarrow> d_watchlist d' = d_watchlist d"
  "finalize_swept sig d = Some d' \<Longrightarrow> d_watchlist d' = d_watchlist d"
  "mint_deposit i b d = Some d' \<Longrightarrow> d_watchlist d' = d_watchlist d"
  "quarantine_pending_mint i d = Some d' \<Longrightarrow> d_watchlist d' = d_watchlist d"
  "credit_sweep sig cs t d = Some (d', w) \<Longrightarrow> d_watchlist d' = d_watchlist d"
  "sweep_deposits lib ids to msg sig d = Some (d', x) \<Longrightarrow> d_watchlist d' = d_watchlist d"
proof -
  show "d_watchlist d' = d_watchlist d" if "drop_swept sig d = Some d'"
    using that by (auto simp: drop_swept_def Option.bind_eq_Some_conv drop_one_def release_in_flight_def assert_that_bind
        split: if_splits elim!: foldM_invariant[where I = "\<lambda>e. d_watchlist e = d_watchlist d"])
  show "d_watchlist d' = d_watchlist d" if "credit_sweep sig cs t d = Some (d', w)"
    using that by (auto simp: credit_sweep_def Option.bind_eq_Some_conv credit_one_def assert_that_bind
        split: if_splits elim!: foldM_invariant[where I = "\<lambda>e. d_watchlist e = d_watchlist d"])
qed (auto simp: quarantine_sweep_def finalize_swept_def mint_deposit_def quarantine_pending_mint_def sweep_deposits_def
    release_in_flight_def Option.bind_eq_Some_conv assert_that_bind split: if_splits)

lemma queue_watchlist: "queue i q t d = Some d' \<Longrightarrow> watchlist_remove (qd_account q) (d_watchlist d) = Some (d_watchlist d')"
  by (auto simp: queue_def Option.bind_eq_Some_conv assert_that_bind split: if_splits)

lemma lift_watchlist:
  assumes "lift_deposits f s = Some s'" "\<And>d. f (st_deposits s) = Some d \<Longrightarrow> d_watchlist d = st_watchlist s"
  shows "st_watchlist s' = st_watchlist s"
  using assms(1) by (rule lift_depositsD) (use assms(2) in auto)

lemma transition_watchlist:
  assumes tr: "apply_state_transition lib payload t s = Some s'" and wf: "watchlist_wf (st_watchlist s)"
  shows "watchlist_wf (st_watchlist s')"
proof (cases "\<exists>i a ad b f. payload = EvQueuedDeposit i a ad b f")
  case True
  then obtain i a ad b f where "payload = EvQueuedDeposit i a ad b f" by blast
  then have "watchlist_remove a (st_watchlist s) = Some (st_watchlist s')"
    using tr by (auto simp: payload_defs elim!: lift_depositsD dest!: queue_watchlist)
  then show ?thesis using watchlist_remove_ok[OF wf, of a] by auto
next
  case False
  have "st_watchlist s' = st_watchlist s"
  proof (cases payload)
    case (EvUpgrade args)
    then have "upgrade lib args s = Inr s'" using tr by (auto simp: apply_state_transition_def split: sum.splits)
    then show ?thesis by (rule upgradeD) (auto simp: upgrade_settings_def)
  next
    case (EvSubmittedTransaction sig msg signers purpose)
    then have "process_transaction_submitted lib sig msg signers purpose t s = Some s'"
      using tr by (simp add: apply_state_transition_def)
    then show ?thesis
      by (cases purpose)
         (auto elim!: process_transaction_submittedD submitted_withdrawalD
            simp: deposit_operations_watchlist(7) sent_from_same(1))
  next
    case (EvSucceededTransaction sig)
    then have "process_transaction_succeeded sig s = Some s'" using tr by (simp add: apply_state_transition_def)
    then show ?thesis
      by (rule process_transaction_succeededD)
         (auto simp: deposit_operations_watchlist(3) split: minter_transaction.splits)
  next
    case (EvFailedTransaction sig)
    then have "process_transaction_failed sig s = Some s'" using tr by (simp add: apply_state_transition_def)
    then show ?thesis
      by (rule process_transaction_failedD)
         (auto simp: deposit_operations_watchlist(1) split: minter_transaction.splits)
  next
    case (EvExpiredTransaction sig)
    then have "process_transaction_expired sig s = Some s'" using tr by (simp add: apply_state_transition_def)
    then show ?thesis by (rule process_transaction_expiredD) (simp add: deposit_operations_watchlist(1))
  next
    case (EvCreditedSweep sig x cs)
    then have "process_credited_sweep sig x cs t s = Some s'" using tr by (simp add: apply_state_transition_def)
    then show ?thesis by (rule process_credited_sweepD) (simp add: deposit_operations_watchlist(6))
  next
    case (EvCreatedWithdrawalTransaction bs n h)
    then have "process_transaction_created bs n h s = Some s'" using tr by (simp add: apply_state_transition_def)
    then show ?thesis by (rule process_transaction_createdD) (auto simp: created_from_def)
  qed (use tr False in \<open>auto simp: payload_defs cache_minter_public_key_def process_accepted_withdrawal_def assert_that_bind
        elim!: lift_watchlist dest: deposit_operations_watchlist split: option.splits if_splits\<close>)
  then show ?thesis using wf by simp
qed

lemma register_watchlist:
  assumes "register now account address w = Some (w', r)" "watchlist_wf w"
  shows "watchlist_wf w'"
proof -
  obtain m' r' where "tsm_insert now account (unscanned address now) (wl_entries w) = Some (m', r')" "tsm_wf m'"
    using tsm_insert_wf[of "wl_entries w" now account "unscanned address now"] assms(2) by (auto simp: watchlist_wf_def)
  then show ?thesis using assms(1)
    by (auto simp: register_def watchlist_wf_def Let_def Option.bind_eq_Some_conv split: sum.splits insert_error.splits)
qed

end
