(* ===== verification/Settings.thy ===== *)
theory Settings
  imports Minter_Log Deposit_Flow Withdraw
begin

text \<open>
  The settings of the minter: they change in upgrades only, and each change is validated. What
  \<open>validate\<close> checks (\<^verbatim>\<open>minter/src/state/mod.rs\<close>) is what the endpoints rely on; the one sum it
  computes that can exceed \<open>u64\<close> is examined at the end.
\<close>

definition settings_of where
  "settings_of s = (st_sol_rpc_canister_id s, st_ledger_canister_id s, st_minimum_deposit_amount s,
     st_minimum_withdrawal_amount s, st_withdrawal_fee s, st_deposit_sol_required_cycles s, st_deposit_sol_fee s,
     st_automatic_deposit_fee s)"

lemma validate_settings:
  assumes "settings_of s = settings_of s'"
  shows "validate s = validate s'"
proof -
  have eqs: "st_sol_rpc_canister_id s = st_sol_rpc_canister_id s'" "st_ledger_canister_id s = st_ledger_canister_id s'"
    "st_minimum_deposit_amount s = st_minimum_deposit_amount s'"
    "st_minimum_withdrawal_amount s = st_minimum_withdrawal_amount s'" "st_withdrawal_fee s = st_withdrawal_fee s'"
    "st_deposit_sol_required_cycles s = st_deposit_sol_required_cycles s'"
    "st_deposit_sol_fee s = st_deposit_sol_fee s'" "st_automatic_deposit_fee s = st_automatic_deposit_fee s'"
    using assms by (simp_all add: settings_of_def)
  show ?thesis unfolding validate_def max_automatic_deposit_fee_def eqs ..
qed

lemma transition_settings:
  assumes tr: "apply_state_transition lib payload t s = Some s'" and "\<And>args. payload \<noteq> EvUpgrade args"
  shows "settings_of s' = settings_of s"
proof (cases payload)
  case (EvSubmittedTransaction sig msg signers purpose)
  then have "process_transaction_submitted lib sig msg signers purpose t s = Some s'"
    using tr by (simp add: apply_state_transition_def)
  then show ?thesis
    by (cases purpose)
       (auto simp: settings_of_def sent_from_def elim!: process_transaction_submittedD submitted_withdrawalD)
next
  case (EvSucceededTransaction sig)
  then have "process_transaction_succeeded sig s = Some s'" using tr by (simp add: apply_state_transition_def)
  then show ?thesis
    by (rule process_transaction_succeededD) (auto simp: settings_of_def split: minter_transaction.splits)
next
  case (EvFailedTransaction sig)
  then have "process_transaction_failed sig s = Some s'" using tr by (simp add: apply_state_transition_def)
  then show ?thesis
    by (rule process_transaction_failedD) (auto simp: settings_of_def split: minter_transaction.splits)
next
  case (EvExpiredTransaction sig)
  then have "process_transaction_expired sig s = Some s'" using tr by (simp add: apply_state_transition_def)
  then show ?thesis by (rule process_transaction_expiredD) (simp add: settings_of_def)
next
  case (EvCreditedSweep sig x cs)
  then have "process_credited_sweep sig x cs t s = Some s'" using tr by (simp add: apply_state_transition_def)
  then show ?thesis by (rule process_credited_sweepD) (simp add: settings_of_def)
next
  case (EvCreatedWithdrawalTransaction bs n h)
  then have "process_transaction_created bs n h s = Some s'" using tr by (simp add: apply_state_transition_def)
  then show ?thesis by (rule process_transaction_createdD) (auto simp: settings_of_def created_from_def)
qed (use tr assms(2) in \<open>auto simp: apply_state_transition_def settings_of_def process_queued_deposit_def
    process_minted_swept_deposit_def process_quarantined_pending_mint_def process_quarantined_sweep_def
    cache_minter_public_key_def
    elim!: lift_depositsD dest!: process_accepted_withdrawalD(1) split: option.splits if_splits\<close>)

text \<open>The cycles come from \<open>u64\<close> arguments.\<close>

definition settings_ok :: "minter_state \<Rightarrow> bool" where
  "settings_ok s \<longleftrightarrow> validate s = Inr () \<and> unat (st_deposit_sol_fee s) < 2 ^ 64"

lemma unat_ucast_u128: "unat (ucast (w :: u64) :: u128) = unat w"
  using unsigned_less[of w, where 'a = nat] by (simp add: unsigned_ucast_eq take_bit_nat_eq_self)

lemma log_settings: "replay_events lib log = Some s \<Longrightarrow> settings_ok s"
proof (induction rule: replay_induct)
  case (init args t s)
  have "st_deposit_sol_fee s = ucast (ia_deposit_sol_fee args)" "validate s = Inr ()"
    using init by (auto simp: state_from_init_def Let_def split: sum.splits)
  then show ?case using unsigned_less[of "ia_deposit_sol_fee args", where 'a = nat] by (simp add: settings_ok_def unat_ucast_u128)
next
  case (step log s t payload s')
  show ?case
  proof (cases "\<exists>args. payload = EvUpgrade args")
    case True
    then obtain args where "upgrade lib args s = Inr s'"
      using step.hyps by (auto simp: apply_state_transition_def split: sum.splits)
    then show ?thesis
    proof (rule upgradeD)
      fix pool assume s': "s' = (upgrade_settings args s)\<lparr>st_nonce_pool := pool\<rparr>" and v: "validate s' = Inr ()"
      have "unat (st_deposit_sol_fee s') < 2 ^ 64"
        using step.IH unsigned_less[of "the (ua_deposit_sol_fee args)", where 'a = nat]
        by (cases "ua_deposit_sol_fee args") (simp_all add: s' upgrade_settings_def or_keep_def settings_ok_def unat_ucast_u128)
      then show ?thesis using v by (simp add: settings_ok_def)
    qed
  next
    case False
    then have "settings_of s' = settings_of s" using transition_settings[OF step.hyps(2)] by blast
    then show ?thesis using step.IH validate_settings[of s' s] by (simp add: settings_ok_def settings_of_def)
  qed
qed

lemma validateD:
  assumes "validate s = Inr ()"
  shows "st_sol_rpc_canister_id s \<noteq> st_ledger_canister_id s"
    "st_sol_rpc_canister_id s \<noteq> anonymous_principal" "st_ledger_canister_id s \<noteq> anonymous_principal"
    "1786760 \<le> st_minimum_deposit_amount s"
    "st_withdrawal_fee s + RENT_EXEMPTION_THRESHOLD \<le> st_minimum_withdrawal_amount s"
    "GET_BALANCE_CYCLES + st_deposit_sol_fee s \<le> st_deposit_sol_required_cycles s"
    "case st_automatic_deposit_fee s of None \<Rightarrow> True | Some fee \<Rightarrow> fee \<le> max_automatic_deposit_fee s"
proof -
  have ids: "\<not> bm_contains (bs_collect [st_sol_rpc_canister_id s, st_ledger_canister_id s]) anonymous_principal"
    "\<not> bm_len (bs_collect [st_sol_rpc_canister_id s, st_ledger_canister_id s]) < 2"
    and rest: "\<not> st_minimum_deposit_amount s < 2 * RENT_EXEMPTION_THRESHOLD + FEE_PER_SIGNATURE"
      "\<not> st_minimum_withdrawal_amount s < st_withdrawal_fee s + RENT_EXEMPTION_THRESHOLD"
      "\<not> st_deposit_sol_required_cycles s < GET_BALANCE_CYCLES + st_deposit_sol_fee s"
      "case st_automatic_deposit_fee s of None \<Rightarrow> True | Some fee \<Rightarrow> \<not> fee > max_automatic_deposit_fee s"
    using assms unfolding validate_def Let_def by (simp_all split: if_splits option.splits)
  from ids show "st_sol_rpc_canister_id s \<noteq> anonymous_principal" "st_ledger_canister_id s \<noteq> anonymous_principal"
    by (auto simp: bm_collect_def bm_extend_def)
  show "st_sol_rpc_canister_id s \<noteq> st_ledger_canister_id s"
    using ids(2) by (auto simp: bm_collect_def bm_extend_def bm_len_insert)
  show "1786760 \<le> st_minimum_deposit_amount s" "st_withdrawal_fee s + RENT_EXEMPTION_THRESHOLD \<le> st_minimum_withdrawal_amount s"
    "GET_BALANCE_CYCLES + st_deposit_sol_fee s \<le> st_deposit_sol_required_cycles s"
    "case st_automatic_deposit_fee s of None \<Rightarrow> True | Some fee \<Rightarrow> fee \<le> max_automatic_deposit_fee s"
    using rest by (simp_all add: RENT_EXEMPTION_THRESHOLD_def FEE_PER_SIGNATURE_def not_less split: option.splits)
qed

lemma max_automatic_deposit_fee_unat:
  assumes "validate s = Inr ()" "st_automatic_deposit_fee s = Some fee"
  shows "unat fee + 890880 + 5000 < unat (st_minimum_deposit_amount s)"
proof -
  have "1786760 \<le> unat (st_minimum_deposit_amount s)" "unat fee \<le> unat (max_automatic_deposit_fee s)"
    using validateD(4,7)[OF assms(1)] assms(2) by (simp_all add: word_le_nat_alt)
  then show ?thesis
    by (simp add: max_automatic_deposit_fee_def unat_saturating_sub RENT_EXEMPTION_THRESHOLD_def FEE_PER_SIGNATURE_def)
qed

lemma settings_cycles:
  assumes "settings_ok s"
  shows "10000000000 + unat (st_deposit_sol_fee s) \<le> unat (st_deposit_sol_required_cycles s)"
proof -
  have "unat (GET_BALANCE_CYCLES + st_deposit_sol_fee s) = 10000000000 + unat (st_deposit_sol_fee s)"
    using assms by (subst unat_plus_no_overflow) (simp_all add: settings_ok_def GET_BALANCE_CYCLES_def)
  then show ?thesis using validateD(6)[of s] assms by (simp add: settings_ok_def word_le_nat_alt)
qed

subsection \<open>Properties\<close>



definition wrapping_init_args :: init_args where
  "wrapping_init_args = example_init_args\<lparr>ia_withdrawal_fee := - 890880, ia_minimum_withdrawal_amount := 0\<rparr>"

text \<open>C22: The check of the minimum withdrawal amount adds the fee and the rent exemption threshold in
  \<open>u64\<close>, which wraps: a withdrawal fee of \<open>2^64 - 890880\<close> is accepted with a minimum withdrawal amount
  of zero. A withdrawal of that amount then traps after its ckSOL was burned. Short of the wrap, the
  check ensures that any amount from the minimum on covers the fee and the rent.\<close>

theorem withdrawal_fee_check_wraps:
  "(\<forall>s. validate s = Inr () \<longrightarrow> unat (st_withdrawal_fee s) + unat RENT_EXEMPTION_THRESHOLD < 2 ^ 64 \<longrightarrow>
      unat (st_withdrawal_fee s) + unat RENT_EXEMPTION_THRESHOLD \<le> unat (st_minimum_withdrawal_amount s)) \<and>
   (\<exists>s. state_from_init example_sdk wrapping_init_args = Inr s \<and> st_withdrawal_fee s = - 890880 \<and>
      (\<forall>c account destination block now. withdraw_burned example_sdk account (st_minimum_withdrawal_amount s) destination
         (Inr (Inr block)) now (c\<lparr>can_state := s\<rparr>) = None))"
proof (intro conjI allI impI)
  fix s assume v: "validate s = Inr ()" and fits: "unat (st_withdrawal_fee s) + unat RENT_EXEMPTION_THRESHOLD < 2 ^ 64"
  show "unat (st_withdrawal_fee s) + unat RENT_EXEMPTION_THRESHOLD \<le> unat (st_minimum_withdrawal_amount s)"
    using validateD(5)[OF v] fits by (simp add: word_le_nat_alt unat_plus_no_overflow)
next
  let ?s = "example_s0\<lparr>st_withdrawal_fee := - 890880, st_minimum_withdrawal_amount := 0\<rparr>"
  have "validate ?s = Inr ()"
    by (simp add: validate_def example_s0_def anonymous_principal_def bm_collect_def bm_extend_def bm_len_insert
        MAX_SIGNATURES_def FEE_PER_SIGNATURE_def RENT_EXEMPTION_THRESHOLD_def GET_BALANCE_CYCLES_def)
  then have "state_from_init example_sdk wrapping_init_args = Inr ?s"
    by (simp add: state_from_init_def wrapping_init_args_def example_init_args_def parse_nonce_accounts_def
        example_sdk_def example_pool_new example_s0_def)
  moreover have "withdraw_burned example_sdk account (st_minimum_withdrawal_amount ?s) destination
      (Inr (Inr block)) now (c\<lparr>can_state := ?s\<rparr>) = None" for c account destination block now
    by (simp add: withdraw_burned_def burn_def checked_sub_def split: option.split)
  ultimately show "\<exists>s. state_from_init example_sdk wrapping_init_args = Inr s \<and> st_withdrawal_fee s = - 890880 \<and>
      (\<forall>c account destination block now. withdraw_burned example_sdk account (st_minimum_withdrawal_amount s) destination
         (Inr (Inr block)) now (c\<lparr>can_state := s\<rparr>) = None)" by (intro exI[of _ ?s]) simp
qed

theorem withdrawal_fee_check_wraps_witness:
  "unat (st_withdrawal_fee example_s0) + unat RENT_EXEMPTION_THRESHOLD \<le> unat (st_minimum_withdrawal_amount example_s0)"
proof -
  have "unat (st_withdrawal_fee example_s0) + unat RENT_EXEMPTION_THRESHOLD < 2 ^ 64"
    by (simp add: example_s0_def RENT_EXEMPTION_THRESHOLD_def)
  then show ?thesis using withdrawal_fee_check_wraps example_validate by blast
qed

end
