(* ===== verification/Canister_Steps.thy ===== *)
theory Canister_Steps
  imports Persistence Settings
begin

text \<open>
  The canister as a transition system. Between two steps the execution is at an \<open>await\<close> or between two
  messages, so a step is one of the uninterrupted pieces of the endpoints and timer tasks, a cleanup
  after a trap, or an upgrade. The steps come in any order and with any arguments: what is proved
  here holds whatever the other canisters answer and however the calls interleave.
\<close>

subsection \<open>The steps\<close>

inductive canister_step :: "sdk \<Rightarrow> canister \<Rightarrow> canister \<Rightarrow> bool" for lib :: sdk where
  deposit_start: "deposit_sol_start lib self available account c = Some (Inr (call, c')) \<Longrightarrow> canister_step lib c c'"
| deposit_balance: "deposit_sol_balance lib accept refunded call response now c = Some (result, c') \<Longrightarrow>
    canister_step lib c c'"
| deposit_cleanup: "canister_step lib c (on_state (drop_deposit_sol_guard account) c)"
| watch: "watch_deposit_address lib self account now c = Some (result, c') \<Longrightarrow> canister_step lib c c'"
| withdrawal_start: "withdraw_start lib account amount text c = Inr (destination, c') \<Longrightarrow> canister_step lib c c'"
| withdrawal_burned: "withdraw_burned lib account amount destination burn_response now c = Some (result', c') \<Longrightarrow>
    canister_step lib c c'"
| withdrawal_cleanup: "canister_step lib c (on_state (drop_withdrawal_guard account) c)"
| key_fetched: "record_minter_public_key lib key_response now c = Some c' \<Longrightarrow> canister_step lib c c'"
| timer_armed: "canister_step lib c (set_timer delay task c)"
| round_cleanup: "canister_step lib c (on_state (drop_timer_guard kind) c)"
| withdrawal_round_starts: "withdrawal_round_start lib c = Some (main, c') \<Longrightarrow> canister_step lib c c'"
| transaction_created: "create_transaction lib main batch nonce_response now c = Some (created, c') \<Longrightarrow>
    canister_step lib c c'"
| transaction_signed: "sign_bound_withdrawal lib (sign :: bytes \<Rightarrow> derivation_path \<Rightarrow> string + bytes) bound now c =
    Some (signed_tx, c') \<Longrightarrow> canister_step lib c c'"
| withdrawal_round_ends: "canister_step lib c (withdrawal_round_end progress c)"
| sweep_round_starts: "sweep_round_start lib c = Some (batches, main, c') \<Longrightarrow> canister_step lib c c'"
| sweep_submitted: "submit_sweep_transaction lib (sign :: bytes \<Rightarrow> derivation_path \<Rightarrow> string + bytes) batch' block
    main now c = Some (submitted, c') \<Longrightarrow> canister_step lib c c'"
| sweep_round_ends: "canister_step lib c (sweep_round_end left c)"
| mint_round_starts: "mint_round_start c = Some (minting, c') \<Longrightarrow> canister_step lib c c'"
| mint_start: "process_pending_mint_start lib encode deposit_id pending now c = Some (arg, c') \<Longrightarrow>
    canister_step lib c c'"
| mint_answer: "process_pending_mint_answer lib deposit_id answer now c = Some (goes_on, c') \<Longrightarrow>
    canister_step lib c c'"
| mint_round_ends: "canister_step lib c (mint_round_end minting c)"
| finalize_round_starts: "timer_guard_new FinalizeTransactions (can_state c) = Inr s \<Longrightarrow>
    canister_step lib c (c\<lparr>can_state := s\<rparr>)"
| statuses_applied: "apply_statuses lib transactions current statuses now c = Some c' \<Longrightarrow> canister_step lib c c'"
| withdrawal_rebroadcast: "rebroadcast w c = (request, c') \<Longrightarrow> canister_step lib c c'"
| withdrawal_landed: "finalize_landed_withdrawal lib w outcome now c = Some (finalization, c') \<Longrightarrow>
    canister_step lib c c'"
| undecided_recorded: "canister_step lib c (record_undecided nonces unresolved c)"
| sweeps_credited: "credit_finalized_sweeps lib credits outcomes now c = Some (run_again, c') \<Longrightarrow>
    canister_step lib c c'"
| finalize_round_ends: "canister_step lib c (finalize_round_end run_again c)"
| upgraded: "post_upgrade lib arg (can_log c) consumed now = Some c' \<Longrightarrow> canister_step lib c c'"

inductive canister_reachable :: "sdk \<Rightarrow> canister \<Rightarrow> bool" for lib :: sdk where
  installed: "init_canister lib arg now = Some c \<Longrightarrow> canister_reachable lib c"
| stepped: "canister_reachable lib c \<Longrightarrow> canister_step lib c c' \<Longrightarrow> canister_reachable lib c'"

subsection \<open>What only memory holds\<close>

lemma bind_SomeE: "Option.bind x f = Some y \<Longrightarrow> (\<And>a. x = Some a \<Longrightarrow> f a = Some y \<Longrightarrow> P) \<Longrightarrow> P"
  by (auto simp: Option.bind_eq_Some_conv)

lemma guards_unrecorded [simp]:
  "persistent (drop_deposit_sol_guard a s) = persistent s" "persistent (drop_withdrawal_guard a s) = persistent s"
  "persistent (drop_timer_guard k s) = persistent s"
  "st_deposits (drop_deposit_sol_guard a s) = st_deposits s" "st_deposits (drop_withdrawal_guard a s) = st_deposits s"
  "st_deposits (drop_timer_guard k s) = st_deposits s"
  by (simp_all add: drop_deposit_sol_guard_def drop_withdrawal_guard_def drop_timer_guard_def)

lemma guards_takenD:
  "deposit_sol_guard a s = Inr s' \<Longrightarrow> persistent s' = persistent s \<and> st_deposits s' = st_deposits s"
  "withdrawal_guard a s = Inr s' \<Longrightarrow> persistent s' = persistent s \<and> st_deposits s' = st_deposits s"
  "timer_guard_new k s = Inr s' \<Longrightarrow> persistent s' = persistent s \<and> st_deposits s' = st_deposits s"
  by (auto simp: deposit_sol_guard_def withdrawal_guard_def timer_guard_new_def guard_new_def split: if_splits)

lemma canister_parts [simp]:
  "can_state (on_state f c) = f (can_state c)" "can_log (on_state f c) = can_log c"
  "can_state (on_metrics g c) = can_state c" "can_log (on_metrics g c) = can_log c"
  "can_state (set_timer delay task c) = can_state c" "can_log (set_timer delay task c) = can_log c"
  by (simp_all add: on_state_def on_metrics_def set_timer_def)

definition unrecorded :: "canister \<Rightarrow> canister \<Rightarrow> bool" where
  "unrecorded c c' \<longleftrightarrow> can_log c' = can_log c \<and> persistent (can_state c') = persistent (can_state c) \<and>
     (watchlist_wf (st_watchlist (can_state c)) \<longrightarrow> watchlist_wf (st_watchlist (can_state c')))"

lemma unrecorded_refl [simp]: "unrecorded c c"
  by (simp add: unrecorded_def)

lemma unrecorded_simps [simp]:
  "unrecorded c (on_state (drop_deposit_sol_guard a) c') = unrecorded c c'"
  "unrecorded c (on_state (drop_withdrawal_guard a) c') = unrecorded c c'"
  "unrecorded c (on_state (drop_timer_guard k) c') = unrecorded c c'"
  "unrecorded c (on_metrics g c') = unrecorded c c'"
  "unrecorded c (set_timer delay task c') = unrecorded c c'"
  by (simp_all add: unrecorded_def)

lemma deposit_sol_startD:
  assumes "deposit_sol_start lib self available account c = Some (Inr (call, c'))"
  obtains s where "deposit_sol_guard account (can_state c) = Inr s" "c' = c\<lparr>can_state := s\<rparr>"
    "in_flight (st_deposits s) account = Some None" "dc_account call = account"
    "\<not> available < st_deposit_sol_required_cycles s" "dc_deposit_sol_fee call = st_deposit_sol_fee s"
proof -
  obtain s flight where s: "deposit_sol_guard account (can_state c) = Inr s"
    "\<not> available < st_deposit_sol_required_cycles s" "in_flight (st_deposits s) account = Some flight"
    and rest: "(case flight of
            Some (Processing deposit_id) \<Rightarrow> Inl (Inr deposit_id)
          | Some (Quarantined deposit_id) \<Rightarrow> Inl (Inl (DepositIsQuarantined deposit_id))
          | None \<Rightarrow>
              (case minter_public_key s of
                 Inl e \<Rightarrow> Inl (Inl (DepositTemporarilyUnavailable e))
               | Inr master_key \<Rightarrow>
                   Inr (\<lparr>dc_account = account, dc_address = account_address lib master_key account,
                         dc_minimum_deposit_amount = st_minimum_deposit_amount s,
                         dc_deposit_sol_fee = st_deposit_sol_fee s\<rparr>, c\<lparr>can_state := s\<rparr>))) = Inr (call, c')"
    using assms
    by (auto simp: deposit_sol_start_def check_caller_available_cycles_def Option.bind_eq_Some_conv
        split: sum.splits if_splits)
  then show ?thesis
    using that by (cases flight) (auto split: sum.splits in_flight_deposit.splits)
qed

lemma rounds_unrecorded:
  "withdraw_start lib account amount text c = Inr (destination, c') \<Longrightarrow> unrecorded c c'"
  "withdrawal_round_start lib c = Some (main, c') \<Longrightarrow> unrecorded c c'"
  "sweep_round_start lib c = Some (batches, main, c') \<Longrightarrow> unrecorded c c'"
  "mint_round_start c = Some (minting, c') \<Longrightarrow> unrecorded c c'"
  "timer_guard_new k (can_state c) = Inr s \<Longrightarrow> unrecorded c (c\<lparr>can_state := s\<rparr>)"
  by (auto simp: withdraw_start_def withdrawal_round_start_def sweep_round_start_def
      mint_round_start_def unrecorded_def Let_def Option.bind_eq_Some_conv dest!: guards_takenD
      split: sum.splits if_splits option.splits in_flight_deposit.splits)

lemma deposit_start_unrecorded:
  "deposit_sol_start lib self available account c = Some (Inr (call, c')) \<Longrightarrow> unrecorded c c'"
  by (auto elim!: deposit_sol_startD simp: unrecorded_def dest!: guards_takenD)

lemma round_ends_unrecorded [simp]:
  "unrecorded c (withdrawal_round_end progress c)" "unrecorded c (sweep_round_end left c)"
  "unrecorded c (mint_round_end minting c)" "unrecorded c (finalize_round_end run_again c)"
  "unrecorded c (record_undecided nonces unresolved c)"
  by (simp_all add: withdrawal_round_end_def sweep_round_end_def mint_round_end_def finalize_round_end_def
      record_undecided_def Let_def)

lemma watch_deposit_addressD:
  assumes "watch_deposit_address lib self account now c = Some (result, c')"
  shows "c' = c \<or> (\<exists>address w r. register now account address (st_watchlist (can_state c)) = Some (w, r) \<and>
    c' = set_watchlist w c)"
proof (cases "\<exists>key fee. minter_public_key (can_state c) = Inr key \<and> st_automatic_deposit_fee (can_state c) = Some fee \<and>
    in_flight (st_deposits (can_state c)) account = Some None")
  case True
  then show ?thesis using assms by (auto simp: watch_deposit_address_def Let_def Option.bind_eq_Some_conv) blast
next
  case False
  obtain flight where "minter_public_key (can_state c) = Inr key \<Longrightarrow>
      st_automatic_deposit_fee (can_state c) = Some fee \<Longrightarrow>
      in_flight (st_deposits (can_state c)) account = Some flight" for key fee
    using assms by (fastforce simp: watch_deposit_address_def Let_def Option.bind_eq_Some_conv)
  then show ?thesis
    using assms False by (cases flight) (auto simp: watch_deposit_address_def Let_def Option.bind_eq_Some_conv
      split: sum.splits option.splits in_flight_deposit.splits)
qed

lemma watch_unrecorded:
  assumes "watch_deposit_address lib self account now c = Some (result, c')"
  shows "unrecorded c c'"
  using watch_deposit_addressD[OF assms]
  by (auto simp: unrecorded_def set_watchlist_def intro: register_watchlist)

subsection \<open>Invariants of the canister\<close>

text \<open>What the events of a piece keep, and what does not depend on the metrics and the timers, the piece
  keeps.\<close>

locale event_invariant =
  fixes lib :: sdk and allowed :: "event_type \<Rightarrow> bool" and I :: "canister \<Rightarrow> bool"
  assumes kept_event: "process_event lib payload now c = Some c' \<Longrightarrow> I c \<Longrightarrow> allowed payload \<Longrightarrow> I c'"
    and kept_metrics [simp]: "I c \<Longrightarrow> I (on_metrics g c)"
    and kept_timer [simp]: "I c \<Longrightarrow> I (set_timer delay task c)"
begin

lemma kept_foldM:
  assumes "foldM f xs a = Some a'" "I (proj a)"
    and "\<And>x a a'. f x a = Some a' \<Longrightarrow> I (proj a) \<Longrightarrow> I (proj a')"
  shows "I (proj a')"
  using assms(1,2) by (rule foldM_invariant[where I = "\<lambda>a. I (proj a)"]) (use assms(3) in auto)

lemma kept_key:
  assumes "I c" "record_minter_public_key lib response now c = Some c'"
    and "\<And>k cc. allowed (EvMinterPublicKeyFetched k cc)"
  shows "I c'"
  using assms(1,2)
  by (auto simp: record_minter_public_key_def split: sum.splits option.splits if_splits)
     (erule (1) kept_event, rule assms(3))

lemma kept_create:
  assumes "I c" "create_transaction lib main batch response now c = Some (created, c')"
    and "\<And>h. allowed (EvCreatedWithdrawalTransaction (map wr_burn_block_index (rb_requests batch)) (rb_nonce_account batch) h)"
  shows "I c'"
  using assms(1,2) by (auto simp: create_transaction_def intro: assms(3) elim: kept_event split: sum.splits if_splits)

lemma kept_sign:
  assumes "I c" "sign_bound_withdrawal lib sign bound now c = Some (signed_tx, c')"
    and "\<And>sig msg signers bs. allowed (EvSubmittedTransaction sig msg signers (PurposeWithdrawal bs))"
  shows "I c'"
  using assms(1,2) by (auto simp: sign_bound_withdrawal_def Option.bind_eq_Some_conv intro: assms(3) elim: kept_event
    split: sum.splits option.splits)

lemma kept_sweep:
  assumes "I c" "submit_sweep_transaction lib sign batch block main now c = Some (submitted, c')"
    and "\<And>sig msg signers ids h. allowed (EvSubmittedTransaction sig msg signers (PurposeSweepDeposit ids h))"
  shows "I c'"
  using assms(1,2)
  by (auto simp: submit_sweep_transaction_def elim!: bind_SomeE split: sum.splits) (erule (1) kept_event, rule assms(3))

lemma kept_give_up:
  assumes "I c" "give_up_mint lib reason deposit_id now c = Some c'" "\<And>i. allowed (EvQuarantinedPendingMint i)"
  shows "I c'"
  using assms(1,2) by (auto simp: give_up_mint_def record_quarantined_pending_mint_def intro: assms(3) elim: kept_event)

lemma kept_mint_start:
  assumes "I c" "process_pending_mint_start lib encode deposit_id pending now c = Some (arg, c')"
    and "\<And>i. allowed (EvQuarantinedPendingMint i)"
  shows "I c'"
  using assms(1,2) by (auto simp: process_pending_mint_start_def intro: kept_give_up[OF _ _ assms(3)] split: if_splits)

lemma kept_mint_handled:
  assumes "I c" "process_mint_answer lib deposit_id answer now c = Some c'"
    and "\<And>i. allowed (EvQuarantinedPendingMint i)" "\<And>i b. allowed (EvMintedSweptDeposit i b)"
  shows "I c'"
  using assms(1,2)
  by (auto simp: process_mint_answer_def record_minted_swept_deposit_def retry_mint_def
      elim!: bind_SomeE intro: kept_event[OF _ _ assms(4)] kept_give_up[OF _ _ assms(3)]
      split: sum.splits transfer_error.splits)

lemma kept_mint_answer:
  assumes "I c" "process_pending_mint_answer lib deposit_id answer now c = Some (goes_on, c')"
    and "\<And>i. allowed (EvQuarantinedPendingMint i)" "\<And>i b. allowed (EvMintedSweptDeposit i b)"
  shows "I c'"
  using assms(1,2) by (auto simp: process_pending_mint_answer_def 
      intro: kept_give_up[OF _ _ assms(3)] kept_mint_handled[OF _ _ assms(3,4)] split: option.splits)

lemma kept_statuses:
  assumes "I c" "apply_statuses lib transactions current statuses now c = Some c'"
    and "\<And>sig. allowed (EvFailedTransaction sig)" "\<And>sig. allowed (EvSucceededTransaction sig)"
      "\<And>sig. allowed (EvExpiredTransaction sig)"
  shows "I c'"
  using assms(1,2) by (auto simp: apply_statuses_def expire_transactions_def Option.bind_eq_Some_conv
      elim!: kept_foldM[where proj = "\<lambda>c. c"] intro: kept_event[OF _ _ assms(3)] kept_event[OF _ _ assms(4)]
        kept_event[OF _ _ assms(5)] split: option.splits)

lemma kept_landed:
  assumes "I c" "finalize_landed_withdrawal lib w outcome now c = Some (finalization, c')"
    and "\<And>sig. allowed (EvFailedTransaction sig)" "\<And>sig. allowed (EvSucceededTransaction sig)"
  shows "I c'"
proof (cases "landed_event w outcome")
  case (Some e)
  then have "allowed e"
    using assms(3,4) by (auto simp: landed_event_def split: sum.splits option.splits if_splits)
  then show ?thesis using assms(1,2) Some by (auto simp: finalize_landed_withdrawal_def intro: kept_event)
qed (use assms in \<open>auto simp: finalize_landed_withdrawal_def\<close>)

lemma kept_credit:
  assumes "I c" "credit_finalized_sweeps lib credits outcomes now c = Some (run_again, c')"
    and "\<And>sig x cs. allowed (EvCreditedSweep sig x cs)" "\<And>sig. allowed (EvQuarantinedSweep sig)"
  shows "I c'"
proof -
  have "I (snd a')" if "credit_entry lib now x a = Some a'" "I (snd a)" for x a a'
    using that by (auto simp: credit_entry_def intro: kept_event[OF _ _ assms(3)] kept_event[OF _ _ assms(4)] split: credit_decision.splits)
  then show ?thesis
    using assms(1,2) by (auto simp: credit_finalized_sweeps_def split: if_splits dest!: kept_foldM[where proj = snd])
qed

end

text \<open>If it does not depend on the unrecorded memory either, the guards may be dropped too.\<close>

locale piece_invariant =
  fixes lib :: sdk and allowed :: "event_type \<Rightarrow> bool" and I :: "canister \<Rightarrow> bool"
  assumes kept_recorded: "process_event lib payload now c = Some c' \<Longrightarrow> I c \<Longrightarrow> allowed payload \<Longrightarrow> I c'"
    and kept_unrecorded: "I c \<Longrightarrow> unrecorded c c' \<Longrightarrow> I c'"

sublocale piece_invariant \<subseteq> event_invariant
  by unfold_locales (auto intro: kept_recorded kept_unrecorded)

context piece_invariant
begin

lemma kept_updates [simp]:
  "I (on_state (drop_deposit_sol_guard a) c)" "I (on_state (drop_withdrawal_guard a) c)"
  "I (on_state (drop_timer_guard k) c)" if "I c"
  using that by (auto intro: kept_unrecorded)

lemma kept_deposit:
  assumes "I c" "deposit_sol_balance lib accept refunded call response now c = Some (result, c')"
    and "\<And>i b. dc_minimum_deposit_amount call \<le> deposit_balance_lamports b \<Longrightarrow>
      allowed (EvQueuedDeposit i (dc_account call) (dc_address call) b None)"
  shows "I c'"
proof (cases "balance_read call response")
  case (Inr lamports)
  then have min: "dc_minimum_deposit_amount call \<le> lamports"
    by (auto simp: balance_read_def get_balance_def balance_above_minimum_def
        split: sum.splits multi_rpc_result.splits if_splits)
  obtain balance c1 where balance: "deposit_balance_new lamports = Some balance"
    and c1: "process_event lib (EvQueuedDeposit (d_next_id (st_deposits (can_state c))) (dc_account call) (dc_address call)
        balance None) now c = Some c1"
    and c': "c' = on_state (drop_deposit_sol_guard (dc_account call)) c1"
    using assms(2) Inr by (auto simp: deposit_sol_balance_def queue_deposit_def Let_def Option.bind_eq_Some_conv)
  have "deposit_balance_lamports balance = lamports" using balance by (simp add: deposit_balance_new_Some_iff)
  then have "I c1" using kept_event[OF c1 assms(1) assms(3)] min by simp
  then show ?thesis unfolding c' by (rule kept_updates)
qed (use assms in \<open>auto simp: deposit_sol_balance_def Let_def Option.bind_eq_Some_conv intro: kept_updates\<close>)

lemma kept_withdraw:
  assumes "I c" "withdraw_burned lib account amount destination response now c = Some (result, c')"
    and "\<And>b x. checked_sub amount (st_withdrawal_fee (can_state c)) = Some x \<Longrightarrow>
      allowed (EvAcceptedWithdrawalRequest \<lparr>wr_account = account, wr_solana_address = destination,
        wr_burn_block_index = b, wr_burned_amount = amount, wr_amount_to_transfer = x\<rparr>)"
  shows "I c'"
proof -
  obtain answer where answer: "burn response = Some answer"
    using assms(2) by (auto simp: withdraw_burned_def split: option.splits)
  show ?thesis
  proof (cases answer)
    case (Inl e)
    then show ?thesis using assms(1,2) answer by (simp add: withdraw_burned_def) (auto intro: kept_updates)
  next
    case (Inr b)
    obtain x c1 where x: "checked_sub amount (st_withdrawal_fee (can_state c)) = Some x"
      and c1: "process_event lib (EvAcceptedWithdrawalRequest \<lparr>wr_account = account, wr_solana_address = destination,
        wr_burn_block_index = b, wr_burned_amount = amount, wr_amount_to_transfer = x\<rparr>) now c = Some c1"
      and c': "c' = on_state (drop_withdrawal_guard account) c1"
      using assms(2) answer Inr by (auto simp: withdraw_burned_def Option.bind_eq_Some_conv)
    show ?thesis unfolding c' by (rule kept_updates) (rule kept_event[OF c1 assms(1) assms(3)[OF x]])
  qed
qed

end

text \<open>What all events keep, all steps but upgrades keep.\<close>

locale canister_invariant = piece_invariant lib "\<lambda>_. True" I for lib :: sdk and I :: "canister \<Rightarrow> bool"
begin

lemma kept_step:
  assumes "canister_step lib c c'" "I c"
    and up: "\<And>arg consumed now c''. post_upgrade lib arg (can_log c) consumed now = Some c'' \<Longrightarrow> I c''"
  shows "I c'"
  using assms(1)
proof cases
  case (withdrawal_rebroadcast w request)
  then show ?thesis using assms(2) by (auto simp: rebroadcast_def)
qed (use assms(2) up in \<open>auto intro: kept_unrecorded deposit_start_unrecorded watch_unrecorded rounds_unrecorded
    kept_deposit kept_withdraw kept_key kept_create kept_sign kept_sweep kept_mint_start kept_mint_answer
    kept_statuses kept_landed kept_credit\<close>)

lemma kept_reachable:
  assumes "canister_reachable lib c"
    and "\<And>arg now c. init_canister lib arg now = Some c \<Longrightarrow> I c"
    and "\<And>arg c consumed now c'. I c \<Longrightarrow> post_upgrade lib arg (can_log c) consumed now = Some c' \<Longrightarrow> I c'"
  shows "I c"
  using assms(1) by induction (use assms(2,3) kept_step in blast)+

end

subsection \<open>The log records the persistent state\<close>

definition logged :: "sdk \<Rightarrow> canister \<Rightarrow> bool" where
  "logged lib c \<longleftrightarrow> watchlist_wf (st_watchlist (can_state c)) \<and>
     replay_events lib (can_log c) = Some (persistent (can_state c))"

lemma persistent_idem [simp]: "persistent (persistent s) = persistent s"
  by (simp add: persistent_def forget_def)

lemma logged_event:
  assumes "logged lib c" "process_event lib payload now c = Some c'"
  shows "logged lib c'"
proof -
  have wf: "watchlist_wf (st_watchlist (can_state c))"
    and log: "replay_events lib (can_log c) = Some (persistent (can_state c))"
    using assms(1) by (auto simp: logged_def)
  obtain s where s: "apply_state_transition lib payload now (can_state c) = Some s"
    and c': "c' = c\<lparr>can_state := s, can_log := can_log c @ [\<lparr>ev_timestamp = now, ev_payload = payload\<rparr>]\<rparr>"
    using assms(2) by (auto simp: process_event_def Option.bind_eq_Some_conv)
  have "apply_state_transition lib payload now (persistent (can_state c)) = Some (persistent s)"
    using transition_persistent[OF wf, of lib payload now] s by simp
  moreover have "can_log c \<noteq> []" using log by (auto simp: replay_events_def)
  ultimately show ?thesis
    using log transition_watchlist[OF s wf] by (simp add: logged_def c' replay_append)
qed

interpretation log_invariant: canister_invariant lib "logged lib" for lib
  by unfold_locales (erule (1) logged_event[rotated], auto simp: logged_def unrecorded_def)

interpretation append_only: canister_invariant lib "\<lambda>c. \<exists>events. can_log c = log @ events" for lib log
  by unfold_locales (auto simp: process_event_def unrecorded_def Option.bind_eq_Some_conv)

lemma state_from_init_persistent:
  assumes "state_from_init lib args = Inr s"
  shows "persistent s = s" "st_watchlist s = watchlist_default"
  using assms by (auto simp: state_from_init_def persistent_def forget_def deposits_default_def Let_def split: sum.splits)

lemma init_canister_logged: "init_canister lib arg now = Some c \<Longrightarrow> logged lib c"
  by (auto simp: init_canister_def lifecycle_init_def setup_timers_def logged_def replay_events_def apply_events_def
      state_from_init_persistent watchlist_wf_default split: minter_arg.splits sum.splits)

text \<open>The state that an upgrade starts from: it depends on the log only.\<close>

definition restarted :: "event list \<Rightarrow> minter_state \<Rightarrow> canister" where
  "restarted log s = \<lparr>can_state = persistent s, can_log = log, can_metrics = metrics_new, can_timers = []\<rparr>"

lemma restarted_logged: "logged lib c \<Longrightarrow> logged lib (restarted (can_log c) (can_state c))"
  by (simp add: logged_def restarted_def watchlist_wf_default)

lemma post_upgrade_eq:
  assumes "logged lib c"
  shows "post_upgrade lib arg (can_log c) consumed now =
    (case arg of
       None \<Rightarrow> Some (restarted (can_log c) (can_state c))
     | Some (ArgUpgrade a) \<Rightarrow> process_event lib (EvUpgrade a) now (restarted (can_log c) (can_state c))
     | Some (ArgInit _) \<Rightarrow> None) \<bind> (\<lambda>c'. Some (setup_timers
        (on_metrics (\<lambda>m. m\<lparr>met_post_upgrade_instructions_consumed := consumed\<rparr>) c')))"
  using assms
  by (auto simp: post_upgrade_def lifecycle_post_upgrade_def logged_def restarted_def Let_def map_option_bind
      split: option.splits minter_arg.splits)

lemma post_upgrade_logged:
  assumes "logged lib c" "post_upgrade lib arg (can_log c) consumed now = Some c'"
  shows "logged lib c'"
  using assms(2) restarted_logged[OF assms(1)] unfolding post_upgrade_eq[OF assms(1)] setup_timers_def
  by (auto elim!: bind_SomeE intro: log_invariant.kept_recorded log_invariant.kept_metrics log_invariant.kept_timer
      split: option.splits minter_arg.splits)

lemma reachable_logged: "canister_reachable lib c \<Longrightarrow> logged lib c"
  by (erule log_invariant.kept_reachable) (auto intro: init_canister_logged post_upgrade_logged)

lemma reachable_replay: "canister_reachable lib c \<Longrightarrow> replay_events lib (can_log c) = Some (persistent (can_state c))"
  using reachable_logged by (simp add: logged_def)

lemma post_upgrade_log:
  assumes "logged lib c" "post_upgrade lib arg (can_log c) consumed now = Some c'"
  shows "\<exists>events. can_log c' = can_log c @ events"
  using assms(2) unfolding post_upgrade_eq[OF assms(1)]
  by (auto elim!: bind_SomeE simp: setup_timers_def process_event_def restarted_def
      split: option.splits minter_arg.splits)

lemma step_log:
  assumes "canister_step lib c c'" "canister_reachable lib c"
  shows "\<exists>events. can_log c' = can_log c @ events"
  using assms(1) by (rule append_only.kept_step) (use post_upgrade_log reachable_logged[OF assms(2)] in auto)

subsection \<open>Properties\<close>

definition example_canister :: canister where
  "example_canister = \<lparr>can_state = example_s0, can_log = [\<lparr>ev_timestamp = 0, ev_payload = EvInit example_init_args\<rparr>],
     can_metrics = metrics_new, can_timers = [(0, FetchKeyTimer)]\<rparr>"

lemma example_canister_init: "init_canister example_sdk (ArgInit example_init_args) 0 = Some example_canister"
  by (simp add: init_canister_def lifecycle_init_def example_init setup_timers_def set_timer_def example_canister_def)

definition example_keyed_canister :: canister where
  "example_keyed_canister = example_canister\<lparr>can_state := example_s1,
     can_log := can_log example_canister @ [\<lparr>ev_timestamp = 5, ev_payload = EvMinterPublicKeyFetched 9 3\<rparr>]\<rparr>"

lemma example_keyed_reachable: "canister_reachable example_sdk example_keyed_canister"
proof -
  have "record_minter_public_key example_sdk (Inr (Some (9, 3))) 5 example_canister = Some example_keyed_canister"
    by (simp add: record_minter_public_key_def example_keyed_canister_def example_canister_def process_event_def
        apply_state_transition_def cache_minter_public_key_def example_s0_def example_s1_def)
  then show ?thesis
    by (intro canister_reachable.stepped[OF canister_reachable.installed[OF example_canister_init]] key_fetched)
qed



end
