(* ===== verification/Mint_Safety.thy ===== *)
theory Mint_Safety
  imports Minting Minter_Log
begin

text \<open>
  Minting is safe to retry: along a log the pending mint of a deposit never changes, so all the
  transfers sent for it are the same, and the ledger recognizes them as duplicates; transfers for
  different deposits differ. Every answer of the ledger settles the deposit or leaves it pending.
\<close>

subsection \<open>The deposits along a log\<close>

lemma transition_deposits:
  assumes tr: "apply_state_transition lib payload t s = Some s'"
  shows "st_deposits s' = st_deposits s \<or> deposits_step lib (st_deposits s) (st_deposits s')"
proof (cases payload)
  case (EvUpgrade args)
  then have "upgrade lib args s = Inr s'" using tr by (auto simp: apply_state_transition_def split: sum.splits)
  then show ?thesis by (rule upgradeD) (auto simp: upgrade_settings_def)
next
  case (EvSubmittedTransaction sig msg signers purpose)
  then have "process_transaction_submitted lib sig msg signers purpose t s = Some s'"
    using tr by (simp add: apply_state_transition_def)
  then show ?thesis
    by (cases purpose, auto elim!: process_transaction_submittedD submitted_withdrawalD
        simp: sent_from_same(1)) (blast intro: deposits_step.sweep)
next
  case (EvSucceededTransaction sig)
  then have "process_transaction_succeeded sig s = Some s'" using tr by (simp add: apply_state_transition_def)
  then show ?thesis
    by (rule process_transaction_succeededD)
       (auto dest: deposits_step.finalize split: minter_transaction.splits)
next
  case (EvFailedTransaction sig)
  then have "process_transaction_failed sig s = Some s'" using tr by (simp add: apply_state_transition_def)
  then show ?thesis
    by (rule process_transaction_failedD) (auto dest: deposits_step.drop split: minter_transaction.splits)
next
  case (EvExpiredTransaction sig)
  then have "process_transaction_expired sig s = Some s'" using tr by (simp add: apply_state_transition_def)
  then show ?thesis by (rule process_transaction_expiredD) (auto dest: deposits_step.drop)
next
  case (EvCreditedSweep sig x cs)
  then have "process_credited_sweep sig x cs t s = Some s'" using tr by (simp add: apply_state_transition_def)
  then show ?thesis by (rule process_credited_sweepD) (auto dest: deposits_step.credit)
next
  case (EvCreatedWithdrawalTransaction bs n h)
  then have "process_transaction_created bs n h s = Some s'" using tr by (simp add: apply_state_transition_def)
  then show ?thesis by (rule process_transaction_createdD) (auto simp: created_from_def)
qed (use tr in \<open>auto simp: payload_defs cache_minter_public_key_def
    dest: deposits_step.queue deposits_step.quarantine deposits_step.mint deposits_step.give_up
    elim!: lift_depositsD dest!: process_accepted_withdrawalD(1) split: option.splits if_splits\<close>)

lemma log_deposits_forward:
  assumes "replay_events lib log = Some s" "replay_events lib (log @ rest) = Some s'"
    and "length (log @ rest) < 2 ^ 64" "distinct (map wr_burn_block_index (accepted_requests (log @ rest)))"
    and "view (st_deposits s) i = Some (q, st)"
  shows "\<exists>st'. view (st_deposits s') i = Some (q, st') \<and> stage_step\<^sup>*\<^sup>* st st'"
  using assms
proof (induction rest arbitrary: s' rule: rev_induct)
  case (snoc e rest)
  have "Option.bind (replay_events lib (log @ rest)) (apply_state_transition lib (ev_payload e) (ev_timestamp e)) = Some s'"
    using snoc.prems(2) replay_append[of "log @ rest" lib e] replay_not_Nil[OF snoc.prems(1)] by simp
  then obtain s1 where s1: "replay_events lib (log @ rest) = Some s1"
    and tr: "apply_state_transition lib (ev_payload e) (ev_timestamp e) s1 = Some s'"
    unfolding Option.bind_eq_Some_conv by blast
  have d: "distinct (map wr_burn_block_index (accepted_requests (log @ rest)))"
    using snoc.prems(4) accepted_requests_append[of "log @ rest" e] by (auto split: option.splits)
  obtain st1 where st1: "view (st_deposits s1) i = Some (q, st1)" "stage_step\<^sup>*\<^sup>* st st1"
    using snoc.IH[OF snoc.prems(1) s1 _ d snoc.prems(5)] snoc.prems(3) by auto
  have "deposits_wf (st_deposits s1)" using log_wf[OF s1 _ d] snoc.prems(3) by (simp add: state_wf_def)
  then show ?case
    using transition_deposits[OF tr] step_view[OF _ _ st1(1)] st1 by (metis rtranclp.rtrancl_into_rtrancl)
qed auto

lemma pending_view_inject: "pending_view p = pending_view q \<longleftrightarrow> p = q"
  by (cases p, cases q) (auto simp: pending_view_def intro: swept_deposit.equality)

lemma pending_stays: "stage_step\<^sup>*\<^sup>* (StPending sig amount t) (StPending sig' amount' t') \<Longrightarrow>
  sig' = sig \<and> amount' = amount \<and> t' = t"
proof (induction rule: converse_rtranclpE)
  case (step y)
  then have "stage_step\<^sup>*\<^sup>* y (StPending sig' amount' t')" "stage_step (StPending sig amount t) y" by simp_all
  then show ?case
    by (auto simp: stage_step_simps elim: converse_rtranclpE)
qed auto

lemma pending_unchanged:
  assumes "replay_events lib log = Some s" "replay_events lib (log @ rest) = Some s'"
    and "length (log @ rest) < 2 ^ 64" "distinct (map wr_burn_block_index (accepted_requests (log @ rest)))"
    and p: "bm_get (d_pending_mints (st_deposits s)) i = Some p"
    and q: "bm_get (d_pending_mints (st_deposits s')) i = Some q"
  shows "q = p"
proof -
  have "distinct (map wr_burn_block_index (accepted_requests log))"
    using assms(4) by (simp add: accepted_requests_def List.map_filter_def)
  then have "deposits_wf (st_deposits s)" using log_wf[OF assms(1)] assms(3) by (simp add: state_wf_def)
  note vp = pending_in_flight(1)[OF this p]
  have "deposits_wf (st_deposits s')" using log_wf[OF assms(2-4)] by (simp add: state_wf_def)
  note vq = pending_in_flight(1)[OF this q]
  obtain st' where "view (st_deposits s') i = Some (fst (pending_view p), st')" "stage_step\<^sup>*\<^sup>* (snd (pending_view p)) st'"
    using log_deposits_forward[OF assms(1-4), of i "fst (pending_view p)" "snd (pending_view p)"] vp by auto
  then have "pending_view q = pending_view p"
    using vq pending_stays by (auto simp: pending_view_def)
  then show ?thesis by (simp add: pending_view_inject)
qed

subsection \<open>The answers of the ledger\<close>

text \<open>What an answer says about the transfer: it was made in a block, it may be retried, or it can never be
  made. The outcome of a transfer whose block index does not fit is unknown.\<close>

datatype mint_outcome = MadeIn ledger_mint_index | RetryMint | GiveUpMint | UnknownBlock

definition made_in :: "nat \<Rightarrow> mint_outcome" where
  "made_in n = (if n < 2 ^ 64 then MadeIn (of_nat n) else UnknownBlock)"

fun answer_outcome :: "string + (transfer_error + nat) \<Rightarrow> mint_outcome" where
  "answer_outcome (Inr (Inr n)) = made_in n"
| "answer_outcome (Inr (Inl (TransferDuplicate n))) = made_in n"
| "answer_outcome (Inr (Inl TransferTemporarilyUnavailable)) = RetryMint"
| "answer_outcome (Inr (Inl (TransferGenericError _ _))) = RetryMint"
| "answer_outcome (Inr (Inl (TransferCreatedInFuture _))) = RetryMint"
| "answer_outcome (Inr (Inl _)) = GiveUpMint"
| "answer_outcome (Inl _) = RetryMint"

lemma mint_answer_cases:
  "answer_outcome response = MadeIn b \<Longrightarrow>
     process_mint_answer lib i response now c = record_minted_swept_deposit lib i b now c"
  "answer_outcome response = RetryMint \<Longrightarrow> \<exists>m. process_mint_answer lib i response now c = Some (on_metrics m c)"
  "answer_outcome response = GiveUpMint \<Longrightarrow>
     \<exists>reason. process_mint_answer lib i response now c = give_up_mint lib reason i now c"
  "answer_outcome response = UnknownBlock \<Longrightarrow> process_mint_answer lib i response now c = None"
  by (cases response rule: answer_outcome.cases;
      auto simp: process_mint_answer_def ledger_transfer_def to_ledger_mint_index_def to_u64_def made_in_def
        retry_mint_def split: if_splits)+

lemma record_minted_total:
  assumes "deposits_wf (st_deposits (can_state c))" "bm_get (d_pending_mints (st_deposits (can_state c))) i = Some p"
  shows "\<exists>c'. record_minted_swept_deposit lib i b now c = Some c' \<and>
    can_log c' = can_log c @ [\<lparr>ev_timestamp = now, ev_payload = EvMintedSweptDeposit i b\<rparr>] \<and>
    view (st_deposits (can_state c')) = (view (st_deposits (can_state c)))
      (i \<mapsto> (sd_deposit (pm_deposit p), StMinted (pending_sweep_signature p) (pm_amount_to_mint p) b))"
proof -
  obtain d' where d': "mint_deposit i b (st_deposits (can_state c)) = Some d'" using mint_deposit_exists[OF assms] by blast
  have "view d' = restage {i} (\<lambda>_. StMinted (pending_sweep_signature p) (pm_amount_to_mint p) b) (view (st_deposits (can_state c)))"
    using moves_view[OF mint_deposit_moves(1)[OF assms(1) d' assms(2)]] deposits_wfD(1)[OF assms(1)] by blast
  then show ?thesis
    using d' pending_in_flight(1)[OF assms]
    by (auto simp: record_minted_swept_deposit_def process_event_def payload_defs lift_deposits_def restage_def
        pending_view_def fun_eq_iff)
qed

lemma give_up_total:
  assumes "deposits_wf (st_deposits (can_state c))" "bm_get (d_pending_mints (st_deposits (can_state c))) i = Some p"
  shows "\<exists>c'. give_up_mint lib reason i now c = Some c' \<and>
    can_log c' = can_log c @ [\<lparr>ev_timestamp = now, ev_payload = EvQuarantinedPendingMint i\<rparr>] \<and>
    view (st_deposits (can_state c')) = (view (st_deposits (can_state c)))
      (i \<mapsto> (sd_deposit (pm_deposit p), StQuarantined (pending_sweep_signature p)
        (MintUnresolved (pm_amount_to_mint p) (pm_created_at_time p))))"
proof -
  obtain d' where d': "quarantine_pending_mint i (st_deposits (can_state c)) = Some d'"
    using assms(2) by (auto simp: quarantine_pending_mint_def)
  have "view d' = restage {i} (\<lambda>_. StQuarantined (pending_sweep_signature p)
      (MintUnresolved (pm_amount_to_mint p) (pm_created_at_time p))) (view (st_deposits (can_state c)))"
    using moves_view[OF quarantine_pending_mint_moves(1)[OF assms(1) d' assms(2)]] deposits_wfD(1)[OF assms(1)] by blast
  then show ?thesis
    using d' pending_in_flight(1)[OF assms]
    by (auto simp: give_up_mint_def record_quarantined_pending_mint_def process_event_def payload_defs lift_deposits_def
        restage_def pending_view_def fun_eq_iff on_metrics_def)
qed

subsection \<open>Properties\<close>

text \<open>C4: Along a log, the transfers sent to the ledger for pending mints are the same exactly when they
  are for the same deposit: a retry repeats the arguments of the first attempt, whatever happened in
  between, and no two deposits share their arguments. So the deduplication of the ledger, which goes
  by the arguments, mints each deposit at most once. The encoder of the memo is injective.\<close>

theorem mint_transfers_identify_deposits:
  assumes "replay_events lib log = Some s" "replay_events lib (log @ rest) = Some s'"
    and "length (log @ rest) < 2 ^ 64" "distinct (map wr_burn_block_index (accepted_requests (log @ rest)))"
    and "bm_get (d_pending_mints (st_deposits s)) i = Some p"
    and "bm_get (d_pending_mints (st_deposits s')) j = Some q" and "inj encode"
  shows "mint_transfer_arg encode i p = mint_transfer_arg encode j q \<longleftrightarrow> i = j"
  using pending_unchanged[OF assms(1-5)] assms(6,7)
  by (auto simp: mint_transfer_arg_def mint_memo_sweep_inject dest: injD)


lemma example_credited_replay: "replay_events example_sdk (take 7 example_log) = Some example_s6"
  by (simp add: replay_events_def example_log_def example_init apply_events_def example_steps)

lemma example_credited_requests: "accepted_requests (take 7 example_log) = []"
  by (simp add: accepted_requests_def accepted_request_def List.map_filter_def example_log_def example_queue_event_def)

lemma example_pending_mints:
  "bm_get (d_pending_mints (st_deposits example_s6)) 0 = Some (example_mint_of (example_deposit 1 2890880) 1995000)"
  "bm_get (d_pending_mints (st_deposits example_s6)) 1 = Some (example_mint_of (example_deposit 2 1890880) 995000)"
  by (simp_all add: example_s6_def example_credited_def)

definition example_encode :: "memo \<Rightarrow> bytes" where
  "example_encode memo =
     (case memo of
        MemoMint mint \<Rightarrow> 1 # be_bytes 8 (mm_deposit_id mint) @ mm_signature mint
      | MemoBurn memo' \<Rightarrow> 2 # bm_to_address memo')"

lemma example_encode_inj: "inj example_encode"
proof (rule injI)
  fix x y assume "example_encode x = example_encode y"
  then show "x = y"
    using be_bytes_inj[where 'a = 64, of 8]
    by (cases x; cases y) (auto simp: example_encode_def intro: mint_memo.expand burn_memo.expand)
qed

theorem mint_transfers_identify_deposits_witness:
  "mint_transfer_arg example_encode 0 (example_mint_of (example_deposit 1 2890880) 1995000) \<noteq>
   mint_transfer_arg example_encode 1 (example_mint_of (example_deposit 2 1890880) 995000)"
  using mint_transfers_identify_deposits[OF example_credited_replay, of "[]" example_s6, OF _ _ _ example_pending_mints
      example_encode_inj] example_credited_replay example_credited_requests
  by simp


end
