(* ===== verification/Endpoints.thy ===== *)
theory Endpoints
  imports Canister_Steps Mint_Safety
begin

text \<open>
  The outcome of the endpoints \<open>deposit_sol\<close> and \<open>withdraw\<close> when no other call runs in between: on every
  error the canister is as before, and the success records exactly one event.
\<close>

subsection \<open>Guards\<close>

lemma guard_restored:
  "guard_new a G = Inr G' \<Longrightarrow> bm_remove a G' = G"
  by (rule bm_ext) (cases "bm_get G a", auto simp: guard_new_Inr_iff bm_contains_def)

lemma deposit_guard_restored:
  assumes "deposit_sol_guard a s = Inr s'"
  shows "drop_deposit_sol_guard a s' = s" "s'\<lparr>st_pending_deposit_sol_request_guards := G\<rparr> = s\<lparr>st_pending_deposit_sol_request_guards := G\<rparr>"
  using assms by (auto simp: deposit_sol_guard_def drop_deposit_sol_guard_def guard_restored map_sum_def split: sum.splits)

lemma withdrawal_guard_restored:
  assumes "withdrawal_guard a s = Inr s'"
  shows "drop_withdrawal_guard a s' = s"
  using assms by (auto simp: withdrawal_guard_def drop_withdrawal_guard_def guard_restored map_sum_def split: sum.splits)

subsection \<open>Depositing\<close>

definition accepts_available :: "(u128 \<Rightarrow> u128) \<Rightarrow> u128 \<Rightarrow> bool" where
  "accepts_available accept available \<longleftrightarrow> (\<forall>x. x \<le> available \<longrightarrow> accept x = x)"

lemma charge_covered:
  assumes "accepts_available accept available" "settings_ok s" "\<not> available < st_deposit_sol_required_cycles s"
  shows "charge_rpc_call accept refunded \<lparr>attached_cycles = GET_BALANCE_CYCLES, fee_on_success = st_deposit_sol_fee s\<rparr> r = Some ()"
proof -
  let ?cost = "rpc_call_cost \<lparr>attached_cycles = GET_BALANCE_CYCLES, fee_on_success = st_deposit_sol_fee s\<rparr> refunded (\<not> isl r)"
  let ?fee = "if \<not> isl r then st_deposit_sol_fee s else 0"
  have small: "unat (saturating_sub GET_BALANCE_CYCLES refunded) \<le> 10000000000"
    by (simp add: unat_saturating_sub GET_BALANCE_CYCLES_def)
  have "unat ?fee \<le> unat (st_deposit_sol_fee s)" "unat (st_deposit_sol_fee s) < 2 ^ 64"
    using assms(2) by (simp_all add: settings_ok_def)
  then have "unat ?cost \<le> 10000000000 + unat (st_deposit_sol_fee s)"
    using small by (simp add: rpc_call_cost_def unat_plus_no_overflow split: if_splits)
  also have "\<dots> \<le> unat available"
    using settings_cycles[OF assms(2)] assms(3) by (simp add: word_less_nat_alt)
  finally have "accept ?cost = ?cost" using assms(1) by (simp add: accepts_available_def word_le_nat_alt)
  then show ?thesis by (simp add: charge_rpc_call_def charge_caller_cycles_def)
qed

lemma queue_total:
  assumes "deposits_wf d" "in_flight d (qd_account q) = Some None"
  shows "\<exists>d'. queue (d_next_id d) q t d = Some d'"
proof -
  have "in_flight_id d (qd_account q) = None"
    using assms(2) by (auto simp: in_flight_def split: option.splits deposit_sol_status.splits)
  moreover obtain wl where "watchlist_remove (qd_account q) (d_watchlist d) = Some wl"
    using watchlist_remove_ok[OF deposits_wfD(7)[OF assms(1)]] by blast
  ultimately show ?thesis by (auto simp: queue_def assert_that_bind bm_contains_def in_flight_id_def)
qed

lemma balance_readD:
  assumes "balance_read call response = Inr lamports"
  shows "response = Inr (Consistent (Inr lamports))" "dc_minimum_deposit_amount call \<le> lamports"
  using assms by (auto simp: balance_read_def get_balance_def balance_above_minimum_def
      split: sum.splits multi_rpc_result.splits if_splits)

text \<open>Reading the balance of an account without deposits in progress, while its guard is held.\<close>

lemma deposit_sol_balance_total:
  assumes wf: "deposits_wf (st_deposits (can_state c))" and free: "in_flight (st_deposits (can_state c)) (dc_account call) = Some None"
    and min: "RENT_EXEMPTION_THRESHOLD \<le> dc_minimum_deposit_amount call"
    and paid: "\<And>r :: deposit_sol_error + lamport. charge_rpc_call accept refunded
        \<lparr>attached_cycles = GET_BALANCE_CYCLES, fee_on_success = dc_deposit_sol_fee call\<rparr> r = Some ()"
  shows "case balance_read call response of
      Inl e \<Rightarrow> deposit_sol_balance lib accept refunded call response now c =
        Some (Inl e, on_state (drop_deposit_sol_guard (dc_account call)) c)
    | Inr lamports \<Rightarrow> \<exists>balance c'. deposit_balance_lamports balance = lamports \<and>
        process_event lib (EvQueuedDeposit (d_next_id (st_deposits (can_state c))) (dc_account call) (dc_address call) balance None)
          now c = Some c' \<and>
        deposit_sol_balance lib accept refunded call response now c =
          Some (Inr (d_next_id (st_deposits (can_state c))), on_state (drop_deposit_sol_guard (dc_account call)) c')"
proof (cases "balance_read call response")
  case (Inl e)
  then show ?thesis using paid by (simp add: deposit_sol_balance_def)
next
  case (Inr lamports)
  have "RENT_EXEMPTION_THRESHOLD \<le> lamports" using balance_readD(2)[OF Inr] min by (rule order_trans[rotated])
  then obtain balance where b: "deposit_balance_new lamports = Some balance" by (simp add: deposit_balance_new_def)
  let ?q = "\<lparr>qd_account = dc_account call, qd_address = dc_address call, qd_balance = balance, qd_deposit_fee = None\<rparr>"
  obtain d' where d': "queue (d_next_id (st_deposits (can_state c))) ?q now (st_deposits (can_state c)) = Some d'"
    using queue_total[OF wf, of ?q now] free by auto
  then obtain c' where c': "process_event lib (EvQueuedDeposit (d_next_id (st_deposits (can_state c))) (dc_account call)
      (dc_address call) balance None) now c = Some c'"
    by (simp add: process_event_def payload_defs lift_deposits_def)
  have "deposit_sol_balance lib accept refunded call response now c =
      Some (Inr (d_next_id (st_deposits (can_state c))), on_state (drop_deposit_sol_guard (dc_account call)) c')"
    using b c' Inr paid by (simp add: deposit_sol_balance_def queue_deposit_def Let_def)
  then show ?thesis using Inr c' b by (auto simp: deposit_balance_new_Some_iff)
qed

lemma in_flight_cases:
  assumes "deposits_wf d"
  obtains "in_flight d a = Some None" | i where "in_flight d a = Some (Some (Processing i))"
  | i where "in_flight d a = Some (Some (Quarantined i))"
proof (cases "bm_get (d_in_flight_ids d) a")
  case None
  then show thesis using that by (simp add: in_flight_def in_flight_id_def)
next
  case (Some i)
  then obtain q s where v: "view d i = Some (q, s)" "stage_active s"
    using deposits_wfD(4)[OF assms, unfolded accounts_indexed_def, rule_format, of a i] by auto
  have "status d i = stage_status q s" by (simp add: status_view v(1))
  then show thesis using v(2) Some that by (cases s) (auto simp: in_flight_def in_flight_id_def)
qed

lemma process_queued_guard:
  assumes "deposit_sol_guard a s = Inr s'"
    and "process_event lib (EvQueuedDeposit i acc ad b f) now (c\<lparr>can_state := s'\<rparr>) = Some c'" and "can_state c = s"
  shows "process_event lib (EvQueuedDeposit i acc ad b f) now c = Some (on_state (drop_deposit_sol_guard a) c')"
proof -
  obtain G where G: "guard_new a (st_pending_deposit_sol_request_guards s) = Inr G"
    and s': "s' = s\<lparr>st_pending_deposit_sol_request_guards := G\<rparr>"
    using assms(1) by (auto simp: deposit_sol_guard_def map_sum_def split: sum.splits)
  show ?thesis
    using assms(2,3) guard_restored[OF G]
    by (auto simp: s' process_event_def payload_defs lift_deposits_def on_state_def drop_deposit_sol_guard_def
        Option.bind_eq_Some_conv)
qed

lemma deposit_sol_start_total:
  assumes wf: "deposits_wf (st_deposits (can_state c))"
    and owner: "account_owner account \<noteq> anonymous_principal" "account_owner account \<noteq> self"
  shows "\<exists>r. deposit_sol_start lib self available account c = Some r \<and>
    (case r of
       Inl (Inl _) \<Rightarrow> True
     | Inl (Inr i) \<Rightarrow> in_flight (st_deposits (can_state c)) account = Some (Some (Processing i))
     | Inr (call, c') \<Rightarrow> \<exists>s key. deposit_sol_guard account (can_state c) = Inr s \<and> c' = c\<lparr>can_state := s\<rparr> \<and>
         in_flight (st_deposits (can_state c)) account = Some None \<and> st_minter_public_key s = Some key \<and>
         call = \<lparr>dc_account = account, dc_address = account_address lib key account,
           dc_minimum_deposit_amount = st_minimum_deposit_amount s, dc_deposit_sol_fee = st_deposit_sol_fee s\<rparr> \<and>
         \<not> available < st_deposit_sol_required_cycles s)"
proof -
  have ok: "assert_valid_deposit_owner account self = Some ()"
    using owner by (simp add: assert_valid_deposit_owner_def assert_non_anonymous_account_def)
  show ?thesis
  proof (cases "deposit_sol_guard account (can_state c)")
    case (Inr s)
    then have d: "st_deposits s = st_deposits (can_state c)" using guards_takenD(1) by blast
    show ?thesis
    proof (cases "available < st_deposit_sol_required_cycles s")
      case False
      then show ?thesis
        by (cases rule: in_flight_cases[OF wf, of account]; cases "st_minter_public_key s")
           (simp_all add: deposit_sol_start_def ok Inr d check_caller_available_cycles_def minter_public_key_def ok_or_def)
    qed (simp add: deposit_sol_start_def ok Inr check_caller_available_cycles_def)
  qed (simp add: deposit_sol_start_def ok)
qed

subsection \<open>Properties\<close>

text \<open>C10: A call of \<open>deposit_sol\<close> that is not interrupted always returns, if it comes from an account that may
  deposit and the platform takes the cycles it was given. On an error the canister is as before. On
  success the answer is the deposit in progress of the account, or a new deposit is recorded with
  the next id, the account's own address and the balance read, which is at least the minimum.\<close>

theorem deposit_sol_outcome:
  assumes "deposits_wf (st_deposits (can_state c))" "settings_ok (can_state c)"
    and "account_owner account \<noteq> anonymous_principal" "account_owner account \<noteq> self"
    and "accepts_available accept available"
  shows "\<exists>result c'. deposit_sol lib self available accept refunded account response now c = Some (result, c') \<and>
    (case result of
       Inl _ \<Rightarrow> c' = c
     | Inr i \<Rightarrow> c' = c \<and> in_flight (st_deposits (can_state c)) account = Some (Some (Processing i)) \<or>
         i = d_next_id (st_deposits (can_state c)) \<and>
         (\<exists>key lamports balance. st_minter_public_key (can_state c) = Some key \<and>
            response = Inr (Consistent (Inr lamports)) \<and> deposit_balance_lamports balance = lamports \<and>
            st_minimum_deposit_amount (can_state c) \<le> lamports \<and>
            process_event lib (EvQueuedDeposit i account (account_address lib key account) balance None) now c = Some c'))"
proof -
  let ?s = "can_state c" and ?run = "deposit_sol lib self available accept refunded account response now c"
  obtain r where r: "deposit_sol_start lib self available account c = Some r"
    and post: "case r of
       Inl (Inl _) \<Rightarrow> True
     | Inl (Inr i) \<Rightarrow> in_flight (st_deposits ?s) account = Some (Some (Processing i))
     | Inr (call, c') \<Rightarrow> \<exists>s key. deposit_sol_guard account ?s = Inr s \<and> c' = c\<lparr>can_state := s\<rparr> \<and>
         in_flight (st_deposits ?s) account = Some None \<and> st_minter_public_key s = Some key \<and>
         call = \<lparr>dc_account = account, dc_address = account_address lib key account,
           dc_minimum_deposit_amount = st_minimum_deposit_amount s, dc_deposit_sol_fee = st_deposit_sol_fee s\<rparr> \<and>
         \<not> available < st_deposit_sol_required_cycles s"
    using deposit_sol_start_total[OF assms(1,3,4)] by blast
  show ?thesis
  proof (cases r)
    case (Inl result)
    then have "?run = Some (result, c)" using r by (simp add: deposit_sol_def)
    then show ?thesis using post Inl by (auto split: sum.splits)
  next
    case (Inr p)
    then obtain call s key where p: "p = (call, c\<lparr>can_state := s\<rparr>)" and g: "deposit_sol_guard account ?s = Inr s"
      and fl: "in_flight (st_deposits ?s) account = Some None" and key: "st_minter_public_key s = Some key"
      and call: "call = \<lparr>dc_account = account, dc_address = account_address lib key account,
           dc_minimum_deposit_amount = st_minimum_deposit_amount s, dc_deposit_sol_fee = st_deposit_sol_fee s\<rparr>"
      and cyc: "\<not> available < st_deposit_sol_required_cycles s"
      using post by (cases p) auto
    obtain G where "s = ?s\<lparr>st_pending_deposit_sol_request_guards := G\<rparr>"
      using g by (auto simp: deposit_sol_guard_def map_sum_def split: sum.splits)
    then have same: "st_deposits s = st_deposits ?s" "st_minimum_deposit_amount s = st_minimum_deposit_amount ?s"
      "st_minter_public_key s = st_minter_public_key ?s" "settings_of s = settings_of ?s"
      by (simp_all add: settings_of_def)
    then have ok: "settings_ok s" using assms(2) validate_settings[of s ?s] by (simp add: settings_ok_def settings_of_def)
    have rent: "RENT_EXEMPTION_THRESHOLD \<le> dc_minimum_deposit_amount call"
      using validateD(4)[of s] ok by (simp add: call settings_ok_def RENT_EXEMPTION_THRESHOLD_def word_le_nat_alt)
    have run: "?run = deposit_sol_balance lib accept refunded call response now (c\<lparr>can_state := s\<rparr>)"
      using r Inr p by (simp add: deposit_sol_def)
    have paid: "charge_rpc_call accept refunded
        \<lparr>attached_cycles = GET_BALANCE_CYCLES, fee_on_success = dc_deposit_sol_fee call\<rparr> x = Some ()"
      for x :: "deposit_sol_error + lamport" using charge_covered[OF assms(5) ok cyc] by (simp add: call)
    have wf: "deposits_wf (st_deposits (can_state (c\<lparr>can_state := s\<rparr>)))"
      "in_flight (st_deposits (can_state (c\<lparr>can_state := s\<rparr>))) (dc_account call) = Some None"
      using assms(1) fl by (simp_all add: same call)
    note total = deposit_sol_balance_total[OF wf rent paid, where response = response and lib = lib and now = now]
    have dropped: "on_state (drop_deposit_sol_guard account) (c\<lparr>can_state := s\<rparr>) = c"
      using deposit_guard_restored(1)[OF g] by (simp add: on_state_def)
    show ?thesis
    proof (cases "balance_read call response")
      case (Inl e)
      then show ?thesis using total run dropped by (simp add: call)
    next
      case (Inr lamports)
      obtain balance c' where b: "deposit_balance_lamports balance = lamports"
        and e: "process_event lib (EvQueuedDeposit (d_next_id (st_deposits s)) account (account_address lib key account) balance None)
          now (c\<lparr>can_state := s\<rparr>) = Some c'"
        and res: "?run = Some (Inr (d_next_id (st_deposits s)), on_state (drop_deposit_sol_guard account) c')"
        using total Inr run by (auto simp: call)
      show ?thesis
        using process_queued_guard[OF g e HOL.refl] res b key balance_readD[OF Inr] same
        by (auto simp: call)
    qed
  qed
qed

theorem deposit_sol_outcome_witness:
  "\<exists>result c'. deposit_sol example_sdk (Principal [77]) 100000000000 (\<lambda>x. x) 0 (account_from (Principal [1]) None)
     (Inr (Consistent (Inr 3000000))) 6 example_keyed_canister = Some (result, c')"
proof -
  have s: "can_state example_keyed_canister = example_s1" by (simp add: example_keyed_canister_def)
  have "settings_of example_s1 = settings_of example_s0" by (simp add: example_s1_def settings_of_def)
  then have "settings_ok example_s1"
    using example_validate validate_settings[of example_s1 example_s0]
    by (simp add: settings_ok_def settings_of_def example_s1_def example_s0_def)
  moreover have "deposits_wf (st_deposits example_s1)" by (simp add: example_s1_def example_s0_def deposits_wf_default)
  ultimately show ?thesis
    using deposit_sol_outcome[of example_keyed_canister "account_from (Principal [1]) None" "Principal [77]" "\<lambda>x. x" 100000000000
        example_sdk 0 "Inr (Consistent (Inr 3000000))" 6]
    by (auto simp: s account_from_def anonymous_principal_def accepts_available_def)
qed

lemma withdraw_startD:
  assumes "withdraw_start lib from amount address c = Inr (destination, c')"
  obtains s key where "withdrawal_guard from (can_state c) = Inr s" "c' = c\<lparr>can_state := s\<rparr>"
    "sdk_parse_address lib address = Inr destination" "\<not> is_reserved_account_key lib destination"
    "\<not> pool_contains (st_nonce_pool (can_state c)) destination" "st_minter_public_key (can_state c) = Some key"
    "destination \<noteq> minter_address lib key" "st_minimum_withdrawal_amount (can_state c) \<le> amount"
    "pool_addresses (st_nonce_pool (can_state c)) \<noteq> []"
  using assms
  by (auto simp: withdraw_start_def validate_destination_def validate_nonce_pool_not_empty_def minter_public_key_def ok_or_def
      Let_def not_less split: if_splits sum.splits option.splits)

lemma withdraw_accepted_guard:
  assumes "withdrawal_guard a s = Inr s'" "can_state c = s"
    and "bm_get (st_pending_withdrawal_requests s) (wr_burn_block_index r) = None"
  shows "\<exists>c'. process_event lib (EvAcceptedWithdrawalRequest r) now (c\<lparr>can_state := s'\<rparr>) = Some c' \<and>
    process_event lib (EvAcceptedWithdrawalRequest r) now c = Some (on_state (drop_withdrawal_guard a) c')"
proof -
  obtain G where G: "guard_new a (st_pending_withdrawal_request_guards s) = Inr G"
    and s': "s' = s\<lparr>st_pending_withdrawal_request_guards := G\<rparr>"
    using assms(1) by (auto simp: withdrawal_guard_def map_sum_def split: sum.splits)
  show ?thesis
    using assms(2,3) guard_restored[OF G]
    by (simp add: s' process_event_def apply_state_transition_def process_accepted_withdrawal_def on_state_def drop_withdrawal_guard_def)
qed

text \<open>C9: A call of \<open>withdraw\<close> that is not interrupted returns whatever the ledger answers within its
  interface, if the minimum withdrawal amount covers the fee. On an error the canister is as before. A
  success is the block of the burn, and records one request for the burned amount less the fee, to
  the parsed address, which is not reserved by Solana, not a nonce account and not the minter's own.\<close>

theorem withdraw_outcome:
  assumes "st_withdrawal_fee (can_state c) \<le> st_minimum_withdrawal_amount (can_state c)"
    and "burn response = Some answer"
    and "\<And>b. answer = Inr b \<Longrightarrow> bm_get (st_pending_withdrawal_requests (can_state c)) b = None"
  shows "\<exists>result c'. withdraw lib from amount address response now c = Some (result, c') \<and>
    (case result of
       Inl _ \<Rightarrow> c' = c
     | Inr b \<Rightarrow> response = Inr (Inr (unat b)) \<and> st_minimum_withdrawal_amount (can_state c) \<le> amount \<and>
         (\<exists>destination key. sdk_parse_address lib address = Inr destination \<and>
            \<not> is_reserved_account_key lib destination \<and> \<not> pool_contains (st_nonce_pool (can_state c)) destination \<and>
            st_minter_public_key (can_state c) = Some key \<and> destination \<noteq> minter_address lib key \<and>
            process_event lib (EvAcceptedWithdrawalRequest
              \<lparr>wr_account = from, wr_solana_address = destination, wr_burn_block_index = b, wr_burned_amount = amount,
               wr_amount_to_transfer = amount - st_withdrawal_fee (can_state c)\<rparr>) now c = Some c'))"
proof (cases "withdraw_start lib from amount address c")
  case (Inl e)
  then show ?thesis by (simp add: withdraw_def)
next
  case (Inr p)
  obtain destination c0 where p: "p = (destination, c0)" by (cases p)
  from Inr[unfolded p] show ?thesis
  proof (rule withdraw_startD)
    fix s key
    assume g: "withdrawal_guard from (can_state c) = Inr s" and c0: "c0 = c\<lparr>can_state := s\<rparr>"
      and dest: "sdk_parse_address lib address = Inr destination" "\<not> is_reserved_account_key lib destination"
      "\<not> pool_contains (st_nonce_pool (can_state c)) destination" "st_minter_public_key (can_state c) = Some key"
      "destination \<noteq> minter_address lib key" and min: "st_minimum_withdrawal_amount (can_state c) \<le> amount"
    have run: "withdraw lib from amount address response now c = withdraw_burned lib from amount destination response now c0"
      using Inr p by (simp add: withdraw_def)
    have dropped: "on_state (drop_withdrawal_guard from) c0 = c"
      using withdrawal_guard_restored[OF g] by (simp add: on_state_def c0)
    show ?thesis
    proof (cases answer)
      case (Inl e)
      then show ?thesis using assms(2) dropped by (simp add: run withdraw_burned_def)
    next
      case (Inr b)
      have fee: "st_withdrawal_fee s = st_withdrawal_fee (can_state c)"
        using g by (auto simp: withdrawal_guard_def map_sum_def split: sum.splits)
      have sub: "checked_sub amount (st_withdrawal_fee (can_state c)) = Some (amount - st_withdrawal_fee (can_state c))"
        using assms(1) min by (simp add: checked_sub_def)
      let ?r = "\<lparr>wr_account = from, wr_solana_address = destination, wr_burn_block_index = b, wr_burned_amount = amount,
               wr_amount_to_transfer = amount - st_withdrawal_fee (can_state c)\<rparr>"
      obtain c' where c': "process_event lib (EvAcceptedWithdrawalRequest ?r) now c0 = Some c'"
        "process_event lib (EvAcceptedWithdrawalRequest ?r) now c = Some (on_state (drop_withdrawal_guard from) c')"
        using withdraw_accepted_guard[OF g HOL.refl, of ?r lib now] assms(3)[OF Inr] by (auto simp: c0)
      have "withdraw lib from amount address response now c = Some (Inr b, on_state (drop_withdrawal_guard from) c')"
        using assms(2) Inr c'(1) sub fee by (simp add: run withdraw_burned_def c0)
      then show ?thesis using c'(2) dest min assms(2) Inr burn_Inr_iff[of response b] by auto
    qed
  qed
qed

theorem withdraw_outcome_witness:
  "\<exists>result c'. withdraw example_sdk (account_from (Principal [1]) None) 2000000 ''a'' (Inr (Inr 5)) 6 example_keyed_canister =
     Some (result, c')"
proof -
  have "burn (Inr (Inr 5)) = Some (Inr 5)" by (simp add: burn_def to_u64_def)
  then show ?thesis
    using withdraw_outcome[of example_keyed_canister "Inr (Inr 5)" "Inr 5" example_sdk "account_from (Principal [1]) None" 2000000
        "''a''" 6]
    by (auto simp: example_keyed_canister_def example_s1_def example_s0_def)
qed

text \<open>C29: A page of \<open>get_events\<close> holds the events of the log from the given index on, up to two thousand, in a
  form from which they can be read back. The index is cut to 32 bits, so the page from index \<open>2^32\<close> on
  is the first page again.\<close>

theorem get_events_page:
  assumes "list_all (\<lambda>e. codec_inverts codec (ev_payload e)) (can_log c)"
  shows "(\<forall>start. unat start < 2 ^ 32 \<longrightarrow>
      collect_res (map (event_try_from codec) (fst (get_events codec start len c))) =
        Inr (take (min (unat len) 2000) (drop (unat start) (can_log c)))) \<and>
    get_events codec (2 ^ 32) len c = get_events codec 0 len c"
proof (intro conjI allI impI)
  fix start :: u64 assume "unat start < 2 ^ 32"
  then have start: "unat (ucast start :: u32) = unat start" by (simp add: unsigned_ucast_eq take_bit_nat_eq_self)
  have len: "unat (min len MAX_EVENTS_PER_RESPONSE) = min (unat len) 2000"
    by (simp add: min_def MAX_EVENTS_PER_RESPONSE_def word_le_nat_alt)
  let ?page = "take (min (unat len) 2000) (drop (unat start) (can_log c))"
  have "list_all (\<lambda>e. codec_inverts codec (ev_payload e)) ?page"
    using assms unfolding list_all_iff by (meson in_set_dropD in_set_takeD)
  then show "collect_res (map (event_try_from codec) (fst (get_events codec start len c))) = Inr ?page"
    using candid_log_round_trip[of codec ?page] by (simp add: get_events_def start len)
next
  show "get_events codec (2 ^ 32) len c = get_events codec 0 len c" by (simp add: get_events_def)
qed

definition example_codec :: candid_codec where
  "example_codec = \<lparr>serialize_message = \<lambda>m. [], deserialize_message = \<lambda>_. Inl [],
     serialize_key = be_bytes 32, deserialize_key = \<lambda>bs. Inr (word_of_be_bytes bs)\<rparr>"

theorem get_events_page_witness:
  "collect_res (map (event_try_from example_codec) (fst (get_events example_codec 1 5 example_keyed_canister))) =
     Inr [\<lparr>ev_timestamp = 5, ev_payload = EvMinterPublicKeyFetched 9 3\<rparr>]"
proof -
  have "word_of_be_bytes (be_bytes 32 (9 :: 256 word)) = (9 :: 256 word)" by (rule word_of_be_bytes_be_bytes) simp
  then have "list_all (\<lambda>e. codec_inverts example_codec (ev_payload e)) (can_log example_keyed_canister)"
    by (simp add: example_keyed_canister_def example_canister_def codec_inverts_def example_codec_def)
  from get_events_page[OF this, of 5] show ?thesis
    by (auto simp: example_keyed_canister_def example_canister_def dest!: spec[of _ 1])
qed

end
