(* ===== verification/Withdrawal_Batches.thy ===== *)
theory Withdrawal_Batches
  imports Withdraw Minter_Log
begin

text \<open>
  The withdrawals that a round reserves. A batch is bound to its nonce account after a read of that
  account, so what is shown of the reserved batches is stated over the state at any time of the
  round, for the batches that are still to be bound.
\<close>

definition batch_amount :: "withdrawal_request list \<Rightarrow> nat" where
  "batch_amount requests = sum_list (map (unat \<circ> wr_amount_to_transfer) requests)"

definition batch_cost :: "reserved_batch \<Rightarrow> nat" where
  "batch_cost batch = batch_amount (rb_requests batch) + 5000"

subsection \<open>Filling batches\<close>

lemma batch_amount_simps [simp]:
  "batch_amount [] = 0" "batch_amount (r # rs) = unat (wr_amount_to_transfer r) + batch_amount rs"
  "batch_amount (rs @ rs') = batch_amount rs + batch_amount rs'"
  by (simp_all add: batch_amount_def)

lemma batch_cost_record [simp]:
  "batch_cost \<lparr>rb_nonce_account = a, rb_requests = rs\<rparr> = batch_amount rs + 5000"
  by (simp add: batch_cost_def)

lemma fill_batchD:
  "fill_batch batch pending available = (batch', rest, available') \<Longrightarrow>
   \<exists>taken. batch' = batch @ taken \<and> pending = taken @ rest \<and> (length batch \<le> 10 \<longrightarrow> length batch' \<le> 10) \<and>
     unat available = unat available' + batch_amount taken + (if batch = [] \<and> taken \<noteq> [] then 5000 else 0)"
proof (induction batch pending available rule: fill_batch.induct)
  case (2 batch request pending available)
  let ?fee = "if batch = [] then BATCH_WITHDRAWAL_TX_FEE else 0"
  let ?take = "Option.bind (checked_add (wr_amount_to_transfer request) ?fee) (checked_sub available)"
  show ?case
  proof (cases "length batch < 10 \<and> ?take \<noteq> None")
    case True
    then obtain remaining where r: "?take = Some remaining" and len: "length batch < 10" by auto
    then have "unat available = unat remaining + (unat (wr_amount_to_transfer request) + unat ?fee)"
      by (auto simp: Option.bind_eq_Some_conv checked_add_Some_iff checked_sub_Some_iff)
    moreover have "fill_batch (batch @ [request]) pending remaining = (batch', rest, available')"
      using 2(2) r len by (simp add: MAX_WITHDRAWALS_PER_NONCE_TX_def)
    then obtain taken where "batch' = batch @ request # taken" "pending = taken @ rest" "length batch' \<le> 10"
      "unat remaining = unat available' + batch_amount taken"
      using 2(1)[of ?fee remaining] r len by (auto simp: MAX_WITHDRAWALS_PER_NONCE_TX_def)
    ultimately show ?thesis by (intro exI[of _ "request # taken"]) (simp add: BATCH_WITHDRAWAL_TX_FEE_def FEE_PER_SIGNATURE_def)
  next
    case False
    then show ?thesis using 2(2) by (auto simp: MAX_WITHDRAWALS_PER_NONCE_TX_def split: if_splits)
  qed
qed simp

lemma next_batchD:
  assumes "next_batch (pending, available) = (Some batch, pending', available')"
  shows "pending = batch @ pending'" "batch \<noteq> []" "length batch \<le> 10"
    "unat available = unat available' + batch_amount batch + 5000"
proof -
  have f: "fill_batch [] pending available = (batch, pending', available')" and ne: "batch \<noteq> []"
    using assms by (auto simp: next_batch_def split: prod.splits if_splits)
  obtain taken where "batch = taken" "pending = taken @ pending'" "length batch \<le> 10"
    "unat available = unat available' + batch_amount taken + (if taken \<noteq> [] then 5000 else 0)"
    using fill_batchD[OF f] by auto
  then show "pending = batch @ pending'" "batch \<noteq> []" "length batch \<le> 10"
    "unat available = unat available' + batch_amount batch + 5000" using ne by auto
qed

lemma zip_batchesD:
  "\<exists>rest n'. pending = concat (map rb_requests (zip_batches accounts (pending, available) n)) @ rest \<and>
     map rb_nonce_account (zip_batches accounts (pending, available) n) = take n' accounts \<and> n' \<le> n \<and>
     (\<forall>b \<in> set (zip_batches accounts (pending, available) n). rb_requests b \<noteq> [] \<and> length (rb_requests b) \<le> 10) \<and>
     sum_list (map batch_cost (zip_batches accounts (pending, available) n)) \<le> unat available"
proof (induction accounts arbitrary: pending available n)
  case (Cons account accounts)
  show ?case
  proof (cases n)
    case (Suc m)
    obtain r pending' available' where nb: "next_batch (pending, available) = (r, pending', available')"
      by (metis prod_cases3)
    show ?thesis
    proof (cases r)
      case (Some batch)
      note d = next_batchD[OF nb[unfolded Some]]
      let ?zip = "zip_batches accounts (pending', available') m"
      have z: "zip_batches (account # accounts) (pending, available) n =
          \<lparr>rb_nonce_account = account, rb_requests = batch\<rparr> # ?zip" using Suc nb Some by simp
      obtain rest n' where ih: "pending' = concat (map rb_requests ?zip) @ rest" "map rb_nonce_account ?zip = take n' accounts"
        "n' \<le> m" "\<forall>b \<in> set ?zip. rb_requests b \<noteq> [] \<and> length (rb_requests b) \<le> 10"
        "sum_list (map batch_cost ?zip) \<le> unat available'" using Cons.IH[of pending' available' m] by blast
      show ?thesis unfolding z using d ih Suc by (intro exI[of _ rest] exI[of _ "Suc n'"]) auto
    qed (use Suc nb in auto)
  qed auto
qed auto

text \<open>A round reserves the oldest pending withdrawals, in order.\<close>

lemma reserve_batchesD:
  fixes s :: minter_state
  defines "batches \<equiv> reserve_batches s"
  shows "\<exists>rest. map pw_request (bm_values (st_pending_withdrawal_requests s)) = concat (map rb_requests batches) @ rest"
    "\<exists>n \<le> 10. map rb_nonce_account batches = take n (free_accounts (st_nonce_pool s))"
    "b \<in> set batches \<Longrightarrow> rb_requests b \<noteq> [] \<and> length (rb_requests b) \<le> 10"
    "sum_list (map batch_cost batches) \<le> unat (st_balance s) - 890880"
    "length batches + bm_len (st_created_withdrawal_txs s) \<le> max 10 (bm_len (st_created_withdrawal_txs s))"
proof -
  let ?n = "min MAX_CONCURRENT_RPC_CALLS (MAX_CONCURRENT_SIGNATURES - bm_len (st_created_withdrawal_txs s))"
  have n: "?n \<le> 10" "?n \<le> 10 - bm_len (st_created_withdrawal_txs s)"
    by (simp_all add: MAX_CONCURRENT_RPC_CALLS_def MAX_CONCURRENT_SIGNATURES_def)
  obtain rest n' where z: "map pw_request (bm_values (st_pending_withdrawal_requests s)) = concat (map rb_requests batches) @ rest"
    "map rb_nonce_account batches = take n' (free_accounts (st_nonce_pool s))" "n' \<le> ?n"
    "\<forall>b \<in> set batches. rb_requests b \<noteq> [] \<and> length (rb_requests b) \<le> 10"
    "sum_list (map batch_cost batches) \<le> unat (saturating_sub (st_balance s) RENT_EXEMPTION_THRESHOLD)"
    using zip_batchesD[of "map pw_request (bm_values (st_pending_withdrawal_requests s))" "free_accounts (st_nonce_pool s)"
        "saturating_sub (st_balance s) RENT_EXEMPTION_THRESHOLD" ?n]
    unfolding batches_def reserve_batches_def withdrawal_batches_def by blast
  show "\<exists>rest. map pw_request (bm_values (st_pending_withdrawal_requests s)) = concat (map rb_requests batches) @ rest"
    using z(1) by blast
  show "\<exists>n \<le> 10. map rb_nonce_account batches = take n (free_accounts (st_nonce_pool s))"
    using z(2,3) n(1) order_trans by blast
  show "b \<in> set batches \<Longrightarrow> rb_requests b \<noteq> [] \<and> length (rb_requests b) \<le> 10" using z(4) by blast
  show "sum_list (map batch_cost batches) \<le> unat (st_balance s) - 890880"
    using z(5) by (simp add: unat_saturating_sub RENT_EXEMPTION_THRESHOLD_def)
  have "length batches \<le> n'" using arg_cong[OF z(2), of length] by simp
  then show "length batches + bm_len (st_created_withdrawal_txs s) \<le> max 10 (bm_len (st_created_withdrawal_txs s))"
    using z(3) n(2) by linarith
qed

subsection \<open>Reserved batches\<close>

text \<open>What holds of the batches of a round that are not yet bound: their nonce accounts are free, their
  requests pending, and the balance pays for all of them and the rent exemption.\<close>

definition reserved :: "minter_state \<Rightarrow> reserved_batch list \<Rightarrow> bool" where
  "reserved s batches \<longleftrightarrow>
     distinct (map rb_nonce_account batches) \<and>
     rb_nonce_account ` set batches \<subseteq> set (free_accounts (st_nonce_pool s)) \<and>
     distinct (map wr_burn_block_index (concat (map rb_requests batches))) \<and>
     (\<forall>r \<in> set (concat (map rb_requests batches)).
        map_option pw_request (bm_get (st_pending_withdrawal_requests s) (wr_burn_block_index r)) = Some r) \<and>
     (\<forall>b \<in> set batches. rb_requests b \<noteq> [] \<and> length (rb_requests b) \<le> 10) \<and>
     (batches \<noteq> [] \<longrightarrow> sum_list (map batch_cost batches) + 890880 \<le> unat (st_balance s))"

lemma pending_values:
  assumes "requests_wf s"
  shows "map wr_burn_block_index (map pw_request (bm_values (st_pending_withdrawal_requests s))) =
      bm_keys (st_pending_withdrawal_requests s)"
    and "r \<in> set (map pw_request (bm_values (st_pending_withdrawal_requests s))) \<Longrightarrow>
      map_option pw_request (bm_get (st_pending_withdrawal_requests s) (wr_burn_block_index r)) = Some r"
proof -
  let ?P = "st_pending_withdrawal_requests s"
  have key: "wr_burn_block_index (pw_request p) = b" if "bm_get ?P b = Some p" for b p
  proof -
    have "wview s b = Some (pw_request p, WtPending)"
      using wview_stage(1)[of s b 0] assms that by (simp add: requests_wf_def wstages_nth(1))
    then show ?thesis using assms by (auto simp: requests_wf_def)
  qed
  have "map (wr_burn_block_index \<circ> pw_request \<circ> snd) (bm_iter ?P) = map fst (bm_iter ?P)"
    using key by (auto simp: bm_iter_iff)
  then show "map wr_burn_block_index (map pw_request (bm_values ?P)) = bm_keys ?P"
    by (simp add: bm_values_def bm_keys_def)
  assume "r \<in> set (map pw_request (bm_values ?P))"
  then obtain b p where "bm_get ?P b = Some p" "r = pw_request p" by (auto simp: bm_values_iff)
  then show "map_option pw_request (bm_get ?P (wr_burn_block_index r)) = Some r" using key by simp
qed

lemma free_accounts_distinct: "distinct (free_accounts pool)"
  unfolding free_accounts_def by (rule distinct_map_filter) (simp add: bm_iter_distinct)

lemma reserve_reserved:
  assumes "requests_wf s"
  shows "reserved s (reserve_batches s)"
proof -
  let ?bs = "reserve_batches s" and ?all = "map pw_request (bm_values (st_pending_withdrawal_requests s))"
  obtain rest where all: "?all = concat (map rb_requests ?bs) @ rest" using reserve_batchesD(1) by blast
  obtain n where n: "map rb_nonce_account ?bs = take n (free_accounts (st_nonce_pool s))" using reserve_batchesD(2) by blast
  have "distinct (map wr_burn_block_index ?all)" unfolding pending_values(1)[OF assms] by (rule bm_keys_distinct)
  then have idx: "distinct (map wr_burn_block_index (concat (map rb_requests ?bs)))" unfolding all map_append by simp
  have "r \<in> set ?all" if "r \<in> set (concat (map rb_requests ?bs))" for r using that all by simp
  then have pend: "\<forall>r \<in> set (concat (map rb_requests ?bs)).
      map_option pw_request (bm_get (st_pending_withdrawal_requests s) (wr_burn_block_index r)) = Some r"
    using pending_values(2)[OF assms] by blast
  have nonces: "distinct (map rb_nonce_account ?bs)" "rb_nonce_account ` set ?bs \<subseteq> set (free_accounts (st_nonce_pool s))"
    using free_accounts_distinct distinct_take n set_take_subset[of n] by (metis, metis list.set_map)
  have "sum_list (map batch_cost ?bs) + 890880 \<le> unat (st_balance s)" if "?bs \<noteq> []"
  proof -
    have "0 < sum_list (map batch_cost ?bs)" using that by (cases ?bs) (simp_all add: batch_cost_def)
    then show ?thesis using reserve_batchesD(4)[of s] by linarith
  qed
  then show ?thesis unfolding reserved_def using idx pend nonces reserve_batchesD(3)[of _ s] by blast
qed

lemma distinct_drop: "distinct (xs @ ys @ zs) \<Longrightarrow> distinct (xs @ zs) \<and> distinct ys \<and> set ys \<inter> set (xs @ zs) = {}"
  by auto

lemma reserved_middle:
  assumes "reserved s (xs @ b # ys)"
  shows "reserved s (xs @ ys)"
    and "rb_nonce_account b \<in> set (free_accounts (st_nonce_pool s))"
    and "rb_nonce_account b \<notin> rb_nonce_account ` set (xs @ ys)"
    and "distinct (map wr_burn_block_index (rb_requests b))"
    and "wr_burn_block_index ` set (rb_requests b) \<inter> wr_burn_block_index ` set (concat (map rb_requests (xs @ ys))) = {}"
    and "rb_requests b \<noteq> []"
    and "batch_cost b + sum_list (map batch_cost (xs @ ys)) + 890880 \<le> unat (st_balance s)"
proof -
  let ?idx = "\<lambda>bs. map wr_burn_block_index (concat (map rb_requests bs))"
  have "distinct (?idx xs @ map wr_burn_block_index (rb_requests b) @ ?idx ys)" using assms by (simp add: reserved_def)
  note idx = distinct_drop[OF this]
  have "distinct (map rb_nonce_account xs @ [rb_nonce_account b] @ map rb_nonce_account ys)"
    using assms by (simp add: reserved_def)
  note nonces = distinct_drop[OF this]
  show cost: "batch_cost b + sum_list (map batch_cost (xs @ ys)) + 890880 \<le> unat (st_balance s)"
    using assms by (simp add: reserved_def)
  have i: "distinct (?idx (xs @ ys))" and n: "distinct (map rb_nonce_account (xs @ ys))" using idx nonces by simp_all
  show "reserved s (xs @ ys)" unfolding reserved_def using assms cost i n by (auto simp: reserved_def)
  show "rb_nonce_account b \<notin> rb_nonce_account ` set (xs @ ys)" using nonces by auto
  show "distinct (map wr_burn_block_index (rb_requests b))"
    "wr_burn_block_index ` set (rb_requests b) \<inter> wr_burn_block_index ` set (concat (map rb_requests (xs @ ys))) = {}"
    using idx by (simp_all add: image_Un)
  show "rb_nonce_account b \<in> set (free_accounts (st_nonce_pool s))" "rb_requests b \<noteq> []"
    using assms by (simp_all add: reserved_def)
qed

lemma reserved_request:
  assumes "reserved s (xs @ b # ys)" "r \<in> set (rb_requests b)"
  shows "map_option pw_request (bm_get (st_pending_withdrawal_requests s) (wr_burn_block_index r)) = Some r"
proof -
  have "r \<in> set (concat (map rb_requests (xs @ b # ys)))" using assms(2) by simp
  then show ?thesis using assms(1) unfolding reserved_def by blast
qed

lemma reserved_pending_amount:
  assumes "reserved s (xs @ b # ys)"
  shows "sum_list (map (pending_amount s) (map wr_burn_block_index (rb_requests b))) = batch_amount (rb_requests b)"
  unfolding batch_amount_def map_map
  using reserved_request[OF assms] by (intro arg_cong[of _ _ sum_list] map_cong) (fastforce simp: pending_amount_def)+

lemma reserved_created:
  assumes res: "reserved s (xs @ b # ys)" and wf: "state_wf s"
    and cr: "process_transaction_created (map wr_burn_block_index (rb_requests b)) (rb_nonce_account b) h s = Some s'"
  shows "reserved s' (xs @ ys)"
proof -
  let ?bs = "map wr_burn_block_index (rb_requests b)"
  note d = reserved_middle[OF res] and rest = reserved_middle(1)[OF res]
  from cr show ?thesis
  proof (rule process_transaction_createdD)
    fix pool s1 balance
    assume pool: "bind_nonce (rb_nonce_account b) h (st_nonce_pool s) = Some pool" and cf: "created_from s ?bs s1"
      and bal: "unat (st_balance s) = unat balance +
        unat ((of_nat (sum_list (map (pending_amount s) ?bs)) :: u64) + BATCH_WITHDRAWAL_TX_FEE)"
      and s': "s' = s1\<lparr>st_nonce_pool := pool, st_balance := balance,
       st_created_withdrawal_txs := bm_insert (rb_nonce_account b)
         \<lparr>cw_nonce_value = h, cw_burn_indices = ?bs\<rparr> (st_created_withdrawal_txs s)\<rparr>"
    have amount: "batch_amount (rb_requests b) + 5000 + sum_list (map batch_cost (xs @ ys)) + 890880 \<le> unat (st_balance s)"
      using d(7) by (simp add: batch_cost_def)
    moreover have "unat (st_balance s) < 2 ^ 64" using unsigned_less[of "st_balance s", where 'a = nat] by simp
    ultimately have "unat ((of_nat (sum_list (map (pending_amount s) ?bs)) :: u64) + BATCH_WITHDRAWAL_TX_FEE) =
        batch_amount (rb_requests b) + 5000"
      unfolding reserved_pending_amount[OF res]
      by (subst unat_plus_no_overflow)
         (simp_all add: unat_of_nat take_bit_nat_eq_self BATCH_WITHDRAWAL_TX_FEE_def FEE_PER_SIGNATURE_def)
    then have balance: "sum_list (map batch_cost (xs @ ys)) + 890880 \<le> unat (st_balance s')"
      using bal amount by (simp add: s')
    have pending: "bm_get (st_pending_withdrawal_requests s') i =
        (if i \<in> set ?bs then None else bm_get (st_pending_withdrawal_requests s) i)" for i
      using cf by (auto simp: created_from_def s')
    have "rb_nonce_account ` set (xs @ ys) \<subseteq> set (free_accounts (st_nonce_pool s'))"
    proof
      fix n assume n: "n \<in> rb_nonce_account ` set (xs @ ys)"
      then have "n \<in> set (free_accounts (st_nonce_pool s))" "n \<noteq> rb_nonce_account b"
        using rest d(3) unfolding reserved_def by blast+
      then show "n \<in> set (free_accounts (st_nonce_pool s'))"
        using bind_nonceD(1,3)[OF pool] by (simp add: s' free_accounts_iff)
    qed
    moreover have "map_option pw_request (bm_get (st_pending_withdrawal_requests s') (wr_burn_block_index r)) = Some r"
      if "r \<in> set (concat (map rb_requests (xs @ ys)))" for r
    proof -
      have "wr_burn_block_index r \<notin> set ?bs" using that d(5) by auto
      then show ?thesis using rest that unfolding reserved_def pending by simp
    qed
    ultimately show ?thesis using rest balance unfolding reserved_def by blast
  qed
qed

lemma reserved_creates:
  assumes res: "reserved s (xs @ b # ys)" and wf: "state_wf s"
    and new: "\<not> has_seen (st_nonce_pool s) (rb_nonce_account b) h"
  shows "\<exists>s'. process_transaction_created (map wr_burn_block_index (rb_requests b)) (rb_nonce_account b) h s = Some s'"
proof -
  let ?bs = "map wr_burn_block_index (rb_requests b)" and ?n = "rb_nonce_account b"
  note d = reserved_middle[OF res]
  have n: "?n \<notin> bound_accounts (st_nonce_pool s)" "pool_contains (st_nonce_pool s) ?n"
    using d(2) by (simp_all add: free_accounts_iff)
  then obtain pool where pool: "bind_nonce ?n h (st_nonce_pool s) = Some pool"
    using bind_nonce_Some_iff[of ?n h "st_nonce_pool s"] new by (auto simp: seen_values_def)
  have free: "bm_get (st_created_withdrawal_txs s) ?n = None"
    using n(1) nonces_wfD(1)[OF state_wfD(5)[OF wf]] by auto
  have "unat (st_balance s) < 2 ^ 64" using unsigned_less[of "st_balance s", where 'a = nat] by simp
  moreover have amount: "sum_list (map (pending_amount s) ?bs) + 5000 \<le> unat (st_balance s)"
    using d(7) unfolding reserved_pending_amount[OF res] by (simp add: batch_cost_def)
  ultimately have fits: "sum_list (map (pending_amount s) ?bs) + 5000 < 2 ^ 64" by linarith
  let ?t = "s\<lparr>st_nonce_pool := pool\<rparr>"
  have same: "pending_amount ?t = pending_amount s" by (rule ext) (simp add: pending_amount_def)
  have "bm_get (st_pending_withdrawal_requests ?t) i \<noteq> None \<and> bm_get (st_created_withdrawal_requests ?t) i = None"
    if i: "i \<in> set ?bs" for i
  proof -
    obtain p where p: "bm_get (st_pending_withdrawal_requests s) i = Some p"
      using i reserved_request[OF res] by fastforce
    have "sole (wstages s i) 0 (pw_request p, WtPending)"
      using wview_stage(2)[of s i 0] p state_wfD(2)[OF wf] by (simp add: requests_wf_def)
    then have "wstages s i ! Suc 0 = None" by (rule sole_other) simp_all
    then show ?thesis using p by simp
  qed
  then obtain s1 t1 where fold: "foldM create_one ?bs (?t, 0) = Some (s1, t1)"
    using foldM_create_exists[of ?bs ?t 0] d(4) fits unfolding same by auto
  note cf = foldM_createD[OF fold, unfolded same]
  have "unat (t1 + BATCH_WITHDRAWAL_TX_FEE) = sum_list (map (pending_amount s) ?bs) + 5000"
    using cf fits by (subst unat_plus_no_overflow) (simp_all add: BATCH_WITHDRAWAL_TX_FEE_def FEE_PER_SIGNATURE_def)
  moreover have "st_balance s1 = st_balance s" "st_created_withdrawal_txs s1 = st_created_withdrawal_txs s"
    using cf by (auto simp: created_from_def)
  ultimately obtain balance where "checked_sub (st_balance s1) (t1 + BATCH_WITHDRAWAL_TX_FEE) = Some balance"
    using amount checked_sub_None_iff[of "st_balance s1" "t1 + BATCH_WITHDRAWAL_TX_FEE"] by (metis not_less option.exhaust)
  then show ?thesis
    using pool fold free \<open>st_created_withdrawal_txs s1 = _\<close> by (simp add: process_transaction_created_def)
qed

subsection \<open>Properties\<close>

text \<open>C7: A round reserves the oldest pending withdrawals in the order of their burn indices: at most ten
  batches of one to ten withdrawals, each on a nonce account of its own that is free, and together
  with the created transactions not more than are signed in a round. The balance covers all their
  transfers and fees and still leaves the main account rent-exempt.\<close>

theorem reserve_batches_fifo_and_funded:
  assumes "requests_wf s" "reserve_batches s = batches" "batches \<noteq> []"
  shows "(\<exists>rest. map pw_request (bm_values (st_pending_withdrawal_requests s)) = concat (map rb_requests batches) @ rest) \<and>
    sorted (map wr_burn_block_index (concat (map rb_requests batches))) \<and>
    list_all (\<lambda>b. rb_requests b \<noteq> [] \<and> length (rb_requests b) \<le> MAX_WITHDRAWALS_PER_NONCE_TX) batches \<and>
    distinct (map rb_nonce_account batches) \<and>
    set (map rb_nonce_account batches) \<subseteq> set (free_accounts (st_nonce_pool s)) \<and>
    length batches + bm_len (st_created_withdrawal_txs s) \<le> MAX_CONCURRENT_SIGNATURES \<and>
    sum_list (map (\<lambda>b. batch_amount (rb_requests b) + unat BATCH_WITHDRAWAL_TX_FEE) batches) +
      unat RENT_EXEMPTION_THRESHOLD \<le> unat (st_balance s)"
proof -
  note res = reserve_reserved[OF assms(1), unfolded assms(2)]
  obtain rest where all: "map pw_request (bm_values (st_pending_withdrawal_requests s)) = concat (map rb_requests batches) @ rest"
    using reserve_batchesD(1)[of s] assms(2) by auto
  have "sorted (map wr_burn_block_index (map pw_request (bm_values (st_pending_withdrawal_requests s))))"
    unfolding pending_values(1)[OF assms(1)] using bm_keys_sorted strict_sorted_imp_sorted by blast
  then have "sorted (map wr_burn_block_index (concat (map rb_requests batches)))"
    unfolding all by (simp add: sorted_append)
  moreover have "length batches + bm_len (st_created_withdrawal_txs s) \<le> 10"
    using reserve_batchesD(5)[of s] assms(2,3) by (cases batches) (auto simp: max_def split: if_splits)
  moreover have "(\<lambda>b. batch_amount (rb_requests b) + unat BATCH_WITHDRAWAL_TX_FEE) = batch_cost"
    by (rule ext) (simp add: batch_cost_def BATCH_WITHDRAWAL_TX_FEE_def FEE_PER_SIGNATURE_def)
  ultimately show ?thesis
    using all res assms(3) unfolding reserved_def
    by (auto simp: list_all_iff MAX_WITHDRAWALS_PER_NONCE_TX_def MAX_CONCURRENT_SIGNATURES_def RENT_EXEMPTION_THRESHOLD_def)
qed

lemma example_reserve:
  "reserve_batches example_s8 = [\<lparr>rb_nonce_account = 1, rb_requests = [example_request]\<rparr>]"
proof -
  have "bm_iter (st_pending_withdrawal_requests example_s8) = [(5, example_pending)]"
    by (simp add: example_s8_def example_base_defs)
  then have "withdrawal_batches example_s8 = ([example_request], 2099120)"
    by (simp add: withdrawal_batches_def bm_values_def example_pending_def example_s8_def example_base_defs saturating_sub_def RENT_EXEMPTION_THRESHOLD_def)
  moreover have "free_accounts (st_nonce_pool example_s8) = [1]"
    by (simp add: free_accounts_def example_s8_def example_base_defs example_pool_def nonce_account_default_def)
  moreover have "bm_len (st_created_withdrawal_txs example_s8) = 0"
    by (simp add: example_s8_def example_base_defs)
  moreover have "next_batch ([example_request], 2099120) = (Some [example_request], [], 104120)"
    by (simp add: next_batch_def MAX_WITHDRAWALS_PER_NONCE_TX_def BATCH_WITHDRAWAL_TX_FEE_def FEE_PER_SIGNATURE_def
        checked_add_def checked_sub_def example_request_def)
  ultimately show ?thesis
    using zip_batches.simps(1)[of 1 "[]" "([example_request], 2099120)" 9]
    by (simp add: reserve_batches_def MAX_CONCURRENT_RPC_CALLS_def MAX_CONCURRENT_SIGNATURES_def)
qed

theorem reserve_batches_fifo_and_funded_witness:
  "unat (wr_amount_to_transfer example_request) + unat BATCH_WITHDRAWAL_TX_FEE + unat RENT_EXEMPTION_THRESHOLD
     \<le> unat (st_balance example_s8)"
proof -
  have log: "replay_events example_sdk (take 9 example_log) = Some example_s8"
    by (simp add: replay_events_def example_log_def example_init apply_events_def example_steps)
  have "distinct (map wr_burn_block_index (accepted_requests (take 9 example_log)))"
    by (simp add: accepted_requests_def accepted_request_def List.map_filter_def example_log_def example_queue_event_def)
  moreover have "length (take 9 example_log) < 2 ^ 64" by simp
  ultimately have "requests_wf example_s8" using log_wf[OF log] by (simp add: state_wf_def)
  then show ?thesis using reserve_batches_fifo_and_funded[OF _ example_reserve] by simp
qed

end
