(* ===== verification/Interleaving.thy ===== *)
theory Interleaving
  imports Endpoints Withdrawal_Batches
begin

text \<open>
  The canister with its suspended calls. A call of an endpoint or a timer task runs until its next
  \<open>await\<close>; there it is a task that waits for a reply, and other calls and replies are handled before
  it goes on. \<open>start\<close> runs a call up to its first \<open>await\<close>, \<open>resume\<close> runs a task from a reply to its next
  \<open>await\<close> or to its end; both compose the uninterrupted pieces of the theories of the endpoints and
  timer tasks the way the \<open>async\<close> functions do. Where the code joins several calls, their replies come
  in any order. If the code traps, its changes are undone and \<open>abandon\<close> is what the guards held by the
  task do when they are dropped in the cleanup.
\<close>

subsection \<open>Tasks and replies\<close>

datatype task =
    DepositTask u128 deposit_call
  | WithdrawTask account lamport address
  | KeyTask
  | CreateTask address nat "reserved_batch list"
  | SignTask nat "transaction list" "bound_withdrawal list"
  | SendTask
  | SweepBlockTask sweep_round address
  | SweepTask address block bool "(deposit_sol_id \<times> queued_deposit) list list" nat
  | MintTask mint_round "deposit_sol_id \<times> pending_mint" "(deposit_sol_id \<times> pending_mint) list"
  | BlockTask "(signature, block_height) btree_map"
  | StatusesTask "(signature, block_height) btree_map" "block_height option"
  | NoncesTask bool address in_flight_nonces "(in_flight_withdrawal \<times> nonce_read option option) list"
      "in_flight_withdrawal list list"
  | RebroadcastTask bool in_flight_nonces "in_flight_withdrawal list list"
  | LandedTask bool in_flight_nonces nat "in_flight_withdrawal list" "in_flight_withdrawal list list"
  | CreditTask bool "nat \<times> (signature \<times> sweep) list"

datatype reply =
    BalanceReply "u128 \<Rightarrow> u128" u128 "lamport rpc_response"
  | BurnReply "string + (transfer_from_error + nat)"
  | KeyReply "string + (public_key \<times> chain_code) option"
  | NonceReply nat "ui_account option rpc_response"
  | SignatureReply nat "bytes \<Rightarrow> derivation_path \<Rightarrow> string + bytes"
  | SentReply
  | BlockReply "string list + u64 \<times> confirmed_block"
  | MintReply "string + (transfer_error + nat)"
  | StatusesReply "(get_signature_statuses_error + transaction_status option list) list"
  | OutcomeReply nat "get_transaction_error + fetched_transaction option"
  | OutcomesReply "(get_transaction_error + fetched_transaction option) list"

datatype trigger =
    CallDeposit principal u128 account
  | CallWithdraw account lamport string
  | CallWatch principal account
  | TimerFires timer_task

type_synonym suspended = "task option \<times> canister"

definition remove_nth :: "nat \<Rightarrow> 'a list \<Rightarrow> 'a list" where
  "remove_nth i xs = take i xs @ drop (Suc i) xs"

subsection \<open>Withdrawals\<close>

definition send_phase :: "nat \<Rightarrow> transaction list \<Rightarrow> canister \<Rightarrow> suspended" where
  "send_phase num_created signed_txs c =
     (if signed_txs = [] then (None, withdrawal_round_end (num_created > 0) c) else (Some SendTask, c))"

definition sign_phase :: "sdk \<Rightarrow> address \<Rightarrow> nat \<Rightarrow> canister \<Rightarrow> suspended option" where
  "sign_phase lib main num_created c = do {
     withdrawals \<leftarrow> bound_withdrawals lib (can_state c) main;
     Some (if withdrawals = [] then send_phase num_created [] c else (Some (SignTask num_created [] withdrawals), c))
   }"

definition create_phase :: "sdk \<Rightarrow> address \<Rightarrow> nat \<Rightarrow> reserved_batch list \<Rightarrow> canister \<Rightarrow> suspended option" where
  "create_phase lib main num_created batches c =
     (if batches = [] then sign_phase lib main num_created c
      else Some (Some (CreateTask main num_created batches), c))"

definition resume_create ::
  "sdk \<Rightarrow> address \<Rightarrow> nat \<Rightarrow> reserved_batch list \<Rightarrow> nat \<Rightarrow> ui_account option rpc_response \<Rightarrow> u64 \<Rightarrow> canister \<Rightarrow>
   suspended option" where
  "resume_create lib main num_created batches i response now c = do {
     (created, c') \<leftarrow> create_transaction lib main (batches ! i) response now c;
     create_phase lib main (if created then Suc num_created else num_created) (remove_nth i batches) c'
   }"

definition resume_sign ::
  "sdk \<Rightarrow> nat \<Rightarrow> transaction list \<Rightarrow> bound_withdrawal list \<Rightarrow> nat \<Rightarrow>
   (bytes \<Rightarrow> derivation_path \<Rightarrow> string + bytes) \<Rightarrow> u64 \<Rightarrow> canister \<Rightarrow> suspended option" where
  "resume_sign lib num_created signed_txs withdrawals i sign now c = do {
     (tx, c') \<leftarrow> sign_bound_withdrawal lib sign (withdrawals ! i) now c;
     let signed_txs' = (case tx of None \<Rightarrow> signed_txs | Some t \<Rightarrow> signed_txs @ [t]);
     Some (if remove_nth i withdrawals = [] then send_phase num_created signed_txs' c'
           else (Some (SignTask num_created signed_txs' (remove_nth i withdrawals)), c'))
   }"

subsection \<open>Sweeps\<close>

definition sweep_phase ::
  "address \<Rightarrow> block \<Rightarrow> bool \<Rightarrow> (deposit_sol_id \<times> queued_deposit) list list \<Rightarrow> nat \<Rightarrow> canister \<Rightarrow> suspended" where
  "sweep_phase main block leaves batches sending c =
     (if batches = [] \<and> sending = 0 then (None, sweep_round_end leaves c)
      else (Some (SweepTask main block leaves batches sending), c))"

definition resume_sweep ::
  "sdk \<Rightarrow> address \<Rightarrow> block \<Rightarrow> bool \<Rightarrow> (deposit_sol_id \<times> queued_deposit) list list \<Rightarrow> nat \<Rightarrow> nat \<Rightarrow>
   (bytes \<Rightarrow> derivation_path \<Rightarrow> string + bytes) \<Rightarrow> u64 \<Rightarrow> canister \<Rightarrow> suspended option" where
  "resume_sweep lib main block leaves batches sending i sign now c = do {
     (result, c') \<leftarrow> submit_sweep_transaction lib sign (batches ! i) block main now c;
     Some (sweep_phase main block leaves (remove_nth i batches)
       (case result of Inl _ \<Rightarrow> sending | Inr _ \<Rightarrow> Suc sending) c')
   }"

subsection \<open>Mints\<close>

fun mint_phase ::
  "sdk \<Rightarrow> (memo \<Rightarrow> bytes) \<Rightarrow> mint_round \<Rightarrow> (deposit_sol_id \<times> pending_mint) list \<Rightarrow> u64 \<Rightarrow> canister \<Rightarrow>
   suspended option" where
  "mint_phase lib encode minting [] now c = Some (None, mint_round_end minting c)"
| "mint_phase lib encode minting (entry # rest) now c =
     (case process_pending_mint_start lib encode (fst entry) (snd entry) now c of
        None \<Rightarrow> None
      | Some (None, c') \<Rightarrow> mint_phase lib encode minting rest now c'
      | Some (Some _, c') \<Rightarrow> Some (Some (MintTask minting entry rest), c'))"

subsection \<open>Finalization\<close>

definition credit_phase :: "bool \<Rightarrow> canister \<Rightarrow> suspended" where
  "credit_phase more_txs c =
     (let crediting = credit_round (can_state c)
      in if snd crediting = [] then (None, finalize_round_end more_txs c)
         else (Some (CreditTask more_txs crediting), c))"

definition landed_phase ::
  "bool \<Rightarrow> in_flight_nonces \<Rightarrow> nat \<Rightarrow> in_flight_withdrawal list list \<Rightarrow> canister \<Rightarrow> suspended" where
  "landed_phase more_txs nonces unresolved batches c =
     (case batches of
        [] \<Rightarrow> credit_phase more_txs (record_undecided nonces unresolved c)
      | batch # later \<Rightarrow> (Some (LandedTask more_txs nonces unresolved batch later), c))"

definition rebroadcast_phase ::
  "bool \<Rightarrow> in_flight_nonces \<Rightarrow> in_flight_withdrawal list list \<Rightarrow> canister \<Rightarrow> suspended" where
  "rebroadcast_phase more_txs nonces batches c =
     (case batches of
        [] \<Rightarrow> landed_phase more_txs nonces 0 (chunks MAX_CONCURRENT_RPC_CALLS (ifn_advanced nonces)) c
      | batch # later \<Rightarrow>
          (Some (RebroadcastTask more_txs nonces later), fold (\<lambda>w c. snd (rebroadcast w c)) batch c))"

definition nonces_phase ::
  "bool \<Rightarrow> address \<Rightarrow> in_flight_nonces \<Rightarrow> in_flight_withdrawal list list \<Rightarrow> u64 \<Rightarrow> canister \<Rightarrow> suspended" where
  "nonces_phase more_txs main nonces batches now c =
     (case batches of
        [] \<Rightarrow> rebroadcast_phase more_txs nonces (chunks MAX_CONCURRENT_RPC_CALLS
               (filter (\<lambda>w. is_old_enough_to_rebroadcast w now) (ifn_unchanged nonces))) c
      | batch # later \<Rightarrow> (Some (NoncesTask more_txs main nonces (map (\<lambda>w. (w, None)) batch) later), c))"

definition read_phase :: "sdk \<Rightarrow> bool \<Rightarrow> u64 \<Rightarrow> canister \<Rightarrow> suspended" where
  "read_phase lib more_txs now c =
     (case st_minter_public_key (can_state c) of
        None \<Rightarrow> nonces_phase more_txs 0 nonces_empty [] now c
      | Some key \<Rightarrow> nonces_phase more_txs (minter_address lib key) nonces_empty
          (chunks MAX_CONCURRENT_RPC_CALLS (in_flight_withdrawals (can_state c))) now c)"

definition resume_nonces ::
  "sdk \<Rightarrow> bool \<Rightarrow> address \<Rightarrow> in_flight_nonces \<Rightarrow> (in_flight_withdrawal \<times> nonce_read option option) list \<Rightarrow>
   in_flight_withdrawal list list \<Rightarrow> nat \<Rightarrow> ui_account option rpc_response \<Rightarrow> u64 \<Rightarrow> canister \<Rightarrow> suspended" where
  "resume_nonces lib more_txs main nonces reads later i response now c =
     (let w = fst (reads ! i);
          reads' = reads[i := (w, Some (read_nonce lib main w response (can_state c)))]
      in if list_all (\<lambda>r. snd r \<noteq> None) reads'
         then nonces_phase more_txs main
                (fold sort_nonce_read (map (\<lambda>(w, r). (w, the r)) reads') nonces) later now c
         else (Some (NoncesTask more_txs main nonces reads' later), c))"

definition resume_statuses ::
  "sdk \<Rightarrow> (signature, block_height) btree_map \<Rightarrow> block_height option \<Rightarrow>
   (get_signature_statuses_error + transaction_status option list) list \<Rightarrow> u64 \<Rightarrow> canister \<Rightarrow> suspended option" where
  "resume_statuses lib transactions height results now c =
     map_option (read_phase lib (more_transactions_to_check transactions) now)
       (apply_statuses lib transactions height
          (check_transaction_statuses (zip (status_batches (bm_keys transactions)) results)) now c)"

definition resume_landed ::
  "sdk \<Rightarrow> bool \<Rightarrow> in_flight_nonces \<Rightarrow> nat \<Rightarrow> in_flight_withdrawal list \<Rightarrow> in_flight_withdrawal list list \<Rightarrow> nat \<Rightarrow>
   get_transaction_error + fetched_transaction option \<Rightarrow> u64 \<Rightarrow> canister \<Rightarrow> suspended option" where
  "resume_landed lib more_txs nonces unresolved batch later i outcome now c = do {
     (finalization, c') \<leftarrow> finalize_landed_withdrawal lib (batch ! i) outcome now c;
     let unresolved' = (if finalization = UnresolvedOutcome then Suc unresolved else unresolved);
     Some (if remove_nth i batch = [] then landed_phase more_txs nonces unresolved' later c'
           else (Some (LandedTask more_txs nonces unresolved' (remove_nth i batch) later), c'))
   }"

definition resume_credit ::
  "sdk \<Rightarrow> bool \<Rightarrow> nat \<times> (signature \<times> sweep) list \<Rightarrow>
   (get_transaction_error + fetched_transaction option) list \<Rightarrow> u64 \<Rightarrow> canister \<Rightarrow> suspended option" where
  "resume_credit lib more_txs crediting outcomes now c =
     map_option (\<lambda>(more_sweeps, c'). (None, finalize_round_end (more_txs \<or> more_sweeps) c'))
       (credit_finalized_sweeps lib crediting outcomes now c)"

subsection \<open>Starting and resuming\<close>

fun start :: "sdk \<Rightarrow> (memo \<Rightarrow> bytes) \<Rightarrow> trigger \<Rightarrow> u64 \<Rightarrow> canister \<Rightarrow> suspended option" where
  "start lib encode (CallDeposit self available account) now c =
     (case deposit_sol_start lib self available account c of
        None \<Rightarrow> None
      | Some (Inl _) \<Rightarrow> Some (None, c)
      | Some (Inr (call, c')) \<Rightarrow> Some (Some (DepositTask available call), c'))"
| "start lib encode (CallWithdraw from amount address) now c =
     (case withdraw_start lib from amount address c of
        Inl _ \<Rightarrow> Some (None, c)
      | Inr (destination, c') \<Rightarrow> Some (Some (WithdrawTask from amount destination), c'))"
| "start lib encode (CallWatch self account) now c =
     map_option (\<lambda>(_, c'). (None, c')) (watch_deposit_address lib self account now c)"
| "start lib encode (TimerFires FetchKeyTimer) now c =
     Some (if st_minter_public_key (can_state c) \<noteq> None then None else Some KeyTask, c)"
| "start lib encode (TimerFires WithdrawalTimer) now c =
     (case withdrawal_round_start lib c of
        None \<Rightarrow> Some (None, c)
      | Some (main, c') \<Rightarrow> create_phase lib main 0 (reserve_batches (can_state c')) c')"
| "start lib encode (TimerFires SweepTimer) now c =
     (case sweep_round_start lib c of
        None \<Rightarrow> Some (None, c)
      | Some (sweep, main, c') \<Rightarrow> Some (Some (SweepBlockTask sweep main), c'))"
| "start lib encode (TimerFires MintTimer) now c =
     (case mint_round_start c of
        None \<Rightarrow> Some (None, c)
      | Some (minting, c') \<Rightarrow> mint_phase lib encode minting (mr_pending_mints minting) now c')"
| "start lib encode (TimerFires FinalizeTimer) now c =
     (case timer_guard_new FinalizeTransactions (can_state c) of
        Inl _ \<Rightarrow> Some (None, c)
      | Inr s \<Rightarrow>
          let transactions = blockhash_transactions s in
          Some (if bm_is_empty transactions then read_phase lib False now (c\<lparr>can_state := s\<rparr>)
                else (Some (BlockTask transactions), c\<lparr>can_state := s\<rparr>)))"

text \<open>A reply that is not of the kind the task waits for changes nothing.\<close>

definition resume :: "sdk \<Rightarrow> (memo \<Rightarrow> bytes) \<Rightarrow> task \<Rightarrow> reply \<Rightarrow> u64 \<Rightarrow> canister \<Rightarrow> suspended option" where
  "resume lib encode t reply now c =
     (let stay = Some (Some t, c) in
      case t of
        DepositTask available call \<Rightarrow>
          (case reply of
             BalanceReply accept refunded response \<Rightarrow>
               map_option (\<lambda>(_, c'). (None, c')) (deposit_sol_balance lib accept refunded call response now c)
           | _ \<Rightarrow> stay)
      | WithdrawTask from amount destination \<Rightarrow>
          (case reply of
             BurnReply response \<Rightarrow>
               map_option (\<lambda>(_, c'). (None, c')) (withdraw_burned lib from amount destination response now c)
           | _ \<Rightarrow> stay)
      | KeyTask \<Rightarrow>
          (case reply of
             KeyReply response \<Rightarrow> map_option (Pair None) (record_minter_public_key lib response now c)
           | _ \<Rightarrow> stay)
      | CreateTask main num_created batches \<Rightarrow>
          (case reply of
             NonceReply i response \<Rightarrow>
               if i < length batches then resume_create lib main num_created batches i response now c else stay
           | _ \<Rightarrow> stay)
      | SignTask num_created signed_txs withdrawals \<Rightarrow>
          (case reply of
             SignatureReply i sign \<Rightarrow>
               if i < length withdrawals then resume_sign lib num_created signed_txs withdrawals i sign now c else stay
           | _ \<Rightarrow> stay)
      | SendTask \<Rightarrow> (case reply of SentReply \<Rightarrow> Some (None, withdrawal_round_end True c) | _ \<Rightarrow> stay)
      | SweepBlockTask sweep main \<Rightarrow>
          (case reply of
             BlockReply response \<Rightarrow>
               (case get_recent_block lib response of
                  Inl _ \<Rightarrow> Some (None, on_state (drop_timer_guard SweepDeposits) c)
                | Inr block \<Rightarrow>
                    Some (sweep_phase main block (sr_leaves_deposits_queued sweep) (sr_batches sweep) 0 c))
           | _ \<Rightarrow> stay)
      | SweepTask main block leaves batches sending \<Rightarrow>
          (case reply of
             SignatureReply i sign \<Rightarrow>
               if i < length batches then resume_sweep lib main block leaves batches sending i sign now c else stay
           | SentReply \<Rightarrow> Some (sweep_phase main block leaves batches (sending - 1) c)
           | _ \<Rightarrow> stay)
      | MintTask minting entry rest \<Rightarrow>
          (case reply of
             MintReply response \<Rightarrow>
               Option.bind (process_mint_answer lib (fst entry) response now c)
                 (mint_phase lib encode minting rest now)
           | _ \<Rightarrow> stay)
      | BlockTask transactions \<Rightarrow>
          (case reply of
             BlockReply response \<Rightarrow>
               Some (Some (StatusesTask transactions (fetch_current_block_height lib response)), c)
           | _ \<Rightarrow> stay)
      | StatusesTask transactions height \<Rightarrow>
          (case reply of
             StatusesReply results \<Rightarrow> resume_statuses lib transactions height results now c
           | _ \<Rightarrow> stay)
      | NoncesTask more_txs main nonces reads later \<Rightarrow>
          (case reply of
             NonceReply i response \<Rightarrow>
               if i < length reads then Some (resume_nonces lib more_txs main nonces reads later i response now c)
               else stay
           | _ \<Rightarrow> stay)
      | RebroadcastTask more_txs nonces later \<Rightarrow>
          (case reply of SentReply \<Rightarrow> Some (rebroadcast_phase more_txs nonces later c) | _ \<Rightarrow> stay)
      | LandedTask more_txs nonces unresolved batch later \<Rightarrow>
          (case reply of
             OutcomeReply i outcome \<Rightarrow>
               if i < length batch then resume_landed lib more_txs nonces unresolved batch later i outcome now c
               else stay
           | _ \<Rightarrow> stay)
      | CreditTask more_txs crediting \<Rightarrow>
          (case reply of
             OutcomesReply outcomes \<Rightarrow> resume_credit lib more_txs crediting outcomes now c
           | _ \<Rightarrow> stay))"

text \<open>The cleanup after a trap. If it traps itself, its changes are undone too.\<close>

definition abandon :: "sdk \<Rightarrow> task \<Rightarrow> u64 \<Rightarrow> canister \<Rightarrow> canister" where
  "abandon lib t now c =
     (case t of
        DepositTask _ call \<Rightarrow> on_state (drop_deposit_sol_guard (dc_account call)) c
      | WithdrawTask from _ _ \<Rightarrow> on_state (drop_withdrawal_guard from) c
      | KeyTask \<Rightarrow> set_timer MINTER_PUBLIC_KEY_RETRY_DELAY FetchKeyTimer c
      | CreateTask _ _ _ \<Rightarrow> on_state (drop_timer_guard WithdrawalProcessing) c
      | SignTask _ _ _ \<Rightarrow> on_state (drop_timer_guard WithdrawalProcessing) c
      | SendTask \<Rightarrow> on_state (drop_timer_guard WithdrawalProcessing) c
      | SweepBlockTask _ _ \<Rightarrow> on_state (drop_timer_guard SweepDeposits) c
      | SweepTask _ _ _ _ _ \<Rightarrow> sweep_round_end True c
      | MintTask _ entry _ \<Rightarrow>
          (case give_up_mint lib MintUnknownOutcome (fst entry) now c of
             None \<Rightarrow> c
           | Some c' \<Rightarrow> on_state (drop_timer_guard Mint) c')
      | _ \<Rightarrow> finalize_round_end True c)"

end
