(* ===== verification/Event_Effects.thy ===== *)
theory Event_Effects
  imports Interleaving Solvency
begin

text \<open>
  What an event leaves alone. Every event is recorded by one kind of task only, and what the tasks of
  the other kinds rely on between two of their pieces is kept by it: the queued deposits are taken by
  the sweep timer only, the pending mints by the mint timer only, the pending requests and the free
  nonce accounts by the withdrawal timer only, and the submitted transactions and finalized sweeps by
  the finalization timer only.
\<close>

subsection \<open>Kinds of tasks and of events\<close>

datatype kind = DepositKind account | WithdrawKind | KeyKind | TimerKind task_type

fun exclusive :: "kind \<Rightarrow> bool" where
  "exclusive (DepositKind _) = True"
| "exclusive (TimerKind _) = True"
| "exclusive _ = False"

definition event_kind :: "event_type \<Rightarrow> kind option" where
  "event_kind e =
     (case e of
        EvInit _ \<Rightarrow> None
      | EvUpgrade _ \<Rightarrow> None
      | EvAcceptedWithdrawalRequest _ \<Rightarrow> Some WithdrawKind
      | EvSubmittedTransaction _ _ _ purpose \<Rightarrow>
          (case purpose of
             PurposeWithdrawal _ \<Rightarrow> Some (TimerKind WithdrawalProcessing)
           | PurposeSweepDeposit _ _ \<Rightarrow> Some (TimerKind SweepDeposits))
      | EvSucceededTransaction _ \<Rightarrow> Some (TimerKind FinalizeTransactions)
      | EvFailedTransaction _ \<Rightarrow> Some (TimerKind FinalizeTransactions)
      | EvExpiredTransaction _ \<Rightarrow> Some (TimerKind FinalizeTransactions)
      | EvQueuedDeposit _ account _ _ _ \<Rightarrow> Some (DepositKind account)
      | EvCreditedSweep _ _ _ \<Rightarrow> Some (TimerKind FinalizeTransactions)
      | EvQuarantinedSweep _ \<Rightarrow> Some (TimerKind FinalizeTransactions)
      | EvMinterPublicKeyFetched _ _ \<Rightarrow> Some KeyKind
      | EvMintedSweptDeposit _ _ \<Rightarrow> Some (TimerKind Mint)
      | EvQuarantinedPendingMint _ \<Rightarrow> Some (TimerKind Mint)
      | EvCreatedWithdrawalTransaction _ _ _ \<Rightarrow> Some (TimerKind WithdrawalProcessing))"

subsection \<open>Effects on the deposits\<close>

definition deposit_effect :: "sdk \<Rightarrow> event_type \<Rightarrow> u64 \<Rightarrow> deposits \<Rightarrow> deposits \<Rightarrow> bool" where
  "deposit_effect lib e t d d' \<longleftrightarrow>
     (case e of
        EvQueuedDeposit i a ad b f \<Rightarrow>
          queue i \<lparr>qd_account = a, qd_address = ad, qd_balance = b, qd_deposit_fee = f\<rparr> t d = Some d'
      | EvSubmittedTransaction sig msg signers (PurposeSweepDeposit ids h) \<Rightarrow>
          (\<exists>to received. sweep_deposits lib ids to msg sig d = Some (d', received))
      | EvSucceededTransaction sig \<Rightarrow> d' = d \<or> finalize_swept sig d = Some d'
      | EvFailedTransaction sig \<Rightarrow> d' = d \<or> drop_swept sig d = Some d'
      | EvExpiredTransaction sig \<Rightarrow> drop_swept sig d = Some d'
      | EvCreditedSweep sig x cs \<Rightarrow> (\<exists>w. credit_sweep sig cs t d = Some (d', w))
      | EvQuarantinedSweep sig \<Rightarrow> quarantine_sweep sig d = Some d'
      | EvMintedSweptDeposit i b \<Rightarrow> mint_deposit i b d = Some d'
      | EvQuarantinedPendingMint i \<Rightarrow> quarantine_pending_mint i d = Some d'
      | _ \<Rightarrow> d' = d)"

lemma transition_deposit_effect:
  assumes tr: "apply_state_transition lib payload t s = Some s'"
  shows "deposit_effect lib payload t (st_deposits s) (st_deposits s')"
proof (cases payload)
  case (EvUpgrade args)
  then have "upgrade lib args s = Inr s'" using tr by (auto simp: apply_state_transition_def split: sum.splits)
  then show ?thesis by (rule upgradeD) (auto simp: upgrade_settings_def deposit_effect_def EvUpgrade)
next
  case (EvSubmittedTransaction sig msg signers purpose)
  then have "process_transaction_submitted lib sig msg signers purpose t s = Some s'"
    using tr by (simp add: apply_state_transition_def)
  then show ?thesis
    by (cases purpose, auto elim!: process_transaction_submittedD submitted_withdrawalD
        simp: sent_from_same(1) deposit_effect_def EvSubmittedTransaction) blast
next
  case (EvSucceededTransaction sig)
  then have "process_transaction_succeeded sig s = Some s'" using tr by (simp add: apply_state_transition_def)
  then show ?thesis
    by (rule process_transaction_succeededD)
       (auto simp: deposit_effect_def EvSucceededTransaction split: minter_transaction.splits)
next
  case (EvFailedTransaction sig)
  then have "process_transaction_failed sig s = Some s'" using tr by (simp add: apply_state_transition_def)
  then show ?thesis
    by (rule process_transaction_failedD)
       (auto simp: deposit_effect_def EvFailedTransaction split: minter_transaction.splits)
next
  case (EvExpiredTransaction sig)
  then have "process_transaction_expired sig s = Some s'" using tr by (simp add: apply_state_transition_def)
  then show ?thesis by (rule process_transaction_expiredD) (auto simp: deposit_effect_def EvExpiredTransaction)
next
  case (EvCreditedSweep sig x cs)
  then have "process_credited_sweep sig x cs t s = Some s'" using tr by (simp add: apply_state_transition_def)
  then show ?thesis by (rule process_credited_sweepD) (auto simp: deposit_effect_def EvCreditedSweep)
next
  case (EvCreatedWithdrawalTransaction bs n h)
  then have "process_transaction_created bs n h s = Some s'" using tr by (simp add: apply_state_transition_def)
  then show ?thesis
    by (rule process_transaction_createdD) (auto simp: created_from_def deposit_effect_def EvCreatedWithdrawalTransaction)
qed (use tr in \<open>auto simp: payload_defs cache_minter_public_key_def deposit_effect_def
    elim!: lift_depositsD dest!: process_accepted_withdrawalD(1) split: option.splits if_splits\<close>)

text \<open>The fields that the operations on deposits leave alone.\<close>

lemma deposit_operations_keep:
  "queue i q t d = Some d' \<Longrightarrow> bm_get (d_queued d) j = Some p \<Longrightarrow> deposits_wf d \<Longrightarrow> bm_get (d_queued d') j = Some p"
  "queue i q t d = Some d' \<Longrightarrow> d_pending_mints d' = d_pending_mints d \<and> d_finalized d' = d_finalized d"
  "sweep_deposits lib ids to msg sig d = Some (d', received) \<Longrightarrow>
     d_pending_mints d' = d_pending_mints d \<and> d_finalized d' = d_finalized d \<and> d_in_flight_ids d' = d_in_flight_ids d"
  "finalize_swept sig d = Some d' \<Longrightarrow>
     d_queued d' = d_queued d \<and> d_pending_mints d' = d_pending_mints d \<and> d_in_flight_ids d' = d_in_flight_ids d"
  "quarantine_sweep sig d = Some d' \<Longrightarrow>
     d_queued d' = d_queued d \<and> d_pending_mints d' = d_pending_mints d \<and> d_in_flight_ids d' = d_in_flight_ids d"
  "mint_deposit i b d = Some d' \<Longrightarrow> d_queued d' = d_queued d \<and> d_finalized d' = d_finalized d"
  "quarantine_pending_mint i d = Some d' \<Longrightarrow>
     d_queued d' = d_queued d \<and> d_finalized d' = d_finalized d \<and> d_in_flight_ids d' = d_in_flight_ids d"
  "credit_sweep sig cs t d = Some (d', w) \<Longrightarrow> d_queued d' = d_queued d \<and> d_in_flight_ids d' = d_in_flight_ids d"
proof -
  assume q: "queue i q t d = Some d'" "bm_get (d_queued d) j = Some p" "deposits_wf d"
  have "j \<noteq> i"
    using queue_view(2)[OF q(3,1)] q(2) deposits_wfD(1)[OF q(3)] staged_view(1)[of d 0 j "(p, StQueued)"] by auto
  then show "bm_get (d_queued d') j = Some p" using q(1,2) by (auto elim!: queueD)
qed (auto elim!: queueD sweep_depositsD finalize_sweptD quarantine_sweepD mint_depositD quarantine_pending_mintD credit_sweepD)

lemma drop_keeps:
  assumes wf: "deposits_wf d" and drop: "drop_swept sig d = Some d'"
  shows "d_queued d' = d_queued d \<and> d_pending_mints d' = d_pending_mints d \<and> d_finalized d' = d_finalized d \<and>
    (\<forall>a. bm_get (d_in_flight_ids d) a = None \<longrightarrow> bm_get (d_in_flight_ids d') a = None)"
proof -
  obtain w where w: "sweeps_get (d_swept d) sig = Some w" using drop_sweptD[OF drop] by blast
  show ?thesis by (rule drop_sweptE[OF wf w]) (use drop in simp)
qed

text \<open>What is queued stays queued unless it is swept, and the like.\<close>

lemma queued_kept:
  assumes "deposit_effect lib e t d d'" "event_kind e \<noteq> Some (TimerKind SweepDeposits)" "deposits_wf d"
    and "bm_get (d_queued d) i = Some q"
  shows "bm_get (d_queued d') i = Some q"
  using assms(1,2,4) deposit_operations_keep(1)[OF _ assms(4,3)] drop_keeps[OF assms(3)]
  by (cases e) (auto simp: deposit_effect_def event_kind_def dest!: deposit_operations_keep(4-)
    split: transaction_purpose.splits)

lemma pending_mint_kept:
  assumes "deposit_effect lib e t d d'" "event_kind e \<noteq> Some (TimerKind Mint)" "deposits_wf d"
    and "bm_get (d_pending_mints d) i = Some p"
  shows "bm_get (d_pending_mints d') i = Some p"
proof (cases e)
  case (EvCreditedSweep sig x cs)
  then obtain w where cr: "credit_sweep sig cs t d = Some (d', w)" using assms(1) by (auto simp: deposit_effect_def)
  have "stages d i ! 3 = Some (pending_view p)" using assms(4) by simp
  then have v: "view d i = Some (pending_view p)" using staged_view(1)[OF deposits_wfD(1)[OF assms(3)], of 3] by simp
  from cr show ?thesis
  proof (rule credit_sweepD)
    fix fin P
    assume rm: "sweeps_remove sig (d_finalized d) = Some (fin, w)"
      and d': "d' = d\<lparr>d_finalized := fin, d_pending_mints := P\<rparr>"
      and other: "\<forall>i. i \<notin> sweep_ids w \<longrightarrow> bm_get P i = bm_get (d_pending_mints d) i"
    have "i \<notin> sweep_ids w"
    proof
      assume "i \<in> sweep_ids w"
      then obtain q where "bm_get (sw_deposits w) i = Some q" by (auto simp: sweep_ids_iff)
      then have "sweeps_deposit (d_finalized d) i = Some (sig, q)"
        by (rule sweeps_remove_deposit(1)[OF rm deposits_wfD(3)[OF assms(3)]])
      then have "view d i = Some (q, StFinalized sig)"
        using staged_view(1)[OF deposits_wfD(1)[OF assms(3)], of 2 i] by simp
      then show False using v by (simp add: pending_view_def)
    qed
    then show ?thesis using other assms(4) by (simp add: d')
  qed
qed (use assms drop_keeps[OF assms(3)] in \<open>auto simp: deposit_effect_def event_kind_def
    dest!: deposit_operations_keep(2-7) split: transaction_purpose.splits\<close>)

lemma not_in_flight_kept:
  assumes "deposit_effect lib e t d d'" "event_kind e \<noteq> Some (DepositKind a)" "deposits_wf d"
    and "bm_get (d_in_flight_ids d) a = None"
  shows "bm_get (d_in_flight_ids d') a = None"
  using assms drop_keeps[OF assms(3)]
  by (cases e) (auto simp: deposit_effect_def event_kind_def dest!: deposit_operations_keep(3-5,7-)
    elim!: queueD mint_depositD split: transaction_purpose.splits)

lemma finalized_kept:
  assumes "deposit_effect lib e t d d'" "event_kind e \<noteq> Some (TimerKind FinalizeTransactions)"
  shows "d_finalized d' = d_finalized d"
  using assms
  by (cases e) (auto simp: deposit_effect_def event_kind_def dest!: deposit_operations_keep(2,3,6,7)
    split: transaction_purpose.splits)

subsection \<open>Effects on the other parts of the state\<close>

definition balance_fits :: "event_type \<Rightarrow> minter_state \<Rightarrow> bool" where
  "balance_fits e s \<longleftrightarrow>
     (case e of EvCreditedSweep _ received _ \<Rightarrow> unat (st_balance s) + unat received < 2 ^ 64 | _ \<Rightarrow> True)"

text \<open>What the withdrawal timer relies on.\<close>

definition withdrawals_kept :: "minter_state \<Rightarrow> minter_state \<Rightarrow> bool" where
  "withdrawals_kept s s' \<longleftrightarrow>
     st_created_withdrawal_txs s' = st_created_withdrawal_txs s \<and>
     st_created_withdrawal_requests s' = st_created_withdrawal_requests s \<and>
     (\<forall>b p. bm_get (st_pending_withdrawal_requests s) b = Some p \<longrightarrow> bm_get (st_pending_withdrawal_requests s') b = Some p) \<and>
     set (free_accounts (st_nonce_pool s)) \<subseteq> set (free_accounts (st_nonce_pool s')) \<and>
     st_balance s \<le> st_balance s'"

lemma finalized_same:
  assumes "case tx of TxSweepDeposit _ \<Rightarrow> \<exists>d. Q d \<and> s2 = s\<lparr>st_deposits := d\<rparr>
      | TxWithdrawal _ n _ _ \<Rightarrow> \<exists>pool. free_nonce n (st_nonce_pool s) = Some pool \<and> s2 = s\<lparr>st_nonce_pool := pool\<rparr>"
  shows "withdrawals_kept s s2 \<and> st_minter_public_key s2 = st_minter_public_key s"
  using assms free_nonceD(1,3)
  by (auto simp: withdrawals_kept_def free_accounts_iff split: minter_transaction.splits)

lemma withdrawals_kept_transition:
  assumes tr: "apply_state_transition lib e t s = Some s'" and fits: "balance_fits e s"
    and kind: "event_kind e \<noteq> None" "event_kind e \<noteq> Some (TimerKind WithdrawalProcessing)"
  shows "withdrawals_kept s s'"
proof (cases e)
  case (EvSubmittedTransaction sig msg signers purpose)
  then obtain ids h where "process_transaction_submitted lib sig msg signers (PurposeSweepDeposit ids h) t s = Some s'"
    using tr kind by (cases purpose) (auto simp: apply_state_transition_def event_kind_def)
  then show ?thesis by (rule process_transaction_submittedD) (auto simp: withdrawals_kept_def)
next
  case (EvSucceededTransaction sig)
  then have "process_transaction_succeeded sig s = Some s'" using tr by (simp add: apply_state_transition_def)
  then show ?thesis
    by (rule process_transaction_succeededD) (auto dest!: finalized_same simp: withdrawals_kept_def)
next
  case (EvFailedTransaction sig)
  then have "process_transaction_failed sig s = Some s'" using tr by (simp add: apply_state_transition_def)
  then show ?thesis by (rule process_transaction_failedD) (auto dest!: finalized_same simp: withdrawals_kept_def)
next
  case (EvExpiredTransaction sig)
  then have "process_transaction_expired sig s = Some s'" using tr by (simp add: apply_state_transition_def)
  then show ?thesis by (rule process_transaction_expiredD) (auto simp: withdrawals_kept_def)
next
  case (EvCreditedSweep sig x cs)
  then have "process_credited_sweep sig x cs t s = Some s'" using tr by (simp add: apply_state_transition_def)
  moreover have "st_balance s \<le> st_balance s + x"
    using fits by (simp add: balance_fits_def EvCreditedSweep word_le_nat_alt unat_plus_no_overflow)
  ultimately show ?thesis by (auto elim!: process_credited_sweepD simp: withdrawals_kept_def)
next
  case (EvAcceptedWithdrawalRequest r)
  then have ac: "process_accepted_withdrawal r t s = Some s'" using tr by (simp add: apply_state_transition_def)
  show ?thesis unfolding process_accepted_withdrawalD(1)[OF ac] withdrawals_kept_def
    using process_accepted_withdrawalD(2)[OF ac] by auto
qed (use tr kind in \<open>auto simp: payload_defs cache_minter_public_key_def event_kind_def withdrawals_kept_def
    elim!: lift_depositsD split: option.splits if_splits\<close>)

lemma submitted_kept:
  assumes tr: "apply_state_transition lib e t s = Some s'"
    and kind: "event_kind e \<noteq> None" "event_kind e \<noteq> Some (TimerKind FinalizeTransactions)"
    and sub: "iom_get (st_submitted_transactions s) sig = Some tx"
  shows "iom_get (st_submitted_transactions s') sig = Some tx"
proof (cases e)
  case (EvSubmittedTransaction sig' msg signers purpose)
  then have ps: "process_transaction_submitted lib sig' msg signers purpose t s = Some s'"
    using tr by (simp add: apply_state_transition_def)
  show ?thesis
  proof (cases purpose)
    case (PurposeWithdrawal bs)
    from ps[unfolded PurposeWithdrawal] show ?thesis
      by (rule submitted_withdrawalD) (use sub in \<open>auto simp: iom_get_insert_fun\<close>)
  next
    case (PurposeSweepDeposit ids h)
    from ps show ?thesis
      by (rule process_transaction_submittedD) (use sub PurposeSweepDeposit in \<open>auto simp: iom_get_insert_fun\<close>)
  qed
next
  case (EvCreatedWithdrawalTransaction bs n h)
  then have "process_transaction_created bs n h s = Some s'" using tr by (simp add: apply_state_transition_def)
  then show ?thesis by (rule process_transaction_createdD) (use sub in \<open>auto simp: created_from_def\<close>)
qed (use tr kind sub in \<open>auto simp: payload_defs cache_minter_public_key_def event_kind_def
    elim!: lift_depositsD dest!: process_accepted_withdrawalD(1) split: option.splits if_splits\<close>)

lemma key_kept:
  assumes tr: "apply_state_transition lib e t s = Some s'" and kind: "event_kind e \<noteq> None"
    and key: "st_minter_public_key s = Some key"
  shows "st_minter_public_key s' = Some key"
proof (cases e)
  case (EvSubmittedTransaction sig' msg signers purpose)
  then have ps: "process_transaction_submitted lib sig' msg signers purpose t s = Some s'"
    using tr by (simp add: apply_state_transition_def)
  show ?thesis
  proof (cases purpose)
    case (PurposeWithdrawal bs)
    from ps[unfolded PurposeWithdrawal] show ?thesis
      by (rule submitted_withdrawalD) (use key in \<open>auto simp: sent_from_def\<close>)
  next
    case (PurposeSweepDeposit ids h)
    from ps show ?thesis by (rule process_transaction_submittedD) (use key PurposeSweepDeposit in auto)
  qed
next
  case (EvSucceededTransaction sig)
  then have "process_transaction_succeeded sig s = Some s'" using tr by (simp add: apply_state_transition_def)
  then show ?thesis by (rule process_transaction_succeededD) (use key in \<open>auto dest!: finalized_same\<close>)
next
  case (EvFailedTransaction sig)
  then have "process_transaction_failed sig s = Some s'" using tr by (simp add: apply_state_transition_def)
  then show ?thesis by (rule process_transaction_failedD) (use key in \<open>auto dest!: finalized_same\<close>)
next
  case (EvExpiredTransaction sig)
  then have "process_transaction_expired sig s = Some s'" using tr by (simp add: apply_state_transition_def)
  then show ?thesis by (rule process_transaction_expiredD) (use key in auto)
next
  case (EvCreditedSweep sig x cs)
  then have "process_credited_sweep sig x cs t s = Some s'" using tr by (simp add: apply_state_transition_def)
  then show ?thesis by (rule process_credited_sweepD) (use key in auto)
next
  case (EvCreatedWithdrawalTransaction bs n h)
  then have "process_transaction_created bs n h s = Some s'" using tr by (simp add: apply_state_transition_def)
  then show ?thesis by (rule process_transaction_createdD) (use key in \<open>auto simp: created_from_def\<close>)
qed (use tr kind key in \<open>auto simp: payload_defs cache_minter_public_key_def event_kind_def
    elim!: lift_depositsD dest!: process_accepted_withdrawalD(1) split: option.splits if_splits\<close>)

end
