(* ===== verification/Task_Claims.thy ===== *)
theory Task_Claims
  imports Event_Effects
begin

text \<open>
  What a suspended task relies on when it is resumed: the state it read before it was suspended, as far
  as it acts on it afterwards. The claim of a task holds when it is suspended, is kept by the events of
  all other tasks, and is enough for the task not to trap, whatever ran in between.
\<close>

subsection \<open>Claims\<close>

definition main_address :: "sdk \<Rightarrow> minter_state \<Rightarrow> address \<Rightarrow> bool" where
  "main_address lib s main \<longleftrightarrow> (\<exists>key. st_minter_public_key s = Some key \<and> main = minter_address lib key)"

definition signable :: "sdk \<Rightarrow> minter_state \<Rightarrow> bound_withdrawal list \<Rightarrow> bool" where
  "signable lib s ws \<longleftrightarrow> distinct (map bw_nonce_account ws) \<and>
     (\<forall>w \<in> set ws. \<exists>created. bm_get (st_created_withdrawal_txs s) (bw_nonce_account w) = Some created \<and>
        cw_burn_indices created = bw_burn_indices w \<and>
        bound_withdrawal_message lib s (bw_nonce_account w) created = Some (bw_message w))"

definition sweepable :: "minter_state \<Rightarrow> (deposit_sol_id \<times> queued_deposit) list list \<Rightarrow> bool" where
  "sweepable s batches \<longleftrightarrow> distinct (map fst (concat batches)) \<and>
     (\<forall>batch \<in> set batches. batch \<noteq> [] \<and> length batch \<le> MAX_DEPOSITS_PER_SWEEP) \<and>
     (\<forall>p \<in> set (concat batches). bm_get (d_queued (st_deposits s)) (fst p) = Some (snd p))"

definition mintable :: "minter_state \<Rightarrow> (deposit_sol_id \<times> pending_mint) list \<Rightarrow> bool" where
  "mintable s entries \<longleftrightarrow> distinct (map fst entries) \<and>
     (\<forall>p \<in> set entries. bm_get (d_pending_mints (st_deposits s)) (fst p) = Some (snd p))"

definition sweeps_submitted :: "minter_state \<Rightarrow> (signature, block_height) btree_map \<Rightarrow> bool" where
  "sweeps_submitted s transactions \<longleftrightarrow>
     (\<forall>sig. bm_contains transactions sig \<longrightarrow> is_sweep (iom_get (st_submitted_transactions s) sig))"

definition landable :: "minter_state \<Rightarrow> in_flight_withdrawal list \<Rightarrow> bool" where
  "landable s ws \<longleftrightarrow> distinct (map iw_signature ws) \<and>
     (\<forall>w \<in> set ws. iom_get (st_submitted_transactions s) (iw_signature w) \<noteq> None)"

definition creditable :: "minter_state \<Rightarrow> (signature \<times> sweep) list \<Rightarrow> bool" where
  "creditable s entries \<longleftrightarrow> distinct (map fst entries) \<and>
     (\<forall>p \<in> set entries. sweeps_get (d_finalized (st_deposits s)) (fst p) = Some (snd p))"

fun task_kind :: "task \<Rightarrow> kind" where
  "task_kind (DepositTask _ call) = DepositKind (dc_account call)"
| "task_kind (WithdrawTask _ _ _) = WithdrawKind"
| "task_kind KeyTask = KeyKind"
| "task_kind (CreateTask _ _ _) = TimerKind WithdrawalProcessing"
| "task_kind (SignTask _ _ _) = TimerKind WithdrawalProcessing"
| "task_kind SendTask = TimerKind WithdrawalProcessing"
| "task_kind (SweepBlockTask _ _) = TimerKind SweepDeposits"
| "task_kind (SweepTask _ _ _ _ _) = TimerKind SweepDeposits"
| "task_kind (MintTask _ _ _) = TimerKind Mint"
| "task_kind _ = TimerKind FinalizeTransactions"

fun claim :: "sdk \<Rightarrow> task \<Rightarrow> minter_state \<Rightarrow> bool" where
  "claim lib (DepositTask available call) s \<longleftrightarrow>
     bm_get (d_in_flight_ids (st_deposits s)) (dc_account call) = None \<and>
     dc_minimum_deposit_amount call = st_minimum_deposit_amount s \<and>
     dc_deposit_sol_fee call = st_deposit_sol_fee s \<and> \<not> available < st_deposit_sol_required_cycles s"
| "claim lib (WithdrawTask from amount destination) s \<longleftrightarrow> st_minimum_withdrawal_amount s \<le> amount"
| "claim lib KeyTask s \<longleftrightarrow> True"
| "claim lib (CreateTask main num_created batches) s \<longleftrightarrow> main_address lib s main \<and> reserved s batches"
| "claim lib (SignTask num_created signed_txs ws) s \<longleftrightarrow> signable lib s ws"
| "claim lib SendTask s \<longleftrightarrow> True"
| "claim lib (SweepBlockTask sweep main) s \<longleftrightarrow> main_address lib s main \<and> sweepable s (sr_batches sweep)"
| "claim lib (SweepTask main block leaves batches sending) s \<longleftrightarrow> main_address lib s main \<and> sweepable s batches"
| "claim lib (MintTask minting entry rest) s \<longleftrightarrow> mintable s (entry # rest)"
| "claim lib (BlockTask transactions) s \<longleftrightarrow> sweeps_submitted s transactions"
| "claim lib (StatusesTask transactions height) s \<longleftrightarrow> sweeps_submitted s transactions"
| "claim lib (NoncesTask more_txs main nonces reads later) s \<longleftrightarrow>
     landable s (ifn_advanced nonces @ map fst reads @ concat later)"
| "claim lib (RebroadcastTask more_txs nonces later) s \<longleftrightarrow> landable s (ifn_advanced nonces)"
| "claim lib (LandedTask more_txs nonces unresolved batch later) s \<longleftrightarrow> landable s (batch @ concat later)"
| "claim lib (CreditTask more_txs crediting) s \<longleftrightarrow> creditable s (snd crediting)"

subsection \<open>Events of other tasks keep a claim\<close>

lemma reserved_kept: "withdrawals_kept s s' \<Longrightarrow> reserved s batches \<Longrightarrow> reserved s' batches"
  unfolding withdrawals_kept_def reserved_def word_le_nat_alt by fastforce

lemma signable_kept:
  assumes "withdrawals_kept s s'" "st_minter_public_key s \<noteq> None \<Longrightarrow> st_minter_public_key s' = st_minter_public_key s"
    and "signable lib s ws"
  shows "signable lib s' ws"
proof -
  have "bound_withdrawal_message lib s' n c = Some m" if "bound_withdrawal_message lib s n c = Some m" for n c m
  proof -
    have "st_minter_public_key s \<noteq> None" by (rule bound_withdrawal_messageD[OF that]) simp
    then show ?thesis using that assms(1,2) by (simp add: bound_withdrawal_message_def withdrawals_kept_def)
  qed
  then show ?thesis using assms(1,3) unfolding signable_def withdrawals_kept_def by metis
qed

lemma main_address_kept:
  "apply_state_transition lib e t s = Some s' \<Longrightarrow> event_kind e \<noteq> None \<Longrightarrow> main_address lib s main \<Longrightarrow> main_address lib s' main"
  unfolding main_address_def using key_kept by blast

lemma submitted_claims_kept:
  assumes sub: "\<And>sig tx. iom_get (st_submitted_transactions s) sig = Some tx \<Longrightarrow>
      iom_get (st_submitted_transactions s') sig = Some tx"
  shows "sweeps_submitted s transactions \<Longrightarrow> sweeps_submitted s' transactions" "landable s ws \<Longrightarrow> landable s' ws"
proof -
  have "is_sweep (iom_get (st_submitted_transactions s') sig)" if "is_sweep (iom_get (st_submitted_transactions s) sig)" for sig
    using is_sweep_Some[OF that] sub that by metis
  then show "sweeps_submitted s transactions \<Longrightarrow> sweeps_submitted s' transactions" by (simp add: sweeps_submitted_def)
  have "iom_get (st_submitted_transactions s') sig \<noteq> None" if "iom_get (st_submitted_transactions s) sig \<noteq> None" for sig
    using that sub by (metis not_None_eq)
  then show "landable s ws \<Longrightarrow> landable s' ws" unfolding landable_def by blast
qed

lemma claim_kept:
  assumes tr: "apply_state_transition lib e t s = Some s'" and wf: "state_wf s" and fits: "balance_fits e s"
    and kind: "event_kind e \<noteq> None" "exclusive (task_kind u) \<Longrightarrow> event_kind e \<noteq> Some (task_kind u)"
    and claim: "claim lib u s"
  shows "claim lib u s'"
proof -
  note eff = transition_deposit_effect[OF tr] and dwf = state_wfD(1)[OF wf]
  have "\<And>args. e \<noteq> EvUpgrade args" using kind(1) by (auto simp: event_kind_def)
  then have set: "settings_of s' = settings_of s" using transition_settings[OF tr] by blast
  have wk: "withdrawals_kept s s'" if "task_kind u = TimerKind WithdrawalProcessing"
    using withdrawals_kept_transition[OF tr fits kind(1)] kind(2) that by simp
  have sub: "iom_get (st_submitted_transactions s') sig = Some tx"
    if "task_kind u = TimerKind FinalizeTransactions" "iom_get (st_submitted_transactions s) sig = Some tx" for sig tx
    using submitted_kept[OF tr kind(1) _ that(2)] kind(2) that(1) by simp
  show ?thesis
  proof (cases u)
    case (DepositTask available call)
    then show ?thesis
      using claim kind(2) set not_in_flight_kept[OF eff _ dwf] by (auto simp: settings_of_def)
  next
    case (WithdrawTask account amount destination)
    then show ?thesis using claim set by (simp add: settings_of_def)
  next
    case (CreateTask main n batches)
    then show ?thesis using claim main_address_kept[OF tr kind(1)] reserved_kept wk by simp
  next
    case (SignTask n signed_txs ws)
    have "st_minter_public_key s \<noteq> None \<Longrightarrow> st_minter_public_key s' = st_minter_public_key s"
      using key_kept[OF tr kind(1)] by auto
    then show ?thesis using SignTask claim signable_kept[OF wk] by simp
  next
    case (SweepBlockTask sweep main)
    then show ?thesis using claim main_address_kept[OF tr kind(1)] queued_kept[OF eff _ dwf] kind(2)
      by (simp add: sweepable_def)
  next
    case (SweepTask main block leaves batches sending)
    then show ?thesis using claim main_address_kept[OF tr kind(1)] queued_kept[OF eff _ dwf] kind(2)
      by (simp add: sweepable_def)
  next
    case (MintTask minting entry rest)
    then show ?thesis using claim pending_mint_kept[OF eff _ dwf] kind(2) by (simp add: mintable_def)
  next
    case (BlockTask transactions)
    then show ?thesis using claim submitted_claims_kept(1)[OF sub] by simp
  next
    case (StatusesTask transactions height)
    then show ?thesis using claim submitted_claims_kept(1)[OF sub] by simp
  next
    case (NoncesTask more_txs main nonces reads later)
    then show ?thesis using claim submitted_claims_kept(2)[OF sub] by simp
  next
    case (RebroadcastTask more_txs nonces later)
    then show ?thesis using claim submitted_claims_kept(2)[OF sub] by simp
  next
    case (LandedTask more_txs nonces unresolved batch later)
    then show ?thesis using claim submitted_claims_kept(2)[OF sub] by simp
  next
    case (CreditTask more_txs crediting)
    then show ?thesis using claim finalized_kept[OF eff] kind(2) by (simp add: creditable_def)
  qed simp_all
qed

subsection \<open>Claims are about the persistent state\<close>

lemma state_wf_persistent:
  assumes "state_wf (persistent s)" "watchlist_wf (st_watchlist s)"
  shows "state_wf s"
proof -
  have view: "view (forget d) = view d" "stages (forget d) = stages d" for d
    by (simp_all add: view_def stages_def fun_eq_iff)
  then have staged: "staged (forget d) = staged d" for d by (simp add: staged_def cong: if_cong)
  have "wstages (persistent s) = wstages s" by (simp add: wstages_def fun_eq_iff)
  then have "requests_wf (persistent s) = requests_wf s" by (simp add: requests_wf_def wview_def)
  then show ?thesis
    using assms by (simp add: state_wf_def transactions_wf_def deposits_wf_def view staged)
qed

lemma claim_persistent: "claim lib u (persistent s) = claim lib u s"
  by (cases u) (simp_all add: main_address_def reserved_def signable_def bound_withdrawal_message_def sweepable_def
    mintable_def sweeps_submitted_def landable_def creditable_def)

subsection \<open>Sound runs\<close>

text \<open>What the tasks ensure beyond \<open>sound_log\<close>: a deposit is queued with at least the minimum that every
  setting respects, and a batch of withdrawals is within its limit.\<close>

definition proper_event :: "event \<Rightarrow> bool" where
  "proper_event e \<longleftrightarrow>
     (case ev_payload e of
        EvQueuedDeposit _ _ _ balance _ \<Rightarrow> 1786760 \<le> deposit_balance_lamports balance
      | EvCreatedWithdrawalTransaction burn_indices _ _ \<Rightarrow> length burn_indices \<le> MAX_WITHDRAWALS_PER_NONCE_TX
      | _ \<Rightarrow> True)"

definition sound_run :: "event list \<Rightarrow> bool" where
  "sound_run log \<longleftrightarrow> sound_log log \<and> list_all proper_event log"

lemma sound_run_prefix: "sound_run (log @ [e]) \<Longrightarrow> sound_run log"
  using sound_log_prefix by (auto simp: sound_run_def)

definition funded_deposits :: "minter_state \<Rightarrow> bool" where
  "funded_deposits s \<longleftrightarrow>
     (\<forall>i q. bm_get (d_queued (st_deposits s)) i = Some q \<longrightarrow> 1786760 \<le> deposit_balance_lamports (qd_balance q))"

definition small_batches :: "minter_state \<Rightarrow> bool" where
  "small_batches s \<longleftrightarrow>
     (\<forall>n c. bm_get (st_created_withdrawal_txs s) n = Some c \<longrightarrow> length (cw_burn_indices c) \<le> MAX_WITHDRAWALS_PER_NONCE_TX)"

lemma funded_deposits_kept:
  assumes "deposit_effect lib payload t (st_deposits s) (st_deposits s')" "deposits_wf (st_deposits s)"
    and "funded_deposits s" "proper_event \<lparr>ev_timestamp = t, ev_payload = payload\<rparr>"
  shows "funded_deposits s'"
proof (cases "event_kind payload = Some (TimerKind SweepDeposits)")
  case True
  then obtain sig msg signers ids h where "payload = EvSubmittedTransaction sig msg signers (PurposeSweepDeposit ids h)"
    by (auto simp: event_kind_def split: event_type.splits transaction_purpose.splits)
  then show ?thesis
    using assms(1,3)
    by (auto simp: deposit_effect_def funded_deposits_def elim!: sweep_depositsD dest!: take_queuedD split: if_splits)
next
  case False
  then show ?thesis
    using assms drop_keeps[OF assms(2)]
    by (cases payload) (auto simp: deposit_effect_def funded_deposits_def proper_event_def event_kind_def
      dest!: deposit_operations_keep(4-) elim!: queueD split: transaction_purpose.splits if_splits)
qed

lemma small_batches_kept:
  assumes tr: "apply_state_transition lib payload t s = Some s'"
    and "small_batches s" "proper_event \<lparr>ev_timestamp = t, ev_payload = payload\<rparr>"
  shows "small_batches s'"
proof (cases payload)
  case (EvUpgrade args)
  then have "upgrade lib args s = Inr s'" using tr by (auto simp: apply_state_transition_def split: sum.splits)
  then show ?thesis by (rule upgradeD) (use assms(2) in \<open>auto simp: upgrade_settings_def small_batches_def\<close>)
next
  case (EvCreatedWithdrawalTransaction bs n h)
  then have "process_transaction_created bs n h s = Some s'" using tr by (simp add: apply_state_transition_def)
  then show ?thesis
    by (rule process_transaction_createdD)
       (use assms(2,3) EvCreatedWithdrawalTransaction in \<open>auto simp: small_batches_def proper_event_def\<close>)
next
  case (EvSubmittedTransaction sig msg signers purpose)
  then have ps: "process_transaction_submitted lib sig msg signers purpose t s = Some s'"
    using tr by (simp add: apply_state_transition_def)
  show ?thesis
  proof (cases purpose)
    case (PurposeWithdrawal bs)
    from ps[unfolded PurposeWithdrawal] show ?thesis
      by (rule submitted_withdrawalD) (use assms(2) in \<open>auto simp: small_batches_def sent_from_def split: if_splits\<close>)
  next
    case (PurposeSweepDeposit ids h)
    from ps show ?thesis
      by (rule process_transaction_submittedD) (use assms(2) PurposeSweepDeposit in \<open>auto simp: small_batches_def\<close>)
  qed
next
  case (EvCreditedSweep sig x cs)
  then have "process_credited_sweep sig x cs t s = Some s'" using tr by (simp add: apply_state_transition_def)
  then show ?thesis by (rule process_credited_sweepD) (use assms(2) in \<open>simp add: small_batches_def\<close>)
qed (use withdrawals_kept_transition[OF tr] tr assms(2) in
  \<open>auto simp: withdrawals_kept_def small_batches_def event_kind_def balance_fits_def apply_state_transition_def\<close>)

lemma log_run:
  assumes "replay_events lib log = Some s" "sound_run log"
  shows "state_wf s \<and> settings_ok s \<and> funded_deposits s \<and> small_batches s \<and> unat (st_balance s) \<le> total_received log"
proof -
  have snd: "sound_log log" using assms(2) by (simp add: sound_run_def)
  have "funded_deposits s \<and> small_batches s"
    using assms
  proof (induction rule: replay_induct)
    case (init args t s)
    then have "st_deposits s = deposits_default" "st_created_withdrawal_txs s = bm_empty"
      by (auto simp: state_from_init_def Let_def split: sum.splits)
    then show ?case by (simp add: funded_deposits_def small_batches_def deposits_default_def)
  next
    case (step log s t payload s')
    note pre = sound_run_prefix[OF step.prems]
    have "deposits_wf (st_deposits s)"
      using sound_logD(1)[OF step.hyps(1)] pre state_wfD(1) by (auto simp: sound_run_def)
    moreover have "proper_event \<lparr>ev_timestamp = t, ev_payload = payload\<rparr>" using step.prems by (simp add: sound_run_def)
    ultimately show ?case
      using funded_deposits_kept[OF transition_deposit_effect[OF step.hyps(2)]] small_batches_kept[OF step.hyps(2)]
        step.IH[OF pre] by blast
  qed
  moreover have "unat (st_balance s) \<le> total_received log"
    using log_books[OF assms(1) snd] unfolding books_def by linarith
  ultimately show ?thesis using sound_logD(1)[OF assms(1) snd] log_settings[OF assms(1)] by blast
qed

lemma run_state:
  assumes "logged lib c" "sound_run (can_log c)"
  shows "state_wf (can_state c)" "settings_ok (can_state c)" "funded_deposits (can_state c)"
    "small_batches (can_state c)" "unat (st_balance (can_state c)) \<le> total_received (can_log c)"
proof -
  have log: "replay_events lib (can_log c) = Some (persistent (can_state c))" and wl: "watchlist_wf (st_watchlist (can_state c))"
    using assms(1) by (simp_all add: logged_def)
  note run = log_run[OF log assms(2)]
  show "state_wf (can_state c)" using state_wf_persistent[OF _ wl] run by blast
  have "settings_of (persistent (can_state c)) = settings_of (can_state c)" by (simp add: settings_of_def)
  from validate_settings[OF this] show "settings_ok (can_state c)" using run by (simp add: settings_ok_def)
  show "funded_deposits (can_state c)" "small_batches (can_state c)"
    "unat (st_balance (can_state c)) \<le> total_received (can_log c)"
    using run by (simp_all add: funded_deposits_def small_batches_def)
qed

end
