(* ===== verification/Task_Progress.thy ===== *)
theory Task_Progress
  imports Task_Claims
begin

text \<open>
  Every task that is resumed or started leaves a task whose claim holds, and with replies within their
  contracts it does not trap.
\<close>

definition next_claim :: "sdk \<Rightarrow> kind \<Rightarrow> suspended \<Rightarrow> bool" where
  "next_claim lib k r \<longleftrightarrow>
     (case fst r of None \<Rightarrow> True | Some u \<Rightarrow> task_kind u = k \<and> claim lib u (can_state (snd r)))"

lemma next_claim_simps [simp]:
  "next_claim lib k (None, c)" "next_claim lib k (Some u, c) \<longleftrightarrow> task_kind u = k \<and> claim lib u (can_state c)"
  by (simp_all add: next_claim_def)

lemma remove_nthE:
  assumes "i < length xs"
  obtains ys zs where "xs = ys @ xs ! i # zs" "remove_nth i xs = ys @ zs"
  using id_take_nth_drop[OF assms] by (auto simp: remove_nth_def)

lemma process_eventD:
  assumes "process_event lib e now c = Some c'"
  shows "apply_state_transition lib e now (can_state c) = Some (can_state c')"
    "can_log c' = can_log c @ [\<lparr>ev_timestamp = now, ev_payload = e\<rparr>]"
  using assms by (auto simp: process_event_def Option.bind_eq_Some_conv)

lemma process_event_exists:
  "apply_state_transition lib e now (can_state c) = Some s \<Longrightarrow> \<exists>c'. process_event lib e now c = Some c'"
  by (simp add: process_event_def)

subsection \<open>Withdrawals\<close>

text \<open>The system instruction that advances the nonce comes first in a withdrawal message.\<close>

definition sdk_nonce_first :: "sdk \<Rightarrow> bool" where
  "sdk_nonce_first lib \<longleftrightarrow>
     (\<forall>n a h transfers. length transfers \<le> MAX_WITHDRAWALS_PER_NONCE_TX \<longrightarrow>
        advanced_nonce_account lib (Legacy (sdk_new_with_blockhash lib (sdk_advance_nonce_account lib n a #
          map (\<lambda>(target, amount). sdk_transfer lib a target amount) transfers) (Some a) h)) = Some n)"

lemma collect_filtered:
  assumes "collect_opt (map f ps) = Some rs" "distinct (map fst ps)"
    and "\<And>p w. p \<in> set ps \<Longrightarrow> f p = Some (Inr w) \<Longrightarrow> g w = fst p"
  shows "distinct (map g (List.map_filter (\<lambda>r. case r of Inl _ \<Rightarrow> None | Inr w \<Rightarrow> Some w) rs)) \<and>
    set (List.map_filter (\<lambda>r. case r of Inl _ \<Rightarrow> None | Inr w \<Rightarrow> Some w) rs) = {w. \<exists>p \<in> set ps. f p = Some (Inr w)}"
  using assms
proof (induction ps arbitrary: rs)
  case Nil
  then show ?case by (simp add: collect_opt_Some_iff List.map_filter_def)
next
  case (Cons p ps)
  obtain r rs' where rs: "rs = r # rs'" "f p = Some r" "collect_opt (map f ps) = Some rs'"
    using Cons.prems(1) by (auto split: option.splits)
  let ?g = "\<lambda>r. case r of Inl _ \<Rightarrow> None | Inr w \<Rightarrow> Some w"
  have IH: "distinct (map g (List.map_filter ?g rs'))" "set (List.map_filter ?g rs') = {w. \<exists>p \<in> set ps. f p = Some (Inr w)}"
    using Cons.IH[OF rs(3)] Cons.prems(2,3) by simp_all
  have "g w \<noteq> fst p" if w: "w \<in> set (List.map_filter ?g rs')" for w
  proof -
    obtain p' where "p' \<in> set ps" "f p' = Some (Inr w)" using w unfolding IH(2) by blast
    then have "g w = fst p'" "fst p' \<in> fst ` set ps" using Cons.prems(3) by auto
    moreover have "fst p \<notin> fst ` set ps" using Cons.prems(2) by simp
    ultimately show ?thesis by metis
  qed
  then have "fst p \<notin> g ` set (List.map_filter ?g rs')" by (metis imageE)
  moreover have "g b = fst p" if "r = Inr b" for b using Cons.prems(3)[of p b] rs(2) that by simp
  ultimately show ?case
    using IH rs by (cases r) (simp_all add: List.map_filter_simps, blast)
qed

lemma bound_withdrawal_Inr:
  assumes "main_address lib s main" "bound_withdrawal lib s main n created = Some (Inr w)"
  shows "bw_nonce_account w = n" "bw_burn_indices w = cw_burn_indices created"
    "bound_withdrawal_message lib s n created = Some (bw_message w)"
proof -
  obtain key where key: "st_minter_public_key s = Some key" "main = minter_address lib key"
    using assms(1) by (auto simp: main_address_def)
  obtain requests where requests: "collect_opt (map (created_withdrawal_request s) (cw_burn_indices created)) = Some requests"
    and w: "(case build_batch_withdrawal_message lib main n (cw_nonce_value created)
                  (withdrawal_transfers requests) :: unit create_transfer_error + message of
       Inl e \<Rightarrow> Inl e
     | Inr message \<Rightarrow> Inr \<lparr>bw_nonce_account = n, bw_burn_indices = cw_burn_indices created,
         bw_message = message\<rparr>) = Inr w"
    using assms(2) by (auto simp: bound_withdrawal_def Option.bind_eq_Some_conv)
  then obtain m where m: "(build_batch_withdrawal_message lib main n (cw_nonce_value created)
      (withdrawal_transfers requests) :: unit create_transfer_error + message) = Inr m"
    "w = \<lparr>bw_nonce_account = n, bw_burn_indices = cw_burn_indices created, bw_message = m\<rparr>"
    by (auto split: sum.splits)
  then show "bw_nonce_account w = n" "bw_burn_indices w = cw_burn_indices created" by simp_all
  let ?f = "map_option (\<lambda>p. (wr_solana_address (pw_request p), wr_amount_to_transfer (pw_request p)))"
  have "map (\<lambda>b. ?f (bm_get (st_created_withdrawal_requests s) b)) (cw_burn_indices created) =
      map (map_option (\<lambda>r. (wr_solana_address r, wr_amount_to_transfer r)))
        (map (created_withdrawal_request s) (cw_burn_indices created))"
    by (simp add: created_withdrawal_request_def option.map_comp comp_def)
  also have "\<dots> = map Some (withdrawal_transfers requests)"
    using requests by (simp add: collect_opt_Some_iff withdrawal_transfers_def)
  finally have "collect_opt (map (\<lambda>b. ?f (bm_get (st_created_withdrawal_requests s) b)) (cw_burn_indices created)) =
      Some (withdrawal_transfers requests)" by (simp only: collect_opt_Some_iff)
  then show "bound_withdrawal_message lib s n created = Some (bw_message w)"
    using key m by (simp add: bound_withdrawal_message_def)
qed

lemma bound_signable:
  assumes "main_address lib s main" "bound_withdrawals lib s main = Some ws"
  shows "signable lib s ws"
proof -
  let ?ps = "take MAX_CONCURRENT_SIGNATURES (sort_key min_burn_index (bm_iter (st_created_withdrawal_txs s)))"
  obtain rs where rs: "collect_opt (map (\<lambda>(n, created). bound_withdrawal lib s main n created) ?ps) = Some rs"
    and ws: "ws = List.map_filter (\<lambda>r. case r of Inl _ \<Rightarrow> None | Inr w \<Rightarrow> Some w) rs"
    using assms(2) by (auto simp: bound_withdrawals_def Option.bind_eq_Some_conv)
  have "distinct (map fst (sort_key min_burn_index (bm_iter (st_created_withdrawal_txs s))))"
    using bm_iter_distinct[of "st_created_withdrawal_txs s"] by (simp add: distinct_map)
  then have dist: "distinct (map fst ?ps)" by (simp add: take_map[symmetric])
  have "bw_nonce_account w = fst p"
    if "p \<in> set ?ps" "(\<lambda>(n, created). bound_withdrawal lib s main n created) p = Some (Inr w)" for p w
    using that(2) bound_withdrawal_Inr(1)[OF assms(1)] by (cases p) simp
  note filtered = collect_filtered[where g = bw_nonce_account, OF rs dist this]
  have ok: "distinct (map bw_nonce_account ws)"
    "set ws = {w. \<exists>p \<in> set ?ps. (\<lambda>(n, created). bound_withdrawal lib s main n created) p = Some (Inr w)}"
    unfolding ws using filtered by simp_all
  have "\<exists>created. bm_get (st_created_withdrawal_txs s) (bw_nonce_account w) = Some created \<and>
      cw_burn_indices created = bw_burn_indices w \<and>
      bound_withdrawal_message lib s (bw_nonce_account w) created = Some (bw_message w)" if "w \<in> set ws" for w
  proof -
    obtain n created where nc: "(n, created) \<in> set ?ps" "bound_withdrawal lib s main n created = Some (Inr w)"
      using \<open>w \<in> set ws\<close> unfolding ok(2) by auto
    have "(n, created) \<in> set (bm_iter (st_created_withdrawal_txs s))" using in_set_takeD[OF nc(1)] by simp
    then show ?thesis using bound_withdrawal_Inr[OF assms(1) nc(2)] by (simp add: bm_iter_iff)
  qed
  then show ?thesis using ok(1) by (simp add: signable_def)
qed

lemma bound_withdrawals_total:
  assumes "state_wf s"
  shows "\<exists>ws. bound_withdrawals lib s main = Some ws"
proof -
  have one: "\<exists>r. bound_withdrawal lib s main n created = Some r"
    if "bm_get (st_created_withdrawal_txs s) n = Some created" for n created
  proof -
    have "created_withdrawal_request s b \<noteq> None" if "b \<in> set (cw_burn_indices created)" for b
      using created_wfD(1)[OF state_wfD(4)[OF assms], of b] that \<open>bm_get _ n = Some created\<close>
      by (auto simp: created_withdrawal_request_def)
    then have "map (created_withdrawal_request s) (cw_burn_indices created) =
        map Some (map (\<lambda>b. the (created_withdrawal_request s b)) (cw_burn_indices created))" by auto
    then obtain rs where "collect_opt (map (created_withdrawal_request s) (cw_burn_indices created)) = Some rs"
      unfolding collect_opt_Some_iff by blast
    then show ?thesis by (simp add: bound_withdrawal_def)
  qed
  let ?f = "\<lambda>(n, created). bound_withdrawal lib s main n created"
    and ?ps = "take MAX_CONCURRENT_SIGNATURES (sort_key min_burn_index (bm_iter (st_created_withdrawal_txs s)))"
  have "?f p \<noteq> None" if "p \<in> set ?ps" for p
  proof -
    have "(fst p, snd p) \<in> set (bm_iter (st_created_withdrawal_txs s))" using in_set_takeD[OF that] by simp
    then show ?thesis using one[of "fst p" "snd p"] unfolding bm_iter_iff by (auto simp: case_prod_unfold)
  qed
  then have "map ?f ?ps = map Some (map (\<lambda>p. the (?f p)) ?ps)" by auto
  then obtain rs where "collect_opt (map ?f ?ps) = Some rs" unfolding collect_opt_Some_iff by blast
  then show ?thesis by (simp add: bound_withdrawals_def)
qed

lemma signable_middle:
  assumes "signable lib s (xs @ w # ys)"
  shows "signable lib s (xs @ ys)" "bw_nonce_account w \<notin> bw_nonce_account ` set (xs @ ys)"
  using assms by (auto simp: signable_def)

text \<open>Submitting a bound withdrawal leaves the others as they were.\<close>

lemma signable_message_nonce:
  assumes "sdk_nonce_first lib" "small_batches s" "bm_get (st_created_withdrawal_txs s) n = Some c"
    and "bound_withdrawal_message lib s n c = Some m"
  shows "advanced_nonce_account lib (Legacy m) = Some n"
  using assms(4)
proof (rule bound_withdrawal_messageD)
  fix key transfers
  assume b: "(build_batch_withdrawal_message lib (minter_address lib key) n (cw_nonce_value c) transfers
        :: unit create_transfer_error + message) = Inr m"
    and tr: "map (\<lambda>b. map_option (\<lambda>p. (wr_solana_address (pw_request p), wr_amount_to_transfer (pw_request p)))
        (bm_get (st_created_withdrawal_requests s) b)) (cw_burn_indices c) = map Some transfers"
  have "length transfers = length (cw_burn_indices c)" using arg_cong[OF tr, of length] by simp
  then have "length transfers \<le> MAX_WITHDRAWALS_PER_NONCE_TX" using assms(2,3) by (simp add: small_batches_def)
  then show ?thesis using assms(1) build_batch_Inr(1)[OF b] by (simp add: sdk_nonce_first_def)
qed

lemma signable_submitted:
  assumes sig: "signable lib s (xs @ w # ys)" and wf: "state_wf s" and law: "sdk_nonce_first lib" and small: "small_batches s"
    and ps: "process_transaction_submitted lib sg (Legacy (bw_message w)) signers (PurposeWithdrawal bs) t s = Some s'"
  shows "signable lib s' (xs @ ys)"
proof -
  obtain created where created: "bm_get (st_created_withdrawal_txs s) (bw_nonce_account w) = Some created"
    "bound_withdrawal_message lib s (bw_nonce_account w) created = Some (bw_message w)"
    using sig by (auto simp: signable_def)
  from ps obtain n c m s1 where n: "advanced_nonce_account lib (Legacy (bw_message w)) = Some n"
    and c: "bm_get (st_created_withdrawal_txs s) n = Some c" "bs = cw_burn_indices c"
    and sf: "sent_from sg (s\<lparr>st_created_withdrawal_txs := bm_remove n (st_created_withdrawal_txs s)\<rparr>) bs s1"
    and s': "s' = s1\<lparr>st_submitted_transactions := fst (iom_insert sg (TxWithdrawal (Legacy (bw_message w)) n (cw_nonce_value c) t)
      (st_submitted_transactions s))\<rparr>"
    by (rule submitted_withdrawalD)
  have nw: "n = bw_nonce_account w" using n signable_message_nonce[OF law small created] by simp
  have T: "bm_get (st_created_withdrawal_txs s') x = (if x = n then None else bm_get (st_created_withdrawal_txs s) x)"
    and R: "bm_get (st_created_withdrawal_requests s') b = (if b \<in> set bs then None else bm_get (st_created_withdrawal_requests s) b)"
    and K: "st_minter_public_key s' = st_minter_public_key s" for x b
    using sf by (auto simp: sent_from_def s')
  have "bound_withdrawal_message lib s' x d = bound_withdrawal_message lib s x d"
    if x: "bm_get (st_created_withdrawal_txs s) x = Some d" "x \<noteq> n" for x d
  proof -
    have "bm_get (st_created_withdrawal_requests s') b = bm_get (st_created_withdrawal_requests s) b"
      if b: "b \<in> set (cw_burn_indices d)" for b
    proof -
      have "b \<notin> set bs" using created_wfD(3)[OF state_wfD(4)[OF wf] c(1) x(1)] b x(2) c(2) by blast
      then show ?thesis unfolding R by simp
    qed
    then show ?thesis unfolding bound_withdrawal_message_def K by (simp cong: map_cong)
  qed
  moreover have "bw_nonce_account v \<noteq> n" if "v \<in> set (xs @ ys)" for v
    using signable_middle(2)[OF sig] that nw by (metis imageI)
  ultimately show ?thesis using signable_middle(1)[OF sig] unfolding signable_def T by metis
qed

text \<open>What the threshold signer promises: signatures of the right length that were not used before.\<close>

definition unused_signature :: "minter_state \<Rightarrow> signature \<Rightarrow> bool" where
  "unused_signature s sig \<longleftrightarrow> iom_get (st_submitted_transactions s) sig = None \<and>
     iom_get (st_failed_transactions s) sig = None \<and> \<not> bm_contains (st_succeeded_transactions s) sig"

definition fresh_signatures :: "(bytes \<Rightarrow> derivation_path \<Rightarrow> string + bytes) \<Rightarrow> minter_state \<Rightarrow> bool" where
  "fresh_signatures sign s \<longleftrightarrow>
     (\<forall>data path raw. sign data path = Inr raw \<longrightarrow> (\<exists>sig. signature_from_bytes raw = Some sig \<and> unused_signature s sig))"

lemma sign_transaction_total:
  assumes "fresh_signatures sign s"
  obtains e where "sign_transaction lib m paths sign = Some (Inl e)"
  | tx where "sign_transaction lib m paths sign = Some (Inr tx)" "\<And>sig. sig \<in> set (tx_signatures tx) \<Longrightarrow> unused_signature s sig"
proof -
  have "\<exists>r. sign_bytes paths sign data = Some r" for data
  proof (cases "collect_res (map (sign data) paths)")
    case (Inr raws)
    have "\<exists>sig. signature_from_bytes raw = Some sig" if "raw \<in> set raws" for raw
    proof -
      have "map (sign data) paths = map Inr raws" using Inr by (simp add: collect_res_Inr_iff)
      then have "Inr raw \<in> set (map (sign data) paths)" using that by simp
      then show ?thesis using assms by (auto simp: fresh_signatures_def) metis
    qed
    then have "map signature_from_bytes raws = map Some (map (\<lambda>r. the (signature_from_bytes r)) raws)" by force
    then obtain sigs where "collect_opt (map signature_from_bytes raws) = Some sigs" unfolding collect_opt_Some_iff by blast
    then show ?thesis using Inr by (simp add: sign_bytes_def)
  qed (simp add: sign_bytes_def)
  then obtain b where b: "sign_bytes paths sign (sdk_serialize lib m) = Some b" by blast
  have "\<exists>r. sign_transaction lib m paths sign = Some r"
    by (cases b) (simp_all add: sign_transaction_def b split: sum.split)
  then obtain r where r: "sign_transaction lib m paths sign = Some r" by blast
  show thesis
  proof (cases r)
    case (Inr tx)
    have "unused_signature s sig" if sig: "sig \<in> set (tx_signatures tx)" for sig
    proof -
      have "Inr (Some sig) \<in> set (map (Inr \<circ> Some) (tx_signatures tx))" using sig by simp
      then have "Inr (Some sig) \<in> set (map (\<lambda>p. map_sum id signature_from_bytes (sign (sdk_serialize lib m) p)) paths)"
        using sign_transaction_Inr(4)[OF r[unfolded Inr]] by simp
      then obtain p where "map_sum id signature_from_bytes (sign (sdk_serialize lib m) p) = Inr (Some sig)" by auto
      then obtain raw where "sign (sdk_serialize lib m) p = Inr raw" "signature_from_bytes raw = Some sig"
        by (cases "sign (sdk_serialize lib m) p") auto
      then show ?thesis using assms by (fastforce simp: fresh_signatures_def)
    qed
    then show thesis using that(2) r Inr by blast
  qed (use that(1) r in simp)
qed

lemma create_phase_claim:
  assumes "main_address lib (can_state c) main" "reserved (can_state c) batches" "create_phase lib main n batches c = Some r"
  shows "next_claim lib (TimerKind WithdrawalProcessing) r"
  using assms bound_signable[OF assms(1)]
  by (auto simp: create_phase_def sign_phase_def send_phase_def Option.bind_eq_Some_conv split: if_splits)

lemma create_phase_total: "state_wf (can_state c) \<Longrightarrow> \<exists>r. create_phase lib main n batches c = Some r"
  using bound_withdrawals_total[of "can_state c" lib main] by (auto simp: create_phase_def sign_phase_def)

lemma create_transactionD:
  assumes "create_transaction lib main batch response now c = Some (created, c')"
  obtains "c' = c" | h where
    "process_event lib (EvCreatedWithdrawalTransaction (map wr_burn_block_index (rb_requests batch)) (rb_nonce_account batch) h)
       now c = Some c'"
  using assms by (auto simp: create_transaction_def split: sum.splits if_splits)

lemma resume_create_claim:
  assumes wf: "state_wf (can_state c)" and i: "i < length batches" and cl: "claim lib (CreateTask main n batches) (can_state c)"
    and r: "resume_create lib main n batches i response now c = Some r"
  shows "next_claim lib (TimerKind WithdrawalProcessing) r"
proof -
  obtain created c' where c': "create_transaction lib main (batches ! i) response now c = Some (created, c')"
    and r': "create_phase lib main (if created then Suc n else n) (remove_nth i batches) c' = Some r"
    using r by (auto simp: resume_create_def Option.bind_eq_Some_conv)
  obtain xs ys where xs: "batches = xs @ batches ! i # ys" "remove_nth i batches = xs @ ys" by (rule remove_nthE[OF i])
  have res: "reserved (can_state c) (xs @ batches ! i # ys)" using cl xs(1) by simp
  from c' show ?thesis
  proof (cases rule: create_transactionD)
    case 1
    then show ?thesis using create_phase_claim[OF _ _ r'] cl reserved_middle(1)[OF res] xs(2) by simp
  next
    case (2 h)
    note tr = process_eventD(1)[OF 2]
    have "reserved (can_state c') (xs @ ys)"
      using reserved_created[OF res wf] tr by (simp add: apply_state_transition_def)
    moreover have "main_address lib (can_state c') main"
      using main_address_kept[OF tr] cl by (simp add: event_kind_def)
    ultimately show ?thesis using create_phase_claim[OF _ _ r'] xs(2) by simp
  qed
qed

lemma resume_create_total:
  assumes wf: "state_wf (can_state c)" and i: "i < length batches" and cl: "claim lib (CreateTask main n batches) (can_state c)"
  shows "\<exists>r. resume_create lib main n batches i response now c = Some r"
proof -
  obtain xs ys where xs: "batches = xs @ batches ! i # ys" "remove_nth i batches = xs @ ys" by (rule remove_nthE[OF i])
  have res: "reserved (can_state c) (xs @ batches ! i # ys)" using cl xs(1) by simp
  have "\<exists>created c'. create_transaction lib main (batches ! i) response now c = Some (created, c')"
  proof (cases "read_verified_nonce lib main response")
    case (Inr h)
    have "\<exists>c'. process_event lib (EvCreatedWithdrawalTransaction (map wr_burn_block_index (rb_requests (batches ! i)))
        (rb_nonce_account (batches ! i)) h) now c = Some c'"
      if "\<not> has_seen (st_nonce_pool (can_state c)) (rb_nonce_account (batches ! i)) h"
      using reserved_creates[OF res wf that] by (auto simp: apply_state_transition_def intro: process_event_exists)
    then show ?thesis
      using Inr by (auto simp: create_transaction_def split: sum.split)
  qed (auto simp: create_transaction_def)
  then obtain created c' where c': "create_transaction lib main (batches ! i) response now c = Some (created, c')" by blast
  from c' have "state_wf (can_state c')"
    by (cases rule: create_transactionD)
       (use wf in \<open>auto dest!: process_eventD(1) simp: apply_state_transition_def intro: state_wf_created\<close>)
  then show ?thesis using c' create_phase_total by (simp add: resume_create_def)
qed

lemma sign_bound_withdrawalD:
  assumes "sign_bound_withdrawal lib sign w now c = Some (tx, c')"
  obtains "tx = None" "c' = c" | sg t where "tx = Some t"
    "process_event lib (EvSubmittedTransaction sg (Legacy (bw_message w)) [SignerMinter]
       (PurposeWithdrawal (bw_burn_indices w))) now c = Some c'"
  using assms
  by (auto simp: sign_bound_withdrawal_def sign_batch_withdrawal_message_def Option.bind_eq_Some_conv
      dest: sign_transaction_Inr(1) split: option.splits sum.splits)

lemma resume_sign_claim:
  assumes wf: "state_wf (can_state c)" "small_batches (can_state c)" and law: "sdk_nonce_first lib"
    and i: "i < length ws" and cl: "claim lib (SignTask n signed_txs ws) (can_state c)"
    and r: "resume_sign lib n signed_txs ws i sign now c = Some r"
  shows "next_claim lib (TimerKind WithdrawalProcessing) r"
proof -
  obtain tx c' where c': "sign_bound_withdrawal lib sign (ws ! i) now c = Some (tx, c')"
    and r': "r = (if remove_nth i ws = [] then send_phase n (case tx of None \<Rightarrow> signed_txs | Some t \<Rightarrow> signed_txs @ [t]) c'
      else (Some (SignTask n (case tx of None \<Rightarrow> signed_txs | Some t \<Rightarrow> signed_txs @ [t]) (remove_nth i ws)), c'))"
    using r by (auto simp: resume_sign_def Option.bind_eq_Some_conv Let_def)
  obtain xs ys where xs: "ws = xs @ ws ! i # ys" "remove_nth i ws = xs @ ys" by (rule remove_nthE[OF i])
  have sig: "signable lib (can_state c) (xs @ ws ! i # ys)" using cl xs(1) by simp
  from c' have "signable lib (can_state c') (xs @ ys)"
  proof (cases rule: sign_bound_withdrawalD)
    case 1
    then show ?thesis using signable_middle(1)[OF sig] by simp
  next
    case (2 sg t)
    then show ?thesis
      using signable_submitted[OF sig wf(1) law wf(2)] process_eventD(1)[OF 2(2)] by (simp add: apply_state_transition_def)
  qed
  then show ?thesis by (simp add: r' xs(2) send_phase_def)
qed

lemma resume_sign_total:
  assumes wf: "state_wf (can_state c)" "small_batches (can_state c)" and law: "sdk_nonce_first lib"
    and i: "i < length ws" and cl: "claim lib (SignTask n signed_txs ws) (can_state c)"
    and sign: "fresh_signatures sign (can_state c)"
  shows "\<exists>r. resume_sign lib n signed_txs ws i sign now c = Some r"
proof -
  let ?w = "ws ! i"
  obtain created where created: "bm_get (st_created_withdrawal_txs (can_state c)) (bw_nonce_account ?w) = Some created"
    "cw_burn_indices created = bw_burn_indices ?w"
    "bound_withdrawal_message lib (can_state c) (bw_nonce_account ?w) created = Some (bw_message ?w)"
    using cl nth_mem[OF i] by (auto simp: signable_def)
  have "\<exists>tx c'. sign_bound_withdrawal lib sign ?w now c = Some (tx, c')"
  proof (cases rule: sign_transaction_total[OF sign, of lib "bw_message ?w" "[MINTER_DERIVATION_PATH]"])
    case (1 e)
    then show ?thesis by (simp add: sign_bound_withdrawal_def sign_batch_withdrawal_message_def)
  next
    case (2 tx)
    obtain sg where sg: "tx_signatures tx = [sg]" "tx_message tx = bw_message ?w"
      using sign_transaction_Inr(1,2)[OF 2(1)] by (auto simp: length_Suc_conv)
    have "unused_signature (can_state c) sg" using 2(2) sg(1) by simp
    then obtain s' where "process_transaction_submitted lib sg (Legacy (bw_message ?w)) [SignerMinter]
        (PurposeWithdrawal (bw_burn_indices ?w)) now (can_state c) = Some s'"
      using submit_exists[OF wf(1) created(1,3) signable_message_nonce[OF law wf(2) created(1,3)]] created(2)
      by (auto simp: unused_signature_def)
    then show ?thesis
      using 2(1) sg by (simp add: sign_bound_withdrawal_def sign_batch_withdrawal_message_def list_get_def
        process_event_def apply_state_transition_def)
  qed
  then show ?thesis by (auto simp: resume_sign_def Let_def)
qed

end
