(* ===== verification/Sweep_Progress.thy ===== *)
theory Sweep_Progress
  imports Task_Progress
begin

text \<open>
  The sweep timer and the mint timer: the batches of a sweep round stay queued until they are swept, and
  the pending mints of a mint round stay pending until they are minted, so neither timer traps.
\<close>

subsection \<open>Sweeps\<close>

lemma sweepable_queue: "sweepable s (sr_batches (take_from_queue s))"
proof -
  let ?ds = "take MAX_DEPOSITS_PER_ROUND (take (MAX_DEPOSITS_PER_ROUND + 1) (bm_iter (d_queued (st_deposits s))))"
  have b: "sr_batches (take_from_queue s) = chunks MAX_DEPOSITS_PER_SWEEP ?ds" by (simp add: take_from_queue_def Let_def)
  have "0 < MAX_DEPOSITS_PER_SWEEP" by (simp add: MAX_DEPOSITS_PER_SWEEP_def)
  note con = concat_chunks[OF this, of ?ds]
  have "distinct (map fst ?ds)" using bm_iter_distinct[of "d_queued (st_deposits s)"] by (simp flip: take_map)
  moreover have "bm_get (d_queued (st_deposits s)) (fst p) = Some (snd p)" if "p \<in> set ?ds" for p
  proof -
    have "(fst p, snd p) \<in> set (bm_iter (d_queued (st_deposits s)))" using in_set_takeD[OF in_set_takeD[OF that]] by simp
    then show ?thesis by (simp only: bm_iter_iff)
  qed
  ultimately show ?thesis unfolding sweepable_def b con using chunks_length by blast
qed

lemma sweepable_middle:
  assumes "sweepable s (xs @ b # ys)"
  shows "sweepable s (xs @ ys)" "fst ` set b \<inter> fst ` set (concat (xs @ ys)) = {}" "distinct (map fst b)"
    "b \<noteq> []" "length b \<le> 10" "p \<in> set b \<Longrightarrow> bm_get (d_queued (st_deposits s)) (fst p) = Some (snd p)"
proof -
  have "distinct (map fst (concat xs) @ map fst b @ map fst (concat ys))" using assms by (simp add: sweepable_def)
  note d = distinct_drop[OF this]
  have d': "distinct (map fst (concat (xs @ ys)))" using d by simp
  show "sweepable s (xs @ ys)" using assms d' by (auto simp: sweepable_def)
  show "fst ` set b \<inter> fst ` set (concat (xs @ ys)) = {}" "distinct (map fst b)" using d by (auto simp: image_Un)
  show "b \<noteq> []" "length b \<le> 10" "p \<in> set b \<Longrightarrow> bm_get (d_queued (st_deposits s)) (fst p) = Some (snd p)"
    using assms by (auto simp: sweepable_def MAX_DEPOSITS_PER_SWEEP_def)
qed

lemma sweepable_submitted:
  assumes sw: "sweepable s (xs @ b # ys)" and p: "plan b main = Some sweep"
    and ps: "process_transaction_submitted lib sg msg signers (PurposeSweepDeposit (bm_keys (sw_deposits sweep)) h) t s = Some s'"
  shows "sweepable s' (xs @ ys)"
proof -
  note m = sweepable_middle[OF sw]
  have "set (bm_keys (sw_deposits sweep)) = fst ` set b"
    using p by (rule planE) (auto simp: bm_keys_iff bm_collect_distinct(1) map_of_eq_None_iff)
  then have q: "bm_get (d_queued (st_deposits s')) i = (if i \<in> fst ` set b then None else bm_get (d_queued (st_deposits s)) i)" for i
    using ps by (elim process_transaction_submittedD) (auto elim!: sweep_depositsD dest!: take_queuedD)
  have "fst p \<notin> fst ` set b" if "p \<in> set (concat (xs @ ys))" for p using m(2) that by blast
  then show ?thesis using m(1) by (simp add: sweepable_def q)
qed

lemma submit_sweep_transactionD:
  assumes "submit_sweep_transaction lib sign b block main now c = Some (result, c')"
  obtains e where "result = Inl e" "c' = c" | sweep sg msg signers r where "result = Inr r" "plan b main = Some sweep"
    "process_event lib (EvSubmittedTransaction sg msg signers
       (PurposeSweepDeposit (bm_keys (sw_deposits sweep)) (bl_block_height block))) now c = Some c'"
  using assms by (auto simp: submit_sweep_transaction_def elim!: bind_SomeE split: sum.splits)

lemma sweep_phase_claim:
  "main_address lib (can_state c) main \<Longrightarrow> sweepable (can_state c) batches \<Longrightarrow>
     next_claim lib (TimerKind SweepDeposits) (sweep_phase main block leaves batches sending c)"
  by (simp add: sweep_phase_def)

lemma resume_sweep_claim:
  assumes i: "i < length batches" and cl: "claim lib (SweepTask main block leaves batches sending) (can_state c)"
    and r: "resume_sweep lib main block leaves batches sending i sign now c = Some r"
  shows "next_claim lib (TimerKind SweepDeposits) r"
proof -
  obtain result c' where c': "submit_sweep_transaction lib sign (batches ! i) block main now c = Some (result, c')"
    and r': "r = sweep_phase main block leaves (remove_nth i batches) (case result of Inl _ \<Rightarrow> sending | Inr _ \<Rightarrow> Suc sending) c'"
    using r by (auto simp: resume_sweep_def Option.bind_eq_Some_conv)
  obtain xs ys where xs: "batches = xs @ batches ! i # ys" "remove_nth i batches = xs @ ys" by (rule remove_nthE[OF i])
  have sw: "sweepable (can_state c) (xs @ batches ! i # ys)" using cl xs(1) by simp
  from c' have "sweepable (can_state c') (xs @ ys) \<and> main_address lib (can_state c') main"
  proof (cases rule: submit_sweep_transactionD)
    case (1 e)
    then show ?thesis using sweepable_middle(1)[OF sw] cl by simp
  next
    case (2 sweep sg msg signers r)
    note tr = process_eventD(1)[OF 2(3)]
    show ?thesis
      using sweepable_submitted[OF sw 2(2)] tr main_address_kept[OF tr] cl
      by (simp add: apply_state_transition_def event_kind_def)
  qed
  then show ?thesis unfolding r' xs(2) by (auto intro: sweep_phase_claim)
qed

text \<open>The signers of a sweep message are addresses it transfers from, at least the fee payer.\<close>

definition sdk_sweep_signers :: "sdk \<Rightarrow> bool" where
  "sdk_sweep_signers lib \<longleftrightarrow>
     (\<forall>transfers target h. transfers \<noteq> [] \<longrightarrow>
        (let keys = sdk_signer_keys lib (sdk_new_with_blockhash lib
               (map (\<lambda>(source, amount). sdk_transfer lib source target amount) transfers) (Some (fst (hd transfers))) h)
         in keys \<noteq> [] \<and> set keys \<subseteq> fst ` set transfers))"

lemma sdk_sweep_signersD:
  assumes "sdk_sweep_signers lib" "ts \<noteq> []"
    and "m = sdk_new_with_blockhash lib (map (\<lambda>(source, amount). sdk_transfer lib source target amount) ts) (Some (fst (hd ts))) h"
  shows "sdk_signer_keys lib m \<noteq> [] \<and> set (sdk_signer_keys lib m) \<subseteq> fst ` set ts"
  using assms(1,2) unfolding sdk_sweep_signers_def Let_def assms(3) by blast

lemma sweep_signers:
  assumes law: "sdk_sweep_signers lib" and p: "plan b main = Some sweep"
  shows "\<exists>signers. signers \<noteq> [] \<and>
    collect_opt (map (\<lambda>key. map_option SignerAccount (bm_get (accounts_by_address sweep) key))
      (sdk_signer_keys lib (sweep_message lib sweep h))) = Some signers"
proof -
  let ?keys = "sdk_signer_keys lib (sweep_message lib sweep h)"
  let ?ts = "map (\<lambda>t. (tr_from t, tr_amount t)) (sw_transfers sweep)"
  have ne: "sw_transfers sweep \<noteq> []" using p by (rule planE) simp
  have "sweep_message lib sweep h = sdk_new_with_blockhash lib
      (map (\<lambda>(source, amount). sdk_transfer lib source (sw_minter_address sweep) amount) ?ts) (Some (fst (hd ?ts))) h"
    using ne by (simp add: sweep_message_def list_get_def hd_conv_nth comp_def)
  from sdk_sweep_signersD[OF law _ this] have keys: "?keys \<noteq> []" "set ?keys \<subseteq> tr_from ` set (sw_transfers sweep)"
    using ne by (simp_all add: image_image)
  have "bm_get (accounts_by_address sweep) key \<noteq> None" if key: "key \<in> set ?keys" for key
  proof -
    obtain t where t: "t \<in> set (sw_transfers sweep)" "key = tr_from t" using keys(2) key by blast
    obtain d where "bm_get (sw_deposits sweep) (tr_deposit_id t) = Some d" "tr_from t = qd_address d"
      using plan_transfer[OF p t(1)] by blast
    then have "d \<in> set (bm_values (sw_deposits sweep))" "key = qd_address d" using t(2) by (auto simp: bm_values_iff)
    then show ?thesis
      by (auto simp: accounts_by_address_def bm_get_collect map_of_eq_None_iff image_iff)
  qed
  then have "map (\<lambda>key. map_option SignerAccount (bm_get (accounts_by_address sweep) key)) ?keys =
      map Some (map (\<lambda>key. SignerAccount (the (bm_get (accounts_by_address sweep) key))) ?keys)" by force
  then show ?thesis using keys(1) unfolding collect_opt_Some_iff by blast
qed

lemma batch_plans:
  assumes sw: "sweepable s (xs @ b # ys)" and fund: "funded_deposits s"
  obtains sweep where "plan b main = Some sweep"
proof -
  note m = sweepable_middle[OF sw]
  obtain i q where q: "(i, q) \<in> set b" using m(4) by (cases b) auto
  have "1786760 \<le> deposit_balance_lamports (qd_balance q)"
    using fund m(6)[OF q] by (simp add: funded_deposits_def)
  then have "895880 \<le> unat (sweepable_amount q)"
    using unat_balance[of "qd_balance q"] by (simp add: sweepable_amount_def word_le_nat_alt)
  moreover have "unat (FEE_PER_SIGNATURE * of_nat (length b)) = 5000 * length b"
    using m(5) by (simp add: unat_word_ariths unat_of_nat)
  ultimately have "FEE_PER_SIGNATURE * of_nat (length b) \<le> sweepable_amount q"
    using m(5) by (simp add: word_le_nat_alt)
  then show thesis using plan_exists[OF m(3) q] that by blast
qed

lemma sweep_submit_exists:
  assumes wf: "state_wf s" and sw: "sweepable s (xs @ b # ys)" and p: "plan b main = Some sweep"
    and main: "main_address lib s main" and bh: "sdk_keeps_blockhash lib" and new: "unused_signature s sg"
  shows "\<exists>s'. process_transaction_submitted lib sg (Legacy (sweep_message lib sweep h)) signers
    (PurposeSweepDeposit (bm_keys (sw_deposits sweep)) height) t s = Some s'"
proof -
  note m = sweepable_middle[OF sw] and dwf = state_wfD(1)[OF wf]
  let ?d = "st_deposits s" and ?ids = "bm_keys (sw_deposits sweep)" and ?m = "sweep_message lib sweep h"
  have dep: "sw_deposits sweep = bm_collect b" using p by (rule planE)
  note get = bm_collect_distinct[OF m(3)]
  have queued: "bm_get (d_queued ?d) i = map_of b i" if i: "map_of b i \<noteq> None" for i
    using m(6)[OF map_of_SomeD] i by fastforce
  have ids: "i \<in> set ?ids \<longleftrightarrow> map_of b i \<noteq> None" for i by (simp add: bm_keys_iff dep get(1))
  obtain taken queued' where taken: "take_queued ?ids (d_queued ?d) = Some (taken, queued')"
    using take_queued_exists[OF bm_keys_distinct[of "sw_deposits sweep"], of "d_queued ?d"] ids queued by metis
  have "taken = map (\<lambda>i. (i, the (bm_get (d_queued ?d) i))) ?ids" using take_queuedD[OF taken] by blast
  also have "\<dots> = map (\<lambda>i. (i, the (bm_get (sw_deposits sweep) i))) ?ids"
    using ids queued by (simp add: dep get(1))
  also have "\<dots> = bm_iter (sw_deposits sweep)" by (rule bm_iter_eq_keys[symmetric])
  finally have "mset taken = mset b" using get(2) by (simp add: dep)
  then have plan: "plan taken main = Some sweep" using plan_mset[of taken b main] p by simp
  have "recent_blockhash ?m = h" using bh by (simp add: sweep_message_def sdk_keeps_blockhash_def)
  then have rec: "recover lib taken main (Legacy ?m) = Some (Inr sweep)" using plan by (simp add: recover_def)
  have "sweeps_deposit (d_swept ?d) i = None" if i: "bm_get (sw_deposits sweep) i \<noteq> None" for i
  proof (rule ccontr)
    assume "sweeps_deposit (d_swept ?d) i \<noteq> None"
    then obtain x q where "stages ?d i ! 1 = Some (q, StSwept x)" by auto
    moreover obtain q' where "stages ?d i ! 0 = Some (q', StQueued)"
      using i queued[of i] by (auto simp: dep get(1))
    ultimately show False
      using staged_view(1)[OF deposits_wfD(1)[OF dwf], of 0 i] staged_view(1)[OF deposits_wfD(1)[OF dwf], of 1 i] by simp
  qed
  moreover have "sweeps_get (d_swept ?d) sg = None"
    using txs_okD(6)[OF transactions_wfD(3)[OF state_wfD(3)[OF wf]], of sg] new
    by (auto simp: sweep_sigs_def unused_signature_def)
  ultimately obtain swept where swept: "sweeps_insert sg sweep (d_swept ?d) = Some swept"
    using sweeps_insert_Some_iff[of sg sweep "d_swept ?d"] by blast
  have ne: "?ids \<noteq> []" using m(4) dep get(2) by (auto simp: bm_keys_def)
  obtain key where key: "st_minter_public_key s = Some key" "main = minter_address lib key"
    using main by (auto simp: main_address_def)
  have "sweep_deposits lib ?ids main (Legacy ?m) sg ?d =
      Some (?d\<lparr>d_queued := queued', d_swept := swept\<rparr>, sw_expected_received sweep)"
    using ne taken rec swept by (simp add: sweep_deposits_def assert_that_bind)
  then show ?thesis
    using key new iom_insert_old[of sg _ "st_submitted_transactions s"]
    by (simp add: process_transaction_submitted_def unused_signature_def assert_that_bind iom_contains_key_iff
        Let_def case_prod_unfold)
qed

lemma resume_sweep_total:
  assumes wf: "state_wf (can_state c)" "funded_deposits (can_state c)"
    and laws: "sdk_keeps_blockhash lib" "sdk_sweep_signers lib"
    and i: "i < length batches" and cl: "claim lib (SweepTask main block leaves batches sending) (can_state c)"
    and sign: "fresh_signatures sign (can_state c)"
  shows "\<exists>r. resume_sweep lib main block leaves batches sending i sign now c = Some r"
proof -
  obtain xs ys where xs: "batches = xs @ batches ! i # ys" "remove_nth i batches = xs @ ys" by (rule remove_nthE[OF i])
  have sw: "sweepable (can_state c) (xs @ batches ! i # ys)" and main: "main_address lib (can_state c) main"
    using cl xs(1) by simp_all
  obtain sweep where sweep: "plan (batches ! i) main = Some sweep" by (rule batch_plans[OF sw wf(2)])
  let ?m = "sweep_message lib sweep (bl_blockhash block)"
  obtain signers where signers: "signers \<noteq> []"
    "collect_opt (map (\<lambda>key. map_option SignerAccount (bm_get (accounts_by_address sweep) key)) (sdk_signer_keys lib ?m)) =
       Some signers"
    using sweep_signers[OF laws(2) sweep] by blast
  have "\<exists>r. submit_sweep_transaction lib sign (batches ! i) block main now c = Some r"
  proof (cases rule: sign_transaction_total[OF sign, of lib ?m "map signer_derivation_path signers"])
    case (1 e)
    then show ?thesis using sweep signers(2) by (simp add: submit_sweep_transaction_def sign_sweep_transaction_def Let_def)
  next
    case (2 tx)
    have tx: "tx_message tx = ?m" "length (tx_signatures tx) = length signers"
      using sign_transaction_Inr(1,2)[OF 2(1)] by simp_all
    then obtain sg sgs where sg: "tx_signatures tx = sg # sgs" using signers(1) by (cases "tx_signatures tx") auto
    have "unused_signature (can_state c) sg" using 2(2) sg by simp
    then obtain s' where "process_transaction_submitted lib sg (Legacy ?m) signers
        (PurposeSweepDeposit (bm_keys (sw_deposits sweep)) (bl_block_height block)) now (can_state c) = Some s'"
      using sweep_submit_exists[OF wf(1) sw sweep main laws(1)] by blast
    then show ?thesis
      using sweep signers(2) 2(1) sg tx(1)
      by (simp add: submit_sweep_transaction_def sign_sweep_transaction_def Let_def list_get_def process_event_def
          apply_state_transition_def)
  qed
  then show ?thesis by (auto simp: resume_sweep_def)
qed

subsection \<open>Mints\<close>

text \<open>A step for the deposit \<open>i\<close> leaves all other pending mints.\<close>

definition settles_only :: "deposit_sol_id \<Rightarrow> canister \<Rightarrow> canister \<Rightarrow> bool" where
  "settles_only i c c' \<longleftrightarrow> deposits_wf (st_deposits (can_state c')) \<and>
     (\<forall>j. j \<noteq> i \<longrightarrow> bm_get (d_pending_mints (st_deposits (can_state c'))) j =
        bm_get (d_pending_mints (st_deposits (can_state c))) j)"

lemma settles_only_event:
  assumes wf: "deposits_wf (st_deposits (can_state c))"
  shows "process_event lib (EvMintedSweptDeposit i b) now c = Some c' \<Longrightarrow> settles_only i c c'"
    "process_event lib (EvQuarantinedPendingMint i) now c = Some c' \<Longrightarrow> settles_only i c c'"
proof -
  assume "process_event lib (EvMintedSweptDeposit i b) now c = Some c'"
  from process_eventD(1)[OF this] obtain d' where d': "mint_deposit i b (st_deposits (can_state c)) = Some d'"
      "can_state c' = (can_state c)\<lparr>st_deposits := d'\<rparr>"
    by (auto simp: apply_state_transition_def payload_defs lift_deposits_def Option.bind_eq_Some_conv)
  from d'(1) show "settles_only i c c'"
    by (rule mint_depositD) (use mint_deposit_moves(2)[OF wf d'(1)] d'(2) in \<open>auto simp: settles_only_def\<close>)
next
  assume "process_event lib (EvQuarantinedPendingMint i) now c = Some c'"
  from process_eventD(1)[OF this] obtain d' where d': "quarantine_pending_mint i (st_deposits (can_state c)) = Some d'"
      "can_state c' = (can_state c)\<lparr>st_deposits := d'\<rparr>"
    by (auto simp: apply_state_transition_def payload_defs lift_deposits_def Option.bind_eq_Some_conv)
  from d'(1) show "settles_only i c c'"
    by (rule quarantine_pending_mintD)
       (use quarantine_pending_mint_moves(2)[OF wf d'(1)] d'(2) in \<open>auto simp: settles_only_def\<close>)
qed

lemma settles_only_metrics:
  "settles_only i (on_metrics m c) c' = settles_only i c c'"
  "deposits_wf (st_deposits (can_state c)) \<Longrightarrow> settles_only i c (on_metrics m c)"
  by (simp_all add: settles_only_def on_metrics_def)

lemma give_up_settles:
  "deposits_wf (st_deposits (can_state c)) \<Longrightarrow> give_up_mint lib reason i now c = Some c' \<Longrightarrow> settles_only i c c'"
  using settles_only_event(2)[of "on_metrics (record_failed_mint_attempt reason) c"]
  by (simp add: give_up_mint_def record_quarantined_pending_mint_def settles_only_def on_metrics_def)

lemma mint_answer_settles_only:
  assumes "deposits_wf (st_deposits (can_state c))" "process_mint_answer lib i response now c = Some c'"
  shows "settles_only i c c'"
proof (cases "answer_outcome response")
  case (MadeIn b)
  then show ?thesis
    using mint_answer_cases(1)[OF MadeIn, of lib i now c] assms settles_only_event(1)
    by (auto simp: record_minted_swept_deposit_def)
next
  case RetryMint
  then show ?thesis using mint_answer_cases(2)[OF RetryMint, of lib i now c] assms settles_only_metrics(2) by fastforce
next
  case GiveUpMint
  then show ?thesis using mint_answer_cases(3)[OF GiveUpMint, of lib i now c] assms give_up_settles by fastforce
next
  case UnknownBlock
  then show ?thesis using mint_answer_cases(4)[OF UnknownBlock, of lib i now c] assms by simp
qed

lemma mintable_rest:
  "settles_only i c c' \<Longrightarrow> mintable (can_state c) ((i, p) # rest) \<Longrightarrow> mintable (can_state c') rest"
  unfolding settles_only_def mintable_def by (auto simp: image_iff) (metis fst_conv snd_conv)

lemma mint_phase_total:
  assumes "deposits_wf (st_deposits (can_state c))" "mintable (can_state c) entries"
  shows "\<exists>r. mint_phase lib encode minting entries now c = Some r"
  using assms
proof (induction entries arbitrary: c)
  case (Cons entry rest)
  obtain i p where e: "entry = (i, p)" by (cases entry)
  then have "bm_get (d_pending_mints (st_deposits (can_state c))) i = Some p" using Cons.prems(2) by (simp add: mintable_def)
  then obtain c' where c': "give_up_mint lib MintExpired i now c = Some c'" using give_up_total[OF Cons.prems(1)] by blast
  note st = give_up_settles[OF Cons.prems(1) c']
  have "\<exists>r. mint_phase lib encode minting rest now c' = Some r"
    using Cons.IH[OF _ mintable_rest[OF st]] st Cons.prems(2) e by (simp add: settles_only_def)
  then show ?case using c' e by (simp add: process_pending_mint_start_def)
qed simp

lemma mint_phase_claim:
  assumes "deposits_wf (st_deposits (can_state c))" "mintable (can_state c) entries"
    and "mint_phase lib encode minting entries now c = Some r"
  shows "next_claim lib (TimerKind Mint) r"
  using assms
proof (induction entries arbitrary: c)
  case (Cons entry rest)
  obtain i p where e: "entry = (i, p)" by (cases entry)
  show ?case
  proof (cases "is_beyond_deduplication_window p now")
    case True
    then obtain c' where c': "give_up_mint lib MintExpired i now c = Some c'" "mint_phase lib encode minting rest now c' = Some r"
      using Cons.prems(3) e by (auto simp: process_pending_mint_start_def split: option.splits)
    note st = give_up_settles[OF Cons.prems(1) c'(1)]
    show ?thesis
      using Cons.IH[OF _ mintable_rest[OF st] c'(2)] st Cons.prems(2) e by (simp add: settles_only_def)
  next
    case False
    then show ?thesis using Cons.prems(2,3) e by (auto simp: process_pending_mint_start_def)
  qed
qed auto

lemma resume_mint:
  assumes wf: "deposits_wf (st_deposits (can_state c))" and cl: "claim lib (MintTask minting entry rest) (can_state c)"
  shows "answer_outcome response \<noteq> UnknownBlock \<Longrightarrow>
      \<exists>r. Option.bind (process_mint_answer lib (fst entry) response now c) (mint_phase lib encode minting rest now) = Some r"
    and "Option.bind (process_mint_answer lib (fst entry) response now c) (mint_phase lib encode minting rest now) = Some r \<Longrightarrow>
      next_claim lib (TimerKind Mint) r"
proof -
  obtain i p where e: "entry = (i, p)" by (cases entry)
  have pend: "bm_get (d_pending_mints (st_deposits (can_state c))) i = Some p" and m: "mintable (can_state c) ((i, p) # rest)"
    using cl e by (simp_all add: mintable_def)
  have rest: "deposits_wf (st_deposits (can_state c'))" "mintable (can_state c') rest"
    if "process_mint_answer lib i response now c = Some c'" for c'
    using mint_answer_settles_only[OF wf that] mintable_rest[OF mint_answer_settles_only[OF wf that] m]
    by (simp_all add: settles_only_def)
  show "\<exists>r. Option.bind (process_mint_answer lib (fst entry) response now c) (mint_phase lib encode minting rest now) = Some r"
    if "answer_outcome response \<noteq> UnknownBlock"
  proof -
    have "\<exists>c'. process_mint_answer lib i response now c = Some c'"
      using that record_minted_total[OF wf pend] give_up_total[OF wf pend] mint_answer_cases[where response = response and lib = lib and i = i and now = now and c = c]
      by (cases "answer_outcome response") metis+
    then show ?thesis using mint_phase_total[OF rest] e by auto
  qed
  show "next_claim lib (TimerKind Mint) r"
    if "Option.bind (process_mint_answer lib (fst entry) response now c) (mint_phase lib encode minting rest now) = Some r"
    using that e by (auto simp: Option.bind_eq_Some_conv simp del: split_paired_All dest: mint_phase_claim[OF rest])
qed

end
