(* ===== verification/Finalize_Progress.thy ===== *)
theory Finalize_Progress
  imports Sweep_Progress
begin

text \<open>
  The finalization of transactions: the statuses of sweeps, the withdrawals whose nonce advanced and the
  crediting of sweeps do not trap, and the tasks they suspend in have their claims.
\<close>

subsection \<open>Statuses of sweeps\<close>

text \<open>The three outcomes of a sweep.\<close>

definition outcome_event :: "(signature \<Rightarrow> event_type) \<Rightarrow> bool" where
  "outcome_event event \<longleftrightarrow> event \<in> {EvFailedTransaction, EvSucceededTransaction, EvExpiredTransaction}"

lemma outcome_step:
  assumes ev: "outcome_event event" and wf: "state_wf (can_state c)"
    and sweep: "is_sweep (iom_get (st_submitted_transactions (can_state c)) sig)"
  obtains c' where "process_event lib (event sig) now c = Some c'"
    "\<And>sig'. sig' \<noteq> sig \<Longrightarrow> iom_get (st_submitted_transactions (can_state c')) sig' =
       iom_get (st_submitted_transactions (can_state c)) sig'"
proof -
  obtain tx where tx: "iom_get (st_submitted_transactions (can_state c)) sig = Some tx" "is_sweep (Some tx)"
    using sweep by (cases "iom_get (st_submitted_transactions (can_state c)) sig") auto
  obtain s' where s': "apply_state_transition lib (event sig) now (can_state c) = Some s'"
    using succeeded_exists[OF wf tx(1)] tx(2) ev by (auto simp: outcome_event_def apply_state_transition_def)
  have sub: "iom_get (st_submitted_transactions s') = (iom_get (st_submitted_transactions (can_state c)))(sig := None)"
    using ev s' by (auto simp: outcome_event_def apply_state_transition_def iom_get_remove_fun
      elim!: process_transaction_succeededD process_transaction_failedD process_transaction_expiredD
      split: minter_transaction.splits)
  obtain c' where c': "process_event lib (event sig) now c = Some c'" using process_event_exists[OF s'] by blast
  moreover have "can_state c' = s'" using process_eventD(1)[OF c'] s' by simp
  ultimately show thesis using that sub by (metis fun_upd_other)
qed

lemma outcomes_total:
  assumes ev: "outcome_event event" and wf: "state_wf (can_state c)" "counters_le (can_state c) n" "n + length sigs < 2 ^ 64"
    and sigs: "distinct sigs" "\<And>sig. sig \<in> set sigs \<Longrightarrow> is_sweep (iom_get (st_submitted_transactions (can_state c)) sig)"
  obtains c' where "foldM (\<lambda>sig. process_event lib (event sig) now) sigs c = Some c'"
    "state_wf (can_state c')" "counters_le (can_state c') (n + length sigs)"
    "\<forall>sig. sig \<notin> set sigs \<longrightarrow> iom_get (st_submitted_transactions (can_state c')) sig =
       iom_get (st_submitted_transactions (can_state c)) sig"
  using assms(2-) 
proof (induction sigs arbitrary: c n thesis)
  case (Cons sig sigs)
  obtain c1 where c1: "process_event lib (event sig) now c = Some c1"
    and same: "\<And>sig'. sig' \<noteq> sig \<Longrightarrow> iom_get (st_submitted_transactions (can_state c1)) sig' =
       iom_get (st_submitted_transactions (can_state c)) sig'"
    by (rule outcome_step[where lib = lib and now = now, OF ev Cons.prems(2), of sig]) (use Cons.prems(6) in simp, blast)
  note tr = process_eventD(1)[OF c1]
  have "fresh_request (event sig) (can_state c)" using ev by (auto simp: outcome_event_def fresh_request_def)
  then have wf: "state_wf (can_state c1)"
    using transition_wf[OF Cons.prems(2) tr _ Cons.prems(3)] Cons.prems(4) by simp
  have cs: "counters_le (can_state c1) (Suc n)" by (rule transition_counters[OF Cons.prems(2) tr Cons.prems(3)])
  have sweeps: "is_sweep (iom_get (st_submitted_transactions (can_state c1)) sig')" if "sig' \<in> set sigs" for sig'
    using same[of sig'] Cons.prems(5,6) that by (cases "sig' = sig") auto
  obtain c' where "foldM (\<lambda>sig. process_event lib (event sig) now) sigs c1 = Some c'"
    "state_wf (can_state c')" "counters_le (can_state c') (Suc n + length sigs)"
    "\<forall>sig. sig \<notin> set sigs \<longrightarrow> iom_get (st_submitted_transactions (can_state c')) sig =
       iom_get (st_submitted_transactions (can_state c1)) sig"
    by (rule Cons.IH[OF _ wf cs]) (use Cons.prems(4,5) sweeps in auto)
  then show ?case using Cons.prems(1)[of c'] c1 same by simp
qed auto

definition classified :: "signature list \<Rightarrow> transaction_statuses \<Rightarrow> bool" where
  "classified sigs st \<longleftrightarrow>
     (let e = set (bm_keys (tst_errored st)); s = set (bm_keys (tst_succeeded st)); n = set (bm_keys (tst_not_found st))
      in e \<union> s \<union> n \<subseteq> set sigs \<and> e \<inter> s = {} \<and> e \<inter> n = {} \<and> s \<inter> n = {})"

lemma bm_keys_insert: "set (bm_keys (bm_insert k v m)) = insert k (set (bm_keys m))"
  by (auto simp: bm_keys_iff split: if_splits)

lemma classify_classified:
  "classified sigs st \<Longrightarrow> fst entry \<notin> set sigs \<Longrightarrow> classified (sigs @ [fst entry]) (classify_status entry st)"
  by (auto simp: classified_def classify_status_def Let_def bm_keys_insert split: option.splits)

lemma fold_classified:
  "distinct (map fst entries) \<Longrightarrow> classified (map fst entries) (fold classify_status entries statuses_empty)"
proof (induction entries rule: rev_induct)
  case Nil
  then show ?case by (simp add: classified_def statuses_empty_def Let_def bm_keys_def)
next
  case (snoc entry entries)
  then show ?case using classify_classified[of "map fst entries" _ entry] by simp
qed

lemma batch_entries:
  "distinct (concat batches) \<Longrightarrow>
   (let entries = concat (map (\<lambda>(signatures, result). case result of Inl _ \<Rightarrow> [] | Inr statuses \<Rightarrow> zip signatures statuses)
          (zip batches results))
    in distinct (map fst entries) \<and> set (map fst entries) \<subseteq> set (concat batches))"
proof (induction batches arbitrary: results)
  case IH: (Cons b batches)
  have zip: "distinct (map fst (zip b ys))" "set (map fst (zip b ys)) \<subseteq> set b" for ys :: "'b list"
    using IH.prems by (auto simp: map_fst_zip_take dest: in_set_takeD)
  show ?case
  proof (cases results)
    case (Cons r rs)
    let ?es = "concat (map (\<lambda>(signatures, result). case result of Inl _ \<Rightarrow> [] | Inr statuses \<Rightarrow> zip signatures statuses)
      (zip batches rs))"
    have es: "distinct (map fst ?es)" "set (map fst ?es) \<subseteq> set (concat batches)" using IH.IH[of rs] IH.prems by (simp_all add: Let_def)
    have disj: "set b \<inter> set (concat batches) = {}" using IH.prems by auto
    then show ?thesis
    proof (cases r)
      case (Inr ys)
      have "set (map fst (zip b ys)) \<inter> set (map fst ?es) = {}"
        using zip(2)[of ys] es(2) disj by blast
      then have "distinct (map fst (zip b ys @ ?es))" using zip(1)[of ys] es(1) by (simp only: map_append distinct_append)
      moreover have "set (map fst (zip b ys @ ?es)) \<subseteq> set (concat (b # batches))"
        using zip(2)[of ys] es(2) by (simp only: map_append set_append concat.simps) blast
      moreover have "concat (map (\<lambda>(signatures, result). case result of Inl _ \<Rightarrow> [] | Inr statuses \<Rightarrow> zip signatures statuses)
          (zip (b # batches) results)) = zip b ys @ ?es" using Cons Inr by simp
      ultimately show ?thesis unfolding Let_def by (simp only:)
    next
      case (Inl a)
      then have "concat (map (\<lambda>(signatures, result). case result of Inl _ \<Rightarrow> [] | Inr statuses \<Rightarrow> zip signatures statuses)
          (zip (b # batches) results)) = ?es" using Cons by simp
      moreover have "set (map fst ?es) \<subseteq> set (concat (b # batches))" using es(2) by (simp only: set_append concat.simps) blast
      ultimately show ?thesis unfolding Let_def using es(1) by (simp only:)
    qed
  qed simp
qed simp

lemma status_batches_bounds:
  assumes "distinct sigs"
  shows "distinct (concat (status_batches sigs))" "set (concat (status_batches sigs)) \<subseteq> set sigs"
    "length (concat (status_batches sigs)) \<le> 2560"
proof -
  let ?bs = "status_batches sigs"
  have "concat ?bs @ concat (drop MAX_CONCURRENT_RPC_CALLS (chunks MAX_SIGNATURES_PER_STATUS_CHECK sigs)) = sigs"
    by (simp add: status_batches_def concat_append[symmetric] concat_chunks MAX_SIGNATURES_PER_STATUS_CHECK_def
        del: concat_append)
  then show "distinct (concat ?bs)" "set (concat ?bs) \<subseteq> set sigs"
    using assms distinct_append[of "concat ?bs"] set_append[of "concat ?bs"] by (metis, metis Un_upper1)
  have "length b \<le> 256" if "b \<in> set ?bs" for b
    using chunks_length[of b 256 sigs] in_set_takeD[OF that[unfolded status_batches_def]]
    by (simp add: MAX_SIGNATURES_PER_STATUS_CHECK_def)
  then have "sum_list (map length ?bs) \<le> sum_list (map (\<lambda>_. 256) ?bs)" by (intro sum_list_mono)
  also have "\<dots> \<le> 2560" by (simp add: status_batches_def MAX_CONCURRENT_RPC_CALLS_def sum_list_triv)
  finally show "length (concat ?bs) \<le> 2560" by (simp add: length_concat)
qed

lemma check_classified:
  assumes "distinct sigs"
  shows "classified (concat (status_batches sigs)) (check_transaction_statuses (zip (status_batches sigs) results))"
  using batch_entries[OF status_batches_bounds(1)[OF assms], of results] fold_classified
  unfolding check_transaction_statuses_def classified_def Let_def by (meson subset_trans)

lemma bm_keys_bound: "set (bm_keys m) \<subseteq> set xs \<Longrightarrow> length (bm_keys m) \<le> length xs"
  using card_mono[OF finite_set, of "set (bm_keys m)" xs] distinct_card[OF bm_keys_distinct[of m]] card_length[of xs] by linarith

lemma apply_statuses_total:
  assumes wf: "state_wf (can_state c)" "counters_le (can_state c) n" and room: "n + 7680 < 2 ^ 64"
    and sub: "sweeps_submitted (can_state c) transactions"
  shows "\<exists>c'. apply_statuses lib transactions height
    (check_transaction_statuses (zip (status_batches (bm_keys transactions)) results)) now c = Some c'"
proof -
  let ?sigs = "bm_keys transactions"
  let ?st = "check_transaction_statuses (zip (status_batches ?sigs) results)"
  let ?e = "bm_keys (tst_errored ?st)" and ?s = "bm_keys (tst_succeeded ?st)" and ?n = "bm_keys (tst_not_found ?st)"
  note cl = check_classified[OF bm_keys_distinct[of transactions], of results]
    and bounds = status_batches_bounds[OF bm_keys_distinct[of transactions]]
  have sets: "set ?e \<subseteq> set ?sigs" "set ?s \<subseteq> set ?sigs" "set ?n \<subseteq> set ?sigs"
    and disj: "set ?e \<inter> set ?s = {}" "set ?e \<inter> set ?n = {}" "set ?s \<inter> set ?n = {}"
    using cl bounds(2) unfolding classified_def Let_def by blast+
  have lens: "length ?e \<le> 2560" "length ?s \<le> 2560" "length ?n \<le> 2560"
    using cl bounds(3) bm_keys_bound[of _ "concat (status_batches ?sigs)"] unfolding classified_def Let_def
    by (meson Un_subset_iff le_trans)+
  have sweep: "is_sweep (iom_get (st_submitted_transactions (can_state c)) sig)" if "sig \<in> set ?sigs" for sig
    using sub that by (simp add: sweeps_submitted_def bm_contains_def bm_keys_iff)
  have ev: "outcome_event EvFailedTransaction" "outcome_event EvSucceededTransaction" "outcome_event EvExpiredTransaction"
    by (simp_all add: outcome_event_def)
  have room1: "n + length ?e < 2 ^ 64" and room2: "n + length ?e + length ?s < 2 ^ 64" using lens room by linarith+
  note sweep0 = sweep[OF subsetD[OF sets(1)]]
  obtain c1 where c1: "foldM (\<lambda>sig. process_event lib (EvFailedTransaction sig) now) ?e c = Some c1"
    "state_wf (can_state c1)" "counters_le (can_state c1) (n + length ?e)"
    "\<forall>sig. sig \<notin> set ?e \<longrightarrow> iom_get (st_submitted_transactions (can_state c1)) sig =
       iom_get (st_submitted_transactions (can_state c)) sig"
    by (rule outcomes_total[where lib = lib and now = now, OF ev(1) wf room1 bm_keys_distinct sweep0])
  have sweep1: "is_sweep (iom_get (st_submitted_transactions (can_state c1)) sig)" if "sig \<in> set ?s \<union> set ?n" for sig
    using that disj sets sweep spec[OF c1(4), of sig] by auto
  obtain c2 where c2: "foldM (\<lambda>sig. process_event lib (EvSucceededTransaction sig) now) ?s c1 = Some c2"
    "state_wf (can_state c2)" "counters_le (can_state c2) (n + length ?e + length ?s)"
    "\<forall>sig. sig \<notin> set ?s \<longrightarrow> iom_get (st_submitted_transactions (can_state c2)) sig =
       iom_get (st_submitted_transactions (can_state c1)) sig"
    by (rule outcomes_total[where lib = lib and now = now, OF ev(2) c1(2,3) room2 bm_keys_distinct sweep1[OF UnI1]])
  have sweep2: "is_sweep (iom_get (st_submitted_transactions (can_state c2)) sig)" if "sig \<in> set ?n" for sig
    using that disj sweep1 spec[OF c2(4), of sig] by auto
  have "\<exists>c3. expire_transactions lib (tst_not_found ?st) transactions h now c2 = Some c3" for h
  proof -
    let ?ex = "expired_signatures (tst_not_found ?st) transactions h"
    have ex: "set ?ex \<subseteq> set ?n" "length ?ex \<le> 2560" "distinct ?ex"
      using lens(3) le_trans[OF length_filter_le] by (auto simp: expired_signatures_def bm_keys_distinct)
    have "n + length ?e + length ?s + length ?ex < 2 ^ 64" using ex(2) lens room by linarith
    from outcomes_total[OF ev(3) c2(2,3) this ex(3) sweep2[OF subsetD[OF ex(1)]]] show ?thesis
      unfolding expire_transactions_def by metis
  qed
  then show ?thesis using c1(1) c2(1) by (cases height) (simp_all add: apply_statuses_def)
qed

subsection \<open>Crediting\<close>

text \<open>The deposits of a finalized sweep fit into the deposits queued so far.\<close>

lemma finalized_sweep_size:
  assumes wf: "deposits_wf d" and w: "sweeps_get (d_finalized d) sig = Some w"
  shows "sum_list (map (unat \<circ> sweepable_amount) (bm_values (sw_deposits w))) + 890880 * deposit_count w \<le> queued_size d"
proof -
  let ?m = "sw_deposits w"
  have at: "view d i = Some (the (bm_get ?m i), StFinalized sig)" if i: "i \<in> set (bm_keys ?m)" for i
  proof -
    obtain q where q: "bm_get ?m i = Some q" using i bm_keys_iff[of i ?m] by blast
    have "sweeps_deposit (d_finalized d) i = Some (sig, q)"
      using sweeps_deposit_Some_iff[OF deposits_wfD(3)[OF wf]] w q by blast
    then show ?thesis
      using staged_view(1)[OF deposits_wfD(1)[OF wf], of 2 i "(q, StFinalized sig)"] q by simp
  qed
  have size: "unat (sweepable_amount q) + 890880 = deposit_size q" for q
    using unat_balance[of "qd_balance q"] by (simp add: deposit_size_def sweepable_amount_def)
  have "sum_list (map (unat \<circ> sweepable_amount) qs) + 890880 * length qs = sum_list (map deposit_size qs)" for qs
    by (induction qs) (simp_all add: size[symmetric])
  from this[of "bm_values ?m"]
  have "sum_list (map (unat \<circ> sweepable_amount) (bm_values ?m)) + 890880 * deposit_count w =
      sum_list (map deposit_size (bm_values ?m))"
    by (simp add: deposit_count_def bm_len_def bm_values_def)
  also have "map deposit_size (bm_values ?m) = map (\<lambda>i. deposit_size (the (bm_get ?m i))) (bm_keys ?m)"
    unfolding bm_values_def by (subst bm_iter_eq_keys) simp
  also have "sum_list \<dots> = (\<Sum>i \<in> set (bm_keys ?m). deposit_size (the (bm_get ?m i)))"
    by (rule sum_list_distinct_conv_sum_set[OF bm_keys_distinct])
  also have "\<dots> \<le> queued_size d"
    unfolding queued_size_def using vsum_subset[where f = "\<lambda>v. deposit_size (fst v)", OF at] by simp
  finally show ?thesis .
qed

lemma list_all2_in_set2: "list_all2 P xs ys \<Longrightarrow> y \<in> set ys \<Longrightarrow> \<exists>x \<in> set xs. P x y"
  by (induction rule: list_all2_induct) auto

lemma credit_all_exists:
  assumes "distinct (map cd_deposit_id cs)"
    and "\<And>x. x \<in> set cs \<Longrightarrow> \<exists>q. bm_get (sw_deposits w) (cd_deposit_id x) = Some q \<and> cd_amount_to_mint x \<le> sweepable_amount q \<and>
      bm_get (d_pending_mints d) (cd_deposit_id x) = None"
  shows "\<exists>d'. foldM (credit_one sig w t) cs d = Some d'"
  using assms
proof (induction cs arbitrary: d)
  case (Cons x cs)
  obtain q where q: "bm_get (sw_deposits w) (cd_deposit_id x) = Some q" "cd_amount_to_mint x \<le> sweepable_amount q"
    "bm_get (d_pending_mints d) (cd_deposit_id x) = None" using Cons.prems(2)[of x] by auto
  let ?d = "d\<lparr>d_pending_mints := bm_insert (cd_deposit_id x) \<lparr>pm_deposit = \<lparr>sd_deposit = q, sd_signature = sig\<rparr>,
      pm_amount_to_mint = cd_amount_to_mint x, pm_created_at_time = t\<rparr> (d_pending_mints d)\<rparr>"
  have "credit_one sig w t x d = Some ?d" using q by (simp add: credit_one_def assert_that_bind bm_contains_def)
  moreover have "\<exists>d'. foldM (credit_one sig w t) cs ?d = Some d'"
  proof (rule Cons.IH)
    fix y assume y: "y \<in> set cs"
    then have "cd_deposit_id y \<noteq> cd_deposit_id x" using Cons.prems(1) by (auto simp: image_iff)
    then show "\<exists>q. bm_get (sw_deposits w) (cd_deposit_id y) = Some q \<and> cd_amount_to_mint y \<le> sweepable_amount q \<and>
        bm_get (d_pending_mints ?d) (cd_deposit_id y) = None" using Cons.prems(2)[of y] y by auto
  qed (use Cons.prems(1) in simp)
  ultimately show ?case by simp
qed simp

lemma credit_exists:
  assumes wf: "deposits_wf (st_deposits s)" and w: "sweeps_get (d_finalized (st_deposits s)) sig = Some w"
    and fits: "queued_size (st_deposits s) < 2 ^ 64" and m: "mints w = Inr ms"
  shows "\<exists>s'. process_credited_sweep sig (sw_expected_received w) ms t s = Some s'"
proof -
  let ?d = "st_deposits s" and ?S = "sum_list (map (unat \<circ> sweepable_amount) (bm_values (sw_deposits w)))"
  have pl: "plan (bm_iter (sw_deposits w)) (sw_minter_address w) = Some w"
    using sweeps_wf_planned[OF deposits_wfD(3)[OF wf] w] by (simp add: planned_def)
  note size = finalized_sweep_size[OF wf w]
  have S: "?S < 2 ^ 64" and small: "5000 * deposit_count w < 2 ^ 64" using size fits by simp_all
  note fee = plan_fee_share[OF pl small]
  have sum: "sum_list (map unat (map cd_amount_to_mint ms)) + sum_list (map unat (map deposit_fee (bm_values (sw_deposits w)))) +
      5000 * deposit_count w = ?S"
    using mints_sum[OF m] fee(2) by (simp add: mult.commute)
  then have u: "unat (sum_list (map cd_amount_to_mint ms)) = sum_list (map unat (map cd_amount_to_mint ms))"
      "unat (deposit_fees w) = sum_list (map unat (map deposit_fee (bm_values (sw_deposits w))))"
    using S by (simp_all add: deposit_fees_def unat_sum_list_word del: map_map)
  then have le: "unat (sum_list (map cd_amount_to_mint ms)) + unat (deposit_fees w) = unat (sw_expected_received w)"
    using sum plan_expected_received[OF pl S] fee(1) by linarith
  obtain total where total: "checked_add (sum_list (map cd_amount_to_mint ms)) (deposit_fees w) = Some total"
    "unat total = unat (sw_expected_received w)"
    using le checked_add_Some_iff[of "sum_list (map cd_amount_to_mint ms)" "deposit_fees w" "sw_expected_received w"] by auto
  obtain fin where rm: "sweeps_remove sig (d_finalized ?d) = Some (fin, w)" using w by (simp add: sweeps_remove_Some_iff)
  have "\<exists>d'. foldM (credit_one sig w t) ms (?d\<lparr>d_finalized := fin\<rparr>) = Some d'"
  proof (rule credit_all_exists)
    show "distinct (map cd_deposit_id ms)" using mints_keys[OF m] bm_keys_distinct by simp
    fix x assume x: "x \<in> set ms"
    obtain p where p: "p \<in> set (bm_iter (sw_deposits w))" "credit_deposit FEE_PER_SIGNATURE p = Inr x"
      using list_all2_in_set2[OF mints_InrD[OF m] x] fee(2) by auto
    have q: "bm_get (sw_deposits w) (cd_deposit_id x) = Some (snd p)"
      using p credit_deposit_Inr[OF p(2)] by (simp flip: bm_iter_iff)
    have "view ?d (cd_deposit_id x) = Some (snd p, StFinalized sig)"
      using staged_view(1)[OF deposits_wfD(1)[OF wf], of 2 "cd_deposit_id x" "(snd p, StFinalized sig)"]
        sweeps_remove_deposit(1)[OF rm deposits_wfD(3)[OF wf] q] by simp
    then have "bm_get (d_pending_mints ?d) (cd_deposit_id x) = None"
      using pending_in_flight(1)[OF wf, of "cd_deposit_id x"] by (cases "bm_get (d_pending_mints ?d) (cd_deposit_id x)")
         (auto simp: pending_view_def)
    then show "\<exists>q. bm_get (sw_deposits w) (cd_deposit_id x) = Some q \<and> cd_amount_to_mint x \<le> sweepable_amount q \<and>
        bm_get (d_pending_mints (?d\<lparr>d_finalized := fin\<rparr>)) (cd_deposit_id x) = None"
      using q credit_deposit_Inr[OF p(2)] by (simp add: word_le_nat_alt)
  qed
  moreover have "length ms = deposit_count w"
    using list_all2_lengthD[OF mints_InrD[OF m]] by (simp add: deposit_count_def bm_len_def)
  ultimately show ?thesis
    using rm total by (auto simp: process_credited_sweep_def credit_sweep_def Let_def assert_that_bind word_le_nat_alt)
qed

definition credits :: "(signature \<times> sweep) list \<Rightarrow> canister \<Rightarrow> bool" where
  "credits entries c \<longleftrightarrow> deposits_wf (st_deposits (can_state c)) \<and> queued_size (st_deposits (can_state c)) < 2 ^ 64 \<and>
     creditable (can_state c) entries"

lemma creditable_rest:
  assumes "creditable s ((sig, w) # entries)" "sweeps_remove sig (d_finalized (st_deposits s)) = Some (d_finalized (st_deposits s'), w)"
  shows "creditable s' entries"
  using assms(1) sweeps_get_remove[OF assms(2)] by (auto simp: creditable_def image_iff)

lemma credits_step:
  assumes cr: "credits ((sig, w) # entries) c"
  shows "mints w = Inr ms \<Longrightarrow> \<exists>c'. process_event lib (EvCreditedSweep sig (sw_expected_received w) ms) now c = Some c' \<and>
      credits entries c'"
    and "\<exists>c'. process_event lib (EvQuarantinedSweep sig) now c = Some c' \<and> credits entries c'"
proof -
  have wf: "deposits_wf (st_deposits (can_state c))" and fits: "queued_size (st_deposits (can_state c)) < 2 ^ 64"
    and cl: "creditable (can_state c) ((sig, w) # entries)" using cr by (simp_all add: credits_def)
  have w: "sweeps_get (d_finalized (st_deposits (can_state c))) sig = Some w" using cl by (simp add: creditable_def)
  show "\<exists>c'. process_event lib (EvCreditedSweep sig (sw_expected_received w) ms) now c = Some c' \<and> credits entries c'"
    if m: "mints w = Inr ms"
  proof -
    obtain s' where s': "process_credited_sweep sig (sw_expected_received w) ms now (can_state c) = Some s'"
      using credit_exists[OF wf w fits m] by blast
    then obtain d v where d: "credit_sweep sig ms now (st_deposits (can_state c)) = Some (d, v)" "st_deposits s' = d"
      by (rule process_credited_sweepD) simp
    have "sweeps_remove sig (d_finalized (st_deposits (can_state c))) = Some (d_finalized d, w)"
      using d(1) by (rule credit_sweepD) (use w in \<open>auto simp: sweeps_remove_Some_iff\<close>)
    then have "creditable s' entries" using creditable_rest[OF cl] d(2) by simp
    then show ?thesis
      using s' d credit_sweep_moves(2)[OF wf d(1)] credit_sizes(1)[OF wf d(1) fits] fits
      by (simp add: process_event_def apply_state_transition_def credits_def)
  qed
  obtain d where d: "quarantine_sweep sig (st_deposits (can_state c)) = Some d"
    using w by (auto simp: quarantine_sweep_def sweeps_remove_def sweeps_get_def)
  have "sweeps_remove sig (d_finalized (st_deposits (can_state c))) = Some (d_finalized d, w)"
    using d by (rule quarantine_sweepD) (use w in \<open>auto simp: sweeps_remove_Some_iff\<close>)
  then have "creditable ((can_state c)\<lparr>st_deposits := d\<rparr>) entries" using creditable_rest[OF cl] by simp
  then show "\<exists>c'. process_event lib (EvQuarantinedSweep sig) now c = Some c' \<and> credits entries c'"
    using d quarantine_sweep_wf[OF wf d] quarantine_owes_same[OF wf d] fits
    by (simp add: process_event_def payload_defs lift_deposits_def credits_def owes_same_def)
qed

lemma credits_metrics: "credits entries (on_metrics m c) = credits entries c"
  by (simp add: credits_def on_metrics_def)

lemma credit_entry_total:
  assumes cr: "credits (entry # entries) c"
  shows "\<exists>k' c'. credit_entry lib now (entry, outcome) (k, c) = Some (k', c') \<and> credits entries c'"
proof -
  obtain sig w where e: "entry = (sig, w)" by (cases entry)
  have rest: "credits entries c" using cr by (auto simp: credits_def creditable_def)
  have cr': "credits ((sig, w) # entries) (on_metrics m c)" for m using cr e by (simp add: credits_metrics)
  show ?thesis
  proof (cases "decide_credit lib entry outcome")
    case (RetryLater reason)
    then show ?thesis using rest by (simp add: credit_entry_def credits_metrics)
  next
    case (Credit sig' amount ms)
    then obtain fetched :: fetched_transaction and settled :: settled_sweep where set: "settle lib w (vt_message (ft_transaction fetched)) (ft_meta fetched) = Inr settled"
      "sig' = sig" "amount = ss_amount_received settled" "ms = ss_mints settled"
      by (simp add: decide_credit_def e split: sum.splits option.splits sweep_settlement_error.splits)
    from set(1) have "ss_amount_received settled = sw_expected_received w" "mints w = Inr (ss_mints settled)"
      by (auto elim: settleE)
    then show ?thesis
      using credits_step(1)[OF cr[unfolded e], of "ss_mints settled" lib now] set(2-) Credit by (auto simp: credit_entry_def)
  next
    case (Quarantine sig')
    then have "sig' = sig"
      by (auto simp: decide_credit_def e split: sum.splits option.splits sweep_settlement_error.splits)
    then show ?thesis using credits_step(2)[OF cr', of lib now] Quarantine by (fastforce simp: credit_entry_def)
  qed
qed

lemma credit_total:
  "credits entries c \<Longrightarrow> \<exists>r. foldM (credit_entry lib now) (zip entries outcomes) (k, c) = Some r"
proof (induction entries arbitrary: outcomes k c)
  case (Cons entry entries)
  show ?case
  proof (cases outcomes)
    case (Cons outcome outcomes')
    obtain k' c' where "credit_entry lib now (entry, outcome) (k, c) = Some (k', c')" "credits entries c'"
      using credit_entry_total[OF Cons.prems] by blast
    then show ?thesis using Cons.IH[of c' outcomes' k'] Cons by simp
  qed simp
qed simp

lemma resume_credit_total:
  assumes "deposits_wf (st_deposits (can_state c))" "queued_size (st_deposits (can_state c)) < 2 ^ 64"
    and "claim lib (CreditTask more_txs crediting) (can_state c)"
  shows "\<exists>r. resume_credit lib more_txs crediting outcomes now c = Some r"
  using credit_total[of "snd crediting" c lib now outcomes 0] assms
  by (auto simp: credits_def resume_credit_def credit_finalized_sweeps_def)

subsection \<open>The phases\<close>

lemma credit_phase_claim: "next_claim lib (TimerKind FinalizeTransactions) (credit_phase more_txs c)"
proof -
  let ?m = "by_signature (d_finalized (st_deposits (can_state c)))"
  have "creditable (can_state c) (take MAX_CONCURRENT_RPC_CALLS (bm_iter ?m))"
    using bm_iter_distinct[of ?m]
    by (auto simp: creditable_def sweeps_get_def take_map[symmetric] bm_iter_iff dest!: in_set_takeD)
  then show ?thesis by (simp add: credit_phase_def Let_def credit_round_def)
qed

lemma landed_phase_claim:
  "landable (can_state c) (concat batches) \<Longrightarrow>
   next_claim lib (TimerKind FinalizeTransactions) (landed_phase more_txs nonces unresolved batches c)"
  using credit_phase_claim by (cases batches) (simp_all add: landed_phase_def)

lemma fold_rebroadcast_state: "can_state (fold (\<lambda>w c. snd (rebroadcast w c)) ws c) = can_state c"
  by (induction ws arbitrary: c) (simp_all add: rebroadcast_def on_metrics_def)

lemma rebroadcast_phase_claim:
  "landable (can_state c) (ifn_advanced nonces) \<Longrightarrow>
   next_claim lib (TimerKind FinalizeTransactions) (rebroadcast_phase more_txs nonces batches c)"
  using landed_phase_claim[of c "chunks MAX_CONCURRENT_RPC_CALLS (ifn_advanced nonces)"]
  by (cases batches) (simp_all add: rebroadcast_phase_def fold_rebroadcast_state concat_chunks MAX_CONCURRENT_RPC_CALLS_def)

lemma nonces_phase_claim:
  "landable (can_state c) (ifn_advanced nonces @ concat batches) \<Longrightarrow>
   next_claim lib (TimerKind FinalizeTransactions) (nonces_phase more_txs main nonces batches now c)"
  using rebroadcast_phase_claim[of c nonces]
  by (cases batches) (simp_all add: nonces_phase_def comp_def)

lemma iom_iter_distinct:
  assumes "iom_wf m"
  shows "distinct (map fst (iom_iter m))"
proof -
  have "inj_on snd (set (bm_iter (iom_order m)))"
  proof (rule inj_onI)
    fix p q assume pq: "p \<in> set (bm_iter (iom_order m))" "q \<in> set (bm_iter (iom_order m))" "snd p = snd q"
    from pq(1,2) have "bm_get (iom_order m) (fst p) = Some (snd p)" "bm_get (iom_order m) (fst q) = Some (snd q)"
      by (simp_all only: bm_iter_iff[symmetric] prod.collapse)
    then have "fst p = fst q" using iom_wf_entry[OF assms] pq(3) by (metis Pair_inject option.inject)
    then show "p = q" using pq(3) by (rule prod_eqI)
  qed
  moreover have "distinct (bm_iter (iom_order m))" using bm_iter_distinct[of "iom_order m"] by (simp add: distinct_map)
  ultimately have "distinct (map snd (bm_iter (iom_order m)))" by (simp add: distinct_map)
  moreover have "map fst (iom_iter m) = map snd (bm_iter (iom_order m))" by (simp add: iom_iter_wf[OF assms] comp_def case_prod_unfold)
  ultimately show ?thesis by simp
qed

lemma in_flight_landable:
  assumes "iom_wf (st_submitted_transactions s)"
  shows "landable s (in_flight_withdrawals s)"
proof -
  let ?txs = "iom_iter (st_submitted_transactions s)"
  let ?f = "\<lambda>(signature, transaction). (case transaction of
        TxWithdrawal (Legacy message) nonce_account nonce_value submitted_at \<Rightarrow>
          Some \<lparr>iw_signature = signature, iw_message = message, iw_nonce_account = nonce_account,
                iw_nonce_value = nonce_value, iw_submitted_at = submitted_at\<rparr>
      | TxSweepDeposit _ \<Rightarrow> None)"
  have dist: "distinct (map fst ?txs)" using iom_iter_distinct[OF assms] .
  have sig: "?f p = Some w \<Longrightarrow> iw_signature w = fst p" for p w
    by (auto split: prod.splits minter_transaction.splits versioned_message.splits)
  have sub: "distinct (map iw_signature (List.map_filter ?f ps)) \<and> iw_signature ` set (List.map_filter ?f ps) \<subseteq> fst ` set ps"
    if "distinct (map fst ps)" for ps
    using that
  proof (induction ps)
    case (Cons p ps)
    then show ?case using sig[of p] by (cases "?f p") (auto simp: List.map_filter_simps)
  qed (simp add: List.map_filter_simps)
  have eq: "in_flight_withdrawals s = List.map_filter ?f ?txs" by (simp add: in_flight_withdrawals_def)
  show ?thesis
    unfolding landable_def eq
  proof (intro conjI ballI)
    fix w assume "w \<in> set (List.map_filter ?f ?txs)"
    then obtain p where "p \<in> set ?txs" "iw_signature w = fst p" using sub[OF dist] by blast
    then show "iom_get (st_submitted_transactions s) (iw_signature w) \<noteq> None"
      using iom_iter_iff[OF assms, of "fst p" "snd p"] by simp
  qed (use sub[OF dist] in blast)
qed

lemma read_phase_claim:
  assumes "state_wf (can_state c)"
  shows "next_claim lib (TimerKind FinalizeTransactions) (read_phase lib more_txs now c)"
proof -
  have "landable (can_state c) []" by (simp add: landable_def)
  moreover have "landable (can_state c) (in_flight_withdrawals (can_state c))"
    by (rule in_flight_landable[OF transactions_wfD(1)[OF state_wfD(3)[OF assms]]])
  ultimately show ?thesis
    by (auto simp: read_phase_def nonces_empty_def concat_chunks MAX_CONCURRENT_RPC_CALLS_def
        intro!: nonces_phase_claim split: option.splits)
qed

lemma credit_phase_log: "can_log (snd (credit_phase more_txs c)) = can_log c"
  by (simp add: credit_phase_def Let_def finalize_round_end_def on_state_def set_timer_def)

lemma landed_phase_log: "can_log (snd (landed_phase more_txs nonces unresolved batches c)) = can_log c"
  by (simp add: landed_phase_def credit_phase_log record_undecided_def on_metrics_def split: list.splits)

lemma fold_rebroadcast_log: "can_log (fold (\<lambda>w c. snd (rebroadcast w c)) ws c) = can_log c"
  by (induction ws arbitrary: c) (simp_all add: rebroadcast_def on_metrics_def)

lemma read_phase_log: "can_log (snd (read_phase lib more_txs now c)) = can_log c"
  by (simp add: read_phase_def nonces_phase_def rebroadcast_phase_def fold_rebroadcast_log landed_phase_log
    split: option.splits list.splits)

lemma resume_statuses_claim:
  assumes "resume_statuses lib transactions height results now c = Some r" "logged lib c" "sound_run (can_log (snd r))"
  shows "next_claim lib (TimerKind FinalizeTransactions) r"
proof -
  obtain statuses c' where c': "apply_statuses lib transactions height statuses now c = Some c'"
    "r = read_phase lib (more_transactions_to_check transactions) now c'"
    using assms(1) by (auto simp: resume_statuses_def)
  have "logged lib c'" using log_invariant.kept_statuses[OF assms(2) c'(1)] by simp
  moreover have "can_log (snd r) = can_log c'" using c'(2) read_phase_log by metis
  ultimately show ?thesis using run_state(1)[of lib c'] assms(3) read_phase_claim c'(2) by simp
qed

lemma sort_advanced:
  "ifn_advanced (fold sort_nonce_read entries nonces) =
     ifn_advanced nonces @ map fst (filter (\<lambda>e. snd e = Some Advanced) entries)"
  by (induction entries arbitrary: nonces)
     (auto simp: sort_nonce_read_def leave_undecided_def split: option.splits nonce_read.splits)

lemma landable_filter:
  assumes "landable s (xs @ map fst entries @ zs)"
  shows "landable s (xs @ map fst (filter P entries) @ zs)"
proof -
  have "distinct (map (iw_signature \<circ> fst) (filter P entries))" if "distinct (map (iw_signature \<circ> fst) entries)"
    using that distinct_map_filter by blast
  then show ?thesis using assms by (auto simp: landable_def)
qed

lemma resume_nonces_claim:
  assumes i: "i < length reads" and cl: "claim lib (NoncesTask more_txs main nonces reads later) (can_state c)"
  shows "next_claim lib (TimerKind FinalizeTransactions) (resume_nonces lib more_txs main nonces reads later i response now c)"
proof -
  define reads' where "reads' = reads[i := (fst (reads ! i),
    Some (read_nonce lib main (fst (reads ! i)) response (can_state c)))]"
  have "map fst reads' = map fst reads" using i by (simp add: reads'_def map_update list_update_same_conv)
  then have cl': "landable (can_state c) (ifn_advanced nonces @ map fst reads' @ concat later)" using cl by simp
  let ?es = "map (\<lambda>(w, r). (w, the r)) reads'"
  have "map fst ?es = map fst reads'" by (simp add: case_prod_unfold)
  then have "landable (can_state c) (ifn_advanced (fold sort_nonce_read ?es nonces) @ concat later)"
    using landable_filter[of "can_state c" "ifn_advanced nonces" ?es "concat later"] cl' by (simp only: sort_advanced append_assoc)
  from nonces_phase_claim[OF this] show ?thesis
    using cl' by (simp add: resume_nonces_def Let_def reads'_def[symmetric])
qed

lemma finalize_landedD:
  assumes "finalize_landed_withdrawal lib w outcome now c = Some (f, c')" "sig \<noteq> iw_signature w"
  shows "iom_get (st_submitted_transactions (can_state c')) sig = iom_get (st_submitted_transactions (can_state c)) sig"
proof (cases "landed_event w outcome")
  case (Some e)
  then obtain f where f: "e = f (iw_signature w)" "f = EvSucceededTransaction \<or> f = EvFailedTransaction"
    by (auto simp: landed_event_def split: sum.splits option.splits if_splits)
  have "process_event lib e now c = Some c'" using Some assms(1) by (auto simp: finalize_landed_withdrawal_def)
  from process_eventD(1)[OF this] f assms(2) show ?thesis
    by (auto simp: apply_state_transition_def iom_get_remove_fun
      elim!: process_transaction_succeededD process_transaction_failedD split: minter_transaction.splits)
qed (use assms in \<open>simp add: finalize_landed_withdrawal_def\<close>)

lemma finalize_landed_total:
  assumes "state_wf (can_state c)" "iom_get (st_submitted_transactions (can_state c)) (iw_signature w) \<noteq> None"
  shows "\<exists>f c'. finalize_landed_withdrawal lib w outcome now c = Some (f, c')"
proof -
  obtain tx where "iom_get (st_submitted_transactions (can_state c)) (iw_signature w) = Some tx" using assms(2) by blast
  note ex = succeeded_exists(1,2)[OF assms(1) this]
  show ?thesis
  proof (cases "landed_event w outcome")
    case (Some e)
    then have "\<exists>s'. apply_state_transition lib e now (can_state c) = Some s'"
      using ex by (auto simp: landed_event_def apply_state_transition_def split: sum.splits option.splits if_splits)
    then show ?thesis using Some by (auto simp: finalize_landed_withdrawal_def process_event_def)
  qed (simp add: finalize_landed_withdrawal_def)
qed

lemma landable_rest:
  assumes "landable s (xs @ w # ys)"
    and "\<And>sig. sig \<noteq> iw_signature w \<Longrightarrow>
      iom_get (st_submitted_transactions s') sig = iom_get (st_submitted_transactions s) sig"
  shows "landable s' (xs @ ys)"
  unfolding landable_def
proof (intro conjI ballI)
  show "distinct (map iw_signature (xs @ ys))" using assms(1) by (auto simp: landable_def)
  fix v assume v: "v \<in> set (xs @ ys)"
  then have "iw_signature v \<noteq> iw_signature w" using assms(1) by (auto simp: landable_def image_iff)
  then show "iom_get (st_submitted_transactions s') (iw_signature v) \<noteq> None"
    using assms(2)[of "iw_signature v"] assms(1) v by (auto simp: landable_def)
qed

lemma resume_landed:
  assumes i: "i < length batch" and cl: "claim lib (LandedTask more_txs nonces unresolved batch later) (can_state c)"
  shows "state_wf (can_state c) \<Longrightarrow> \<exists>r. resume_landed lib more_txs nonces unresolved batch later i outcome now c = Some r"
    and "resume_landed lib more_txs nonces unresolved batch later i outcome now c = Some r \<Longrightarrow>
      next_claim lib (TimerKind FinalizeTransactions) r"
proof -
  obtain xs ys where xs: "batch = xs @ batch ! i # ys" "remove_nth i batch = xs @ ys" by (rule remove_nthE[OF i])
  have l: "landable (can_state c) (xs @ batch ! i # ys @ concat later)"

    using cl arg_cong[OF xs(1), of "\<lambda>b. b @ concat later"] by (simp only: claim.simps append_assoc append_Cons)
  show "\<exists>r. resume_landed lib more_txs nonces unresolved batch later i outcome now c = Some r" if "state_wf (can_state c)"
  proof -
    have "iom_get (st_submitted_transactions (can_state c)) (iw_signature (batch ! i)) \<noteq> None" using l by (simp add: landable_def)
    from finalize_landed_total[OF that this, of lib outcome now] show ?thesis by (auto simp: resume_landed_def Let_def)
  qed
  show "next_claim lib (TimerKind FinalizeTransactions) r"
    if r: "resume_landed lib more_txs nonces unresolved batch later i outcome now c = Some r"
  proof -
    obtain f c' where c': "finalize_landed_withdrawal lib (batch ! i) outcome now c = Some (f, c')"
      and r': "r = (let u = if f = UnresolvedOutcome then Suc unresolved else unresolved in
        if xs @ ys = [] then landed_phase more_txs nonces u later c'
        else (Some (LandedTask more_txs nonces u (xs @ ys) later), c'))"
      using r by (auto simp: resume_landed_def xs(2) Option.bind_eq_Some_conv Let_def)
    have "landable (can_state c') (xs @ ys @ concat later)"
      by (rule landable_rest[OF l finalize_landedD[OF c']])
    then show ?thesis using r' landed_phase_claim[of c' later] by (auto simp: Let_def)
  qed
qed

end
