(* ===== verification/Task_Runs.thy ===== *)
theory Task_Runs
  imports Finalize_Progress
begin

text \<open>
  A task as a whole: the events it may record, the guards it holds while it is suspended, the claim of
  the task it suspends in, and that it does not trap. Each is put together from the pieces.
\<close>

subsection \<open>The events of a task\<close>

fun emits :: "task \<Rightarrow> minter_state \<Rightarrow> event_type \<Rightarrow> bool" where
  "emits (DepositTask available call) s e \<longleftrightarrow>
     (\<exists>i b. dc_minimum_deposit_amount call \<le> deposit_balance_lamports b \<and>
        e = EvQueuedDeposit i (dc_account call) (dc_address call) b None)"
| "emits (WithdrawTask from amount destination) s e \<longleftrightarrow>
     (\<exists>b x. checked_sub amount (st_withdrawal_fee s) = Some x \<and>
        e = EvAcceptedWithdrawalRequest \<lparr>wr_account = from, wr_solana_address = destination,
          wr_burn_block_index = b, wr_burned_amount = amount, wr_amount_to_transfer = x\<rparr>)"
| "emits KeyTask s e \<longleftrightarrow> (\<exists>k cc. e = EvMinterPublicKeyFetched k cc)"
| "emits (CreateTask main num_created batches) s e \<longleftrightarrow>
     (\<exists>b \<in> set batches. \<exists>h. e = EvCreatedWithdrawalTransaction (map wr_burn_block_index (rb_requests b)) (rb_nonce_account b) h)"
| "emits (SignTask num_created signed_txs ws) s e \<longleftrightarrow>
     (\<exists>sig msg signers bs. e = EvSubmittedTransaction sig msg signers (PurposeWithdrawal bs))"
| "emits (SweepTask main block leaves batches sending) s e \<longleftrightarrow>
     (\<exists>sig msg signers ids h. e = EvSubmittedTransaction sig msg signers (PurposeSweepDeposit ids h))"
| "emits (MintTask minting entry rest) s e \<longleftrightarrow> (\<exists>i. e = EvQuarantinedPendingMint i) \<or> (\<exists>i b. e = EvMintedSweptDeposit i b)"
| "emits (StatusesTask transactions height) s e \<longleftrightarrow>
     (\<exists>sig. e = EvFailedTransaction sig \<or> e = EvSucceededTransaction sig \<or> e = EvExpiredTransaction sig)"
| "emits (LandedTask more_txs nonces unresolved batch later) s e \<longleftrightarrow>
     (\<exists>sig. e = EvFailedTransaction sig \<or> e = EvSucceededTransaction sig)"
| "emits (CreditTask more_txs crediting) s e \<longleftrightarrow>
     (\<exists>sig x cs. e = EvCreditedSweep sig x cs) \<or> (\<exists>sig. e = EvQuarantinedSweep sig)"
| "emits _ s e \<longleftrightarrow> False"

lemma emits_kind: "emits t s e \<Longrightarrow> event_kind e = Some (task_kind t)"
  by (cases t) (auto simp: event_kind_def)

subsection \<open>The replies a task waits for\<close>

lemma resumeE:
  assumes r: "resume lib encode t reply now c = Some r"
  obtains (stay) "r = (Some t, c)"
  | (deposit) available call accept refunded response result c' where
      "t = DepositTask available call" "reply = BalanceReply accept refunded response"
        "deposit_sol_balance lib accept refunded call response now c = Some (result, c')" "r = (None, c')"
  | (withdraw) account amount destination response result c' where
      "t = WithdrawTask account amount destination" "reply = BurnReply response"
        "withdraw_burned lib account amount destination response now c = Some (result, c')" "r = (None, c')"
  | (key) response c' where
      "t = KeyTask" "record_minter_public_key lib response now c = Some c'" "r = (None, c')"
  | (create) main n batches i response where
      "t = CreateTask main n batches" "i < length batches"
        "resume_create lib main n batches i response now c = Some r"
  | (sign) n txs ws i signing where
      "t = SignTask n txs ws" "i < length ws" "resume_sign lib n txs ws i signing now c = Some r"
  | (send)
      "t = SendTask" "r = (None, withdrawal_round_end True c)"
  | (no_block) sweeping main where
      "t = SweepBlockTask sweeping main" "r = (None, on_state (drop_timer_guard SweepDeposits) c)"
  | (block) sweeping main recent where
      "t = SweepBlockTask sweeping main"
        "r = sweep_phase main recent (sr_leaves_deposits_queued sweeping) (sr_batches sweeping) 0 c"
  | (sweep) main block leaves batches sending i signing where
      "t = SweepTask main block leaves batches sending" "i < length batches"
        "resume_sweep lib main block leaves batches sending i signing now c = Some r"
  | (sent) main block leaves batches sending where
      "t = SweepTask main block leaves batches sending" "r = sweep_phase main block leaves batches (sending - 1) c"
  | (mint) minting entry rest response where
      "t = MintTask minting entry rest"
        "Option.bind (process_mint_answer lib (fst entry) response now c) (mint_phase lib encode minting rest now)
        = Some r"
  | (height) transactions response where
      "t = BlockTask transactions"
        "r = (Some (StatusesTask transactions (fetch_current_block_height lib response)), c)"
  | (statuses) transactions h results where
      "t = StatusesTask transactions h" "resume_statuses lib transactions h results now c = Some r"
  | (nonces) more_txs main ns reads later i response where
      "t = NoncesTask more_txs main ns reads later" "i < length reads"
        "r = resume_nonces lib more_txs main ns reads later i response now c"
  | (rebroadcast) more_txs ns later where
      "t = RebroadcastTask more_txs ns later" "r = rebroadcast_phase more_txs ns later c"
  | (landed) more_txs ns unresolved batch later i outcome where
      "t = LandedTask more_txs ns unresolved batch later" "i < length batch"
        "resume_landed lib more_txs ns unresolved batch later i outcome now c = Some r"
  | (credit) more_txs crediting outcomes where
      "t = CreditTask more_txs crediting" "resume_credit lib more_txs crediting outcomes now c = Some r"
proof (cases t)
  case (DepositTask available call)
  have "r = (Some t, c) \<or> (\<exists>accept refunded response result c'.
      reply = BalanceReply accept refunded response \<and>
      deposit_sol_balance lib accept refunded call response now c = Some (result, c') \<and> r = (None, c'))"
    using r DepositTask by (cases reply) (auto simp: resume_def split: if_splits sum.splits)
  then show ?thesis using stay deposit[OF DepositTask]  by (elim disjE exE conjE) assumption+
next
  case (WithdrawTask account amount destination)
  have "r = (Some t, c) \<or> (\<exists>response result c'. reply = BurnReply response \<and>
      withdraw_burned lib account amount destination response now c = Some (result, c') \<and> r = (None, c'))"
    using r WithdrawTask by (cases reply) (auto simp: resume_def split: if_splits sum.splits)
  then show ?thesis using stay withdraw[OF WithdrawTask]  by (elim disjE exE conjE) assumption+
next
  case KeyTask
  have "r = (Some t, c) \<or> (\<exists>response c'. record_minter_public_key lib response now c = Some c' \<and>
      r = (None, c'))"
    using r KeyTask by (cases reply) (auto simp: resume_def split: if_splits sum.splits)
  then show ?thesis using stay key[OF KeyTask]  by (elim disjE exE conjE) assumption+
next
  case (CreateTask main n batches)
  have "r = (Some t, c) \<or> (\<exists>i response. i < length batches \<and>
      resume_create lib main n batches i response now c = Some r)"
    using r CreateTask by (cases reply) (auto simp: resume_def split: if_splits sum.splits)
  then show ?thesis using stay create[OF CreateTask]  by (elim disjE exE conjE) assumption+
next
  case (SignTask n txs ws)
  have "r = (Some t, c) \<or> (\<exists>i signing. i < length ws \<and>
      resume_sign lib n txs ws i signing now c = Some r)"
    using r SignTask by (cases reply) (auto simp: resume_def split: if_splits sum.splits)
  then show ?thesis using stay sign[OF SignTask]  by (elim disjE exE conjE) assumption+
next
  case SendTask
  have "r = (Some t, c) \<or> r = (None, withdrawal_round_end True c)"
    using r SendTask by (cases reply) (auto simp: resume_def split: if_splits sum.splits)
  then show ?thesis using stay send[OF SendTask]  by (elim disjE exE conjE) assumption+
next
  case (SweepBlockTask sweeping main)
  have "r = (Some t, c) \<or> r = (None, on_state (drop_timer_guard SweepDeposits) c) \<or> (\<exists>recent.
      r = sweep_phase main recent (sr_leaves_deposits_queued sweeping) (sr_batches sweeping) 0 c)"
    using r SweepBlockTask by (cases reply) (auto simp: resume_def split: if_splits sum.splits)
  then show ?thesis using stay no_block[OF SweepBlockTask] block[OF SweepBlockTask]  by (elim disjE exE conjE)
        assumption+
next
  case (SweepTask main block leaves batches sending)
  have "r = (Some t, c) \<or> (\<exists>i signing. i < length batches \<and>
      resume_sweep lib main block leaves batches sending i signing now c = Some r) \<or>
      r = sweep_phase main block leaves batches (sending - 1) c"
    using r SweepTask by (cases reply) (auto simp: resume_def split: if_splits sum.splits)
  then show ?thesis using stay sweep[OF SweepTask] sent[OF SweepTask]  by (elim disjE exE conjE) assumption+
next
  case (MintTask minting entry rest)
  have "r = (Some t, c) \<or> (\<exists>response.
      Option.bind (process_mint_answer lib (fst entry) response now c) (mint_phase lib encode minting rest now) =
      Some r)"
    using r MintTask by (cases reply) (auto simp: resume_def split: if_splits sum.splits)
  then show ?thesis using stay mint[OF MintTask]  by (elim disjE exE conjE) assumption+
next
  case (BlockTask transactions)
  have "r = (Some t, c) \<or> (\<exists>response.
      r = (Some (StatusesTask transactions (fetch_current_block_height lib response)), c))"
    using r BlockTask by (cases reply) (auto simp: resume_def split: if_splits sum.splits)
  then show ?thesis using stay height[OF BlockTask]  by (elim disjE exE conjE) assumption+
next
  case (StatusesTask transactions h)
  have "r = (Some t, c) \<or> (\<exists>results. resume_statuses lib transactions h results now c = Some r)"
    using r StatusesTask by (cases reply) (auto simp: resume_def split: if_splits sum.splits)
  then show ?thesis using stay statuses[OF StatusesTask]  by (elim disjE exE conjE) assumption+
next
  case (NoncesTask more_txs main ns reads later)
  have "r = (Some t, c) \<or> (\<exists>i response. i < length reads \<and>
      r = resume_nonces lib more_txs main ns reads later i response now c)"
    using r NoncesTask by (cases reply) (auto simp: resume_def split: if_splits sum.splits)
  then show ?thesis using stay nonces[OF NoncesTask]  by (elim disjE exE conjE) assumption+
next
  case (RebroadcastTask more_txs ns later)
  have "r = (Some t, c) \<or> r = rebroadcast_phase more_txs ns later c"
    using r RebroadcastTask by (cases reply) (auto simp: resume_def split: if_splits sum.splits)
  then show ?thesis using stay rebroadcast[OF RebroadcastTask]  by (elim disjE exE conjE) assumption+
next
  case (LandedTask more_txs ns unresolved batch later)
  have "r = (Some t, c) \<or> (\<exists>i outcome. i < length batch \<and>
      resume_landed lib more_txs ns unresolved batch later i outcome now c = Some r)"
    using r LandedTask by (cases reply) (auto simp: resume_def split: if_splits sum.splits)
  then show ?thesis using stay landed[OF LandedTask]  by (elim disjE exE conjE) assumption+
next
  case (CreditTask more_txs crediting)
  have "r = (Some t, c) \<or> (\<exists>outcomes. resume_credit lib more_txs crediting outcomes now c = Some r)"
    using r CreditTask by (cases reply) (auto simp: resume_def split: if_splits sum.splits)
  then show ?thesis using stay credit[OF CreditTask]  by (elim disjE exE conjE) assumption+
qed

lemma startE:
  assumes r: "start lib encode trigger now c = Some r"
  obtains (idle) "r = (None, c)"
  | (deposit) self available account call c' where "deposit_sol_start lib self available account c = Some (Inr (call, c'))"
      "r = (Some (DepositTask available call), c')"
  | (withdraw) account amount target destination c' where "withdraw_start lib account amount target c = Inr (destination, c')"
      "r = (Some (WithdrawTask account amount destination), c')"
  | (watch) self account result c' where "watch_deposit_address lib self account now c = Some (result, c')" "r = (None, c')"
  | (key) "r = (Some KeyTask, c)"
  | (create) main c' where "withdrawal_round_start lib c = Some (main, c')"
      "create_phase lib main 0 (reserve_batches (can_state c')) c' = Some r"
  | (sweep) sweeping main c' where "sweep_round_start lib c = Some (sweeping, main, c')"
      "r = (Some (SweepBlockTask sweeping main), c')"
  | (mint) minting c' where "mint_round_start c = Some (minting, c')"
      "mint_phase lib encode minting (mr_pending_mints minting) now c' = Some r"
  | (check) s where "timer_guard_new FinalizeTransactions (can_state c) = Inr s"
      "r = (Some (BlockTask (blockhash_transactions s)), c\<lparr>can_state := s\<rparr>)"
  | (read) s where "timer_guard_new FinalizeTransactions (can_state c) = Inr s"
      "r = read_phase lib False now (c\<lparr>can_state := s\<rparr>)"
proof (cases trigger)
  case (CallDeposit self available account)
  have "r = (None, c) \<or> (\<exists>call c'. deposit_sol_start lib self available account c = Some (Inr (call, c')) \<and>
      r = (Some (DepositTask available call), c'))"
    using r CallDeposit by (auto split: option.splits sum.splits)
  then show ?thesis using idle deposit by (elim disjE exE conjE) assumption+
next
  case (CallWithdraw account amount target)
  have "r = (None, c) \<or> (\<exists>destination c'. withdraw_start lib account amount target c = Inr (destination, c') \<and>
      r = (Some (WithdrawTask account amount destination), c'))"
    using r CallWithdraw by (auto split: sum.splits)
  then show ?thesis using idle withdraw by (elim disjE exE conjE) assumption+
next
  case (CallWatch self account)
  then have "\<exists>result c'. watch_deposit_address lib self account now c = Some (result, c') \<and> r = (None, c')" using r by auto
  then show ?thesis using watch by (elim exE conjE) assumption
next
  case (TimerFires task)
  show ?thesis
  proof (cases task)
    case FetchKeyTimer
    then have "r = (None, c) \<or> r = (Some KeyTask, c)" using r TimerFires by (auto split: if_splits)
    then show ?thesis using idle key by (elim disjE) assumption+
  next
    case WithdrawalTimer
    then have "r = (None, c) \<or> (\<exists>main c'. withdrawal_round_start lib c = Some (main, c') \<and>
        create_phase lib main 0 (reserve_batches (can_state c')) c' = Some r)"
      using r TimerFires by (auto split: option.splits)
    then show ?thesis using idle create by (elim disjE exE conjE) assumption+
  next
    case SweepTimer
    then have "r = (None, c) \<or> (\<exists>sweeping main c'. sweep_round_start lib c = Some (sweeping, main, c') \<and>
        r = (Some (SweepBlockTask sweeping main), c'))"
      using r TimerFires by (auto split: option.splits)
    then show ?thesis using idle sweep by (elim disjE exE conjE) assumption+
  next
    case MintTimer
    then have "r = (None, c) \<or> (\<exists>minting c'. mint_round_start c = Some (minting, c') \<and>
        mint_phase lib encode minting (mr_pending_mints minting) now c' = Some r)"
      using r TimerFires by (auto split: option.splits)
    then show ?thesis using idle mint by (elim disjE exE conjE) assumption+
  next
    case FinalizeTimer
    then have "r = (None, c) \<or> (\<exists>s. timer_guard_new FinalizeTransactions (can_state c) = Inr s \<and>
        (r = (Some (BlockTask (blockhash_transactions s)), c\<lparr>can_state := s\<rparr>) \<or> r = read_phase lib False now (c\<lparr>can_state := s\<rparr>)))"
      using r TimerFires by (auto simp: Let_def split: sum.splits if_splits)
    then show ?thesis using idle check read by (elim disjE exE conjE) assumption+
  qed
qed

subsection \<open>What the events keep, the tasks keep\<close>

lemma phases_unrecorded [simp]:
  "unrecorded c (snd (send_phase num_created signed_txs c))"
  "unrecorded c (snd (sweep_phase main block leaves batches sending c))"
  "unrecorded c (snd (credit_phase more_txs c))"
  by (simp_all add: send_phase_def sweep_phase_def credit_phase_def Let_def)

lemma landed_phase_unrecorded [simp]: "unrecorded c (snd (landed_phase more_txs nonces unresolved batches c))"
  using phases_unrecorded(3)[of "record_undecided nonces unresolved c" more_txs]
    round_ends_unrecorded(5)[of c nonces unresolved]
  by (auto simp: landed_phase_def unrecorded_def split: list.splits)

lemma rebroadcast_phase_unrecorded [simp]: "unrecorded c (snd (rebroadcast_phase more_txs nonces batches c))"
proof (cases batches)
  case (Cons batch later)
  then show ?thesis by (simp add: rebroadcast_phase_def unrecorded_def fold_rebroadcast_state fold_rebroadcast_log)
qed (simp add: rebroadcast_phase_def)

lemma nonces_phase_unrecorded [simp]: "unrecorded c (snd (nonces_phase more_txs main nonces batches now c))"
  by (auto simp: nonces_phase_def split: list.splits)

lemma read_phase_unrecorded [simp]: "unrecorded c (snd (read_phase lib more_txs now c))"
  by (auto simp: read_phase_def split: option.splits)

lemma resume_nonces_unrecorded [simp]:
  "unrecorded c (snd (resume_nonces lib more_txs main nonces reads later i response now c))"
  by (simp add: resume_nonces_def Let_def)

lemma create_phase_unrecorded: "create_phase lib main num_created batches c = Some r \<Longrightarrow> unrecorded c (snd r)"
  by (auto simp: create_phase_def sign_phase_def Option.bind_eq_Some_conv split: if_splits)

lemma unrecorded_trans: "unrecorded c c' \<Longrightarrow> unrecorded c' c'' \<Longrightarrow> unrecorded c c''"
  by (auto simp: unrecorded_def)

context piece_invariant
begin

lemma kept_mint_phase:
  assumes "I c" "mint_phase lib encode minting entries now c = Some r" "\<And>i. allowed (EvQuarantinedPendingMint i)"
  shows "I (snd r)"
  using assms(1,2)
proof (induction entries arbitrary: c)
  case (Cons entry rest)
  then obtain arg c' where c': "process_pending_mint_start lib encode (fst entry) (snd entry) now c = Some (arg, c')"
    by (auto split: option.splits)
  then have "I c'" using kept_mint_start[OF Cons.prems(1) _ assms(3)] by blast
  then show ?case using Cons.IH[of c'] Cons.prems(2) c' by (cases arg) auto
qed (auto intro: kept_unrecorded)

lemma kept_resume_create:
  assumes "I c" "resume_create lib main n batches i response now c = Some r"
    and "\<And>h. allowed (EvCreatedWithdrawalTransaction (map wr_burn_block_index (rb_requests (batches ! i)))
      (rb_nonce_account (batches ! i)) h)"
  shows "I (snd r)"
proof -
  obtain created c' num where c': "create_transaction lib main (batches ! i) response now c = Some (created, c')"
    "create_phase lib main num (remove_nth i batches) c' = Some r"
    using assms(2) by (auto simp: resume_create_def Option.bind_eq_Some_conv)
  show ?thesis
    by (rule kept_unrecorded[OF kept_create[OF assms(1) c'(1) assms(3)] create_phase_unrecorded[OF c'(2)]])
qed

lemma kept_resume_sign:
  assumes "I c" "resume_sign lib n signed_txs ws i sign now c = Some r"
    and "\<And>sig msg signers bs. allowed (EvSubmittedTransaction sig msg signers (PurposeWithdrawal bs))"
  shows "I (snd r)"
proof -
  obtain tx c' txs where c': "sign_bound_withdrawal lib sign (ws ! i) now c = Some (tx, c')"
    "snd r = c' \<or> r = send_phase n txs c'"
    using assms(2) by (auto simp: resume_sign_def Option.bind_eq_Some_conv Let_def split: if_splits)
  note I' = kept_sign[OF assms(1) c'(1) assms(3)]
  show ?thesis using c'(2) I' kept_unrecorded[OF I' phases_unrecorded(1)] by auto
qed

lemma kept_resume_sweep:
  assumes "I c" "resume_sweep lib main block leaves batches sending i sign now c = Some r"
    and "\<And>sig msg signers ids h. allowed (EvSubmittedTransaction sig msg signers (PurposeSweepDeposit ids h))"
  shows "I (snd r)"
proof -
  obtain result c' rest k where c': "submit_sweep_transaction lib sign (batches ! i) block main now c = Some (result, c')"
    "r = sweep_phase main block leaves rest k c'"
    using assms(2) by (auto simp: resume_sweep_def Option.bind_eq_Some_conv)
  show ?thesis unfolding c'(2) by (rule kept_unrecorded[OF kept_sweep[OF assms(1) c'(1) assms(3)] phases_unrecorded(2)])
qed

lemma kept_resume_statuses:
  assumes "I c" "resume_statuses lib transactions height results now c = Some r"
    and "\<And>sig. allowed (EvFailedTransaction sig)" "\<And>sig. allowed (EvSucceededTransaction sig)"
      "\<And>sig. allowed (EvExpiredTransaction sig)"
  shows "I (snd r)"
proof -
  obtain statuses c' where c': "apply_statuses lib transactions height statuses now c = Some c'"
    "r = read_phase lib (more_transactions_to_check transactions) now c'"
    using assms(2) by (auto simp: resume_statuses_def)
  show ?thesis unfolding c'(2) by (rule kept_unrecorded[OF kept_statuses[OF assms(1) c'(1) assms(3-5)] read_phase_unrecorded])
qed

lemma kept_resume_landed:
  assumes "I c" "resume_landed lib more_txs nonces unresolved batch later i outcome now c = Some r"
    and "\<And>sig. allowed (EvFailedTransaction sig)" "\<And>sig. allowed (EvSucceededTransaction sig)"
  shows "I (snd r)"
proof -
  obtain f c' u where c': "finalize_landed_withdrawal lib (batch ! i) outcome now c = Some (f, c')"
    "snd r = c' \<or> r = landed_phase more_txs nonces u later c'"
    using assms(2) by (auto simp: resume_landed_def Option.bind_eq_Some_conv Let_def split: if_splits)
  note I' = kept_landed[OF assms(1) c'(1) assms(3,4)]
  show ?thesis using c'(2) I' kept_unrecorded[OF I' landed_phase_unrecorded] by auto
qed

lemma kept_resume_credit:
  assumes "I c" "resume_credit lib more_txs crediting outcomes now c = Some r"
    and "\<And>sig x cs. allowed (EvCreditedSweep sig x cs)" "\<And>sig. allowed (EvQuarantinedSweep sig)"
  shows "I (snd r)"
proof -
  obtain again c' where c': "credit_finalized_sweeps lib crediting outcomes now c = Some (again, c')"
    "snd r = finalize_round_end (more_txs \<or> again) c'"
    using assms(2) by (auto simp: resume_credit_def)
  show ?thesis unfolding c'(2) by (rule kept_unrecorded[OF kept_credit[OF assms(1) c'(1) assms(3,4)] round_ends_unrecorded(4)])
qed

lemma kept_resume_mint:
  assumes "I c" "Option.bind (process_mint_answer lib i response now c) (mint_phase lib encode minting rest now) = Some r"
    and "\<And>i. allowed (EvQuarantinedPendingMint i)" "\<And>i b. allowed (EvMintedSweptDeposit i b)"
  shows "I (snd r)"
proof -
  obtain c' where "process_mint_answer lib i response now c = Some c'" "mint_phase lib encode minting rest now c' = Some r"
    using assms(2) by (auto simp: Option.bind_eq_Some_conv)
  then show ?thesis using kept_mint_handled[OF assms(1) _ assms(3,4)] kept_mint_phase[OF _ _ assms(3)] by blast
qed

lemma kept_resume:
  assumes I: "I c" and r: "resume lib encode t reply now c = Some r"
    and allowed: "\<And>e. emits t (can_state c) e \<Longrightarrow> allowed e"
  shows "I (snd r)"
  using r
proof (cases rule: resumeE)
  case (deposit available call accept refunded response result c')
  then show ?thesis using kept_deposit[OF I deposit(3)] allowed by simp
next
  case (withdraw account amount destination response result c')
  then show ?thesis using kept_withdraw[OF I withdraw(3)] allowed by simp
next
  case (key response c')
  then show ?thesis using kept_key[OF I key(2)] allowed by simp
next
  case (create main n batches i response)
  then have "batches ! i \<in> set batches" by simp
  then show ?thesis by (intro kept_resume_create[OF I create(3)] allowed) (auto simp: create(1))
next
  case (sign n txs ws i signing)
  then show ?thesis using kept_resume_sign[OF I sign(3)] allowed by simp
next
  case (sweep main block leaves batches sending i signing)
  then show ?thesis using kept_resume_sweep[OF I sweep(3)] allowed by simp
next
  case (mint minting entry rest response)
  then show ?thesis using kept_resume_mint[OF I mint(2)] allowed by simp
next
  case (statuses transactions height results)
  then show ?thesis using kept_resume_statuses[OF I statuses(2)] allowed by simp
next
  case (landed more_txs nonces unresolved batch later i outcome)
  then show ?thesis using kept_resume_landed[OF I landed(3)] allowed by simp
next
  case (credit more_txs crediting outcomes)
  then show ?thesis using kept_resume_credit[OF I credit(2)] allowed by simp
qed (use I in \<open>auto intro: kept_unrecorded\<close>)

lemma kept_start:
  assumes I: "I c" and r: "start lib encode trigger now c = Some r"
    and allowed: "\<And>i minting c'. mint_round_start c = Some (minting, c') \<Longrightarrow> allowed (EvQuarantinedPendingMint i)"
  shows "I (snd r)"
  using r
proof (cases rule: startE)
  case (create main c')
  then show ?thesis
    using kept_unrecorded[OF I unrecorded_trans[OF rounds_unrecorded(2)[OF create(1)] create_phase_unrecorded[OF create(2)]]] by simp
next
  case (mint minting c')
  then show ?thesis using kept_mint_phase[OF kept_unrecorded[OF I rounds_unrecorded(4)[OF mint(1)]] mint(2) allowed[OF mint(1)]] by blast
next
  case (read s)
  then show ?thesis using kept_unrecorded[OF I unrecorded_trans[OF rounds_unrecorded(5)[OF read(1)] read_phase_unrecorded]] by simp
qed (use I in \<open>auto intro: kept_unrecorded rounds_unrecorded deposit_start_unrecorded watch_unrecorded\<close>)

lemma kept_abandon:
  assumes "I c" "\<And>e. emits t (can_state c) e \<Longrightarrow> allowed e"
  shows "I (abandon lib t now c)"
proof (cases t)
  case (MintTask minting entry rest)
  then show ?thesis
    using assms kept_give_up[OF assms(1)] by (auto simp: abandon_def split: option.splits)
qed (use assms(1) in \<open>auto simp: abandon_def intro: kept_unrecorded\<close>)

end

end
