(* ===== verification/Task_Guards.thy ===== *)
theory Task_Guards
  imports Task_Runs
begin

text \<open>
  The guards of the suspended tasks. A deposit call and a timer task hold their guard from their start
  until they end or are abandoned, so that there is at most one of each.
\<close>

definition guards_of :: "minter_state \<Rightarrow> account btree_set \<times> task_type btree_set" where
  "guards_of s = (st_pending_deposit_sol_request_guards s, st_active_tasks s)"

lemma transition_guards:
  assumes tr: "apply_state_transition lib payload t s = Some s'"
  shows "guards_of s' = guards_of s"
proof (cases payload)
  case (EvUpgrade args)
  then have "upgrade lib args s = Inr s'" using tr by (auto simp: apply_state_transition_def split: sum.splits)
  then show ?thesis by (rule upgradeD) (simp add: guards_of_def upgrade_settings_def)
next
  case (EvSubmittedTransaction sig msg signers purpose)
  then have "process_transaction_submitted lib sig msg signers purpose t s = Some s'"
    using tr by (simp add: apply_state_transition_def)
  then show ?thesis
    by (cases purpose)
       (auto simp: guards_of_def sent_from_def elim!: process_transaction_submittedD submitted_withdrawalD)
next
  case (EvSucceededTransaction sig)
  then have "process_transaction_succeeded sig s = Some s'" using tr by (simp add: apply_state_transition_def)
  then show ?thesis
    by (rule process_transaction_succeededD) (auto simp: guards_of_def split: minter_transaction.splits)
next
  case (EvFailedTransaction sig)
  then have "process_transaction_failed sig s = Some s'" using tr by (simp add: apply_state_transition_def)
  then show ?thesis
    by (rule process_transaction_failedD) (auto simp: guards_of_def split: minter_transaction.splits)
next
  case (EvExpiredTransaction sig)
  then have "process_transaction_expired sig s = Some s'" using tr by (simp add: apply_state_transition_def)
  then show ?thesis by (rule process_transaction_expiredD) (simp add: guards_of_def)
next
  case (EvCreditedSweep sig x cs)
  then have "process_credited_sweep sig x cs t s = Some s'" using tr by (simp add: apply_state_transition_def)
  then show ?thesis by (rule process_credited_sweepD) (simp add: guards_of_def)
next
  case (EvCreatedWithdrawalTransaction bs n h)
  then have "process_transaction_created bs n h s = Some s'" using tr by (simp add: apply_state_transition_def)
  then show ?thesis by (rule process_transaction_createdD) (auto simp: guards_of_def created_from_def)
qed (use tr in \<open>auto simp: apply_state_transition_def guards_of_def process_queued_deposit_def
    process_minted_swept_deposit_def process_quarantined_pending_mint_def process_quarantined_sweep_def
    cache_minter_public_key_def
    elim!: lift_depositsD dest!: process_accepted_withdrawalD(1) split: option.splits if_splits\<close>)

interpretation guard_frame: event_invariant lib "\<lambda>_. True" "\<lambda>c. guards_of (can_state c) = g" for lib g
  by unfold_locales (auto dest!: process_eventD(1) transition_guards)

subsection \<open>Held guards\<close>

fun held :: "kind \<Rightarrow> minter_state \<Rightarrow> bool" where
  "held (DepositKind account) s = bm_contains (st_pending_deposit_sol_request_guards s) account"
| "held (TimerKind task) s = bm_contains (st_active_tasks s) task"
| "held _ s = True"

lemma held_guards: "guards_of s' = guards_of s \<Longrightarrow> held k s' = held k s"
  by (cases k) (simp_all add: guards_of_def)

lemma held_drop [simp]:
  "held k (drop_timer_guard task s) \<longleftrightarrow> held k s \<and> k \<noteq> TimerKind task"
  "held k (drop_deposit_sol_guard account s) \<longleftrightarrow> held k s \<and> k \<noteq> DepositKind account"
  "held k (drop_withdrawal_guard account s) \<longleftrightarrow> held k s"
  by (cases k; auto simp: drop_timer_guard_def drop_deposit_sol_guard_def drop_withdrawal_guard_def)+

text \<open>A step of a task of kind \<open>k\<close> keeps all guards but its own, which it drops when it ends.\<close>

definition keeps_guards :: "kind \<Rightarrow> canister \<Rightarrow> suspended \<Rightarrow> bool" where
  "keeps_guards k c r \<longleftrightarrow> (\<forall>k'. held k' (can_state c) \<longrightarrow> k' \<noteq> k \<or> fst r \<noteq> None \<longrightarrow> held k' (can_state (snd r)))"

lemma keeps_guards_same: "guards_of (can_state (snd r)) = guards_of (can_state c) \<Longrightarrow> keeps_guards k c r"
  unfolding keeps_guards_def using held_guards by blast

lemma keeps_guards_frame:
  "keeps_guards k c' r \<Longrightarrow> guards_of (can_state c') = guards_of (can_state c) \<Longrightarrow> keeps_guards k c r"
  unfolding keeps_guards_def using held_guards by blast

lemma phases_guards:
  "keeps_guards (TimerKind WithdrawalProcessing) c (send_phase n txs c)"
  "keeps_guards (TimerKind SweepDeposits) c (sweep_phase main block leaves batches sending c)"
  "keeps_guards (TimerKind FinalizeTransactions) c (credit_phase more_txs c)"
  by (auto simp: keeps_guards_def send_phase_def sweep_phase_def credit_phase_def Let_def withdrawal_round_end_def
      sweep_round_end_def finalize_round_end_def)

lemma create_phase_guards:
  "create_phase lib main n batches c = Some r \<Longrightarrow> keeps_guards (TimerKind WithdrawalProcessing) c r"
  using phases_guards(1)[of c n]
  by (auto simp: create_phase_def sign_phase_def Option.bind_eq_Some_conv keeps_guards_same split: if_splits)

lemma landed_phase_guards: "keeps_guards (TimerKind FinalizeTransactions) c (landed_phase more_txs ns unresolved batches c)"
  using keeps_guards_frame[OF phases_guards(3), of "record_undecided ns unresolved c" c]
  by (cases batches) (simp_all add: landed_phase_def record_undecided_def keeps_guards_same)

lemma rebroadcast_phase_guards: "keeps_guards (TimerKind FinalizeTransactions) c (rebroadcast_phase more_txs ns batches c)"
  by (cases batches) (simp_all add: rebroadcast_phase_def landed_phase_guards keeps_guards_same fold_rebroadcast_state)

lemma nonces_phase_guards: "keeps_guards (TimerKind FinalizeTransactions) c (nonces_phase more_txs main ns batches now c)"
  by (cases batches) (simp_all add: nonces_phase_def rebroadcast_phase_guards keeps_guards_same)

lemma read_phase_guards: "keeps_guards (TimerKind FinalizeTransactions) c (read_phase lib more_txs now c)"
  by (simp add: read_phase_def nonces_phase_guards split: option.splits)

lemma mint_phase_guards:
  "mint_phase lib encode minting entries now c = Some r \<Longrightarrow> keeps_guards (TimerKind Mint) c r"
proof (induction entries arbitrary: c)
  case Nil
  then show ?case by (auto simp: keeps_guards_def mint_round_end_def Let_def)
next
  case (Cons entry rest)
  then obtain arg c' where c': "process_pending_mint_start lib encode (fst entry) (snd entry) now c = Some (arg, c')"
    by (auto split: option.splits)
  have same: "guards_of (can_state c') = guards_of (can_state c)"
    using guard_frame.kept_mint_start[OF HOL.refl c'] by simp
  then show ?case using Cons c' keeps_guards_frame[OF Cons.IH same] by (cases arg) (auto simp: keeps_guards_same)
qed

subsection \<open>Resuming, abandoning and starting\<close>

lemma deposit_guards:
  assumes "deposit_sol_balance lib accept refunded call response now c = Some (result, c')"
  shows "keeps_guards (DepositKind (dc_account call)) c (None, c')"
proof -
  obtain c1 where c1: "c' = on_state (drop_deposit_sol_guard (dc_account call)) c1"
    "c1 = c \<or> (\<exists>e. process_event lib e now c = Some c1)"
    using assms by (auto simp: deposit_sol_balance_def queue_deposit_def Let_def Option.bind_eq_Some_conv split: sum.splits)
  have "guards_of (can_state c1) = guards_of (can_state c)"
    using c1(2) transition_guards process_eventD(1) by blast
  then show ?thesis using held_guards[of "can_state c1" "can_state c"] by (simp add: keeps_guards_def c1(1))
qed

lemma withdraw_guards:
  assumes "withdraw_burned lib account amount destination response now c = Some (result, c')"
  shows "keeps_guards WithdrawKind c (None, c')"
proof -
  obtain c1 where c1: "c' = on_state (drop_withdrawal_guard account) c1"
    "c1 = c \<or> (\<exists>e. process_event lib e now c = Some c1)"
    using assms by (auto simp: withdraw_burned_def Option.bind_eq_Some_conv split: option.splits sum.splits)
  have "guards_of (can_state c1) = guards_of (can_state c)"
    using c1(2) transition_guards process_eventD(1) by blast
  then show ?thesis using held_guards[of "can_state c1" "can_state c"] by (simp add: keeps_guards_def c1(1))
qed

lemma resume_guards:
  assumes r: "resume lib encode t reply now c = Some r"
  shows "keeps_guards (task_kind t) c r"
  using r
proof (cases rule: resumeE)
  case (deposit available call accept refunded response result c')
  then show ?thesis using deposit_guards[OF deposit(3)] by simp
next
  case (withdraw account amount destination response result c')
  then show ?thesis using withdraw_guards[OF withdraw(3)] by simp
next
  case (key response c')
  then show ?thesis using guard_frame.kept_key[OF HOL.refl key(2)] by (simp add: keeps_guards_same)
next
  case (create main n batches i response)
  then obtain created c' num where c': "create_transaction lib main (batches ! i) response now c = Some (created, c')"
    "create_phase lib main num (remove_nth i batches) c' = Some r"
    by (auto simp: resume_create_def Option.bind_eq_Some_conv)
  then show ?thesis
    using keeps_guards_frame[OF create_phase_guards[OF c'(2)]] guard_frame.kept_create[OF HOL.refl c'(1)] create(1) by simp
next
  case (sign n txs ws i signing)
  then obtain tx c' txs' where c': "sign_bound_withdrawal lib signing (ws ! i) now c = Some (tx, c')"
    "snd r = c' \<and> fst r \<noteq> None \<or> r = send_phase n txs' c'"
    by (auto simp: resume_sign_def Option.bind_eq_Some_conv Let_def split: if_splits)
  then show ?thesis
    using keeps_guards_frame[OF phases_guards(1)] guard_frame.kept_sign[OF HOL.refl c'(1)] sign(1)
    by (auto simp: keeps_guards_same)
next
  case (sweep main block leaves batches sending i signing)
  then obtain result c' rest k where c': "submit_sweep_transaction lib signing (batches ! i) block main now c = Some (result, c')"
    "r = sweep_phase main block leaves rest k c'"
    by (auto simp: resume_sweep_def Option.bind_eq_Some_conv)
  then show ?thesis
    using keeps_guards_frame[OF phases_guards(2)] guard_frame.kept_sweep[OF HOL.refl c'(1)] sweep(1) by simp
next
  case (mint minting entry rest response)
  then obtain c' where c': "process_mint_answer lib (fst entry) response now c = Some c'"
    "mint_phase lib encode minting rest now c' = Some r"
    by (auto simp: Option.bind_eq_Some_conv)
  then show ?thesis
    using keeps_guards_frame[OF mint_phase_guards[OF c'(2)]] guard_frame.kept_mint_handled[OF HOL.refl c'(1)] mint(1) by simp
next
  case (statuses transactions h results)
  then obtain st c' where c': "apply_statuses lib transactions h st now c = Some c'"
    "r = read_phase lib (more_transactions_to_check transactions) now c'"
    by (auto simp: resume_statuses_def)
  then show ?thesis
    using keeps_guards_frame[OF read_phase_guards] guard_frame.kept_statuses[OF HOL.refl c'(1)] statuses(1) by simp
next
  case (landed more_txs ns unresolved batch later i outcome)
  then obtain f c' u where c': "finalize_landed_withdrawal lib (batch ! i) outcome now c = Some (f, c')"
    "snd r = c' \<and> fst r \<noteq> None \<or> r = landed_phase more_txs ns u later c'"
    by (auto simp: resume_landed_def Option.bind_eq_Some_conv Let_def split: if_splits)
  then show ?thesis
    using keeps_guards_frame[OF landed_phase_guards] guard_frame.kept_landed[OF HOL.refl c'(1)] landed(1)
    by (auto simp: keeps_guards_same)
next
  case (credit more_txs crediting outcomes)
  then obtain again c' where c': "credit_finalized_sweeps lib crediting outcomes now c = Some (again, c')"
    "r = (None, finalize_round_end (more_txs \<or> again) c')"
    by (auto simp: resume_credit_def)
  have "guards_of (can_state c') = guards_of (can_state c)" using guard_frame.kept_credit[OF HOL.refl c'(1)] by simp
  then show ?thesis
    using held_guards[of "can_state c'" "can_state c"] credit(1) c'(2) by (auto simp: keeps_guards_def finalize_round_end_def)
next
  case (nonces more_txs main ns reads later i response)
  then show ?thesis by (simp add: resume_nonces_def Let_def nonces_phase_guards keeps_guards_same)
qed (simp_all add: keeps_guards_same phases_guards rebroadcast_phase_guards, simp_all add: keeps_guards_def withdrawal_round_end_def)

lemma abandon_guards:
  assumes "held k (can_state c)" "k \<noteq> task_kind t"
  shows "held k (can_state (abandon lib t now c))"
proof (cases t)
  case (MintTask minting entry rest)
  show ?thesis
  proof (cases "give_up_mint lib MintUnknownOutcome (fst entry) now c")
    case (Some c')
    have "guards_of (can_state c') = guards_of (can_state c)" using guard_frame.kept_give_up[OF HOL.refl Some] by simp
    then show ?thesis using held_guards[of "can_state c'" "can_state c" k] assms MintTask Some by (simp add: abandon_def)
  qed (use assms MintTask in \<open>simp add: abandon_def\<close>)
qed (use assms in \<open>simp_all add: abandon_def sweep_round_end_def finalize_round_end_def\<close>)

text \<open>A task is started only if nobody holds its guard, and holds it then.\<close>

definition takes_guard :: "canister \<Rightarrow> suspended \<Rightarrow> bool" where
  "takes_guard c r \<longleftrightarrow> (\<forall>k. held k (can_state c) \<longrightarrow> held k (can_state (snd r))) \<and>
     (\<forall>u. fst r = Some u \<longrightarrow> held (task_kind u) (can_state (snd r)) \<and>
        (exclusive (task_kind u) \<longrightarrow> \<not> held (task_kind u) (can_state c)))"

lemma timer_guard_held:
  assumes "timer_guard_new k s = Inr s'"
  shows "\<not> held (TimerKind k) s" "held k' s' \<longleftrightarrow> held k' s \<or> k' = TimerKind k"
  using assms by (cases k'; auto simp: timer_guard_new_def split: if_splits)+

lemma takes_timer_guard:
  assumes g: "timer_guard_new k (can_state c) = Inr (can_state c')" and r: "keeps_guards (TimerKind k) c' r"
    and kind: "\<And>u. fst r = Some u \<Longrightarrow> task_kind u = TimerKind k"
  shows "takes_guard c r"
  using r kind timer_guard_held[OF g] unfolding takes_guard_def keeps_guards_def by (metis option.distinct(1))

lemma create_phase_kind:
  "create_phase lib main n batches c = Some r \<Longrightarrow> fst r = Some u \<Longrightarrow> task_kind u = TimerKind WithdrawalProcessing"
  by (auto simp: create_phase_def sign_phase_def send_phase_def Option.bind_eq_Some_conv split: if_splits)

lemma mint_phase_kind:
  "mint_phase lib encode minting entries now c = Some r \<Longrightarrow> fst r = Some u \<Longrightarrow> task_kind u = TimerKind Mint"
  by (induction entries arbitrary: c) (auto split: option.splits)

lemma read_phase_kind: "fst (read_phase lib more_txs now c) = Some u \<Longrightarrow> task_kind u = TimerKind FinalizeTransactions"
  by (auto simp: read_phase_def nonces_phase_def rebroadcast_phase_def landed_phase_def credit_phase_def Let_def
      split: option.splits list.splits if_splits)

lemma deposit_guard_held:
  assumes "deposit_sol_guard account s = Inr s'"
  shows "\<not> held (DepositKind account) s" "held k s' \<longleftrightarrow> held k s \<or> k = DepositKind account"
  using assms by (cases k; auto simp: deposit_sol_guard_def guard_new_def split: if_splits)+

lemma start_guards:
  assumes "start lib encode trigger now c = Some r"
  shows "takes_guard c r"
  using assms
proof (cases rule: startE)
  case (deposit self available account call c')
  from deposit(1) obtain s where "deposit_sol_guard account (can_state c) = Inr s" "c' = c\<lparr>can_state := s\<rparr>"
    "dc_account call = account" by (rule deposit_sol_startD)
  then show ?thesis using deposit_guard_held[of account "can_state c" s] deposit(2) by (simp add: takes_guard_def)
next
  case (withdraw account amount target destination c')
  then have "guards_of (can_state c') = guards_of (can_state c)"
    by (auto simp: withdraw_start_def Let_def withdrawal_guard_def guard_new_def guards_of_def split: if_splits sum.splits)
  then show ?thesis using held_guards[of "can_state c'" "can_state c"] withdraw(2) by (simp add: takes_guard_def)
next
  case (watch self account result c')
  have "guards_of (can_state c') = guards_of (can_state c)"
    using watch_deposit_addressD[OF watch(1)] by (auto simp: set_watchlist_def guards_of_def)
  then show ?thesis using held_guards[of "can_state c'" "can_state c"] watch(2) by (simp add: takes_guard_def)
next
  case (create main c')
  then have "timer_guard_new WithdrawalProcessing (can_state c) = Inr (can_state c')"
    by (auto simp: withdrawal_round_start_def split: sum.splits)
  then show ?thesis by (rule takes_timer_guard[OF _ create_phase_guards[OF create(2)] create_phase_kind[OF create(2)]])
next
  case (sweep sweeping main c')
  then have "timer_guard_new SweepDeposits (can_state c) = Inr (can_state c')"
    by (auto simp: sweep_round_start_def Let_def split: sum.splits if_splits)
  then show ?thesis by (rule takes_timer_guard) (simp_all add: sweep(2) keeps_guards_same)
next
  case (mint minting c')
  then have "timer_guard_new Mint (can_state c) = Inr (can_state c')"
    by (auto simp: mint_round_start_def Let_def split: sum.splits if_splits)
  then show ?thesis by (rule takes_timer_guard[OF _ mint_phase_guards[OF mint(2)] mint_phase_kind[OF mint(2)]])
next
  case (check s)
  then have "timer_guard_new FinalizeTransactions (can_state c) = Inr (can_state (c\<lparr>can_state := s\<rparr>))" by simp
  then show ?thesis by (rule takes_timer_guard) (simp_all add: check(2) keeps_guards_same)
next
  case (read s)
  then have "timer_guard_new FinalizeTransactions (can_state c) = Inr (can_state (c\<lparr>can_state := s\<rparr>))" by simp
  then show ?thesis unfolding read(2) by (rule takes_timer_guard[OF _ read_phase_guards read_phase_kind])
qed (simp_all add: takes_guard_def)

end
