(* ===== verification/Task_Safety.thy ===== *)
theory Task_Safety
  imports Task_Guards
begin

text \<open>
  Tasks keep their claims from one suspension to the next, every task is suspended with its claim, and
  with replies within their contracts none of them traps.
\<close>

lemma sound_run_append: "sound_run (log @ events) \<Longrightarrow> sound_run log"
proof (induction events rule: rev_induct)
  case (snoc e events)
  then show ?case using sound_run_prefix[of "log @ events" e] by simp
qed simp

lemma resume_log: "resume lib encode t reply now c = Some r \<Longrightarrow> \<exists>events. can_log (snd r) = can_log c @ events"
  by (rule append_only.kept_resume[where log = "can_log c"]) auto

lemma start_log: "start lib encode trigger now c = Some r \<Longrightarrow> \<exists>events. can_log (snd r) = can_log c @ events"
  by (rule append_only.kept_start[where log = "can_log c"]) auto

subsection \<open>Resuming\<close>

lemma resume_claim:
  assumes r: "resume lib encode t reply now c = Some r" and cl: "claim lib t (can_state c)" and law: "sdk_nonce_first lib"
    and log: "logged lib c" and run: "sound_run (can_log (snd r))"
  shows "next_claim lib (task_kind t) r"
proof -
  have "sound_run (can_log c)" using resume_log[OF r] run sound_run_append by metis
  note st = run_state[OF log this]
  from r show ?thesis
  proof (cases rule: resumeE)
    case stay
    then show ?thesis using cl by simp
  next
    case (create main n batches i response)
    then show ?thesis using resume_create_claim[OF st(1) create(2) _ create(3)] cl by simp
  next
    case (sign n txs ws i signing)
    then show ?thesis using resume_sign_claim[OF st(1,4) law sign(2) _ sign(3)] cl by simp
  next
    case (block sweeping main recent)
    then show ?thesis using sweep_phase_claim cl by simp
  next
    case (sweep main block leaves batches sending i signing)
    then show ?thesis using resume_sweep_claim[OF sweep(2) _ sweep(3)] cl by simp
  next
    case (sent main block leaves batches sending)
    then show ?thesis using sweep_phase_claim cl by simp
  next
    case (mint minting entry rest response)
    then show ?thesis using resume_mint(2)[OF state_wfD(1)[OF st(1)] _ mint(2)] cl by simp
  next
    case (height transactions response)
    then show ?thesis using cl by simp
  next
    case (statuses transactions h results)
    then show ?thesis using resume_statuses_claim[OF statuses(2) log run] by simp
  next
    case (nonces more_txs main ns reads later i response)
    then show ?thesis using resume_nonces_claim[OF nonces(2)] cl by simp
  next
    case (rebroadcast more_txs ns later)
    then show ?thesis using rebroadcast_phase_claim cl by simp
  next
    case (landed more_txs ns unresolved batch later i outcome)
    then show ?thesis using resume_landed(2)[OF landed(2) _ landed(3)] cl by simp
  next
    case (credit more_txs crediting outcomes)
    then show ?thesis by (auto simp: resume_credit_def)
  qed simp_all
qed

subsection \<open>Starting\<close>

lemma deposit_start_claim:
  assumes "deposit_sol_start lib self available account c = Some (Inr (call, c'))"
  shows "claim lib (DepositTask available call) (can_state c')"
proof -
  from assms obtain s where g: "deposit_sol_guard account (can_state c) = Inr s" and s: "c' = c\<lparr>can_state := s\<rparr>" "in_flight (st_deposits s) account = Some None"
    "dc_account call = account" "\<not> available < st_deposit_sol_required_cycles s" "dc_deposit_sol_fee call = st_deposit_sol_fee s"
    by (rule deposit_sol_startD)
  have "dc_minimum_deposit_amount call = st_minimum_deposit_amount s"
    using assms g s(2) by (cases "minter_public_key s")
      (auto simp: deposit_sol_start_def Option.bind_eq_Some_conv check_caller_available_cycles_def split: if_splits)
  moreover have "bm_get (d_in_flight_ids (st_deposits s)) account = None"
    using s(2) by (auto simp: in_flight_def in_flight_id_def split: option.splits deposit_sol_status.splits)
  ultimately show ?thesis using s by simp
qed

lemma withdraw_start_claim:
  assumes "withdraw_start lib account amount target c = Inr (destination, c')"
  shows "claim lib (WithdrawTask account amount destination) (can_state c')"
proof -
  obtain s' where s': "withdrawal_guard account (can_state c) = Inr s'" "can_state c' = s'"
    "\<not> amount < st_minimum_withdrawal_amount (can_state c)"
    using assms by (auto simp: withdraw_start_def Let_def split: if_splits sum.splits)
  moreover have "st_minimum_withdrawal_amount s' = st_minimum_withdrawal_amount (can_state c)"
    using s'(1) by (auto simp: withdrawal_guard_def guard_new_def split: if_splits)
  ultimately show ?thesis by simp
qed

lemma mint_start_mintable:
  assumes "mint_round_start c = Some (minting, c')"
  shows "mintable (can_state c') (mr_pending_mints minting)"
proof -
  let ?m = "d_pending_mints (st_deposits (can_state c'))"
  have "mr_pending_mints minting = take MAX_PENDING_MINTS_PER_ROUND (bm_iter ?m)"
    using assms by (auto simp: mint_round_start_def next_mint_round_def Let_def split: sum.splits if_splits)
  then show ?thesis
    using bm_iter_distinct[of ?m] by (auto simp: mintable_def take_map[symmetric] bm_iter_iff dest!: in_set_takeD)
qed

lemma sweep_start_claim:
  assumes "sweep_round_start lib c = Some (sweeping, main, c')"
  shows "claim lib (SweepBlockTask sweeping main) (can_state c')"
proof -
  let ?q = "d_queued (st_deposits (can_state c'))"
  have main: "main_address lib (can_state c') main" and round: "sweeping = take_from_queue (can_state c')"
    using assms by (auto simp: sweep_round_start_def Let_def main_address_def minter_public_key_def ok_or_def
      split: sum.splits if_splits option.splits)
  define ds where "ds = take MAX_DEPOSITS_PER_ROUND (take (MAX_DEPOSITS_PER_ROUND + 1) (bm_iter ?q))"
  have batches: "sr_batches sweeping = chunks MAX_DEPOSITS_PER_SWEEP ds" by (simp add: round take_from_queue_def Let_def ds_def)
  have "set ds \<subseteq> set (bm_iter ?q)" unfolding ds_def by (meson set_take_subset subset_trans)
  moreover have "distinct (map fst ds)" using bm_iter_distinct[of ?q] by (simp add: ds_def take_map[symmetric])
  moreover have "concat (sr_batches sweeping) = ds" by (simp add: batches concat_chunks MAX_DEPOSITS_PER_SWEEP_def)
  ultimately have "sweepable (can_state c') (sr_batches sweeping)"
    using chunks_length[of _ MAX_DEPOSITS_PER_SWEEP ds] unfolding sweepable_def
    by (auto simp: batches bm_iter_iff subset_iff)
  then show ?thesis using main by simp
qed

lemma sweeps_submitted_now:
  assumes "iom_wf (st_submitted_transactions s)"
  shows "sweeps_submitted s (blockhash_transactions s)"
  unfolding sweeps_submitted_def
proof (intro allI impI)
  fix sig assume "bm_contains (blockhash_transactions s) sig"
  then obtain h where "bm_get (blockhash_transactions s) sig = Some h" by (auto simp: bm_contains_def)
  then have "(sig, h) \<in> set (List.map_filter (\<lambda>(signature, transaction).
     (case transaction of
        TxSweepDeposit block_height \<Rightarrow> Some (signature, block_height)
      | TxWithdrawal _ _ _ _ \<Rightarrow> None)) (iom_iter (st_submitted_transactions s)))"
    unfolding blockhash_transactions_def bm_get_collect by (auto dest: map_of_SomeD)
  then obtain tx where "(sig, tx) \<in> set (iom_iter (st_submitted_transactions s))" "is_sweep (Some tx)"
    by (auto simp: List.map_filter_def split: minter_transaction.splits)
  then show "is_sweep (iom_get (st_submitted_transactions s) sig)" using iom_iter_iff[OF assms] by simp
qed

lemma start_claim:
  assumes r: "start lib encode trigger now c = Some r" and log: "logged lib c" and run: "sound_run (can_log (snd r))"
    and u: "fst r = Some u"
  shows "claim lib u (can_state (snd r))"
proof -
  have run_c: "sound_run (can_log c)" using start_log[OF r] run sound_run_append by metis
  have wf: "state_wf (can_state c')" if "unrecorded c c'" for c'
    using run_state(1)[OF log_invariant.kept_unrecorded[OF log that]] run_c that by (simp add: unrecorded_def)
  from r show ?thesis
  proof (cases rule: startE)
    case (deposit self available account call c')
    then show ?thesis using deposit_start_claim[OF deposit(1)] u by (auto simp del: claim.simps)
  next
    case (withdraw account amount target destination c')
    then show ?thesis using withdraw_start_claim[OF withdraw(1)] u by (auto simp del: claim.simps)
  next
    case (create main c')
    then have "main_address lib (can_state c') main"
      by (auto simp: withdrawal_round_start_def main_address_def split: sum.splits)
    moreover have "reserved (can_state c') (reserve_batches (can_state c'))"
      using reserve_reserved[OF state_wfD(2)[OF wf[OF rounds_unrecorded(2)[OF create(1)]]]] .
    ultimately have "next_claim lib (TimerKind WithdrawalProcessing) r" by (rule create_phase_claim[OF _ _ create(2)])
    then show ?thesis using u by (simp add: next_claim_def)
  next
    case (sweep sweeping main c')
    then show ?thesis using sweep_start_claim[OF sweep(1)] u by (auto simp del: claim.simps)
  next
    case (mint minting c')
    show ?thesis
      using mint_start_mintable[OF mint(1)] mint_phase_claim[OF state_wfD(1)[OF wf[OF rounds_unrecorded(4)[OF mint(1)]]] _ mint(2)] u by (simp add: next_claim_def)
  next
    case (check s)
    then show ?thesis
      using sweeps_submitted_now[of s] transactions_wfD(1)[OF state_wfD(3)[OF wf[OF rounds_unrecorded(5)[OF check(1)]]]] u by auto
  next
    case (read s)
    then show ?thesis using read_phase_claim[OF wf[OF rounds_unrecorded(5)[OF read(1)]], of lib False now] u by (simp add: next_claim_def)
  qed (use u in auto)
qed

subsection \<open>No task traps\<close>

text \<open>The contracts of the replies: the platform accepts the cycles that the caller attached, the ledger
  names blocks by \<open>u64\<close> indices and no block twice, the key is well-formed, a signature is 64 bytes long
  and not that of a transaction known to the minter.\<close>

definition admissible :: "task \<Rightarrow> reply \<Rightarrow> minter_state \<Rightarrow> bool" where
  "admissible t reply s \<longleftrightarrow>
     (case reply of
        BalanceReply accept refunded response \<Rightarrow>
          (case t of DepositTask available _ \<Rightarrow> accepts_available accept available | _ \<Rightarrow> True)
      | BurnReply response \<Rightarrow>
          (case burn response of
             None \<Rightarrow> False
           | Some (Inl _) \<Rightarrow> True
           | Some (Inr block_index) \<Rightarrow> bm_get (st_pending_withdrawal_requests s) block_index = None)
      | KeyReply response \<Rightarrow> response \<noteq> Inr None
      | SignatureReply _ sign \<Rightarrow> fresh_signatures sign s
      | MintReply response \<Rightarrow> answer_outcome response \<noteq> UnknownBlock
      | _ \<Rightarrow> True)"

definition fee_fits :: "lamport \<Rightarrow> bool" where
  "fee_fits fee \<longleftrightarrow> unat BATCH_WITHDRAWAL_TX_FEE \<le> unat fee \<and> unat fee + unat RENT_EXEMPTION_THRESHOLD < 2 ^ 64"

lemma deposit_total:
  assumes cl: "claim lib (DepositTask available call) (can_state c)" and wf: "deposits_wf (st_deposits (can_state c))"
    and ok: "settings_ok (can_state c)" and accept: "accepts_available accept available"
  shows "\<exists>r. deposit_sol_balance lib accept refunded call response now c = Some r"
proof -
  let ?s = "can_state c"
  have free: "in_flight (st_deposits ?s) (dc_account call) = Some None" using cl by (simp add: in_flight_def in_flight_id_def)
  have rent: "RENT_EXEMPTION_THRESHOLD \<le> dc_minimum_deposit_amount call"
    using validateD(4)[of ?s] ok cl by (simp add: settings_ok_def RENT_EXEMPTION_THRESHOLD_def word_le_nat_alt)
  have paid: "charge_rpc_call accept refunded
      \<lparr>attached_cycles = GET_BALANCE_CYCLES, fee_on_success = dc_deposit_sol_fee call\<rparr> x = Some ()"
    for x :: "deposit_sol_error + lamport" using charge_covered[OF accept ok] cl by simp
  note total = deposit_sol_balance_total[OF wf free rent paid, where response = response and lib = lib and now = now]
  show ?thesis
  proof (cases "balance_read call response")
    case (Inl e)
    then show ?thesis using total by simp
  next
    case (Inr lamports)
    then show ?thesis using total by auto
  qed
qed

lemma withdraw_total:
  assumes cl: "claim lib (WithdrawTask account amount destination) (can_state c)" and ok: "settings_ok (can_state c)"
    and fee: "fee_fits (st_withdrawal_fee (can_state c))"
    and adm: "admissible t (BurnReply response) (can_state c)"
  shows "\<exists>r. withdraw_burned lib account amount destination response now c = Some r"
proof (cases "burn response")
  case (Some answer)
  show ?thesis
  proof (cases answer)
    case (Inr b)
    have "unat (st_withdrawal_fee (can_state c) + RENT_EXEMPTION_THRESHOLD) \<le> unat (st_minimum_withdrawal_amount (can_state c))"
      using validateD(5)[of "can_state c"] ok by (simp add: settings_ok_def word_le_nat_alt)
    then have "unat (st_withdrawal_fee (can_state c)) \<le> unat amount"
      using fee cl by (simp add: fee_fits_def unat_plus_no_overflow word_le_nat_alt)
    then have "checked_sub amount (st_withdrawal_fee (can_state c)) = Some (amount - st_withdrawal_fee (can_state c))"
      by (simp add: checked_sub_def word_le_nat_alt)
    moreover have "bm_get (st_pending_withdrawal_requests (can_state c)) b = None"
      using adm Some Inr by (simp add: admissible_def)
    ultimately show ?thesis
      using Some Inr by (simp add: withdraw_burned_def process_event_def apply_state_transition_def
        process_accepted_withdrawal_def assert_that_bind)
  qed (use Some in \<open>simp add: withdraw_burned_def\<close>)
qed (use adm in \<open>simp add: admissible_def\<close>)

lemma key_total: "response \<noteq> Inr None \<Longrightarrow> \<exists>c'. record_minter_public_key lib response now c = Some c'"
  by (auto simp: record_minter_public_key_def process_event_def apply_state_transition_def cache_minter_public_key_def
      split: sum.splits option.splits)

lemma view_forget: "view (forget d) = view d"
  by (simp add: view_def stages_def fun_eq_iff)

lemma run_counters:
  assumes "logged lib c" "sound_run (can_log c)"
  shows "counters_le (can_state c) (length (can_log c))" "queued_size (st_deposits (can_state c)) < 2 ^ 64"
proof -
  have log: "replay_events lib (can_log c) = Some (persistent (can_state c))" using assms(1) by (simp add: logged_def)
  have snd: "sound_log (can_log c)" using assms(2) by (simp add: sound_run_def)
  show "counters_le (can_state c) (length (can_log c))"
    using log_wf[OF log] snd by (simp add: sound_log_def counters_le_def)
  have "queued_size (forget d) = queued_size d" for d by (simp add: queued_size_def view_forget)
  then show "queued_size (st_deposits (can_state c)) < 2 ^ 64"
    using log_books[OF log snd] snd by (simp add: books_def sound_log_def)
qed

lemma resume_total:
  assumes cl: "claim lib t (can_state c)" and log: "logged lib c" and run: "sound_run (can_log c)"
    and room: "length (can_log c) + 7680 < 2 ^ 64" and fee: "fee_fits (st_withdrawal_fee (can_state c))"
    and laws: "sdk_nonce_first lib" "sdk_sweep_signers lib" "sdk_keeps_blockhash lib"
    and adm: "admissible t reply (can_state c)"
  shows "\<exists>r. resume lib encode t reply now c = Some r"
proof -
  note st = run_state[OF log run] and cs = run_counters[OF log run]
  note dwf = state_wfD(1)[OF st(1)]
  show ?thesis
  proof (cases t)
    case (DepositTask available call)
    then show ?thesis
      using deposit_total[OF _ dwf st(2)] cl adm by (cases reply) (fastforce simp: resume_def admissible_def simp del: claim.simps)+
  next
    case (WithdrawTask account amount destination)
    then show ?thesis
      using withdraw_total[OF _ st(2) fee, of lib account amount destination t] cl adm
      by (cases reply) (fastforce simp: resume_def simp del: claim.simps)+
  next
    case KeyTask
    then show ?thesis using key_total[of _ lib now c] adm by (cases reply) (fastforce simp: resume_def admissible_def)+
  next
    case (CreateTask main n batches)
    then show ?thesis using resume_create_total[OF st(1)] cl by (cases reply) (auto simp: resume_def simp del: claim.simps)
  next
    case (SignTask n txs ws)
    then show ?thesis
      using resume_sign_total[OF st(1,4) laws(1)] cl adm by (cases reply) (auto simp: resume_def admissible_def simp del: claim.simps)
  next
    case (SweepTask main block leaves batches sending)
    then show ?thesis
      using resume_sweep_total[OF st(1,3) laws(3,2)] cl adm by (cases reply) (auto simp: resume_def admissible_def simp del: claim.simps)
  next
    case (MintTask minting entry rest)
    then show ?thesis
      using resume_mint(1)[OF dwf] cl adm by (cases reply) (auto simp: resume_def admissible_def simp del: claim.simps)
  next
    case (StatusesTask transactions h)
    then show ?thesis
      using apply_statuses_total[OF st(1) cs(1) room] cl by (cases reply) (fastforce simp: resume_def resume_statuses_def)+
  next
    case (LandedTask more_txs ns unresolved batch later)
    then show ?thesis using resume_landed(1)[OF _ _ st(1)] cl by (cases reply) (auto simp: resume_def simp del: claim.simps)
  next
    case (CreditTask more_txs crediting)
    then show ?thesis using resume_credit_total[OF dwf cs(2)] cl by (cases reply) (auto simp: resume_def simp del: claim.simps)
  qed (cases reply; simp add: resume_def split: sum.splits)+
qed

end
