(* ===== verification/Running_System.thy ===== *)
theory Running_System
  imports Task_Safety
begin

text \<open>
  The running canister: its memory and the calls that are suspended. Calls and timers start, replies
  resume a task in any order, a task that traps is abandoned, and an upgrade discards all tasks. The
  properties hold in every system that can be reached this way.
\<close>

subsection \<open>Kinds\<close>

text \<open>A task is suspended again as a task of the same kind.\<close>

lemma landed_phase_kind:
  "fst (landed_phase more_txs ns unresolved batches c) = Some u \<Longrightarrow> task_kind u = TimerKind FinalizeTransactions"
  by (cases batches) (auto simp: landed_phase_def credit_phase_def Let_def split: if_splits)

lemma rebroadcast_phase_kind:
  "fst (rebroadcast_phase more_txs ns batches c) = Some u \<Longrightarrow> task_kind u = TimerKind FinalizeTransactions"
  by (cases batches) (auto simp: rebroadcast_phase_def dest: landed_phase_kind)

lemma nonces_phase_kind:
  "fst (nonces_phase more_txs main ns batches now c) = Some u \<Longrightarrow> task_kind u = TimerKind FinalizeTransactions"
  by (cases batches) (auto simp: nonces_phase_def dest: rebroadcast_phase_kind)

lemma resume_kind:
  assumes r: "resume lib encode t reply now c = Some r" and u: "fst r = Some u"
  shows "task_kind u = task_kind t"
  using r
proof (cases rule: resumeE)
  case (create main n batches i response)
  then show ?thesis using u by (auto simp: resume_create_def Option.bind_eq_Some_conv dest: create_phase_kind)
next
  case (sign n txs ws i signing)
  then show ?thesis using u by (auto simp: resume_sign_def send_phase_def Option.bind_eq_Some_conv Let_def split: if_splits)
next
  case (sweep main block leaves batches sending i signing)
  then show ?thesis using u by (auto simp: resume_sweep_def sweep_phase_def Option.bind_eq_Some_conv split: if_splits)
next
  case (mint minting entry rest response)
  then show ?thesis using u by (auto simp: Option.bind_eq_Some_conv dest: mint_phase_kind)
next
  case (statuses transactions h results)
  then show ?thesis using u by (auto simp: resume_statuses_def dest: read_phase_kind)
next
  case (landed more_txs ns unresolved batch later i outcome)
  then show ?thesis
    using u by (auto simp: resume_landed_def Option.bind_eq_Some_conv Let_def dest: landed_phase_kind split: if_splits)
next
  case (nonces more_txs main ns reads later i response)
  then show ?thesis using u by (auto simp: resume_nonces_def Let_def dest: nonces_phase_kind split: if_splits)
next
  case (rebroadcast more_txs ns later)
  then show ?thesis using u by (auto dest: rebroadcast_phase_kind)
next
  case (credit more_txs crediting outcomes)
  then show ?thesis using u by (auto simp: resume_credit_def)
qed (use u in \<open>auto simp: sweep_phase_def split: if_splits\<close>)

lemma held_shared: "\<not> exclusive k \<Longrightarrow> held k s"
  by (cases k) simp_all

subsection \<open>Systems\<close>

record system =
  sys_canister :: canister
  sys_tasks :: "task list"

definition suspended_tasks :: "task option \<Rightarrow> task list" where
  "suspended_tasks t = (case t of None \<Rightarrow> [] | Some u \<Rightarrow> [u])"

lemma suspended_tasks_simps [simp]:
  "suspended_tasks None = []" "suspended_tasks (Some u) = [u]" "u \<in> set (suspended_tasks t) \<longleftrightarrow> t = Some u"
  by (auto simp: suspended_tasks_def split: option.splits)

inductive system_step :: "sdk \<Rightarrow> (memo \<Rightarrow> bytes) \<Rightarrow> system \<Rightarrow> system \<Rightarrow> bool" for lib :: sdk and encode :: "memo \<Rightarrow> bytes" where
  started: "start lib encode trigger now c = Some (t, c') \<Longrightarrow>
    system_step lib encode \<lparr>sys_canister = c, sys_tasks = ts\<rparr> \<lparr>sys_canister = c', sys_tasks = ts @ suspended_tasks t\<rparr>"
| resumed: "resume lib encode t reply now c = Some (t', c') \<Longrightarrow>
    system_step lib encode \<lparr>sys_canister = c, sys_tasks = xs @ t # ys\<rparr>
      \<lparr>sys_canister = c', sys_tasks = xs @ suspended_tasks t' @ ys\<rparr>"
| trapped: "resume lib encode t reply now c = None \<Longrightarrow>
    system_step lib encode \<lparr>sys_canister = c, sys_tasks = xs @ t # ys\<rparr>
      \<lparr>sys_canister = abandon lib t now c, sys_tasks = xs @ ys\<rparr>"
| upgraded: "post_upgrade lib arg (can_log c) consumed now = Some c' \<Longrightarrow>
    system_step lib encode \<lparr>sys_canister = c, sys_tasks = ts\<rparr> \<lparr>sys_canister = c', sys_tasks = []\<rparr>"

inductive system_reachable :: "sdk \<Rightarrow> (memo \<Rightarrow> bytes) \<Rightarrow> system \<Rightarrow> bool" for lib :: sdk and encode :: "memo \<Rightarrow> bytes" where
  installed: "init_canister lib arg now = Some c \<Longrightarrow> system_reachable lib encode \<lparr>sys_canister = c, sys_tasks = []\<rparr>"
| stepped: "system_reachable lib encode sys \<Longrightarrow> system_step lib encode sys sys' \<Longrightarrow> system_reachable lib encode sys'"

subsection \<open>The log and the guards\<close>

definition unique_kinds :: "task list \<Rightarrow> bool" where
  "unique_kinds ts \<longleftrightarrow> (\<forall>k. exclusive k \<longrightarrow> length (filter (\<lambda>t. task_kind t = k) ts) \<le> 1)"

definition guarded :: "minter_state \<Rightarrow> task list \<Rightarrow> bool" where
  "guarded s ts \<longleftrightarrow> (\<forall>t \<in> set ts. held (task_kind t) s) \<and> unique_kinds ts"

lemma unique_kinds_middle:
  assumes "unique_kinds (xs @ t # ys)"
  shows "unique_kinds (xs @ ys)" "u \<in> set (xs @ ys) \<Longrightarrow> exclusive (task_kind u) \<Longrightarrow> task_kind u \<noteq> task_kind t"
    "task_kind t' = task_kind t \<Longrightarrow> unique_kinds (xs @ t' # ys)"
proof -
  have le: "length (filter (\<lambda>x. task_kind x = k) xs) + (if task_kind t = k then 1 else 0) +
      length (filter (\<lambda>x. task_kind x = k) ys) \<le> 1" if "exclusive k" for k
    using assms that by (fastforce simp: unique_kinds_def split: if_splits)
  show "unique_kinds (xs @ ys)" unfolding unique_kinds_def using le by (fastforce split: if_splits)
  show "unique_kinds (xs @ t' # ys)" if "task_kind t' = task_kind t" for t'
    unfolding unique_kinds_def using le that by (fastforce split: if_splits)
  show "task_kind u \<noteq> task_kind t" if "u \<in> set (xs @ ys)" "exclusive (task_kind u)" for u
  proof
    assume "task_kind u = task_kind t"
    then have "filter (\<lambda>x. task_kind x = task_kind u) (xs @ ys) = []"
      using le[OF that(2)] by (simp split: if_splits)
    then show False using that(1) by (metis (mono_tags, lifting) filter_empty_conv)
  qed
qed

lemma unique_kinds_new:
  assumes "unique_kinds ts" "\<And>u. u \<in> set ts \<Longrightarrow> exclusive (task_kind t) \<Longrightarrow> task_kind u \<noteq> task_kind t"
  shows "unique_kinds (ts @ [t])"
  unfolding unique_kinds_def
proof (intro allI impI)
  fix k assume k: "exclusive k"
  have "filter (\<lambda>x. task_kind x = k) ts = []" if "task_kind t = k" using assms(2) that k by (auto simp: filter_empty_conv)
  then show "length (filter (\<lambda>x. task_kind x = k) (ts @ [t])) \<le> 1" using assms(1) k by (auto simp: unique_kinds_def)
qed

lemma guarded_others:
  assumes "guarded s (xs @ t # ys)" "v \<in> set (xs @ ys)"
  shows "held (task_kind v) s \<and> (exclusive (task_kind v) \<longrightarrow> task_kind v \<noteq> task_kind t)"
  using assms unique_kinds_middle(2)[of xs t ys v] unfolding guarded_def by auto

lemma step_guarded:
  assumes "system_step lib encode sys sys'" "guarded (can_state (sys_canister sys)) (sys_tasks sys)"
  shows "guarded (can_state (sys_canister sys')) (sys_tasks sys')"
  using assms
proof cases
  case (started trigger now c t c' ts)
  have g: "guarded (can_state c) ts" using assms(2) started by simp
  have tg: "takes_guard c (t, c')" by (rule start_guards[OF started(3)])
  show ?thesis
  proof (cases t)
    case (Some u)
    have "unique_kinds (ts @ [u])"
      by (rule unique_kinds_new) (use g tg Some in \<open>auto simp: guarded_def takes_guard_def\<close>)
    then show ?thesis using started g tg Some by (auto simp: guarded_def takes_guard_def)
  qed (use started g tg in \<open>auto simp: guarded_def takes_guard_def\<close>)
next
  case (resumed t reply now c t' c' xs ys)
  have g: "guarded (can_state c) (xs @ t # ys)" using assms(2) resumed by simp
  have others: "held (task_kind v) (can_state c')" if v: "v \<in> set (xs @ ys)" for v
    using guarded_others[OF g v] resume_guards[OF resumed(3), unfolded keeps_guards_def] held_shared[of "task_kind v" "can_state c'"]
    by (simp del: not_None_eq) blast
  show ?thesis
  proof (cases t')
    case (Some u)
    have "task_kind u = task_kind t" using resume_kind[OF resumed(3)] Some by simp
    moreover have "held (task_kind t) (can_state c')"
      using resume_guards[OF resumed(3), unfolded keeps_guards_def] g Some by (simp add: guarded_def)
    ultimately show ?thesis
      using resumed others Some unique_kinds_middle(3)[of xs t ys u] g by (auto simp: guarded_def)
  qed (use resumed others unique_kinds_middle(1)[of xs t ys] g in \<open>auto simp: guarded_def\<close>)
next
  case (trapped t reply now c xs ys)
  have g: "guarded (can_state c) (xs @ t # ys)" using assms(2) trapped by simp
  have "held (task_kind v) (can_state (abandon lib t now c))" if v: "v \<in> set (xs @ ys)" for v
    using guarded_others[OF g v] abandon_guards held_shared by blast
  then show ?thesis using trapped unique_kinds_middle(1)[of xs t ys] g by (auto simp: guarded_def)
next
  case (upgraded arg c consumed now c' ts)
  then show ?thesis by (simp add: guarded_def unique_kinds_def)
qed

subsection \<open>Honest logs\<close>

text \<open>What the settings and the outside world ensure: the withdrawal fee covers the fee of a transaction
  and leaves room for the rent, the ledger names each burn by its own block, and the amounts and the
  length of the log stay within their types.\<close>

definition honest_fee :: "event \<Rightarrow> bool" where
  "honest_fee e \<longleftrightarrow>
     (case ev_payload e of
        EvInit args \<Rightarrow> fee_fits (ia_withdrawal_fee args)
      | EvUpgrade args \<Rightarrow> (case ua_withdrawal_fee args of None \<Rightarrow> True | Some fee \<Rightarrow> fee_fits fee)
      | _ \<Rightarrow> True)"

definition honest_log :: "event list \<Rightarrow> bool" where
  "honest_log log \<longleftrightarrow> length log < 2 ^ 63 \<and> distinct (map wr_burn_block_index (accepted_requests log)) \<and>
     total_received log < 2 ^ 64 \<and> total_queued log < 2 ^ 64 \<and> total_burned log < 2 ^ 64 \<and> list_all honest_fee log"

lemma honest_log_append: "honest_log (log @ events) \<Longrightarrow> honest_log log"
proof -
  have "accepted_requests (log @ events) = accepted_requests log @ accepted_requests events"
    by (simp add: accepted_requests_def List.map_filter_def)
  then show "honest_log (log @ events) \<Longrightarrow> honest_log log"
    by (simp add: honest_log_def total_received_def total_queued_def total_burned_def)
qed

text \<open>What the tasks ensure.\<close>

definition decent :: "event_type \<Rightarrow> bool" where
  "decent payload \<longleftrightarrow>
     (case payload of
        EvQueuedDeposit _ _ _ balance _ \<Rightarrow> 1786760 \<le> deposit_balance_lamports balance
      | EvCreatedWithdrawalTransaction burn_indices _ _ \<Rightarrow>
          burn_indices \<noteq> [] \<and> length burn_indices \<le> MAX_WITHDRAWALS_PER_NONCE_TX
      | EvAcceptedWithdrawalRequest request \<Rightarrow> fee_covered request
      | _ \<Rightarrow> True)"

lemma sound_run_extend:
  assumes "sound_run log" "decent payload" "honest_log (log @ [\<lparr>ev_timestamp = now, ev_payload = payload\<rparr>])"
  shows "sound_run (log @ [\<lparr>ev_timestamp = now, ev_payload = payload\<rparr>])"
  using assms
  by (cases payload) (auto simp: sound_run_def sound_log_def honest_log_def decent_def proper_event_def nonempty_batch_def
    accepted_requests_append accepted_request_def)

lemma log_fee: "replay_events lib log = Some s \<Longrightarrow> list_all honest_fee log \<Longrightarrow> fee_fits (st_withdrawal_fee s)"
proof (induction rule: replay_induct)
  case (init args t s)
  then have "st_withdrawal_fee s = ia_withdrawal_fee args" by (auto simp: state_from_init_def Let_def split: sum.splits)
  then show ?case using init by (simp add: honest_fee_def)
next
  case (step log s t payload s')
  show ?case
  proof (cases "\<exists>args. payload = EvUpgrade args")
    case True
    then obtain args where args: "payload = EvUpgrade args" "upgrade lib args s = Inr s'"
      using step.hyps by (auto simp: apply_state_transition_def split: sum.splits)
    from args(2) show ?thesis
      by (rule upgradeD) (use step args(1) in \<open>cases "ua_withdrawal_fee args"; simp add: upgrade_settings_def or_keep_def honest_fee_def\<close>)
  next
    case False
    then have "settings_of s' = settings_of s" using transition_settings[OF step.hyps(2)] by blast
    then show ?thesis using step by (simp add: settings_of_def)
  qed
qed

lemma emits_decent:
  assumes e: "emits t s e" and cl: "claim lib t s" and ok: "settings_ok s" and fee: "fee_fits (st_withdrawal_fee s)"
  shows "decent e"
proof (cases t)
  case (DepositTask available call)
  then show ?thesis using e cl validateD(4)[of s] ok by (auto simp: decent_def settings_ok_def)
next
  case (WithdrawTask account amount destination)
  then obtain b x where x: "checked_sub amount (st_withdrawal_fee s) = Some x"
    "e = EvAcceptedWithdrawalRequest \<lparr>wr_account = account, wr_solana_address = destination,
      wr_burn_block_index = b, wr_burned_amount = amount, wr_amount_to_transfer = x\<rparr>" using e by auto
  have "unat amount = unat x + unat (st_withdrawal_fee s)" using x(1) by (simp add: checked_sub_Some_iff)
  then show ?thesis using x(2) fee by (simp add: decent_def fee_covered_def fee_fits_def)
next
  case (CreateTask main n batches)
  then show ?thesis using e cl by (auto simp: decent_def reserved_def MAX_WITHDRAWALS_PER_NONCE_TX_def)
qed (use e in \<open>auto simp: decent_def\<close>)

definition sound_so_far :: "sdk \<Rightarrow> canister \<Rightarrow> bool" where
  "sound_so_far lib c \<longleftrightarrow> logged lib c \<and> (honest_log (can_log c) \<longrightarrow> sound_run (can_log c))"

interpretation sound_frame: piece_invariant lib decent "sound_so_far lib" for lib
proof
  fix payload now c c'
  assume e: "process_event lib payload now c = Some c'" and "sound_so_far lib c" "decent payload"
  then show "sound_so_far lib c'"
    using logged_event[OF _ e] process_eventD(2)[OF e] sound_run_extend honest_log_append
    unfolding sound_so_far_def by metis
qed (use log_invariant.kept_unrecorded in \<open>auto simp: sound_so_far_def unrecorded_def\<close>)

subsection \<open>Claims of the other tasks\<close>

definition harmless :: "task \<Rightarrow> event_type \<Rightarrow> bool" where
  "harmless u e \<longleftrightarrow> event_kind e \<noteq> None \<and> (exclusive (task_kind u) \<longrightarrow> event_kind e \<noteq> Some (task_kind u))"

definition claimed :: "sdk \<Rightarrow> task \<Rightarrow> canister \<Rightarrow> bool" where
  "claimed lib u c \<longleftrightarrow> logged lib c \<and> (sound_run (can_log c) \<longrightarrow> claim lib u (can_state c))"

interpretation claim_frame: piece_invariant lib "harmless u" "claimed lib u" for lib u
proof
  fix payload now c c'
  assume e: "process_event lib payload now c = Some c'" and cl: "claimed lib u c" and h: "harmless u payload"
  have log: "logged lib c" using cl by (simp add: claimed_def)
  have "claim lib u (can_state c')" if run: "sound_run (can_log c')"
  proof (rule claim_kept[OF process_eventD(1)[OF e]])
    have run_c: "sound_run (can_log c)" using run process_eventD(2)[OF e] sound_run_prefix by simp
    note st = run_state[OF log run_c]
    show "state_wf (can_state c)" by (rule st(1))
    show "claim lib u (can_state c)" using cl run_c by (simp add: claimed_def)
    show "event_kind payload \<noteq> None" "exclusive (task_kind u) \<Longrightarrow> event_kind payload \<noteq> Some (task_kind u)"
      using h by (simp_all add: harmless_def)
    have "total_received (can_log c') < 2 ^ 64" using run by (simp add: sound_run_def sound_log_def)
    then show "balance_fits payload (can_state c)"
      using st(5) process_eventD(2)[OF e]
      by (auto simp: balance_fits_def total_received_def received_amount_def split: event_type.splits)
  qed
  then show "claimed lib u c'" using logged_event[OF log e] by (simp add: claimed_def)
next
  fix c c' assume "claimed lib u c" "unrecorded c c'"
  moreover from this have "claim lib u (can_state c') = claim lib u (can_state c)"
    using claim_persistent[of lib u "can_state c'"] claim_persistent[of lib u "can_state c"] by (simp add: unrecorded_def)
  ultimately show "claimed lib u c'"
    using log_invariant.kept_unrecorded by (auto simp: claimed_def unrecorded_def)
qed

subsection \<open>The invariant of the system\<close>

definition system_ok :: "sdk \<Rightarrow> canister \<Rightarrow> task list \<Rightarrow> bool" where
  "system_ok lib c ts \<longleftrightarrow> logged lib c \<and> guarded (can_state c) ts \<and>
     (honest_log (can_log c) \<longrightarrow> sound_run (can_log c) \<and> (\<forall>t \<in> set ts. claim lib t (can_state c)))"

lemma honest_state:
  assumes ok: "system_ok lib c ts" and h: "honest_log (can_log c)"
  shows "sound_run (can_log c)" "settings_ok (can_state c)" "fee_fits (st_withdrawal_fee (can_state c))"
    "t \<in> set ts \<Longrightarrow> claim lib t (can_state c)"
proof -
  have log: "logged lib c" using ok by (simp add: system_ok_def)
  show run: "sound_run (can_log c)" and "t \<in> set ts \<Longrightarrow> claim lib t (can_state c)" using ok h by (simp_all add: system_ok_def)
  show "settings_ok (can_state c)" by (rule run_state(2)[OF log run])
  have "replay_events lib (can_log c) = Some (persistent (can_state c))" using log by (simp add: logged_def)
  then show "fee_fits (st_withdrawal_fee (can_state c))" using log_fee h by (fastforce simp: honest_log_def)
qed

lemma emits_harmless:
  assumes "guarded s (xs @ t # ys)" "u \<in> set (xs @ ys)" "emits t s e"
  shows "harmless u e"
  using emits_kind[OF assms(3)] guarded_others[OF assms(1,2)] by (auto simp: harmless_def)

lemma claimed_now: "system_ok lib c ts \<Longrightarrow> honest_log (can_log c) \<Longrightarrow> u \<in> set ts \<Longrightarrow> claimed lib u c"
  by (simp add: claimed_def system_ok_def)

lemma resumed_ok:
  assumes ok: "system_ok lib c (xs @ t # ys)" and law: "sdk_nonce_first lib"
    and r: "resume lib encode t reply now c = Some (t', c')"
  shows "system_ok lib c' (xs @ suspended_tasks t' @ ys)"
proof -
  have log: "logged lib c" and g: "guarded (can_state c) (xs @ t # ys)" using ok by (simp_all add: system_ok_def)
  have log': "logged lib c'" using log_invariant.kept_resume[OF log r] by simp
  have g': "guarded (can_state c') (xs @ suspended_tasks t' @ ys)"
    using step_guarded[OF system_step.resumed[OF r, of xs ys]] g by simp
  have "sound_run (can_log c') \<and> (\<forall>u \<in> set (xs @ suspended_tasks t' @ ys). claim lib u (can_state c'))"
    if h': "honest_log (can_log c')"
  proof -
    have h: "honest_log (can_log c)" using resume_log[OF r] h' honest_log_append by auto
    note now = honest_state[OF ok h]
    have "sound_so_far lib c" using log now(1) by (simp add: sound_so_far_def)
    then have "sound_so_far lib c'"
      using sound_frame.kept_resume[OF _ r emits_decent[OF _ _ now(2,3)]] now(4)[of t] by simp
    then have run: "sound_run (can_log c')" using h' by (simp add: sound_so_far_def)
    have "claim lib u (can_state c')" if u: "u \<in> set (xs @ ys)" for u
      using claim_frame.kept_resume[OF claimed_now[OF ok h] r emits_harmless[OF g u]] u run by (simp add: claimed_def)
    moreover have "claim lib u (can_state c')" if "t' = Some u" for u
      using resume_claim[OF r now(4) law log] run that by (simp add: next_claim_def)
    ultimately show ?thesis using run by auto
  qed
  then show ?thesis using log' g' by (simp add: system_ok_def)
qed

lemma trapped_ok:
  assumes ok: "system_ok lib c (xs @ t # ys)" and r: "resume lib encode t reply now c = None"
  shows "system_ok lib (abandon lib t now c) (xs @ ys)"
proof -
  let ?c = "abandon lib t now c"
  have log: "logged lib c" and g: "guarded (can_state c) (xs @ t # ys)" using ok by (simp_all add: system_ok_def)
  have log': "logged lib ?c" using log_invariant.kept_abandon[OF log] by simp
  have g': "guarded (can_state ?c) (xs @ ys)"
    using step_guarded[OF system_step.trapped[OF r, of xs ys]] g by simp
  have grown: "\<exists>events. can_log ?c = can_log c @ events"
    using append_only.kept_abandon[where log = "can_log c"] by simp
  have "sound_run (can_log ?c) \<and> (\<forall>u \<in> set (xs @ ys). claim lib u (can_state ?c))" if h': "honest_log (can_log ?c)"
  proof -
    have h: "honest_log (can_log c)" using grown h' honest_log_append by metis
    note now = honest_state[OF ok h]
    have "sound_so_far lib c" using log now(1) by (simp add: sound_so_far_def)
    then have "sound_so_far lib ?c"
      using sound_frame.kept_abandon[OF _ emits_decent[OF _ _ now(2,3)]] now(4)[of t] by simp
    then have run: "sound_run (can_log ?c)" using h' by (simp add: sound_so_far_def)
    have "claim lib u (can_state ?c)" if u: "u \<in> set (xs @ ys)" for u
      using claim_frame.kept_abandon[OF claimed_now[OF ok h] emits_harmless[OF g u]] u run by (simp add: claimed_def)
    then show ?thesis using run by blast
  qed
  then show ?thesis using log' g' by (simp add: system_ok_def)
qed

lemma started_ok:
  assumes ok: "system_ok lib c ts" and r: "start lib encode trigger now c = Some (t, c')"
  shows "system_ok lib c' (ts @ suspended_tasks t)"
proof -
  have log: "logged lib c" and g: "guarded (can_state c) ts" using ok by (simp_all add: system_ok_def)
  have log': "logged lib c'" using log_invariant.kept_start[OF log r] by simp
  have g': "guarded (can_state c') (ts @ suspended_tasks t)" using step_guarded[OF system_step.started[OF r, of ts]] g by simp
  have "sound_run (can_log c') \<and> (\<forall>u \<in> set (ts @ suspended_tasks t). claim lib u (can_state c'))"
    if h': "honest_log (can_log c')"
  proof -
    have h: "honest_log (can_log c)" using start_log[OF r] h' honest_log_append by auto
    note now = honest_state[OF ok h]
    have "sound_so_far lib c" using log now(1) by (simp add: sound_so_far_def)
    then have "sound_so_far lib c'" using sound_frame.kept_start[OF _ r] by (simp add: decent_def)
    then have run: "sound_run (can_log c')" using h' by (simp add: sound_so_far_def)
    have "claim lib u (can_state c')" if u: "u \<in> set ts" for u
    proof -
      have "harmless u (EvQuarantinedPendingMint i)" if "mint_round_start c = Some (minting, c2)" for i minting c2
      proof -
        have "\<not> held (TimerKind Mint) (can_state c)"
          using that timer_guard_held(1) by (auto simp: mint_round_start_def split: sum.splits)
        then have "task_kind u \<noteq> TimerKind Mint" using g u by (metis guarded_def)
        then show ?thesis by (auto simp: harmless_def event_kind_def)
      qed
      then show ?thesis using claim_frame.kept_start[OF claimed_now[OF ok h u] r] run by (simp add: claimed_def)
    qed
    moreover have "claim lib u (can_state c')" if "t = Some u" for u
      using start_claim[OF r log] run that by simp
    ultimately show ?thesis using run by auto
  qed
  then show ?thesis using log' g' by (simp add: system_ok_def)
qed

lemma upgraded_ok:
  assumes ok: "system_ok lib c ts" and up: "post_upgrade lib arg (can_log c) consumed now = Some c'"
  shows "system_ok lib c' []"
proof -
  have log: "logged lib c" using ok by (simp add: system_ok_def)
  have grown: "can_log c' = can_log c \<or> (\<exists>a. can_log c' = can_log c @ [\<lparr>ev_timestamp = now, ev_payload = EvUpgrade a\<rparr>])"
    using up unfolding post_upgrade_eq[OF log]
    by (auto elim!: bind_SomeE dest!: process_eventD(2) simp: setup_timers_def restarted_def split: option.splits minter_arg.splits)
  have "sound_run (can_log c')" if h: "honest_log (can_log c')"
    using grown
  proof
    assume "can_log c' = can_log c"
    then show ?thesis using h ok by (simp add: system_ok_def)
  next
    assume "\<exists>a. can_log c' = can_log c @ [\<lparr>ev_timestamp = now, ev_payload = EvUpgrade a\<rparr>]"
    then show ?thesis
      using sound_run_extend[of "can_log c"] h ok honest_log_append[of "can_log c"] by (auto simp: decent_def system_ok_def)
  qed
  then show ?thesis using post_upgrade_logged[OF log up] by (simp add: system_ok_def guarded_def unique_kinds_def)
qed

lemma installed_ok:
  assumes init: "init_canister lib arg now = Some c"
  shows "system_ok lib c []"
proof -
  obtain a where a: "can_log c = [] @ [\<lparr>ev_timestamp = now, ev_payload = EvInit a\<rparr>]"
    using init by (auto simp: init_canister_def lifecycle_init_def setup_timers_def split: minter_arg.splits sum.splits)
  have "sound_run []" by (simp add: sound_run_def sound_log_def accepted_requests_def List.map_filter_def
      total_received_def total_queued_def total_burned_def)
  then have "sound_run (can_log c)" if "honest_log (can_log c)"
    using that sound_run_extend[of "[]" "EvInit a" now] unfolding a by (simp add: decent_def)
  then show ?thesis using init_canister_logged[OF init] by (simp add: system_ok_def guarded_def unique_kinds_def)
qed

lemma reachable_ok:
  assumes "system_reachable lib encode sys" and law: "sdk_nonce_first lib"
  shows "system_ok lib (sys_canister sys) (sys_tasks sys)"
  using assms(1)
proof induction
  case (stepped sys sys')
  from stepped(2) show ?case
    by cases (use stepped(3) started_ok resumed_ok[OF _ law] trapped_ok upgraded_ok in auto)
qed (use installed_ok in auto)

end
