(* ===== verification/Cbor_Fields.thy ===== *)
theory Cbor_Fields
  imports Candid_Events Decimal_Text
begin

text \<open>
  \<^verbatim>\<open>minter/src/state/event/cbor/mod.rs\<close>: how the fields of an event are written to and read from the
  stable memory. The CBOR library is given by what its encoder and decoder are called with: a stream
  of items, of which the decoder takes the first and fails if it has another type. \<open>texts\<close> are the
  error texts of the libraries.
\<close>

subsection \<open>Items\<close>

datatype cbor_item =
    CborU64 u64
  | CborBytes bytes
  | CborArray "u64 option"

record cbor_texts =
  wrong_item :: "cbor_item list \<Rightarrow> string"
  wrong_signature :: "bytes \<Rightarrow> string"
  wrong_address :: "bytes \<Rightarrow> string"

type_synonym 'a cbor_decoder = "cbor_item list \<Rightarrow> string + 'a \<times> cbor_item list"

definition read_u64 :: "cbor_texts \<Rightarrow> u64 cbor_decoder" where
  "read_u64 texts items = (case items of CborU64 n # rest \<Rightarrow> Inr (n, rest) | _ \<Rightarrow> Inl (wrong_item texts items))"

definition read_bytes :: "cbor_texts \<Rightarrow> bytes cbor_decoder" where
  "read_bytes texts items = (case items of CborBytes bs # rest \<Rightarrow> Inr (bs, rest) | _ \<Rightarrow> Inl (wrong_item texts items))"

definition read_array :: "cbor_texts \<Rightarrow> u64 option cbor_decoder" where
  "read_array texts items = (case items of CborArray n # rest \<Rightarrow> Inr (n, rest) | _ \<Rightarrow> Inl (wrong_item texts items))"

text \<open>Reads an item and converts it, as \<open>d.bytes()?\<close> followed by \<open>map_err\<close>.\<close>

definition and_then :: "'a cbor_decoder \<Rightarrow> ('a \<Rightarrow> string + 'b) \<Rightarrow> 'b cbor_decoder" where
  "and_then read convert items =
     (case read items of
        Inl e \<Rightarrow> Inl e
      | Inr (x, rest) \<Rightarrow> map_sum id (\<lambda>y. (y, rest)) (convert x))"

subsection \<open>Fields\<close>

definition id_decode :: "cbor_texts \<Rightarrow> u64 cbor_decoder" where
  "id_decode texts = read_u64 texts"

definition id_encode :: "u64 \<Rightarrow> cbor_item list" where
  "id_encode v = [CborU64 v]"

definition signature_decode :: "cbor_texts \<Rightarrow> signature cbor_decoder" where
  "signature_decode texts = and_then (read_bytes texts)
     (\<lambda>bs. if length bs = 64 then Inr (word_of_be_bytes bs) else Inl (wrong_signature texts bs))"

definition signature_encode :: "signature \<Rightarrow> cbor_item list" where
  "signature_encode v = [CborBytes (be_bytes 64 v)]"

definition address_decode :: "cbor_texts \<Rightarrow> address cbor_decoder" where
  "address_decode texts = and_then (read_bytes texts)
     (\<lambda>bs. if length bs = 32 then Inr (word_of_be_bytes bs) else Inl (wrong_address texts bs))"

definition address_encode :: "address \<Rightarrow> cbor_item list" where
  "address_encode v = [CborBytes (be_bytes 32 v)]"

definition ed25519_public_key_decode :: "candid_codec \<Rightarrow> cbor_texts \<Rightarrow> public_key cbor_decoder" where
  "ed25519_public_key_decode codec texts = and_then (read_bytes texts) (deserialize_key codec)"

definition ed25519_public_key_encode :: "candid_codec \<Rightarrow> public_key \<Rightarrow> cbor_item list" where
  "ed25519_public_key_encode codec v = [CborBytes (serialize_key codec v)]"

definition hash_decode :: "cbor_texts \<Rightarrow> hash cbor_decoder" where
  "hash_decode texts = and_then (read_bytes texts)
     (\<lambda>bs. if length bs = 32 then Inr (word_of_be_bytes bs) else Inl ''expected 32 hash bytes'')"

definition hash_encode :: "hash \<Rightarrow> cbor_item list" where
  "hash_encode v = [CborBytes (be_bytes 32 v)]"

definition deposit_balance_decode :: "cbor_texts \<Rightarrow> deposit_balance cbor_decoder" where
  "deposit_balance_decode texts = and_then (read_u64 texts)
     (\<lambda>balance. ok_or (deposit_balance_new balance)
        (''deposit balance of '' @ show_nat (unat balance) @ '' lamports below the rent exemption threshold''))"

definition deposit_balance_encode :: "deposit_balance \<Rightarrow> cbor_item list" where
  "deposit_balance_encode v = [CborU64 (deposit_balance_lamports v)]"

fun read_many :: "cbor_texts \<Rightarrow> nat \<Rightarrow> u64 list cbor_decoder" where
  "read_many texts 0 items = Inr ([], items)"
| "read_many texts (Suc n) items =
     (case read_u64 texts items of
        Inl e \<Rightarrow> Inl e
      | Inr (x, rest) \<Rightarrow> map_sum id (\<lambda>(xs, rest'). (x # xs, rest')) (read_many texts n rest))"

definition id_vec_decode :: "cbor_texts \<Rightarrow> u64 list cbor_decoder" where
  "id_vec_decode texts items =
     (case read_array texts items of
        Inl e \<Rightarrow> Inl e
      | Inr (None, _) \<Rightarrow> Inl ''expected definite array''
      | Inr (Some len, rest) \<Rightarrow> read_many texts (unat len) rest)"

definition id_vec_encode :: "u64 list \<Rightarrow> cbor_item list" where
  "id_vec_encode v = CborArray (Some (of_nat (length v))) # map CborU64 v"

definition message_decode :: "candid_codec \<Rightarrow> cbor_texts \<Rightarrow> message cbor_decoder" where
  "message_decode codec texts = and_then (read_bytes texts) (deserialize_message codec)"

definition message_encode :: "candid_codec \<Rightarrow> message \<Rightarrow> cbor_item list" where
  "message_encode codec v = [CborBytes (serialize_message codec v)]"

subsection \<open>Reading what was written\<close>

text \<open>A field can be read back wherever it stands in the stream, for the values in \<open>valid\<close>.\<close>

locale field_codec =
  fixes encode :: "'a \<Rightarrow> cbor_item list" and decode :: "'a cbor_decoder" and valid :: "'a \<Rightarrow> bool"
  assumes decode_encode: "valid v \<Longrightarrow> decode (encode v @ rest) = Inr (v, rest)"
begin

lemma encode_inject:
  assumes "valid v" "valid w" "encode v @ rest = encode w @ rest'"
  shows "v = w \<and> rest = rest'"
proof -
  have "decode (encode v @ rest) = decode (encode w @ rest')" using assms(3) by (rule arg_cong)
  then show ?thesis unfolding decode_encode[OF assms(1)] decode_encode[OF assms(2)] by simp
qed

lemma decode_pair:
  assumes "valid v" "valid w"
  shows "(case decode (encode v @ encode w @ rest) of Inl e \<Rightarrow> None | Inr (v', rest') \<Rightarrow>
      (case decode rest' of Inl e \<Rightarrow> None | Inr (w', rest'') \<Rightarrow> Some (v', w', rest''))) = Some (v, w, rest)"
  using assms by (simp add: decode_encode)

end

lemma read_many_map: "read_many texts (length xs) (map CborU64 xs @ rest) = Inr (xs, rest)"
  by (induction xs) (simp_all add: read_u64_def)

interpretation id_field: field_codec id_encode "id_decode texts" "\<lambda>_. True" for texts
  by unfold_locales (simp add: id_encode_def id_decode_def read_u64_def)

interpretation signature_field: field_codec signature_encode "signature_decode texts" "\<lambda>_. True" for texts
  by unfold_locales (simp add: signature_encode_def signature_decode_def and_then_def read_bytes_def word_of_be_bytes_be_bytes)

interpretation address_field: field_codec address_encode "address_decode texts" "\<lambda>_. True" for texts
  by unfold_locales (simp add: address_encode_def address_decode_def and_then_def read_bytes_def word_of_be_bytes_be_bytes)

interpretation hash_field: field_codec hash_encode "hash_decode texts" "\<lambda>_. True" for texts
  by unfold_locales (simp add: hash_encode_def hash_decode_def and_then_def read_bytes_def word_of_be_bytes_be_bytes)

interpretation key_field: field_codec "ed25519_public_key_encode codec" "ed25519_public_key_decode codec texts"
  "\<lambda>k. deserialize_key codec (serialize_key codec k) = Inr k" for codec texts
  by unfold_locales (simp add: ed25519_public_key_encode_def ed25519_public_key_decode_def and_then_def read_bytes_def)

interpretation message_field: field_codec "message_encode codec" "message_decode codec texts"
  "\<lambda>m. deserialize_message codec (serialize_message codec m) = Inr m" for codec texts
  by unfold_locales (simp add: message_encode_def message_decode_def and_then_def read_bytes_def)

interpretation deposit_balance_field: field_codec deposit_balance_encode "deposit_balance_decode texts" "\<lambda>_. True" for texts
  by unfold_locales (simp add: deposit_balance_encode_def deposit_balance_decode_def and_then_def read_u64_def ok_or_def
      deposit_balance_new_Some_iff[THEN iffD2] split: option.split)

interpretation id_vec_field: field_codec id_vec_encode "id_vec_decode texts" "\<lambda>v. length v < 2 ^ 64" for texts
  by unfold_locales (simp add: id_vec_encode_def id_vec_decode_def read_array_def read_many_map unat_of_nat take_bit_nat_eq_self)



end
