(* ===== verification/Dashboard.thy ===== *)
theory Dashboard
  imports Minter_State Decimal_Text
begin

text \<open>
  \<^verbatim>\<open>minter/src/dashboard/mod.rs\<close>: the query parameters, the pagination of the tables and the rows of the
  dashboard, up to the HTML templates. The display of accounts and signatures is that of their
  libraries, given by the parameter \<open>disp\<close>; \<open>raw_query_param\<close> looks up a parameter of the request. A
  \<open>usize\<close> has 32 bits on the platform of the canister.
\<close>

subsection \<open>Numbers as text\<close>

text \<open>\<open>usize::from_str\<close>: an optional plus sign, at least one digit, and no overflow.\<close>

definition parse_usize :: "string \<Rightarrow> nat option" where
  "parse_usize arg =
     (let digits = (case arg of c # rest \<Rightarrow> if c = CHR ''+'' then rest else arg | [] \<Rightarrow> [])
      in if digits \<noteq> [] \<and> list_all is_digit digits \<and> digits_value digits < 2 ^ 32
         then Some (digits_value digits) else None)"

definition LAMPORTS_PER_SOL :: u64 where
  "LAMPORTS_PER_SOL = 1000000000"

definition zero_padded :: "nat \<Rightarrow> string \<Rightarrow> string" where
  "zero_padded width s = replicate (width - length s) CHR ''0'' @ s"

definition trim_end_zeros :: "string \<Rightarrow> string" where
  "trim_end_zeros s = rev (dropWhile (\<lambda>c. c = CHR ''0'') (rev s))"

definition lamports_to_sol :: "u64 \<Rightarrow> string" where
  "lamports_to_sol lamports =
     (let whole = lamports div LAMPORTS_PER_SOL; frac = lamports mod LAMPORTS_PER_SOL
      in if frac = 0 then show_nat (unat whole)
         else show_nat (unat whole) @ ''.'' @ trim_end_zeros (zero_padded 9 (show_nat (unat frac))))"

definition solscan_cluster_suffix :: "solana_network \<Rightarrow> string" where
  "solscan_cluster_suffix network =
     (case network of Mainnet \<Rightarrow> [] | Devnet \<Rightarrow> ''?cluster=devnet'' | Testnet \<Rightarrow> ''?cluster=testnet'')"

definition network_debug :: "solana_network \<Rightarrow> string" where
  "network_debug network = (case network of Mainnet \<Rightarrow> ''Mainnet'' | Devnet \<Rightarrow> ''Devnet'' | Testnet \<Rightarrow> ''Testnet'')"

definition key_name_display :: "ed25519_key_name \<Rightarrow> string" where
  "key_name_display name =
     (case name of LocalDevelopment \<Rightarrow> ''dfx_test_key'' | MainnetTestKey1 \<Rightarrow> ''test_key_1'' | MainnetProdKey1 \<Rightarrow> ''key_1'')"

subsection \<open>Pagination\<close>

definition DEFAULT_PAGE_SIZE :: nat where
  "DEFAULT_PAGE_SIZE = 100"

record pagination_parameters =
  pp_quarantined_swept_deposits_start :: nat
  pp_minted_sweeps_start :: nat
  pp_withdrawals_start :: nat

definition parse_param :: "(string \<Rightarrow> string option) \<Rightarrow> string \<Rightarrow> string + nat" where
  "parse_param raw_query_param param =
     (case raw_query_param param of
        None \<Rightarrow> Inr 0
      | Some arg \<Rightarrow> ok_or (parse_usize arg) (''failed to parse the '' @ [CHR 0x27] @ param @ [CHR 0x27] @ '' parameter''))"

definition from_query_params :: "(string \<Rightarrow> string option) \<Rightarrow> string + pagination_parameters" where
  "from_query_params raw_query_param =
     (case parse_param raw_query_param ''quarantined_swept_deposits_start'' of
        Inl e \<Rightarrow> Inl e
      | Inr quarantined \<Rightarrow>
     (case parse_param raw_query_param ''minted_sweeps_start'' of
        Inl e \<Rightarrow> Inl e
      | Inr minted \<Rightarrow>
     (case parse_param raw_query_param ''withdrawals_start'' of
        Inl e \<Rightarrow> Inl e
      | Inr withdrawals \<Rightarrow>
          Inr \<lparr>pp_quarantined_swept_deposits_start = quarantined, pp_minted_sweeps_start = minted,
               pp_withdrawals_start = withdrawals\<rparr>)))"

definition other_params :: "pagination_parameters \<Rightarrow> string \<Rightarrow> string" where
  "other_params p exclude =
     concat (map (\<lambda>(name, v). ''&'' @ name @ ''='' @ show_nat v)
       (filter (\<lambda>(name, _). name \<noteq> exclude)
         [(''quarantined_swept_deposits_start'', pp_quarantined_swept_deposits_start p),
          (''minted_sweeps_start'', pp_minted_sweeps_start p),
          (''withdrawals_start'', pp_withdrawals_start p)]))"

record table_page =
  page_index :: nat
  page_offset :: nat

record table_pagination =
  table_id :: string
  table_width :: nat
  page_offset_query_param :: string
  other_query_params :: string
  current_page_index :: nat
  table_pages :: "table_page list"

record 'a paginated_table =
  current_page :: "'a list"
  pagination :: table_pagination
  total_items :: nat

text \<open>\<open>(0..num_items).step_by(page_size)\<close>, for a step that is not zero.\<close>

definition stepped :: "nat \<Rightarrow> nat \<Rightarrow> nat list" where
  "stepped num_items page_size = map (\<lambda>i. i * page_size) [0..<(num_items + page_size - 1) div page_size]"

text \<open>A step or a divisor of zero traps.\<close>

definition table_pagination_new ::
  "nat \<Rightarrow> nat \<Rightarrow> nat \<Rightarrow> nat \<Rightarrow> string \<Rightarrow> string \<Rightarrow> string \<Rightarrow> table_pagination option" where
  "table_pagination_new num_items current_offset page_size width reference query_param others = do {
     assert_that (page_size \<noteq> 0);
     Some \<lparr>table_id = reference, table_width = width, page_offset_query_param = query_param,
           other_query_params = others, current_page_index = current_offset div page_size + 1,
           table_pages = map (\<lambda>(index, offset). \<lparr>page_index = index + 1, page_offset = offset\<rparr>)
             (enumerate 0 (stepped num_items page_size))\<rparr>
   }"

definition page_start :: "nat \<Rightarrow> nat \<Rightarrow> nat \<Rightarrow> nat" where
  "page_start num_items current_page_offset page_size =
     (if page_size = 0 \<or> num_items = 0 then 0
      else let aligned = (current_page_offset div page_size) * page_size;
               max_start = ((num_items - 1) div page_size) * page_size
           in min aligned max_start)"

definition table_from_rows ::
  "'r list \<Rightarrow> ('r \<Rightarrow> 'a) \<Rightarrow> nat \<Rightarrow> nat \<Rightarrow> nat \<Rightarrow> string \<Rightarrow> string \<Rightarrow> string \<Rightarrow> 'a paginated_table option" where
  "table_from_rows rows to_row current_page_offset page_size num_cols reference query_param others = do {
     let num_items = length rows;
     let offset = page_start num_items current_page_offset page_size;
     p \<leftarrow> table_pagination_new num_items offset page_size num_cols reference query_param others;
     Some \<lparr>current_page = map to_row (take page_size (drop offset rows)), pagination = p, total_items = num_items\<rparr>
   }"

definition table_from_items ::
  "'a list \<Rightarrow> nat \<Rightarrow> nat \<Rightarrow> nat \<Rightarrow> string \<Rightarrow> string \<Rightarrow> string \<Rightarrow> 'a paginated_table option" where
  "table_from_items items current_page_offset page_size num_cols reference query_param others =
     table_from_rows items (\<lambda>x. x) current_page_offset page_size num_cols reference query_param others"

definition table_is_empty :: "'a paginated_table \<Rightarrow> bool" where
  "table_is_empty t \<longleftrightarrow> total_items t = 0"

definition has_more_than_one_page :: "'a paginated_table \<Rightarrow> bool" where
  "has_more_than_one_page t \<longleftrightarrow> length (table_pages (pagination t)) > 1"

subsection \<open>The rows\<close>

record dashboard_withdrawal =
  dw_transaction :: "string option"
  dw_account :: string
  dw_withdrawal_amount :: string
  dw_burned_amount :: string
  dw_burn_block_index :: string
  dw_status :: string

record dashboard_quarantined_deposit =
  dq_deposit_id :: string
  dq_account :: string
  dq_signature :: string
  dq_cause :: string
  dq_planned_amount :: string
  dq_amount_to_mint :: string

record dashboard_minted_sweep =
  dm_deposit_id :: string
  dm_account :: string
  dm_minted_amount :: string
  dm_mint_block_index :: string

record dashboard_template =
  dt_solana_cluster :: string
  dt_solscan_suffix :: string
  dt_minter_address :: string
  dt_ledger_canister_id :: principal
  dt_sol_rpc_canister_id :: principal
  dt_master_key_name :: string
  dt_withdrawal_fee :: string
  dt_minimum_deposit_amount :: string
  dt_minimum_withdrawal_amount :: string
  dt_balance :: string
  dt_quarantined_swept_deposits_table :: "dashboard_quarantined_deposit paginated_table"
  dt_minted_sweeps_table :: "dashboard_minted_sweep paginated_table"
  dt_withdrawals_table :: "dashboard_withdrawal paginated_table"

record display =
  disp_account :: "account \<Rightarrow> string"
  disp_signature :: "signature \<Rightarrow> string"

definition quarantined_row :: "display \<Rightarrow> deposit_sol_id \<times> quarantined_deposit \<Rightarrow> dashboard_quarantined_deposit" where
  "quarantined_row disp entry =
     (let quarantined = snd entry in
      \<lparr>dq_deposit_id = show_nat (unat (fst entry)),
       dq_account = disp_account disp (qd_account (sd_deposit (qr_deposit quarantined))),
       dq_signature = disp_signature disp (sd_signature (qr_deposit quarantined)),
       dq_cause = (case qr_cause quarantined of
          SweepUnreadable \<Rightarrow> ''Sweep unreadable'' | MintUnresolved _ _ \<Rightarrow> ''Mint unresolved''),
       dq_planned_amount = lamports_to_sol (planned_amount quarantined),
       dq_amount_to_mint = (case qr_cause quarantined of
          SweepUnreadable \<Rightarrow> ''-'' | MintUnresolved amount_to_mint _ \<Rightarrow> lamports_to_sol amount_to_mint)\<rparr>)"

definition minted_row :: "display \<Rightarrow> deposit_sol_id \<times> minted_sweep \<Rightarrow> dashboard_minted_sweep" where
  "minted_row disp entry =
     (let minted = snd entry in
      \<lparr>dm_deposit_id = show_nat (unat (fst entry)),
       dm_account = disp_account disp (qd_account (sd_deposit (ms_deposit minted))),
       dm_minted_amount = lamports_to_sol (ms_minted_amount minted),
       dm_mint_block_index = show_nat (unat (ms_mint_block_index minted))\<rparr>)"

definition withdrawal_row ::
  "display \<Rightarrow> ledger_burn_index \<Rightarrow> withdrawal_request \<Rightarrow> string \<Rightarrow> string option \<Rightarrow> dashboard_withdrawal" where
  "withdrawal_row disp burn_index req status_text transaction =
     \<lparr>dw_transaction = transaction, dw_account = disp_account disp (wr_account req),
      dw_withdrawal_amount = lamports_to_sol (wr_amount_to_transfer req),
      dw_burned_amount = lamports_to_sol (wr_burned_amount req),
      dw_burn_block_index = show_nat (unat burn_index), dw_status = status_text\<rparr>"

definition sent_rows ::
  "display \<Rightarrow> string \<Rightarrow> (ledger_burn_index, sent_withdrawal_request) btree_map \<Rightarrow> dashboard_withdrawal list" where
  "sent_rows disp status_text requests =
     map (\<lambda>(burn_index, sent). withdrawal_row disp burn_index (sn_request sent) status_text
       (Some (disp_signature disp (sn_signature sent)))) (rev (bm_iter requests))"

definition withdrawal_rows :: "display \<Rightarrow> minter_state \<Rightarrow> dashboard_withdrawal list" where
  "withdrawal_rows disp s =
     (let pending_and_created = bm_collect (bm_iter (st_pending_withdrawal_requests s) @ bm_iter (st_created_withdrawal_requests s))
      in map (\<lambda>(burn_index, pending). withdrawal_row disp burn_index (pw_request pending) ''Pending'' None)
           (rev (bm_iter pending_and_created)) @
         sent_rows disp ''Sent'' (st_sent_withdrawal_requests s) @
         sent_rows disp ''Succeeded'' (st_successful_withdrawal_requests s) @
         sent_rows disp ''Failed'' (st_failed_withdrawal_requests s))"

definition dashboard_from_state ::
  "sdk \<Rightarrow> display \<Rightarrow> minter_state \<Rightarrow> pagination_parameters \<Rightarrow> dashboard_template option" where
  "dashboard_from_state lib disp s p = do {
     quarantined_table \<leftarrow> table_from_items (map (quarantined_row disp) (rev (bm_iter (d_quarantined (st_deposits s)))))
       (pp_quarantined_swept_deposits_start p) DEFAULT_PAGE_SIZE 6 ''quarantined-swept-deposits''
       ''quarantined_swept_deposits_start'' (other_params p ''quarantined_swept_deposits_start'');
     minted_table \<leftarrow> table_from_rows (rev (bm_iter (d_minted (st_deposits s)))) (minted_row disp)
       (pp_minted_sweeps_start p) DEFAULT_PAGE_SIZE 4 ''minted-sweeps'' ''minted_sweeps_start''
       (other_params p ''minted_sweeps_start'');
     withdrawals_table \<leftarrow> table_from_items (withdrawal_rows disp s) (pp_withdrawals_start p) DEFAULT_PAGE_SIZE 6
       ''withdrawals'' ''withdrawals_start'' (other_params p ''withdrawals_start'');
     Some \<lparr>dt_solana_cluster = network_debug (st_solana_network s),
           dt_solscan_suffix = solscan_cluster_suffix (st_solana_network s),
           dt_minter_address = (case st_minter_public_key s of
              None \<Rightarrow> [] | Some key \<Rightarrow> sdk_show_address lib (minter_address lib key)),
           dt_ledger_canister_id = st_ledger_canister_id s, dt_sol_rpc_canister_id = st_sol_rpc_canister_id s,
           dt_master_key_name = key_name_display (st_master_key_name s),
           dt_withdrawal_fee = lamports_to_sol (st_withdrawal_fee s),
           dt_minimum_deposit_amount = lamports_to_sol (st_minimum_deposit_amount s),
           dt_minimum_withdrawal_amount = lamports_to_sol (st_minimum_withdrawal_amount s),
           dt_balance = lamports_to_sol (st_balance s),
           dt_quarantined_swept_deposits_table = quarantined_table, dt_minted_sweeps_table = minted_table,
           dt_withdrawals_table = withdrawals_table\<rparr>
   }"

subsection \<open>Amounts are shown exactly\<close>

lemma trim_end_append:
  "\<exists>k. s = rev (dropWhile (\<lambda>c. c = x) (rev s)) @ replicate k x"
proof -
  have "takeWhile (\<lambda>c. c = x) (rev s) = replicate (length (takeWhile (\<lambda>c. c = x) (rev s))) x"
    by (rule replicate_eqI) (auto dest: set_takeWhileD)
  then obtain k where k: "takeWhile (\<lambda>c. c = x) (rev s) = replicate k x" by blast
  have "s = rev (takeWhile (\<lambda>c. c = x) (rev s) @ dropWhile (\<lambda>c. c = x) (rev s))"
    by (simp only: takeWhile_dropWhile_id rev_rev_ident)
  then show ?thesis unfolding rev_append k by auto
qed

lemma trim_end_zeros_append:
  "\<exists>k. s = trim_end_zeros s @ replicate k CHR ''0'' \<and> k + length (trim_end_zeros s) = length s"
proof -
  obtain k where k: "s = trim_end_zeros s @ replicate k CHR ''0''"
    using trim_end_append[of s "CHR ''0''"] unfolding trim_end_zeros_def by blast
  moreover have "k + length (trim_end_zeros s) = length s" using arg_cong[OF k, of length] by simp
  ultimately show ?thesis by blast
qed

text \<open>The value of a decimal number of SOL with at most nine decimals, in lamports.\<close>

definition sol_value :: "string \<Rightarrow> nat" where
  "sol_value s =
     (let whole = takeWhile (\<lambda>c. c \<noteq> CHR ''.'') s; frac = drop 1 (dropWhile (\<lambda>c. c \<noteq> CHR ''.'') s)
      in digits_value whole * 10 ^ 9 + digits_value (frac @ replicate (9 - length frac) CHR ''0''))"

lemma digit_not_dot: "list_all is_digit s \<Longrightarrow> CHR ''.'' \<notin> set s"
  by (auto simp: list_all_iff is_digit_def)

lemma frac_digits:
  assumes "n < 10 ^ 9"
  shows "let frac = trim_end_zeros (zero_padded 9 (show_nat n))
    in length frac \<le> 9 \<and> digits_value (frac @ replicate (9 - length frac) CHR ''0'') = n"
proof -
  let ?p = "zero_padded 9 (show_nat n)"
  have len: "length ?p = 9" using show_nat_length[of n 8] assms by (simp add: zero_padded_def)
  obtain k where k: "?p = trim_end_zeros ?p @ replicate k CHR ''0''" "k + length (trim_end_zeros ?p) = length ?p"
    using trim_end_zeros_append by blast
  have "k = 9 - length (trim_end_zeros ?p)" using k(2) len by simp
  then have "trim_end_zeros ?p @ replicate (9 - length (trim_end_zeros ?p)) CHR ''0'' = ?p" using k(1) by simp
  moreover have "digits_value ?p = n" by (simp add: zero_padded_def digits_value_zeros show_nat_digits)
  ultimately show ?thesis using k(2) len by (simp add: Let_def)
qed

lemma takeWhile_not_dot:
  assumes "CHR ''.'' \<notin> set w"
  shows "takeWhile (\<lambda>c. c \<noteq> CHR ''.'') w = w" "dropWhile (\<lambda>c. c \<noteq> CHR ''.'') w = []"
    "takeWhile (\<lambda>c. c \<noteq> CHR ''.'') (w @ CHR ''.'' # f) = w" "dropWhile (\<lambda>c. c \<noteq> CHR ''.'') (w @ CHR ''.'' # f) = CHR ''.'' # f"
  using assms by (auto simp: takeWhile_append dropWhile_append takeWhile_eq_all_conv)

subsection \<open>Pages\<close>

lemma concat_pages: "concat (map (\<lambda>i. take k (drop (i * k) xs)) [0..<n]) = take (n * k) xs"
proof (induction n)
  case (Suc n)
  have "take (Suc n * k) xs = take (n * k) xs @ take k (drop (n * k) xs)"
    using take_add[of "n * k" k xs] by (simp add: add.commute)
  then show ?case using Suc.IH by simp
qed simp

lemma pages_enough: "0 < k \<Longrightarrow> m \<le> ((m + k - 1) div k) * k" for k m :: nat
proof -
  assume k: "0 < k"
  have "m + k - 1 < ((m + k - 1) div k) * k + k"
    using div_mult_mod_eq[of "m + k - 1" k] mod_less_divisor[OF k, of "m + k - 1"] by linarith
  then show ?thesis using k by linarith
qed

lemma page_start_page:
  assumes "0 < k" "0 < m"
  shows "\<exists>i < (m + k - 1) div k. page_start m off k = i * k \<and> i * k < m"
proof -
  let ?i = "min (off div k) ((m - 1) div k)"
  have start: "page_start m off k = ?i * k"
    using assms by (auto simp: page_start_def Let_def min_def mult_le_mono1)
  have "(m + k - 1) div k = (m - 1) div k + 1" using assms by (cases m) (simp_all add: div_add_self2)
  then have "?i < (m + k - 1) div k" by linarith
  moreover have "?i * k \<le> m - 1" using div_times_less_eq_dividend[of "m - 1" k] mult_le_mono1[of ?i "(m - 1) div k" k] by linarith
  then have "?i * k < m" using assms(2) by linarith
  ultimately show ?thesis using start by (intro exI[of _ ?i]) simp
qed

subsection \<open>Properties\<close>

text \<open>C34: The dashboard shows every amount exactly: reading the text back as a decimal number of SOL gives
  the lamports, for every \<open>u64\<close>.\<close>

theorem lamports_to_sol_exact: "sol_value (lamports_to_sol lamports) = unat lamports"
proof -
  let ?w = "unat lamports div 10 ^ 9" and ?f = "unat lamports mod 10 ^ 9"
  have w: "unat (lamports div LAMPORTS_PER_SOL) = ?w" "unat (lamports mod LAMPORTS_PER_SOL) = ?f"
    by (simp_all add: LAMPORTS_PER_SOL_def unat_div_distrib unat_mod_distrib)
  have dot: "CHR ''.'' \<notin> set (show_nat ?w)" using show_nat_digits[of ?w] by (intro digit_not_dot) blast
  have num: "digits_value (show_nat ?w) = ?w" using show_nat_digits by blast
  have sum: "?w * 10 ^ 9 + ?f = unat lamports" by (rule div_mult_mod_eq)
  show ?thesis
  proof (cases "lamports mod LAMPORTS_PER_SOL = 0")
    case True
    then have "?f = 0" using w(2) by simp
    moreover have "lamports_to_sol lamports = show_nat ?w" using True w(1) by (simp add: lamports_to_sol_def)
    ultimately show ?thesis
      using sum num dot digits_value_zeros[of 9 "[]"]
      by (simp add: sol_value_def takeWhile_not_dot digits_value_def)
  next
    case False
    let ?frac = "trim_end_zeros (zero_padded 9 (show_nat ?f))"
    have "lamports_to_sol lamports = show_nat ?w @ CHR ''.'' # ?frac" using False w by (simp add: lamports_to_sol_def)
    moreover have "digits_value (?frac @ replicate (9 - length ?frac) CHR ''0'') = ?f"
      using frac_digits[of ?f] by (simp add: Let_def)
    ultimately show ?thesis using sum num dot by (simp add: sol_value_def takeWhile_not_dot)
  qed
qed

text \<open>C33: A table of the dashboard is paginated without loss: its pages together hold every row once, in
  order; the page shown is one of them, whatever offset was asked for, and it has rows unless the
  table is empty.\<close>

theorem table_pages_partition:
  assumes "0 < page_size" "rows \<noteq> []"
  shows "\<exists>t. table_from_rows rows to_row off page_size cols ref param others = Some t \<and>
    concat (map (\<lambda>p. map to_row (take page_size (drop (page_offset p) rows))) (table_pages (pagination t))) = map to_row rows \<and>
    (\<exists>p \<in> set (table_pages (pagination t)). page_index p = current_page_index (pagination t) \<and>
       current_page t = map to_row (take page_size (drop (page_offset p) rows)) \<and> current_page t \<noteq> [])"
proof -
  let ?n = "(length rows + page_size - 1) div page_size" and ?off = "page_start (length rows) off page_size"
  let ?page = "\<lambda>i. \<lparr>page_index = i + 1, page_offset = i * page_size\<rparr>"
  have pages: "map (\<lambda>(index, offset). \<lparr>page_index = index + 1, page_offset = offset\<rparr>)
      (enumerate 0 (stepped (length rows) page_size)) = map ?page [0..<?n]"
    by (rule nth_equalityI) (simp_all add: stepped_def nth_enumerate_eq)
  obtain i where i: "i < ?n" "?off = i * page_size" "i * page_size < length rows"
    using page_start_page[of page_size "length rows" off] assms by auto
  have whole: "concat (map (\<lambda>i. take page_size (drop (i * page_size) rows)) [0..<?n]) = rows"
    unfolding concat_pages using pages_enough[OF assms(1), of "length rows"] by simp
  have "concat (map (\<lambda>p. map to_row (take page_size (drop (page_offset p) rows))) (map ?page [0..<?n])) =
      map to_row (concat (map (\<lambda>i. take page_size (drop (i * page_size) rows)) [0..<?n]))"
    by (simp add: map_concat comp_def)
  note all = this[unfolded whole]
  obtain t where t: "table_from_rows rows to_row off page_size cols ref param others = Some t"
    and tp: "table_pages (pagination t) = map ?page [0..<?n]" "current_page_index (pagination t) = i + 1"
    and cp: "current_page t = map to_row (take page_size (drop (i * page_size) rows))"
    using assms(1) i(2) unfolding table_from_rows_def table_pagination_new_def pages Let_def by simp
  have "?page i \<in> set (map ?page [0..<?n])" using i(1) by (simp only: set_map set_upt) (rule imageI, simp)
  moreover have "current_page t \<noteq> []" using cp i(3) assms(1) by simp
  ultimately have "\<exists>p \<in> set (table_pages (pagination t)). page_index p = current_page_index (pagination t) \<and>
       current_page t = map to_row (take page_size (drop (page_offset p) rows)) \<and> current_page t \<noteq> []"
    using cp tp by (intro bexI[of _ "?page i"]) simp_all
  then show ?thesis using t all[folded tp(1)] by blast
qed

theorem table_pages_partition_witness:
  "\<exists>t. table_from_rows [1, 2, 3 :: nat] (\<lambda>x. x) 7 2 4 [] [] [] = Some t \<and> current_page t \<noteq> []"
  using table_pages_partition[of 2 "[1, 2, 3 :: nat]" "\<lambda>x. x" 7 4 "[]" "[]" "[]"] by auto

end
