(* ===== verification/Dashboard_View.thy ===== *)
theory Dashboard_View
  imports Dashboard Minter_Log
begin

text \<open>The withdrawals table of the dashboard shows the requests of the state, each once.\<close>

lemma filter_key:
  assumes "distinct (map fst xs)"
  shows "filter (\<lambda>p. fst p = k) xs = (case map_of xs k of None \<Rightarrow> [] | Some v \<Rightarrow> [(k, v)])"
  using assms
proof (induction xs)
  case (Cons p xs)
  have "\<forall>q \<in> set xs. fst q \<noteq> fst p" using Cons.prems by (metis distinct.simps(2) imageI list.set_map list.simps(9))
  then have "filter (\<lambda>p. fst p = k) xs = []" if "fst p = k" using that by (simp add: filter_empty_conv)
  then show ?case using Cons by (cases p) (auto split: option.splits)
qed simp

lemma sole_list: "sole xs k v \<Longrightarrow> xs = (replicate (length xs) None)[k := Some v]"
  by (rule nth_equalityI) (auto simp: sole_def nth_list_update)

text \<open>The rows of one bucket for a burn index, in the reverse order of the table.\<close>

lemma rows_of_bucket:
  assumes "\<And>b x. dw_burn_block_index (row b x) = show_nat (unat b)"
  shows "filter (\<lambda>r. dw_burn_block_index r = show_nat (unat b)) (map (\<lambda>(b, x). row b x) (rev (bm_iter m))) =
    (case bm_get m b of None \<Rightarrow> [] | Some x \<Rightarrow> [row b x])"
proof -
  have "((\<lambda>r. dw_burn_block_index r = show_nat (unat b)) \<circ> (\<lambda>(b, x). row b x)) = (\<lambda>p. fst p = b)"
    using assms by (auto simp: fun_eq_iff show_nat_inject word_unat_eq_iff)
  then have "filter (\<lambda>r. dw_burn_block_index r = show_nat (unat b)) (map (\<lambda>(b, x). row b x) (rev (bm_iter m))) =
      map (\<lambda>(b, x). row b x) (rev (filter (\<lambda>p. fst p = b) (bm_iter m)))"
    by (simp add: filter_map rev_filter)
  then show ?thesis using filter_key[OF bm_iter_distinct[of m], of b] by (simp add: bm_get_def split: option.split)
qed

fun wstage_text :: "wstage \<Rightarrow> string" where
  "wstage_text WtPending = ''Pending''"
| "wstage_text WtCreated = ''Pending''"
| "wstage_text (WtSent _) = ''Sent''"
| "wstage_text (WtSucceeded _) = ''Succeeded''"
| "wstage_text (WtFailed _) = ''Failed''"

fun wstage_signature :: "wstage \<Rightarrow> signature option" where
  "wstage_signature (WtSent sig) = Some sig"
| "wstage_signature (WtSucceeded sig) = Some sig"
| "wstage_signature (WtFailed sig) = Some sig"
| "wstage_signature _ = None"



end
