(* ===== verification/Metrics.thy ===== *)
theory Metrics
  imports Audit_Log Minter_Log
begin

text \<open>
  \<^verbatim>\<open>minter/src/metrics.rs\<close>: the samples that the metrics endpoint reports, in order, before the encoder
  casts the values to floating point and adds the help texts. What the platform reports of the
  canister is the argument \<open>platform\<close>.
\<close>

record platform =
  pf_stable_pages :: u64
  pf_heap_bytes :: nat
  pf_cycle_balance :: u128
  pf_canister_version :: u64
  pf_time :: u64

datatype sample =
    Gauge string nat
  | Counter string nat
  | GaugeVec string "((string \<times> string) \<times> nat) list"
  | CounterVec string "((string \<times> string) \<times> nat) list"

definition WASM_PAGE_SIZE_IN_BYTES :: nat where
  "WASM_PAGE_SIZE_IN_BYTES = 65536"

definition NANOS_PER_SECOND :: u64 where
  "NANOS_PER_SECOND = 1000000000"

definition age_seconds :: "u64 \<Rightarrow> u64 option \<Rightarrow> u64" where
  "age_seconds now start = (case start of None \<Rightarrow> 0 | Some t \<Rightarrow> saturating_sub now t div NANOS_PER_SECOND)"

definition count_cause :: "quarantined_deposit \<Rightarrow> nat \<times> nat \<Rightarrow> nat \<times> nat" where
  "count_cause quarantined counts =
     (case qr_cause quarantined of
        SweepUnreadable \<Rightarrow> (fst counts + 1, snd counts)
      | MintUnresolved _ _ \<Rightarrow> (fst counts, snd counts + 1))"

definition quarantined_by_cause :: "deposits \<Rightarrow> nat \<times> nat" where
  "quarantined_by_cause d = fold count_cause (bm_values (d_quarantined d)) (0, 0)"

definition pending_withdrawal_gauge :: "minter_state \<Rightarrow> nat" where
  "pending_withdrawal_gauge s = bm_len (st_pending_withdrawal_requests s) + bm_len (st_created_withdrawal_requests s)"

definition encode_metrics :: "platform \<Rightarrow> canister \<Rightarrow> sample list" where
  "encode_metrics platform c =
     (let s = can_state c; d = st_deposits s; m = can_metrics c;
          (sweep_unreadable, mint_unresolved) = quarantined_by_cause d
      in [Gauge ''stable_memory_bytes'' (unat (pf_stable_pages platform) * WASM_PAGE_SIZE_IN_BYTES),
          Gauge ''heap_memory_bytes'' (pf_heap_bytes platform),
          GaugeVec ''cycle_balance'' [((''canister'', ''cksol-minter''), unat (pf_cycle_balance platform))],
          Gauge ''canister_version'' (unat (pf_canister_version platform)),
          Counter ''total_event_count'' (unat (of_nat (length (can_log c)) :: u64)),
          Gauge ''finalized_deposits'' (sweeps_deposit_count (d_finalized d)),
          Gauge ''pending_mints'' (bm_len (d_pending_mints d)),
          Gauge ''minted_swept_deposits'' (bm_len (d_minted d)),
          Gauge ''dropped_deposits'' (bm_len (d_dropped d)),
          GaugeVec ''quarantined_swept_deposits''
            [((''cause'', ''sweep_unreadable''), sweep_unreadable), ((''cause'', ''mint_unresolved''), mint_unresolved)],
          Gauge ''pending_withdrawal_requests'' (pending_withdrawal_gauge s),
          Gauge ''sent_withdrawal_requests'' (bm_len (st_sent_withdrawal_requests s)),
          Gauge ''submitted_transactions'' (iom_len (st_submitted_transactions s)),
          Gauge ''succeeded_transactions'' (bm_len (st_succeeded_transactions s)),
          Gauge ''failed_transactions'' (iom_len (st_failed_transactions s)),
          Gauge ''oldest_incomplete_withdrawal_age_seconds''
            (unat (age_seconds (pf_time platform) (oldest_incomplete_withdrawal_created_at s))),
          Gauge ''oldest_in_flight_deposit_age_seconds''
            (unat (age_seconds (pf_time platform) (oldest_in_flight_queued_at d))),
          Gauge ''oldest_pending_mint_age_seconds''
            (unat (age_seconds (pf_time platform) (oldest_pending_mint_created_at d))),
          CounterVec ''failed_credit_attempts'' (map (\<lambda>reason.
            ((''reason'', failed_credit_label reason), unat (failed_credit_attempt_count m reason))) FAILED_CREDIT_REASONS),
          CounterVec ''failed_mint_attempts'' (map (\<lambda>reason.
            ((''reason'', failed_mint_label reason), unat (failed_mint_attempt_count m reason))) FAILED_MINT_REASONS),
          Gauge ''minter_balance'' (unat (st_balance s)),
          Gauge ''post_upgrade_instructions_consumed'' (unat (met_post_upgrade_instructions_consumed m)),
          Counter ''withdrawal_transaction_rebroadcasts'' (unat (met_withdrawal_transaction_rebroadcasts m)),
          GaugeVec ''undecided_withdrawal_transactions'' (map (\<lambda>reason.
            ((''reason'', undecided_withdrawal_label reason), unat (undecided_withdrawal_transaction_count m reason)))
            UNDECIDED_WITHDRAWAL_REASONS)])"

definition gauge :: "string \<Rightarrow> sample list \<Rightarrow> nat option" where
  "gauge name samples = find_map (\<lambda>x. case x of Gauge n v \<Rightarrow> if n = name then Some v else None | _ \<Rightarrow> None) samples"

subsection \<open>What the gauges count\<close>

lemma quarantined_by_cause_sum: "fst (quarantined_by_cause d) + snd (quarantined_by_cause d) = bm_len (d_quarantined d)"
proof -
  have "fst (fold count_cause qs p) + snd (fold count_cause qs p) = fst p + snd p + length qs" for qs p
    by (induction qs arbitrary: p) (simp_all add: count_cause_def split: quarantine_cause.split)
  from this[of "bm_values (d_quarantined d)" "(0, 0)"] show ?thesis
    by (simp add: quarantined_by_cause_def bm_values_def bm_len_def)
qed

lemma bucket_view:
  assumes "requests_wf s"
  shows "bm_get (st_pending_withdrawal_requests s) b \<noteq> None \<longleftrightarrow> (\<exists>r. wview s b = Some (r, WtPending))"
    "bm_get (st_created_withdrawal_requests s) b \<noteq> None \<longleftrightarrow> (\<exists>r. wview s b = Some (r, WtCreated))"
    "bm_get (st_sent_withdrawal_requests s) b \<noteq> None \<longleftrightarrow> (\<exists>r sig. wview s b = Some (r, WtSent sig))"
proof -
  have one: "one_stage (wstages s b)" using assms by (simp add: requests_wf_def)
  note here = wview_stage(1)[OF one]
  have from_view: "(st = WtPending \<longrightarrow> bm_get (st_pending_withdrawal_requests s) b \<noteq> None) \<and>
      (st = WtCreated \<longrightarrow> bm_get (st_created_withdrawal_requests s) b \<noteq> None) \<and>
      (st = WtSent sig \<longrightarrow> bm_get (st_sent_withdrawal_requests s) b \<noteq> None)" if "wview s b = Some (r, st)" for r st sig
    using that by (auto simp: wview_def wstages_def sent_view_def split: option.splits)
  show "bm_get (st_pending_withdrawal_requests s) b \<noteq> None \<longleftrightarrow> (\<exists>r. wview s b = Some (r, WtPending))"
    using here[of 0] from_view by auto
  show "bm_get (st_created_withdrawal_requests s) b \<noteq> None \<longleftrightarrow> (\<exists>r. wview s b = Some (r, WtCreated))"
    using here[of "Suc 0"] from_view by auto
  show "bm_get (st_sent_withdrawal_requests s) b \<noteq> None \<longleftrightarrow> (\<exists>r sig. wview s b = Some (r, WtSent sig))"
    using here[of 2] from_view by (auto simp: sent_view_def)
qed



end
