(* ===== verification/Http.thy ===== *)
theory Http
  imports Dashboard Metrics
begin

text \<open>
  The HTTP endpoint of \<^verbatim>\<open>minter/src/main.rs\<close> and the log priorities of
  \<^verbatim>\<open>libs/types-internal/src/log.rs\<close>. A response is given by what it is built from: the dashboard before
  its template, the metrics before their encoder, the log entries before their serialization. The
  log buffers and the parser of the sort order are those of the logging library. The encoder of the
  metrics writes to a vector in memory, which does not fail, so the branch that reports its error is
  not taken; lower-casing is that of ASCII, and no other character has a lower case in the names of the
  priorities.
\<close>

datatype priority = PriorityError | PriorityInfo | PriorityDebug

definition to_lowercase :: "string \<Rightarrow> string" where
  "to_lowercase s = map (\<lambda>c. let n = of_char c :: nat in if 65 \<le> n \<and> n \<le> 90 then char_of (n + 32) else c) s"

definition priority_from_str :: "string \<Rightarrow> string + priority" where
  "priority_from_str s =
     (let l = to_lowercase s
      in if l = ''error'' then Inr PriorityError
         else if l = ''info'' then Inr PriorityInfo
         else if l = ''debug'' then Inr PriorityDebug
         else Inl ''could not recognize priority'')"

fun priority_display :: "priority \<Rightarrow> string" where
  "priority_display PriorityError = ''ERROR''"
| "priority_display PriorityInfo = ''INFO''"
| "priority_display PriorityDebug = ''DEBUG''"

datatype sort_order = Ascending | Descending

record log_entry =
  le_timestamp :: u64
  le_priority :: priority
  le_message :: string

record log_library =
  buffered_logs :: "priority \<Rightarrow> log_entry list"
  sort_from_str :: "string \<Rightarrow> string + sort_order"

text \<open>\<open>u64::from_str\<close>.\<close>

definition parse_u64 :: "string \<Rightarrow> u64 option" where
  "parse_u64 arg =
     (let digits = (case arg of c # rest \<Rightarrow> if c = CHR ''+'' then rest else arg | [] \<Rightarrow> [])
      in if digits \<noteq> [] \<and> list_all is_digit digits \<and> digits_value digits < 2 ^ 64
         then Some (of_nat (digits_value digits)) else None)"

definition ordering_from_query_params ::
  "(string \<Rightarrow> string + sort_order) \<Rightarrow> string option \<Rightarrow> u64 \<Rightarrow> sort_order" where
  "ordering_from_query_params from_str sort_param max_skip_timestamp =
     (case map_option from_str sort_param of
        Some (Inr order) \<Rightarrow> order
      | _ \<Rightarrow> if max_skip_timestamp = 0 then Ascending else Descending)"

definition requested_logs :: "log_library \<Rightarrow> string option \<Rightarrow> log_entry list" where
  "requested_logs logs param =
     (case map_option priority_from_str param of
        Some (Inr p) \<Rightarrow> buffered_logs logs p
      | _ \<Rightarrow> concat (map (buffered_logs logs) [PriorityError, PriorityInfo, PriorityDebug]))"

datatype http_response =
    BadRequest string
  | OkDashboard dashboard_template
  | OkMetrics "sample list"
  | OkLogs "log_entry list" sort_order
  | NotFound

definition http_request ::
  "sdk \<Rightarrow> display \<Rightarrow> log_library \<Rightarrow> platform \<Rightarrow> string \<Rightarrow> (string \<Rightarrow> string option) \<Rightarrow> canister \<Rightarrow> http_response option" where
  "http_request lib disp logs platform path raw_query_param c =
     (if path = ''/dashboard'' then
        (case from_query_params raw_query_param of
           Inl e \<Rightarrow> Some (BadRequest e)
         | Inr p \<Rightarrow> map_option OkDashboard (dashboard_from_state lib disp (can_state c) p))
      else if path = ''/metrics'' then Some (OkMetrics (encode_metrics platform c))
      else if path = ''/logs'' then
        (case (case raw_query_param ''time'' of None \<Rightarrow> Some 0 | Some arg \<Rightarrow> parse_u64 arg) of
           None \<Rightarrow> Some (BadRequest (''failed to parse the '' @ [CHR 0x27] @ ''time'' @ [CHR 0x27] @ '' parameter''))
         | Some max_skip_timestamp \<Rightarrow>
             Some (OkLogs
               (filter (\<lambda>entry. le_timestamp entry \<ge> max_skip_timestamp)
                  (requested_logs logs (raw_query_param ''priority'')))
               (ordering_from_query_params (sort_from_str logs) (raw_query_param ''sort'') max_skip_timestamp)))
      else Some NotFound)"

lemma priority_round_trip: "priority_from_str (priority_display p) = Inr p"
proof (cases p)
  case PriorityError
  show ?thesis unfolding PriorityError by code_simp
next
  case PriorityInfo
  show ?thesis unfolding PriorityInfo by code_simp
next
  case PriorityDebug
  show ?thesis unfolding PriorityDebug by code_simp
qed

lemma table_from_rows_total:
  "0 < page_size \<Longrightarrow> \<exists>t. table_from_rows rows to_row off page_size cols ref param others = Some t"
  by (simp add: table_from_rows_def table_pagination_new_def Let_def)

lemma dashboard_total: "\<exists>t. dashboard_from_state lib disp s p = Some t"
proof -
  have size: "0 < DEFAULT_PAGE_SIZE" by (simp add: DEFAULT_PAGE_SIZE_def)
  obtain q where "table_from_items (map (quarantined_row disp) (rev (bm_iter (d_quarantined (st_deposits s)))))
       (pp_quarantined_swept_deposits_start p) DEFAULT_PAGE_SIZE 6 ''quarantined-swept-deposits''
       ''quarantined_swept_deposits_start'' (other_params p ''quarantined_swept_deposits_start'') = Some q"
    unfolding table_from_items_def using table_from_rows_total[OF size] by blast
  moreover obtain m where "table_from_rows (rev (bm_iter (d_minted (st_deposits s)))) (minted_row disp)
       (pp_minted_sweeps_start p) DEFAULT_PAGE_SIZE 4 ''minted-sweeps'' ''minted_sweeps_start''
       (other_params p ''minted_sweeps_start'') = Some m" using table_from_rows_total[OF size] by blast
  moreover obtain w where "table_from_items (withdrawal_rows disp s) (pp_withdrawals_start p) DEFAULT_PAGE_SIZE 6
       ''withdrawals'' ''withdrawals_start'' (other_params p ''withdrawals_start'') = Some w"
    unfolding table_from_items_def using table_from_rows_total[OF size] by blast
  ultimately show ?thesis by (simp add: dashboard_from_state_def)
qed



end
