(* ===== verification/Spec2Isabelle.thy ===== *)
theory Spec2Isabelle
  imports Insertion_Ordered_Map Timed_Sized_Map Nonce_Pool Deposit_Stages Solvency Lifecycle Persistence
    Running_System Cbor_Fields Dashboard_View Http
begin

text \<open>
  Verification of the ckSOL minter (\<^verbatim>\<open>src/minter\<close>) and its public types
  (\<^verbatim>\<open>src/libs/types\<close>, \<^verbatim>\<open>src/libs/types-internal\<close>).

  \<^bold>\<open>Conventions.\<close> The minter is compiled in release mode: \<open>+\<close>, \<open>*\<close> and \<open>sum\<close> on machine
  integers wrap, and machine integers are words of their width. A panic is \<^const>\<open>None\<close> of an
  option; a typed \<open>Result\<close> is a sum with the error on the left.

  \<^bold>\<open>Theories.\<close>
  \<^item> \<open>Prelude\<close>: checked and saturating words, traps, folds that trap, chunking.
  \<^item> \<open>BTree_Map\<close>: ordered maps and sets of the Rust standard library.
  \<^item> \<open>Insertion_Ordered_Map\<close>: \<^verbatim>\<open>utils/insertion_ordered_map/mod.rs\<close>.
  \<^item> \<open>Timed_Sized_Map\<close>: \<^verbatim>\<open>utils/timed_sized_map/mod.rs\<close>.
\<close>

end
